(* ===== verification/Prelude.thy ===== *)
theory Prelude
  imports Main "HOL-Library.Word" "HOL-Library.AList"
begin

section \<open>Shared types, integer arithmetic, clock values and hash maps\<close>

text \<open>
  What the Rust standard library gives every component of the program: machine integers with
  saturating and checked arithmetic, \<open>Result\<close> as a sum, the monotonic clock
  (\<open>std::time::Instant\<close>, \<open>Duration\<close>) and \<open>HashMap\<close>.  The collections
  declared here (\<open>word_int\<close>, \<open>hmap\<close>) carry the arithmetic and the map
  reasoning of all later theories.
\<close>

named_theorems word_int \<open>readings of word operations as integers\<close>
named_theorems hmap \<open>lookup and domain of hash map operations\<close>

subsection \<open>Machine integers\<close>

type_synonym u16 = "16 word"
type_synonym u32 = "32 word"
type_synonym u64 = "64 word"

text \<open>\<open>i32\<close> and \<open>i64\<close> values are 32 and 64 bit words read with \<open>sint\<close>.\<close>

type_synonym i32 = "32 word"
type_synonym i64 = "64 word"

text \<open>The largest value of a width, and an integer clipped to the width.\<close>

definition word_top :: "'a::len itself \<Rightarrow> int" where
  "word_top t = 2 ^ LENGTH('a) - 1"

definition sat_of_int :: "int \<Rightarrow> 'a::len word" where
  "sat_of_int n = word_of_int (max 0 (min n (word_top TYPE('a))))"

definition sat_add :: "'a::len word \<Rightarrow> 'a word \<Rightarrow> 'a word" where
  "sat_add a b = sat_of_int (uint a + uint b)"

definition sat_sub :: "'a::len word \<Rightarrow> 'a word \<Rightarrow> 'a word" where
  "sat_sub a b = sat_of_int (uint a - uint b)"

definition sat_mul :: "'a::len word \<Rightarrow> 'a word \<Rightarrow> 'a word" where
  "sat_mul a b = sat_of_int (uint a * uint b)"

definition sat_pow :: "'a::len word \<Rightarrow> 'a word \<Rightarrow> 'a word" where
  "sat_pow a e = sat_of_int (uint a ^ unat e)"

definition checked_sub :: "'a::len word \<Rightarrow> 'a word \<Rightarrow> 'a word option" where
  "checked_sub a b = (if b \<le> a then Some (a - b) else None)"

text \<open>\<open>u32::try_from\<close> on a 64 bit value.\<close>

definition u32_try_from :: "u64 \<Rightarrow> u32 option" where
  "u32_try_from n = (if uint n < 2 ^ 32 then Some (ucast n) else None)"

lemma word_top_nonneg [simp]: "0 \<le> word_top t"
  by (simp add: word_top_def)

lemma uint_le_top [simp]: "uint (a :: 'a::len word) \<le> word_top TYPE('a)"
  using uint_lt2p [of a] by (simp add: word_top_def)

lemma uint_sat_of_int [word_int]:
  "uint (sat_of_int n :: 'a::len word) = max 0 (min n (word_top TYPE('a)))"
  by (simp add: sat_of_int_def uint_word_of_int word_top_def min.strict_coboundedI2)

lemma uint_sat_add [word_int]:
  "uint (sat_add a b :: 'a::len word) = min (uint a + uint b) (word_top TYPE('a))"
  by (simp add: sat_add_def uint_sat_of_int)

lemma uint_sat_sub [word_int]: "uint (sat_sub a b) = max 0 (uint a - uint b)"
proof -
  have "uint a - uint b \<le> word_top TYPE('a)"
    using uint_le_top [of a] uint_ge_0 [of b] by linarith
  then show ?thesis
    by (simp add: sat_sub_def uint_sat_of_int)
qed

lemma uint_sat_mul [word_int]:
  "uint (sat_mul a b :: 'a::len word) = min (uint a * uint b) (word_top TYPE('a))"
  by (simp add: sat_mul_def uint_sat_of_int)

lemma uint_sat_pow [word_int]:
  "uint (sat_pow a e :: 'a::len word) = min (uint a ^ unat e) (word_top TYPE('a))"
  by (simp add: sat_pow_def uint_sat_of_int)

lemma uint_min [word_int]: "uint (min a b) = min (uint a) (uint b)"
  by (simp add: min_def word_le_def)

lemma uint_max [word_int]: "uint (max a b) = max (uint a) (uint b)"
  by (simp add: max_def word_le_def)

lemma uint_sub_le [word_int]: "b \<le> a \<Longrightarrow> uint (a - b) = uint a - uint b"
  by (simp add: uint_sub_if' word_le_def)

lemma uint_word_plus_one [word_int]:
  assumes "(a :: 'a::len word) < b"
  shows "uint (a + 1) = uint a + 1"
proof -
  have "uint a + 1 < 2 ^ LENGTH('a)"
    using assms uint_lt2p [of b] unfolding word_less_def by linarith
  then show ?thesis
    using uint_ge_0 [of a] by (simp add: uint_word_ariths)
qed

lemma sat_sub_le: "sat_sub a b \<le> a"
  by (simp add: word_le_def uint_sat_sub)

lemma sat_sub_self [simp]: "sat_sub a a = 0"
  by (simp add: word_uint_eq_iff uint_sat_sub)

lemma sat_sub_eq: "b \<le> a \<Longrightarrow> sat_sub a b = a - b"
  by (simp add: word_uint_eq_iff uint_sat_sub uint_sub_le word_le_def)

lemma le_sat_add: "a \<le> sat_add a b"
  by (simp add: word_le_def uint_sat_add)

lemma sat_add_0 [simp]: "sat_add a 0 = a" "sat_add 0 a = a"
  by (simp_all add: word_uint_eq_iff uint_sat_add)

lemma sat_add_commute: "sat_add a b = sat_add b a"
  by (simp add: sat_add_def add.commute)

lemma sat_add_assoc: "sat_add (sat_add a b) c = sat_add a (sat_add b c)"
  using uint_ge_0 [of a] uint_ge_0 [of b] uint_ge_0 [of c]
  by (simp only: word_uint_eq_iff uint_sat_add)

lemma u32_try_from_Some: "u32_try_from n = Some p \<longleftrightarrow> uint n < 2 ^ 32 \<and> uint p = uint n"
  by (auto simp: u32_try_from_def word_uint_eq_iff unsigned_ucast_eq take_bit_int_eq_self)

subsection \<open>The monotonic clock\<close>

text \<open>
  A \<open>Duration\<close> is a (nonnegative) number of nanoseconds; an \<open>Instant\<close> is the
  position on the monotonic clock, in nanoseconds from its opaque origin.  The Linux
  representation (signed 64 bit seconds) bounds it, and subtraction and addition report leaving
  these bounds.
\<close>

type_synonym duration = int
type_synonym instant = int

definition nanos_per_sec :: int where
  "nanos_per_sec = 1000000000"

definition instant_min :: instant where
  "instant_min = - (2 ^ 63) * nanos_per_sec"

definition instant_max :: instant where
  "instant_max = 2 ^ 63 * nanos_per_sec - 1"

definition duration_from_secs :: "u64 \<Rightarrow> duration" where
  "duration_from_secs s = uint s * nanos_per_sec"

definition duration_max :: duration where
  "duration_max = (2 ^ 64 - 1) * nanos_per_sec + (nanos_per_sec - 1)"

text \<open>\<open>now.checked_duration_since(earlier)\<close>.\<close>

definition checked_duration_since :: "instant \<Rightarrow> instant \<Rightarrow> duration option" where
  "checked_duration_since now earlier = (if earlier \<le> now then Some (now - earlier) else None)"

definition instant_checked_sub :: "instant \<Rightarrow> duration \<Rightarrow> instant option" where
  "instant_checked_sub t d = (if instant_min \<le> t - d then Some (t - d) else None)"

definition instant_checked_add :: "instant \<Rightarrow> duration \<Rightarrow> instant option" where
  "instant_checked_add t d = (if t + d \<le> instant_max then Some (t + d) else None)"

definition duration_saturating_mul :: "duration \<Rightarrow> u32 \<Rightarrow> duration" where
  "duration_saturating_mul d n = min (d * uint n) duration_max"

text \<open>\<open>elapsed.as_nanos().min(u128::from(u64::MAX)) as u64\<close>.\<close>

definition nanos_u64 :: "duration \<Rightarrow> u64" where
  "nanos_u64 d = sat_of_int d"

lemma checked_duration_since_Some:
  "checked_duration_since now earlier = Some d \<longleftrightarrow> earlier \<le> now \<and> d = now - earlier"
  by (auto simp: checked_duration_since_def)

lemma duration_from_secs_nonneg [simp]: "0 \<le> duration_from_secs s"
  by (simp add: duration_from_secs_def nanos_per_sec_def)

subsection \<open>Lists\<close>

lemma set_map_filter_iff: "y \<in> set (List.map_filter f xs) \<longleftrightarrow> (\<exists>x\<in>set xs. f x = Some y)"
  by (induction xs) (auto simp: List.map_filter_simps split: option.splits)

lemma length_map_filter_le: "length (List.map_filter f xs) \<le> length xs"
  by (induction xs) (auto simp: List.map_filter_simps split: option.splits)

subsection \<open>Results\<close>

text \<open>A \<open>Result<A, E>\<close> is \<open>'e + 'a\<close> with the error on the left.\<close>

fun result_map_err :: "('e \<Rightarrow> 'f) \<Rightarrow> 'e + 'a \<Rightarrow> 'f + 'a" where
  "result_map_err f (Inl e) = Inl (f e)"
| "result_map_err f (Inr a) = Inr a"

fun result_bind :: "'e + 'a \<Rightarrow> ('a \<Rightarrow> 'e + 'b) \<Rightarrow> 'e + 'b" where
  "result_bind (Inl e) f = Inl e"
| "result_bind (Inr a) f = f a"

fun result_map :: "('a \<Rightarrow> 'b) \<Rightarrow> 'e + 'a \<Rightarrow> 'e + 'b" where
  "result_map f (Inl e) = Inl e"
| "result_map f (Inr a) = Inr (f a)"

fun result_ok :: "'e + 'a \<Rightarrow> 'a option" where
  "result_ok (Inl e) = None"
| "result_ok (Inr a) = Some a"

lemma result_bind_Inr:
  "result_bind r f = Inr b \<longleftrightarrow> (\<exists>a. r = Inr a \<and> f a = Inr b)"
  by (cases r) auto

lemma result_bind_Inl:
  "result_bind r f = Inl e \<longleftrightarrow> r = Inl e \<or> (\<exists>a. r = Inr a \<and> f a = Inl e)"
  by (cases r) auto

subsection \<open>Hash maps\<close>

text \<open>
  A \<open>HashMap<String, V>\<close> is an association list with distinct keys; the position of a key
  stands for its place in the (unspecified) iteration order of the map.
\<close>

type_synonym 'v hash_map = "(string \<times> 'v) list"

definition hm_get :: "'v hash_map \<Rightarrow> string \<Rightarrow> 'v option" where
  "hm_get m k = map_of m k"

definition hm_insert :: "string \<Rightarrow> 'v \<Rightarrow> 'v hash_map \<Rightarrow> 'v hash_map" where
  "hm_insert k v m = AList.update k v m"

definition hm_remove :: "string \<Rightarrow> 'v hash_map \<Rightarrow> 'v hash_map" where
  "hm_remove k m = AList.delete k m"

definition hm_keys :: "'v hash_map \<Rightarrow> string list" where
  "hm_keys m = map fst m"

definition hm_ok :: "'v hash_map \<Rightarrow> bool" where
  "hm_ok m = distinct (hm_keys m)"

text \<open>\<open>entry(k).or_insert_with(d)\<close>.\<close>

definition hm_or_insert :: "string \<Rightarrow> 'v \<Rightarrow> 'v hash_map \<Rightarrow> 'v hash_map" where
  "hm_or_insert k d m = (if hm_get m k = None then hm_insert k d m else m)"

lemma hm_get_Nil [simp, hmap]: "hm_get [] k = None"
  by (simp add: hm_get_def)

lemma hm_get_insert [hmap]: "hm_get (hm_insert k v m) k' = (if k' = k then Some v else hm_get m k')"
  by (simp add: hm_get_def hm_insert_def update_conv)

lemma hm_get_remove [hmap]: "hm_get (hm_remove k m) k' = (if k' = k then None else hm_get m k')"
  by (simp add: hm_get_def hm_remove_def delete_conv)

lemma hm_get_or_insert [hmap]:
  "hm_get (hm_or_insert k d m) k' =
     (if k' = k then Some (case hm_get m k of None \<Rightarrow> d | Some v \<Rightarrow> v) else hm_get m k')"
  by (auto simp: hm_or_insert_def hm_get_insert split: option.splits)

lemma hm_ok_Nil [simp]: "hm_ok []"
  by (simp add: hm_ok_def hm_keys_def)

lemma hm_ok_insert [simp]: "hm_ok m \<Longrightarrow> hm_ok (hm_insert k v m)"
  by (simp add: hm_ok_def hm_keys_def hm_insert_def distinct_update)

lemma hm_ok_remove [simp]: "hm_ok m \<Longrightarrow> hm_ok (hm_remove k m)"
  by (simp add: hm_ok_def hm_keys_def hm_remove_def distinct_delete)

lemma hm_ok_or_insert [simp]: "hm_ok m \<Longrightarrow> hm_ok (hm_or_insert k d m)"
  by (simp add: hm_or_insert_def)

lemma set_hm_keys: "set (hm_keys m) = {k. hm_get m k \<noteq> None}"
  by (auto simp: hm_keys_def hm_get_def map_of_eq_None_iff)

lemma hm_get_Some_key: "hm_get m k = Some v \<Longrightarrow> k \<in> set (hm_keys m)"
  by (simp add: set_hm_keys)

lemma hm_get_mem: "hm_ok m \<Longrightarrow> (k, v) \<in> set m \<longleftrightarrow> hm_get m k = Some v"
  by (simp add: hm_ok_def hm_keys_def hm_get_def)

subsection \<open>The contract of a map\<close>

text \<open>
  What the program relies on of its maps, hash maps and ordered ones: a lookup returns what was inserted
  last.  \<open>ok\<close> is the representation invariant.
\<close>

locale map_contract =
  fixes get :: "'m \<Rightarrow> 'k \<Rightarrow> 'v option"
    and ins :: "'k \<Rightarrow> 'v \<Rightarrow> 'm \<Rightarrow> 'm"
    and ok :: "'m \<Rightarrow> bool"
  assumes ok_ins: "ok m \<Longrightarrow> ok (ins k v m)"
    and get_ins: "ok m \<Longrightarrow> get (ins k v m) k' = (if k' = k then Some v else get m k')"
begin

text \<open>A loop that inserts what it finds in its input: of several values of a key the last one stays.\<close>

lemma ok_ins_found:
  "ok m \<Longrightarrow> ok (foldl (\<lambda>m x. case f x of None \<Rightarrow> m | Some (k, v) \<Rightarrow> ins k v m) m xs)"
  by (induction xs arbitrary: m) (auto simp: ok_ins split: option.split)

lemma get_ins_found:
  "ok m \<Longrightarrow> get (foldl (\<lambda>m x. case f x of None \<Rightarrow> m | Some (k, v) \<Rightarrow> ins k v m) m xs) k =
     (case map_of (rev (List.map_filter f xs)) k of None \<Rightarrow> get m k | Some v \<Rightarrow> Some v)"
proof (induction xs arbitrary: m)
  case (Cons x xs)
  show ?case
  proof (cases "f x")
    case None
    with Cons show ?thesis
      by (simp add: List.map_filter_simps)
  next
    case (Some kv)
    obtain k0 v0 where kv: "kv = (k0, v0)"
      by fastforce
    with Cons.IH [of "ins k0 v0 m"] Cons.prems Some show ?thesis
      by (auto simp: List.map_filter_simps ok_ins get_ins map_add_def split: option.split)
  qed
qed (simp add: List.map_filter_simps)

end

locale erasable_map = map_contract get ins ok
  for get :: "'m \<Rightarrow> 'k \<Rightarrow> 'v option" and ins :: "'k \<Rightarrow> 'v \<Rightarrow> 'm \<Rightarrow> 'm" and ok :: "'m \<Rightarrow> bool" +
  fixes del :: "'k \<Rightarrow> 'm \<Rightarrow> 'm"
  assumes ok_del: "ok m \<Longrightarrow> ok (del k m)"
    and get_del: "ok m \<Longrightarrow> get (del k m) k' = (if k' = k then None else get m k')"
begin

lemma ok_del_all: "ok m \<Longrightarrow> ok (foldl (\<lambda>m k. del k m) m ks)"
  by (induction ks arbitrary: m) (simp_all add: ok_del)

lemma get_del_all: "ok m \<Longrightarrow> get (foldl (\<lambda>m k. del k m) m ks) k = (if k \<in> set ks then None else get m k)"
  by (induction ks arbitrary: m) (auto simp: ok_del get_del)

end

interpretation hash: erasable_map hm_get hm_insert hm_ok hm_remove
  by unfold_locales (simp_all add: hm_get_insert hm_get_remove)

end
