(* ===== verification/Texts.thy ===== *)
theory Texts
  imports Prelude "HOL-Library.List_Lexorder" "HOL-Library.Char_ord"
begin

section \<open>Strings\<close>

text \<open>
  What the program uses of Rust's string library.  A \<open>String\<close> is the list of its UTF-8
  bytes; its order (\<open>sort\<close>, \<open>BTreeMap\<close>, \<open>BTreeSet\<close>) is the lexicographic
  order of the bytes.
\<close>

named_theorems texts \<open>evaluation of string operations\<close>

text \<open>\<open>n.to_string()\<close> for unsigned and signed integers.\<close>

function dec_digits :: "int \<Rightarrow> string" where
  "dec_digits n =
     (if n < 10 then [''0123456789'' ! nat n]
      else dec_digits (n div 10) @ [''0123456789'' ! nat (n mod 10)])"
  by pat_completeness auto
termination
  by (relation "measure nat") auto

declare dec_digits.simps [simp del]

definition show_int :: "int \<Rightarrow> string" where
  "show_int n = (if n < 0 then ''-'' @ dec_digits (- n) else dec_digits n)"

definition show_word :: "'a::len word \<Rightarrow> string" where
  "show_word n = show_int (uint n)"

text \<open>\<open>parts.join(sep)\<close>.\<close>

fun join :: "string \<Rightarrow> string list \<Rightarrow> string" where
  "join sep [] = []"
| "join sep [x] = x"
| "join sep (x # y # xs) = x @ sep @ join sep (y # xs)"

fun starts_with :: "string \<Rightarrow> string \<Rightarrow> bool" where
  "starts_with [] s = True"
| "starts_with (p # ps) [] = False"
| "starts_with (p # ps) (c # cs) = (p = c \<and> starts_with ps cs)"

fun contains_str :: "string \<Rightarrow> string \<Rightarrow> bool" where
  "contains_str p [] = (p = [])"
| "contains_str p (c # cs) = (starts_with p (c # cs) \<or> contains_str p cs)"

text \<open>ASCII white space; the other Unicode spaces do not occur in the files the program reads.\<close>

definition is_space :: "char \<Rightarrow> bool" where
  "is_space c = (c \<in> {CHR '' '', CHR 0x09, CHR 0x0A, CHR 0x0B, CHR 0x0C, CHR 0x0D})"

definition trim_start :: "string \<Rightarrow> string" where
  "trim_start s = dropWhile is_space s"

definition trim :: "string \<Rightarrow> string" where
  "trim s = rev (dropWhile is_space (rev (dropWhile is_space s)))"

definition trim_matches :: "char \<Rightarrow> string \<Rightarrow> string" where
  "trim_matches c s = rev (dropWhile ((=) c) (rev (dropWhile ((=) c) s)))"

text \<open>\<open>s.split(c)\<close>: the parts between the separators, empty parts included.\<close>

fun split_on :: "char \<Rightarrow> string \<Rightarrow> string list" where
  "split_on c [] = [[]]"
| "split_on c (x # xs) =
     (if x = c then [] # split_on c xs
      else case split_on c xs of [] \<Rightarrow> [[x]] | p # ps \<Rightarrow> (x # p) # ps)"

text \<open>\<open>s.lines()\<close>: no line after a final newline, and a carriage return before a newline
  belongs to the line end.\<close>

definition strip_cr :: "string \<Rightarrow> string" where
  "strip_cr s = (if s \<noteq> [] \<and> last s = CHR 0x0D then butlast s else s)"

definition lines :: "string \<Rightarrow> string list" where
  "lines s = (let ps = split_on (CHR 0x0A) s
              in if last ps = [] then map strip_cr (butlast ps)
                 else map strip_cr (butlast ps) @ [last ps])"

definition split_whitespace :: "string \<Rightarrow> string list" where
  "split_whitespace s = filter (\<lambda>p. p \<noteq> [])
     (split_on (CHR '' '') (map (\<lambda>c. if is_space c then CHR '' '' else c) s))"

subsection \<open>Decimal parsing\<close>

definition digit_val :: "char \<Rightarrow> int option" where
  "digit_val c = (let n = int (of_char c) in if 48 \<le> n \<and> n \<le> 57 then Some (n - 48) else None)"

fun parse_digits :: "int \<Rightarrow> string \<Rightarrow> int option" where
  "parse_digits acc [] = Some acc"
| "parse_digits acc (c # cs) =
     (case digit_val c of None \<Rightarrow> None | Some d \<Rightarrow> parse_digits (10 * acc + d) cs)"

text \<open>
  \<open>str::parse\<close> for the unsigned type with largest value \<open>hi\<close>: an optional plus sign
  and at least one digit, in range.  The signed type also takes a minus sign.
\<close>

definition parse_uint :: "int \<Rightarrow> string \<Rightarrow> int option" where
  "parse_uint hi s =
     (let body = (case s of [] \<Rightarrow> [] | c # cs \<Rightarrow> if c = CHR ''+'' then cs else s)
      in if body = [] then None
         else case parse_digits 0 body of None \<Rightarrow> None
              | Some n \<Rightarrow> if n \<le> hi then Some n else None)"

definition parse_sint :: "int \<Rightarrow> string \<Rightarrow> int option" where
  "parse_sint hi s =
     (case s of
        [] \<Rightarrow> None
      | c # cs \<Rightarrow>
          if c = CHR ''-'' then
            (if cs = [] then None
             else case parse_digits 0 cs of None \<Rightarrow> None
                  | Some n \<Rightarrow> if n \<le> hi + 1 then Some (- n) else None)
          else parse_uint hi s)"

definition parse_i32 :: "string \<Rightarrow> i32 option" where
  "parse_i32 s = map_option word_of_int (parse_sint (2 ^ 31 - 1) s)"

definition parse_u64 :: "string \<Rightarrow> u64 option" where
  "parse_u64 s = map_option word_of_int (parse_uint (2 ^ 64 - 1) s)"

subsection \<open>Printing and parsing agree\<close>

lemma digit_val_nth:
  assumes "0 \<le> d" and "d < 10"
  shows "digit_val (''0123456789'' ! nat d) = Some d"
proof -
  from assms have "d = 0 \<or> d = 1 \<or> d = 2 \<or> d = 3 \<or> d = 4 \<or> d = 5 \<or> d = 6 \<or> d = 7 \<or> d = 8 \<or> d = 9"
    by presburger
  then show ?thesis
    by (auto simp: digit_val_def)
qed

lemma parse_digits_append:
  "parse_digits acc (xs @ ys) = Option.bind (parse_digits acc xs) (\<lambda>a. parse_digits a ys)"
  by (induction xs arbitrary: acc) (auto split: option.splits)

lemma dec_digits_nonempty [simp]: "dec_digits n \<noteq> []"
  by (subst dec_digits.simps) simp

lemma parse_dec_digits: "0 \<le> n \<Longrightarrow> parse_digits 0 (dec_digits n) = Some n"
proof (induction n rule: dec_digits.induct)
  case (1 n)
  show ?case
  proof (cases "n < 10")
    case True
    with 1 show ?thesis
      by (simp add: dec_digits.simps [of n] digit_val_nth)
  next
    case False
    with 1 have "parse_digits 0 (dec_digits (n div 10)) = Some (n div 10)"
      by simp
    with False show ?thesis
      by (simp add: dec_digits.simps [of n] parse_digits_append digit_val_nth)
  qed
qed

lemma digit_head:
  assumes "0 \<le> n" and "dec_digits n = c # cs"
  shows "c \<noteq> CHR ''+'' \<and> c \<noteq> CHR ''-''"
proof -
  have "digit_val c \<noteq> None"
    using parse_dec_digits [OF assms(1)] assms(2) by (auto split: option.splits)
  then show ?thesis
    by (auto simp: digit_val_def)
qed

lemma parse_uint_show:
  assumes "0 \<le> n" and "n \<le> hi"
  shows "parse_uint hi (show_int n) = Some n"
proof -
  obtain c cs where c: "dec_digits n = c # cs"
    by (cases "dec_digits n") auto
  then have "parse_digits 0 (c # cs) = Some n"
    using parse_dec_digits [OF assms(1)] by simp
  then show ?thesis
    using assms digit_head [OF assms(1) c] c by (simp add: parse_uint_def show_int_def)
qed

lemma show_word_inject: "show_word a = show_word b \<longleftrightarrow> a = b"
  by (metis option.inject parse_uint_show show_word_def uint_ge_0 uint_le_top word_uint_eq_iff)

subsection \<open>Splitting and joining\<close>

lemma split_on_nonempty [simp]: "split_on c s \<noteq> []"
  by (induction s) (auto split: list.split)

lemma split_on_append: "split_on c (a @ c # b) = split_on c a @ split_on c b"
proof (induction a)
  case (Cons x a)
  with split_on_nonempty [of c a] show ?case
    by (cases "split_on c a") simp_all
qed simp

lemma split_on_free: "c \<notin> set s \<Longrightarrow> split_on c s = [s]"
  by (induction s) auto

lemma split_on_parts: "s \<in> set (split_on c t) \<Longrightarrow> c \<notin> set s"
proof (induction t arbitrary: s)
  case (Cons x t)
  then show ?case
    by (cases "split_on c t") (auto split: if_splits)
qed simp

lemma split_join:
  assumes "ss \<noteq> []" and "\<forall>s \<in> set ss. c \<notin> set s"
  shows "split_on c (join [c] ss) = ss"
  using assms
proof (induction "[c]" ss rule: join.induct)
  case (3 x y xs)
  then have "split_on c (join [c] (y # xs)) = y # xs"
    by simp
  with 3(3) split_on_append [of c x "join [c] (y # xs)"] show ?case
    by (simp add: split_on_free)
qed (auto simp: split_on_free)

text \<open>How many parts a joined text has.\<close>

definition part_count :: "char \<Rightarrow> string \<Rightarrow> nat" where
  "part_count c s = length (split_on c s)"

lemma part_count_append: "part_count c (a @ c # b) = part_count c a + part_count c b"
  by (simp add: part_count_def split_on_append)

lemma part_count_free [simp]: "c \<notin> set s \<Longrightarrow> part_count c s = 1"
  by (simp add: part_count_def split_on_free)

lemma part_count_prefix: "c \<notin> set p \<Longrightarrow> part_count c (p @ s) = part_count c s"
  by (induction p) (auto simp: part_count_def split: list.split)

lemma part_count_join:
  "ss \<noteq> [] \<Longrightarrow> part_count c (join [c] ss) = sum_list (map (part_count c) ss)"
proof (induction "[c]" ss rule: join.induct)
  case (3 x y xs)
  then show ?case
    using part_count_append [of c x "join [c] (y # xs)"] by simp
qed simp_all

lemma dec_digits_chars: "0 \<le> n \<Longrightarrow> set (dec_digits n) \<subseteq> set ''0123456789''"
proof (induction n rule: dec_digits.induct)
  case (1 n)
  have digit: "''0123456789'' ! nat d \<in> set ''0123456789''" if "0 \<le> d" "d < 10" for d :: int
    using that by (intro nth_mem) simp
  show ?case
  proof (cases "n < 10")
    case True
    then show ?thesis
      using digit [of n] 1(2) by (subst dec_digits.simps) auto
  next
    case False
    then show ?thesis
      using 1 digit [of "n mod 10"] by (subst dec_digits.simps) auto
  qed
qed

lemma show_word_chars: "set (show_word w) \<subseteq> set ''0123456789''"
  by (simp add: show_word_def show_int_def dec_digits_chars del: set_simps)

lemma show_word_parts [simp]: "part_count (CHR '' '') (show_word w) = 1"
  using show_word_chars [of w] by (intro part_count_free) auto

end
