(* ===== verification/Paths.thy ===== *)
theory Paths
  imports Texts
begin

section \<open>Paths and files (util.rs, std::path, std::fs)\<close>

text \<open>
  A \<open>std::path::Path\<close> is compared and taken apart by its components, so it is modelled as
  the list of them.  \<open>util::Path::new\<close> re-roots absolute paths; the root (the environment
  variable \<open>IO_THREAD_CONTROLLER_ROOT_PATH\<close>, \<open>/\<close> by default) is an argument.
  The file system is a map from paths to contents, and the operations that change it report the
  faults the operating system may raise, which are arguments too.
\<close>

datatype path_component = RootDir | CurDir | ParentDir | Normal string

type_synonym path = "path_component list"

fun component_of :: "string \<Rightarrow> path_component list" where
  "component_of s = (if s = [] \<or> s = ''.'' then [] else if s = ''..'' then [ParentDir] else [Normal s])"

text \<open>\<open>std::path::Path::components\<close>: a leading dot of a relative path is kept, every other
  empty or dot segment is dropped.\<close>

definition parse_path :: "string \<Rightarrow> path" where
  "parse_path s =
     (let segs = split_on (CHR ''/'') s; comps = concat (map component_of segs)
      in if s = [] then []
         else if hd s = CHR ''/'' then RootDir # comps
         else if hd segs = ''.'' then CurDir # comps else comps)"

definition path_is_absolute :: "path \<Rightarrow> bool" where
  "path_is_absolute p = (p \<noteq> [] \<and> hd p = RootDir)"

definition path_join :: "path \<Rightarrow> path \<Rightarrow> path" where
  "path_join p q =
     (if path_is_absolute q \<or> p = [] then q
      else p @ (if q \<noteq> [] \<and> hd q = CurDir then tl q else q))"

definition path_parent :: "path \<Rightarrow> path option" where
  "path_parent p = (if p = [] \<or> last p = RootDir then None else Some (butlast p))"

definition path_file_name :: "path \<Rightarrow> string option" where
  "path_file_name p = (if p = [] then None else case last p of Normal s \<Rightarrow> Some s | _ \<Rightarrow> None)"

text \<open>The name up to its last dot; a name whose only dot is its first character has no
  extension.\<close>

definition file_stem :: "string \<Rightarrow> string" where
  "file_stem s =
     (let stem = rev (drop 1 (dropWhile (\<lambda>c. c \<noteq> CHR ''.'') (rev s)))
      in if CHR ''.'' \<in> set s \<and> stem \<noteq> [] then stem else s)"

definition path_with_extension :: "string \<Rightarrow> path \<Rightarrow> path" where
  "path_with_extension ext p =
     (case path_file_name p of
        None \<Rightarrow> p
      | Some s \<Rightarrow> butlast p @ [Normal (file_stem s @ (if ext = [] then [] else ''.'' @ ext))])"

text \<open>\<open>util::Path::new\<close>.\<close>

definition path_new :: "path \<Rightarrow> path \<Rightarrow> path" where
  "path_new root p = (if path_is_absolute p then path_join root (tl p) else p)"

subsection \<open>Files\<close>

datatype io_error = NotFound | IoFault string

definition show_io_error :: "io_error \<Rightarrow> string" where
  "show_io_error e = (case e of NotFound \<Rightarrow> ''No such file or directory (os error 2)'' | IoFault s \<Rightarrow> s)"

type_synonym file_system = "path \<Rightarrow> string option"

text \<open>\<open>std::fs::read\<close>; \<open>fault\<close> is the error the system raises on an existing
  file, if any.\<close>

definition fs_read :: "io_error option \<Rightarrow> file_system \<Rightarrow> path \<Rightarrow> io_error + string" where
  "fs_read fault fs p =
     (case fault of
        Some e \<Rightarrow> Inl e
      | None \<Rightarrow> (case fs p of None \<Rightarrow> Inl NotFound | Some data \<Rightarrow> Inr data))"

text \<open>\<open>std::fs::write\<close> truncates the file and then fills it: the states the file goes
  through hold the prefixes of the data, and a fault stops it after \<open>n\<close> bytes.\<close>

definition fs_write_states :: "file_system \<Rightarrow> path \<Rightarrow> string \<Rightarrow> nat \<Rightarrow> file_system list" where
  "fs_write_states fs p data n = map (\<lambda>k. fs(p \<mapsto> take k data)) [0..<Suc n]"

text \<open>\<open>std::fs::rename\<close> replaces the target in one step.\<close>

definition fs_rename :: "file_system \<Rightarrow> path \<Rightarrow> path \<Rightarrow> file_system" where
  "fs_rename fs a b = (fs(a := None))(b := fs a)"

subsection \<open>Lemmas\<close>

lemma file_stem_no_dot: "CHR ''.'' \<notin> set s \<Longrightarrow> file_stem s = s"
  by (simp add: file_stem_def)

lemma set_dropWhile_rev: "set (drop n (dropWhile P (rev s))) \<subseteq> set s"
  by (metis set_drop_subset set_dropWhileD set_rev subset_code(1) subset_trans)

lemma file_stem_dot:
  assumes "CHR ''.'' \<in> set s"
  obtains e where "CHR ''.'' \<notin> set e" and "s = file_stem s @ ''.'' @ e" 
    | "file_stem s = s"
proof (cases "file_stem s = s")
  case True
  then show ?thesis by (rule that(2))
next
  case False
  let ?d = "\<lambda>c. c \<noteq> CHR ''.''"
  have stem: "file_stem s = rev (drop 1 (dropWhile ?d (rev s)))"
    using False by (auto simp: file_stem_def Let_def split: if_splits)
  have "dropWhile ?d (rev s) \<noteq> []"
    using assms by (auto simp: dropWhile_eq_Nil_conv)
  then obtain c cs where cs: "dropWhile ?d (rev s) = c # cs"
    by (cases "dropWhile ?d (rev s)") auto
  then have c: "c = CHR ''.''"
    using hd_dropWhile [of ?d "rev s"] by simp
  have "rev s = takeWhile ?d (rev s) @ c # cs"
    using cs takeWhile_dropWhile_id [of ?d "rev s"] by simp
  then have eq: "s = rev cs @ [c] @ rev (takeWhile ?d (rev s))"
    by (metis append_assoc rev_append rev_rev_ident rev.simps(2))
  have "file_stem s = rev cs"
    using stem cs by simp
  with eq c have "s = file_stem s @ ''.'' @ rev (takeWhile ?d (rev s))"
    by metis
  moreover have "CHR ''.'' \<notin> set (rev (takeWhile ?d (rev s)))"
    by (auto dest: set_takeWhileD)
  ultimately show ?thesis
    by (intro that(1))
qed

text \<open>A two-part extension never gives the file its own name back.\<close>

lemma last_part_unique:
  assumes "CHR ''.'' \<notin> set e" and "x @ ''.'' @ e = x @ ''.'' @ a @ ''.'' @ b"
  shows False
  using assms by auto

lemma path_with_extension_fresh:
  assumes "path_file_name p = Some s"
  shows "path_with_extension (a @ ''.'' @ b) p \<noteq> p"
proof
  assume same: "path_with_extension (a @ ''.'' @ b) p = p"
  have p: "p = butlast p @ [Normal s]"
    using assms by (auto simp: path_file_name_def split: if_splits path_component.splits)
      (metis append_butlast_last_id)
  have s: "s = file_stem s @ ''.'' @ a @ ''.'' @ b"
    using same assms p by (simp add: path_with_extension_def) (metis last_snoc path_component.inject)
  then have "CHR ''.'' \<in> set s"
    by (metis in_set_conv_decomp append_Cons append_Nil)
  then show False
  proof (rule file_stem_dot)
    fix e
    assume "CHR ''.'' \<notin> set e" and "s = file_stem s @ ''.'' @ e"
    with s show False
      by (metis last_part_unique)
  next
    assume "file_stem s = s"
    with s show False
      by (metis append_self_conv append_is_Nil_conv not_Cons_self2)
  qed
qed

lemma path_with_extension_unnamed: "path_file_name p = None \<Longrightarrow> path_with_extension ext p = p"
  by (simp add: path_with_extension_def)

end
