(* ===== verification/Ownership.thy ===== *)
theory Ownership
  imports Paths
begin

section \<open>Restart-surviving ownership classification (state.rs)\<close>

text \<open>
  Which VMs automatic scaling may manage.  \<open>VmOwnership\<close> is a pair of sets of identifiers;
  \<open>VmStateStore\<close> keeps it in one JSON file that is replaced atomically.  The JSON codec
  (serde\_json) is a pair of argument functions \<open>enc\<close> and \<open>dec\<close>.
\<close>

datatype state_error =
    StateIo io_error
  | StateJson string
  | StateVm string

record vm_ownership =
  managed_vms :: "string set"
  unmanaged_vms :: "string set"

definition ownership_default :: vm_ownership where
  "ownership_default = \<lparr>managed_vms = {}, unmanaged_vms = {}\<rparr>"

definition classification :: "vm_ownership \<Rightarrow> string \<Rightarrow> bool option" where
  "classification r vm =
     (if vm \<in> managed_vms r then Some True
      else if vm \<in> unmanaged_vms r then Some False else None)"

definition record_vm :: "vm_ownership \<Rightarrow> string \<Rightarrow> bool \<Rightarrow> state_error + vm_ownership" where
  "record_vm r vm managed =
     (if classification r vm \<noteq> None
      then Inl (StateVm (''VM '' @ vm @ '' already has an ownership classification''))
      else Inr (if managed then r\<lparr>managed_vms := insert vm (managed_vms r)\<rparr>
                else r\<lparr>unmanaged_vms := insert vm (unmanaged_vms r)\<rparr>))"

definition validate_ownership :: "vm_ownership \<Rightarrow> state_error + unit" where
  "validate_ownership r =
     (if managed_vms r \<inter> unmanaged_vms r \<noteq> {}
      then Inl (StateVm ''managed_vms and unmanaged_vms overlap'') else Inr ())"

text \<open>\<open>VmStateStore::load\<close>; a missing file is the empty registry.\<close>

definition store_load ::
  "(string \<Rightarrow> string + vm_ownership) \<Rightarrow> io_error option \<Rightarrow> file_system \<Rightarrow> path \<Rightarrow> state_error + vm_ownership"
where
  "store_load dec fault fs p =
     (case fs_read fault fs p of
        Inl NotFound \<Rightarrow> Inr ownership_default
      | Inl e \<Rightarrow> Inl (StateIo e)
      | Inr data \<Rightarrow>
          result_bind (result_map_err StateJson (dec data)) (\<lambda>r.
          result_bind (validate_ownership r) (\<lambda>_. Inr r)))"

text \<open>
  What the system does to one \<open>save\<close>: an error of any of its three calls, and for the
  write how many bytes reach the temporary file first.
\<close>

record save_faults =
  sf_create_dir :: "io_error option"
  sf_write :: "(nat \<times> io_error) option"
  sf_rename :: "io_error option"

text \<open>The temporary file next to the registry, named after the process.\<close>

definition store_tmp :: "string \<Rightarrow> path \<Rightarrow> path" where
  "store_tmp pid p = path_with_extension (''json.tmp-'' @ pid) p"

text \<open>
  \<open>VmStateStore::save\<close>: the outcome and the states the files go through, the last one
  being the state the call leaves behind.  (\<open>create_dir_all\<close> changes no file.)
\<close>

definition store_save ::
  "(vm_ownership \<Rightarrow> string + string) \<Rightarrow> string \<Rightarrow> save_faults \<Rightarrow> path \<Rightarrow> vm_ownership \<Rightarrow>
   file_system \<Rightarrow> (state_error + unit) \<times> file_system list"
where
  "store_save enc pid f p r fs =
     (case validate_ownership r of
        Inl e \<Rightarrow> (Inl e, [fs])
      | Inr _ \<Rightarrow>
     (case sf_create_dir f of
        Some e \<Rightarrow> (Inl (StateIo e), [fs])
      | None \<Rightarrow>
     (case enc r of
        Inl e \<Rightarrow> (Inl (StateJson e), [fs])
      | Inr data \<Rightarrow>
     (case sf_write f of
        Some (n, e) \<Rightarrow> (Inl (StateIo e), fs # fs_write_states fs (store_tmp pid p) data n)
      | None \<Rightarrow>
          let written = fs # fs_write_states fs (store_tmp pid p) data (length data)
          in case sf_rename f of
               Some e \<Rightarrow> (Inl (StateIo e), written)
             | None \<Rightarrow> (Inr (), written @ [fs_rename (last written) (store_tmp pid p) p])))))"

subsection \<open>The registry\<close>

definition ownership_ok :: "vm_ownership \<Rightarrow> bool" where
  "ownership_ok r = (managed_vms r \<inter> unmanaged_vms r = {})"

lemma ownership_ok_default [simp]: "ownership_ok ownership_default"
  by (simp add: ownership_ok_def ownership_default_def)

lemma validate_ownership_ok: "validate_ownership r = Inr () \<longleftrightarrow> ownership_ok r"
  by (simp add: validate_ownership_def ownership_ok_def)

lemma record_vm_Inr:
  assumes "record_vm r vm managed = Inr r'"
  shows "classification r vm = None" and "classification r' vm = Some managed"
    and "\<And>other. other \<noteq> vm \<Longrightarrow> classification r' other = classification r other"
    and "ownership_ok r \<Longrightarrow> ownership_ok r'"
  using assms
  by (auto simp: record_vm_def classification_def ownership_ok_def split: if_splits)

lemma record_vm_new:
  "classification r vm = None \<Longrightarrow> \<exists>r'. record_vm r vm managed = Inr r'"
  by (simp add: record_vm_def)

text \<open>A whole history of \<open>record\<close> calls, failed ones leaving the registry alone.\<close>

fun record_all :: "(string \<times> bool) list \<Rightarrow> vm_ownership \<Rightarrow> vm_ownership" where
  "record_all [] r = r"
| "record_all ((vm, managed) # xs) r =
     record_all xs (case record_vm r vm managed of Inl _ \<Rightarrow> r | Inr r' \<Rightarrow> r')"

lemma record_step:
  "classification (case record_vm r vm managed of Inl _ \<Rightarrow> r | Inr r' \<Rightarrow> r') x =
     (case classification r x of Some c \<Rightarrow> Some c | None \<Rightarrow> if x = vm then Some managed else None)"
proof (cases "record_vm r vm managed")
  case (Inl e)
  then have "classification r vm \<noteq> None"
    by (auto simp: record_vm_def split: if_splits)
  with Inl show ?thesis
    by (auto split: option.splits)
next
  case (Inr r')
  then show ?thesis
    using record_vm_Inr [OF Inr] by (cases "x = vm") (auto split: option.splits)
qed

lemma ownership_ok_record_all: "ownership_ok r \<Longrightarrow> ownership_ok (record_all xs r)"
  using record_vm_Inr(4)
  by (induction xs r rule: record_all.induct) (fastforce split: sum.splits)+

subsection \<open>The file\<close>

lemma store_tmp_not_registry:
  assumes "path_file_name p \<noteq> None"
  shows "store_tmp pid p \<noteq> p"
proof -
  obtain name where "path_file_name p = Some name"
    using assms by auto
  from path_with_extension_fresh [OF this, of "''json''" "''tmp-'' @ pid"] show ?thesis
    by (simp add: store_tmp_def)
qed

lemma fs_write_states_other:
  "p \<noteq> t \<Longrightarrow> \<forall>g\<in>set (fs_write_states fs t data n). g p = fs p"
  by (auto simp: fs_write_states_def)

lemma fs_write_states_last [simp]:
  "fs_write_states fs t data n \<noteq> []"
  "last (fs_write_states fs t data n) = fs(t \<mapsto> take n data)"
  by (simp_all add: fs_write_states_def)

text \<open>The ways \<open>save\<close> ends.\<close>

lemma store_save_cases:
  assumes "store_save enc pid f p r fs = (res, trace)"
  obtains e where "res = Inl e" and "trace = [fs]"
    | data n e where "enc r = Inr data" and "res = Inl e"
        and "trace = fs # fs_write_states fs (store_tmp pid p) data n"
    | data where "enc r = Inr data" and "res = Inr ()" and "ownership_ok r"
        and "trace = fs # fs_write_states fs (store_tmp pid p) data (length data) @
          [fs_rename (fs(store_tmp pid p \<mapsto> data)) (store_tmp pid p) p]"
proof (cases "ownership_ok r")
  case True
  then have "validate_ownership r = Inr ()"
    by (simp add: validate_ownership_ok)
  with True assms show ?thesis
    by (auto simp: store_save_def Let_def intro: that split: sum.splits option.splits)
next
  case False
  then have "validate_ownership r = Inl (StateVm ''managed_vms and unmanaged_vms overlap'')"
    by (simp add: validate_ownership_def ownership_ok_def)
  with assms have "res = Inl (StateVm ''managed_vms and unmanaged_vms overlap'')" and "trace = [fs]"
    by (simp_all add: store_save_def)
  then show ?thesis
    by (rule that(1))
qed

text \<open>
  C27: the registry is replaced atomically.  Whatever faults the system raises and wherever the
  process is killed, the registry's file holds its old content or the complete new document; it
  holds the new one when the call reports success, and the old one when it reports an error.
\<close>

theorem save_atomic:
  assumes "store_save enc pid f p r fs = (res, trace)" and "path_file_name p \<noteq> None"
  shows "(\<forall>g\<in>set trace. g p = fs p \<or> (\<exists>data. enc r = Inr data \<and> g p = Some data)) \<and>
    last trace p = (if res = Inr () then result_ok (enc r) else fs p)"
  using assms(1)
proof (cases rule: store_save_cases)
  case (2 data n e)
  then show ?thesis
    using fs_write_states_other [OF store_tmp_not_registry [OF assms(2), of pid, symmetric], of fs data n]
    by (auto simp: store_tmp_not_registry [OF assms(2), symmetric])
next
  case (3 data)
  then show ?thesis
    using fs_write_states_other [OF store_tmp_not_registry [OF assms(2), of pid, symmetric],
        of fs data "length data"]
    by (auto simp: fs_rename_def)
qed simp_all

lemma save_atomic_witness:
  "let r = \<lparr>managed_vms = {''a''}, unmanaged_vms = {}\<rparr>; enc = (\<lambda>_. Inr ''new'');
       p = [RootDir, Normal ''vm-state.json''];
       f = \<lparr>sf_create_dir = None, sf_write = Some (2, IoFault ''disk full''), sf_rename = None\<rparr>;
       fs = (\<lambda>_. None)(p \<mapsto> ''old'');
       (res, trace) = store_save enc ''1'' f p r fs
   in res = Inl (StateIo (IoFault ''disk full'')) \<and> last trace p = Some ''old''"
proof -
  let ?r = "\<lparr>managed_vms = {''a''}, unmanaged_vms = {}\<rparr>"
  let ?p = "[RootDir, Normal ''vm-state.json'']"
  let ?f = "\<lparr>sf_create_dir = None, sf_write = Some (2, IoFault ''disk full''), sf_rename = None\<rparr>"
  let ?fs = "((\<lambda>_. None) :: file_system)(?p \<mapsto> ''old'')"
  obtain res trace where s: "store_save (\<lambda>_. Inr ''new'') ''1'' ?f ?p ?r ?fs = (res, trace)"
    by fastforce
  then have "res = Inl (StateIo (IoFault ''disk full''))"
    by (auto simp: store_save_def validate_ownership_def)
  with s save_atomic [OF s] show ?thesis
    by (simp add: Let_def path_file_name_def)
qed

lemma store_save_reload:
  assumes "store_save enc pid f p r fs = (Inr (), trace)"
    and "\<And>data. enc r = Inr data \<Longrightarrow> dec data = Inr r"
  shows "store_load dec None (last trace) p = Inr r"
  using assms(1)
proof (cases rule: store_save_cases)
  case (3 data)
  then have "last trace p = Some data"
    by (simp add: fs_rename_def)
  with 3 assms(2) show ?thesis
    by (simp add: store_load_def fs_read_def validate_ownership_def ownership_ok_def)
qed simp_all

text \<open>A registry without a contradiction can only fail to be saved for a reason outside the daemon.\<close>

lemma store_save_fault:
  assumes "store_save enc pid f p r fs = (Inl s, trace)" and "ownership_ok r"
  shows "(\<exists>io. s = StateIo io \<and> (sf_create_dir f = Some io \<or> (\<exists>n. sf_write f = Some (n, io)) \<or>
      sf_rename f = Some io)) \<or> (\<exists>msg. s = StateJson msg \<and> enc r = Inl msg)"
proof -
  have "validate_ownership r = Inr ()"
    using assms(2) by (simp add: validate_ownership_ok)
  with assms(1) show ?thesis
    by (auto simp: store_save_def Let_def split: sum.splits option.splits)
qed

lemma store_save_failed:
  assumes "store_save enc pid f p r fs = (Inl e, trace)" and "path_file_name p \<noteq> None"
  shows "last trace p = fs p"
  using assms(1)
proof (cases rule: store_save_cases)
  case (2 data n e)
  then show ?thesis
    by (auto simp: store_tmp_not_registry [OF assms(2), symmetric])
qed simp_all

lemma store_load_cong: "fs p = fs' p \<Longrightarrow> store_load dec fault fs p = store_load dec fault fs' p"
  by (cases fault) (simp_all add: store_load_def fs_read_def)

lemma store_load_ok:
  assumes "store_load dec fault fs p = Inr r"
  shows "ownership_ok r"
  using assms
  by (auto simp: store_load_def result_bind_Inr validate_ownership_ok
      split: sum.splits io_error.splits)

lemma save_load_registry:
  assumes "\<And>data. enc r = Inr data \<Longrightarrow> dec data = Inr r"
  shows "(case store_save enc pid f p r fs of
      (Inl _, _) \<Rightarrow> True
    | (Inr _, trace) \<Rightarrow> store_load dec None (last trace) p = Inr r) \<and>
    (case store_load dec fault fs' p' of Inl _ \<Rightarrow> True | Inr r' \<Rightarrow> ownership_ok r')"
  using store_save_reload [OF _ assms] store_load_ok
  by (auto split: sum.split prod.split)

end
