(* ===== verification/F64.thy ===== *)
theory F64
  imports Complex_Main Prelude "HOL-Library.Log_Nat"
begin

section \<open>IEEE 754 binary64 arithmetic\<close>

text \<open>
  The program computes utilisations, rates and thresholds in \<open>f64\<close>.  A finite double is
  its exact rational value; every arithmetic operation computes exactly and rounds to the nearest
  double, ties to even, with 53 bits of precision, the smallest quantum \<open>2^-1074\<close> and
  overflow to an infinity at \<open>2^1024\<close>.  The two zeros are one value (the program never
  observes their sign).  Comparisons with a NaN are false, and \<open>as\<close> casts to integers
  saturate and send NaN to zero, as in Rust.
\<close>

named_theorems f64 \<open>evaluation of double operations\<close>

datatype f64 = NaN | PosInf | NegInf | Fin rat

definition pow2 :: "int \<Rightarrow> rat" where
  "pow2 k = (if 0 \<le> k then 2 ^ nat k else 1 / 2 ^ nat (- k))"

text \<open>The exponent of a positive rational: the largest \<open>e\<close> with \<open>2^e \<le> q\<close>.\<close>

function zlog2 :: "int \<Rightarrow> int" where
  "zlog2 n = (if n < 2 then 0 else zlog2 (n div 2) + 1)"
  by pat_completeness auto
termination
  by (relation "measure nat") auto

declare zlog2.simps [simp del]

definition ilog2 :: "rat \<Rightarrow> int" where
  "ilog2 q = (let (a, b) = quotient_of q;
                  k = zlog2 a - zlog2 b
              in if pow2 k \<le> q then k else k - 1)"

definition quantum :: "rat \<Rightarrow> rat" where
  "quantum q = pow2 (max (ilog2 q - 52) (- 1074))"

definition round_half_even :: "rat \<Rightarrow> int" where
  "round_half_even x =
     (let n = \<lfloor>x\<rfloor>; d = x - of_int n
      in if d < 1 / 2 then n else if 1 / 2 < d then n + 1 else if even n then n else n + 1)"

definition round_pos :: "rat \<Rightarrow> rat" where
  "round_pos q = of_int (round_half_even (q / quantum q)) * quantum q"

definition round_f64 :: "rat \<Rightarrow> f64" where
  "round_f64 q =
     (if q = 0 then Fin 0
      else let r = round_pos \<bar>q\<bar>
           in if 1024 \<le> ilog2 r then (if 0 < q then PosInf else NegInf)
              else Fin (if 0 < q then r else - r))"

subsection \<open>Properties of rounding\<close>

lemma pow2_pos [simp]: "0 < pow2 k"
  by (simp add: pow2_def)

lemma pow2_powi: "pow2 k = 2 powi k"
  by (simp add: pow2_def power_int_def inverse_eq_divide power_one_over)

lemma pow2_0 [simp]: "pow2 0 = 1"
  by (simp add: pow2_def)

lemma pow2_add: "pow2 (a + b) = pow2 a * pow2 b"
  by (simp add: pow2_powi power_int_add)

lemma pow2_mono: "a \<le> b \<Longrightarrow> pow2 a \<le> pow2 b"
  by (simp add: pow2_powi power_int_increasing)

lemma abs_pow2 [simp]: "\<bar>pow2 k\<bar> = pow2 k"
  by (simp add: less_imp_le)

lemma pow2_nat: "pow2 (int n) = 2 ^ n"
  by (simp add: pow2_def)

lemma pow2_Suc: "pow2 (k + 1) = 2 * pow2 k"
  by (simp add: pow2_add) (simp add: pow2_def)

lemma zlog2_bounds:
  "0 < n \<Longrightarrow> 0 \<le> zlog2 n \<and> pow2 (zlog2 n) \<le> of_int n \<and> of_int n < pow2 (zlog2 n + 1)"
proof (induction n rule: zlog2.induct)
  case (1 n)
  show ?case
  proof (cases "n < 2")
    case True
    with 1 have "n = 1" by simp
    then show ?thesis by (simp add: zlog2.simps [of 1] pow2_def)
  next
    case False
    with 1 have IH: "0 \<le> zlog2 (n div 2)" "pow2 (zlog2 (n div 2)) \<le> of_int (n div 2)"
      "of_int (n div 2) < pow2 (zlog2 (n div 2) + 1)"
      by simp_all
    define p :: int where "p = 2 ^ nat (zlog2 (n div 2))"
    have p: "pow2 (zlog2 (n div 2)) = of_int p" "pow2 (zlog2 (n div 2) + 1) = of_int (2 * p)"
      using IH(1) by (simp_all add: pow2_Suc) (simp_all add: p_def pow2_def)
    with IH have "p \<le> n div 2" "n div 2 < 2 * p"
      by (simp_all only: of_int_le_iff of_int_less_iff)
    then have "2 * p \<le> n" "n < 2 * (2 * p)"
      by linarith+
    then have "rat_of_int (2 * p) \<le> of_int n" "rat_of_int n < of_int (2 * (2 * p))"
      by (simp_all only: of_int_le_iff of_int_less_iff)
    moreover have "pow2 (zlog2 n) = of_int (2 * p)" "pow2 (zlog2 n + 1) = of_int (2 * (2 * p))"
      using False p by (simp_all only: zlog2.simps [of n] if_False pow2_Suc)
    ultimately show ?thesis
      using IH(1) False by (simp add: zlog2.simps [of n])
  qed
qed

lemma ilog2_bounds:
  assumes "0 < q"
  shows "pow2 (ilog2 q) \<le> q \<and> q < pow2 (ilog2 q + 1)"
proof -
  obtain a b where ab: "quotient_of q = (a, b)"
    by (cases "quotient_of q")
  have b: "0 < b" and q: "q = of_int a / of_int b"
    using quotient_of_denom_pos [OF ab] quotient_of_div [OF ab] by auto
  have a: "0 < a"
    using assms b by (simp add: q zero_less_divide_iff)
  define m n where "m = zlog2 a" and "n = zlog2 b"
  have A: "pow2 m \<le> of_int a" "of_int a < 2 * pow2 m"
    and B: "pow2 n \<le> of_int b" "of_int b < 2 * pow2 n"
    using zlog2_bounds [OF a] zlog2_bounds [OF b] by (simp_all add: m_def n_def pow2_Suc)
  have P: "pow2 (m - n) * pow2 n = pow2 m"
    using pow2_add [of "m - n" n] by simp
  have b': "0 < rat_of_int b"
    using b by simp
  have "of_int a < 2 * pow2 (m - n) * of_int b"
  proof -
    have "2 * pow2 m = 2 * pow2 (m - n) * pow2 n"
      using P by simp
    also have "\<dots> \<le> 2 * pow2 (m - n) * of_int b"
      using B by simp
    finally show ?thesis
      using A by linarith
  qed
  then have hi: "q < pow2 (m - n + 1)"
    using b' by (simp add: q pow2_Suc pos_divide_less_eq)
  have "pow2 (m - n - 1) * of_int b \<le> of_int a"
  proof -
    have "pow2 (m - n - 1) * of_int b \<le> pow2 (m - n - 1) * (2 * pow2 n)"
      using B by simp
    also have "\<dots> = pow2 m"
      using P pow2_Suc [of "m - n - 1"] by simp
    finally show ?thesis
      using A by linarith
  qed
  then have lo: "pow2 (m - n - 1) \<le> q"
    using b' by (simp add: q pos_le_divide_eq)
  show ?thesis
    using hi lo by (auto simp: ilog2_def ab Let_def simp flip: m_def n_def)
qed

lemma ilog2_less: "0 < q \<Longrightarrow> q < pow2 k \<Longrightarrow> ilog2 q < k"
  using ilog2_bounds [of q] pow2_mono [of k "ilog2 q"] by (meson linorder_not_less order_trans)

lemma ilog2_ge: "0 < q \<Longrightarrow> pow2 k \<le> q \<Longrightarrow> k \<le> ilog2 q"
  using ilog2_bounds [of q] pow2_mono [of "ilog2 q + 1" k]
  by (meson add1_zle_eq linorder_not_le order_less_le_trans zle_add1_eq_le)

lemma ilog2_mono: "0 < q \<Longrightarrow> q \<le> r \<Longrightarrow> ilog2 q \<le> ilog2 r"
  by (rule ilog2_ge) (use ilog2_bounds [of q] in auto)

lemma quantum_pos [simp]: "0 < quantum q"
  by (simp add: quantum_def)

lemma round_half_even_of_int [simp]: "round_half_even (of_int n) = n"
  by (simp add: round_half_even_def)

lemma round_half_even_bounds: "\<lfloor>x\<rfloor> \<le> round_half_even x \<and> round_half_even x \<le> \<lfloor>x\<rfloor> + 1"
  by (simp add: round_half_even_def Let_def)

lemma round_half_even_mono:
  assumes "x \<le> y"
  shows "round_half_even x \<le> round_half_even y"
proof (cases "\<lfloor>x\<rfloor> = \<lfloor>y\<rfloor>")
  case True
  with assms show ?thesis
    by (auto simp: round_half_even_def Let_def)
next
  case False
  with assms have "\<lfloor>x\<rfloor> + 1 \<le> \<lfloor>y\<rfloor>"
    using floor_mono [OF assms] by linarith
  then show ?thesis
    using round_half_even_bounds [of x] round_half_even_bounds [of y] by linarith
qed

lemma round_pos_le_grid:
  assumes "q \<le> of_int m * quantum q"
  shows "round_pos q \<le> of_int m * quantum q"
proof -
  have "round_half_even (q / quantum q) \<le> round_half_even (of_int m)"
    using assms by (intro round_half_even_mono) (simp add: pos_divide_le_eq)
  then show ?thesis
    by (simp add: round_pos_def)
qed

lemma round_pos_ge_grid:
  assumes "of_int m * quantum q \<le> q"
  shows "of_int m * quantum q \<le> round_pos q"
proof -
  have "round_half_even (of_int m) \<le> round_half_even (q / quantum q)"
    using assms by (intro round_half_even_mono) (simp add: pos_le_divide_eq)
  then show ?thesis
    by (simp add: round_pos_def)
qed

lemma pow2_grid:
  assumes "j \<le> k"
  shows "pow2 k = of_int (2 ^ nat (k - j)) * pow2 j"
  using assms pow2_add [of "k - j" j] by (simp add: pow2_def [of "k - j"])

lemma round_pos_exact:
  assumes "0 < q" and q: "q = of_int n * pow2 k" and "n \<le> 2 ^ 53" and k: "- 1074 \<le> k"
  shows "round_pos q = q"
proof -
  obtain j m where "quantum q = pow2 j" and "q = of_int m * pow2 j"
  proof (cases "n = 2 ^ 53")
    case True
    then have q': "q = pow2 (k + 53)"
      using q pow2_add [of k 53] by (simp add: pow2_def [of 53])
    moreover have "pow2 (k + 53) < pow2 (k + 54)"
      using pow2_add [of "k + 53" 1] pow2_pos [of "k + 53"]
      by (simp add: pow2_def [of 1] algebra_simps)
    ultimately have "ilog2 q = k + 53"
      using ilog2_ge [of q "k + 53"] ilog2_less [of q "k + 54"] pow2_pos [of "k + 53"] by simp
    then have "max (ilog2 q - 52) (- 1074) = k + 1"
      using k by simp
    then have "quantum q = pow2 (k + 1)"
      by (simp only: quantum_def)
    moreover have "q = of_int (2 ^ 52) * pow2 (k + 1)"
      using q' pow2_add [of "k + 1" 52] by (simp add: pow2_def [of 52] add.commute)
    ultimately show ?thesis
      by (rule that)
  next
    case False
    then have "n < 2 ^ 53"
      using assms by simp
    then have "rat_of_int n < of_int (2 ^ 53)"
      by (simp only: of_int_less_iff)
    then have "q < pow2 (k + 53)"
      using q pow2_add [of k 53] pow2_pos [of k] by (simp add: pow2_def [of 53])
    then have "ilog2 q \<le> k + 52"
      using ilog2_less [OF \<open>0 < q\<close>] by fastforce
    then have j: "max (ilog2 q - 52) (- 1074) \<le> k"
      using k by simp
    have "q = of_int (n * 2 ^ nat (k - max (ilog2 q - 52) (- 1074))) * pow2 (max (ilog2 q - 52) (- 1074))"
      using pow2_grid [OF j] q by (simp only: of_int_mult mult.assoc)
    with quantum_def show ?thesis
      by (rule that)
  qed
  then show ?thesis
    using pow2_pos [of j] by (simp add: round_pos_def)
qed

lemma round_pos_upper:
  assumes "0 < q" and "q \<le> pow2 k" and "- 1022 \<le> k"
  shows "round_pos q \<le> pow2 k"
proof (cases "max (ilog2 q - 52) (- 1074) \<le> k")
  case True
  then have "pow2 k = of_int (2 ^ nat (k - max (ilog2 q - 52) (- 1074))) * quantum q"
    by (metis pow2_grid quantum_def)
  with assms(2) show ?thesis
    by (metis round_pos_le_grid)
next
  case False
  with assms have "pow2 (k + 1) \<le> pow2 (ilog2 q)"
    by (intro pow2_mono) auto
  also have "\<dots> \<le> q"
    using ilog2_bounds assms(1) by blast
  finally have "pow2 (k + 1) \<le> pow2 k"
    using assms(2) by simp
  then show ?thesis
    using pow2_add [of k 1] pow2_pos [of k] by (simp add: pow2_def [of 1])
qed

lemma round_pos_lower:
  assumes "0 < q" and "pow2 k \<le> q" and "- 1074 \<le> k"
    and "k = ilog2 q"
  shows "pow2 k \<le> round_pos q"
proof -
  have "max (ilog2 q - 52) (- 1074) \<le> k"
    using assms by simp
  then have "pow2 k = of_int (2 ^ nat (k - max (ilog2 q - 52) (- 1074))) * quantum q"
    by (metis pow2_grid quantum_def)
  with assms(2) show ?thesis
    by (metis round_pos_ge_grid)
qed

lemma round_pos_nonneg: "0 < q \<Longrightarrow> 0 \<le> round_pos q"
  using round_pos_ge_grid [of 0 q] by simp

lemma round_pos_mono:
  assumes "0 < q" and "q \<le> r"
  shows "round_pos q \<le> round_pos r"
proof (cases "quantum q = quantum r")
  case True
  then show ?thesis
    using assms(2) round_half_even_mono [of "q / quantum q" "r / quantum q"]
    by (simp add: round_pos_def divide_right_mono less_imp_le)
next
  case False
  then have ne: "max (ilog2 q - 52) (- 1074) \<noteq> max (ilog2 r - 52) (- 1074)"
    by (auto simp: quantum_def)
  with ilog2_mono [OF assms] have less: "ilog2 q + 1 \<le> ilog2 r" and big: "- 1022 < ilog2 r"
    by auto
  have "q \<le> pow2 (ilog2 r)"
    using ilog2_bounds [OF assms(1)] pow2_mono [OF less] by linarith
  then have "round_pos q \<le> pow2 (ilog2 r)"
    using assms big by (intro round_pos_upper) auto
  also have "\<dots> \<le> round_pos r"
    using assms big ilog2_bounds [of r] by (intro round_pos_lower) auto
  finally show ?thesis .
qed

lemma round_pos_form:
  assumes "0 < q"
  obtains n k where "round_pos q = of_int n * pow2 k" and "n \<le> 2 ^ 53" and "- 1074 \<le> k"
proof -
  define k where "k = max (ilog2 q - 52) (- 1074)"
  have "ilog2 q + 1 \<le> k + 53"
    by (simp add: k_def)
  then have "q < pow2 (k + 53)"
    using ilog2_bounds [OF assms] pow2_mono [of "ilog2 q + 1" "k + 53"] by linarith
  then have "q / quantum q \<le> of_int (2 ^ 53)"
    using pow2_add [of k 53] by (simp add: quantum_def pow2_def [of 53] pos_divide_le_eq flip: k_def)
  then have "round_half_even (q / quantum q) \<le> 2 ^ 53"
    using round_half_even_mono [of "q / quantum q" "of_int (2 ^ 53)"] by (simp only: round_half_even_of_int)
  moreover have "round_pos q = of_int (round_half_even (q / quantum q)) * pow2 k"
    by (simp add: round_pos_def quantum_def k_def)
  ultimately show ?thesis
    using that [of "round_half_even (q / quantum q)" k] by (simp add: k_def)
qed

lemma round_pos_idem: "0 < q \<Longrightarrow> 0 < round_pos q \<Longrightarrow> round_pos (round_pos q) = round_pos q"
  by (metis round_pos_exact round_pos_form)

lemma ilog2_0 [simp]: "ilog2 0 = - 1"
  by (simp add: ilog2_def zlog2.simps [of 0] zlog2.simps [of 1])

lemma ilog2_overflow: "0 \<le> r \<Longrightarrow> 1024 \<le> ilog2 r \<longleftrightarrow> pow2 1024 \<le> r"
proof (cases "r = 0")
  case True
  then show ?thesis
    using pow2_pos [of 1024] by (metis ilog2_0 linorder_not_less neg_0_le_iff_le not_one_le_zero order_trans zero_le_numeral)
next
  case False
  assume "0 \<le> r"
  with False have "0 < r"
    by simp
  then show ?thesis
    using ilog2_ge [of r 1024] ilog2_less [of r 1024] by (metis linorder_not_less)
qed

lemma round_f64_alt:
  "round_f64 q =
     (if q = 0 then Fin 0
      else let r = round_pos \<bar>q\<bar>
           in if pow2 1024 \<le> r then (if 0 < q then PosInf else NegInf)
              else Fin (if 0 < q then r else - r))"
  by (auto simp: round_f64_def Let_def ilog2_overflow round_pos_nonneg)

lemma round_f64_0 [simp]: "round_f64 0 = Fin 0"
  by (simp add: round_f64_alt)

lemma round_f64_neg: "round_f64 (- q) = (case round_f64 q of Fin r \<Rightarrow> Fin (- r) | PosInf \<Rightarrow> NegInf | NegInf \<Rightarrow> PosInf | NaN \<Rightarrow> NaN)"
  by (auto simp: round_f64_alt Let_def)

lemma round_f64_not_NaN [simp]: "round_f64 q \<noteq> NaN"
  by (auto simp: round_f64_alt Let_def)

subsection \<open>Comparison\<close>

fun f64_le :: "f64 \<Rightarrow> f64 \<Rightarrow> bool" where
  "f64_le NaN _ = False"
| "f64_le _ NaN = False"
| "f64_le NegInf _ = True"
| "f64_le _ PosInf = True"
| "f64_le (Fin a) (Fin b) = (a \<le> b)"
| "f64_le _ _ = False"

fun f64_lt :: "f64 \<Rightarrow> f64 \<Rightarrow> bool" where
  "f64_lt NaN _ = False"
| "f64_lt _ NaN = False"
| "f64_lt (Fin a) (Fin b) = (a < b)"
| "f64_lt x y = (x \<noteq> y \<and> (x = NegInf \<or> y = PosInf))"

definition f64_eq :: "f64 \<Rightarrow> f64 \<Rightarrow> bool" where
  "f64_eq x y = (x \<noteq> NaN \<and> x = y)"

fun f64_is_finite :: "f64 \<Rightarrow> bool" where
  "f64_is_finite (Fin _) = True"
| "f64_is_finite _ = False"

lemma f64_le_refl [simp]: "f64_le x x \<longleftrightarrow> x \<noteq> NaN"
  by (cases x) auto

lemma f64_le_trans: "f64_le x y \<Longrightarrow> f64_le y z \<Longrightarrow> f64_le x z"
  by (cases x; cases y; cases z) auto

lemma f64_le_not_NaN: "f64_le x y \<Longrightarrow> x \<noteq> NaN \<and> y \<noteq> NaN"
  by (cases x; cases y) auto

lemma f64_lt_le_not_le: "f64_lt x y \<longleftrightarrow> f64_le x y \<and> \<not> f64_le y x"
  by (cases x; cases y) auto

lemma f64_le_antisym: "f64_le x y \<Longrightarrow> f64_le y x \<Longrightarrow> x = y"
  by (cases x; cases y) auto

lemma f64_not_lt: "x \<noteq> NaN \<Longrightarrow> y \<noteq> NaN \<Longrightarrow> \<not> f64_lt x y \<longleftrightarrow> f64_le y x"
  by (cases x; cases y) auto

lemma round_f64_mono_pos:
  assumes "0 < q" and "q \<le> r"
  shows "f64_le (round_f64 q) (round_f64 r)"
  using round_pos_mono [OF assms] assms by (auto simp: round_f64_alt Let_def)

lemma round_f64_pos: "0 < q \<Longrightarrow> f64_le (Fin 0) (round_f64 q)"
  by (auto simp: round_f64_alt Let_def round_pos_nonneg)

lemma round_f64_mono:
  assumes "q \<le> r"
  shows "f64_le (round_f64 q) (round_f64 r)"
proof -
  consider "0 < q" | "r < 0" | "q \<le> 0" "0 \<le> r"
    by linarith
  then show ?thesis
  proof cases
    case 1
    with assms show ?thesis by (simp add: round_f64_mono_pos)
  next
    case 2
    with assms have "f64_le (round_f64 (- r)) (round_f64 (- q))"
      by (intro round_f64_mono_pos) auto
    then show ?thesis
      by (auto simp: round_f64_neg split: f64.splits)
  next
    case 3
    have "f64_le (round_f64 q) (Fin 0)"
      using 3 round_f64_pos [of "- q"]
      by (cases "q = 0") (auto simp: round_f64_neg split: f64.splits)
    moreover have "f64_le (Fin 0) (round_f64 r)"
      using 3 round_f64_pos [of r] by (cases "r = 0") auto
    ultimately show ?thesis
      by (rule f64_le_trans)
  qed
qed

lemma round_f64_exact:
  assumes "q = of_int n * pow2 k" and "\<bar>n\<bar> \<le> 2 ^ 53" and "- 1074 \<le> k" and "k \<le> 970"
  shows "round_f64 q = Fin q"
proof (cases "n = 0")
  case True
  with assms show ?thesis by simp
next
  case False
  then have "\<bar>q\<bar> = of_int \<bar>n\<bar> * pow2 k" and "0 < \<bar>q\<bar>"
    using assms(1) by (auto simp: abs_mult)
  moreover from this have r: "round_pos \<bar>q\<bar> = \<bar>q\<bar>"
    using assms by (intro round_pos_exact) auto
  moreover have "\<bar>q\<bar> < pow2 1024"
  proof -
    have "rat_of_int \<bar>n\<bar> \<le> of_int (2 ^ 53)"
      using assms(2) by (simp only: of_int_le_iff)
    then have "\<bar>q\<bar> \<le> 2 ^ 53 * pow2 k"
      using calculation(1) by (simp add: mult_right_mono less_imp_le)
    also have "\<dots> \<le> pow2 (53 + 970)"
      using pow2_add [of 53 970] pow2_mono [OF assms(4)] by (simp add: pow2_def [of 53] pow2_def [of 970])
    also have "\<dots> < pow2 1024"
      by (simp add: pow2_def)
    finally show ?thesis .
  qed
  ultimately show ?thesis
    by (auto simp: round_f64_alt Let_def)
qed

lemma round_f64_of_int: "\<bar>n\<bar> \<le> 2 ^ 53 \<Longrightarrow> round_f64 (of_int n) = Fin (of_int n)"
  by (rule round_f64_exact [where n = n and k = 0]) auto

lemma round_f64_of_nat: "n \<le> 2 ^ 53 \<Longrightarrow> round_f64 (of_nat n) = Fin (of_nat n)"
  using round_f64_of_int [of "int n"] by simp

lemma round_f64_idem:
  assumes "round_f64 q = Fin r"
  shows "round_f64 r = Fin r"
proof -
  have pos: "round_f64 s = Fin s" if "round_f64 p = Fin s" and "0 < p" for p s
  proof -
    from that have s: "s = round_pos p" "s < pow2 1024" "0 \<le> s"
      by (auto simp: round_f64_alt Let_def round_pos_nonneg split: if_splits)
    then have "0 < s \<Longrightarrow> round_pos s = s"
      using round_pos_idem [of p] that by simp
    with s show ?thesis
      by (auto simp: round_f64_alt Let_def)
  qed
  consider "0 < q" | "q = 0" | "0 < - q"
    by linarith
  then show ?thesis
  proof cases
    case 1
    with assms show ?thesis by (rule pos)
  next
    case 2
    with assms show ?thesis by simp
  next
    case 3
    have "round_f64 (- q) = Fin (- r)"
      using assms by (simp add: round_f64_neg)
    then have "round_f64 (- r) = Fin (- r)"
      using 3 by (rule pos)
    then show ?thesis
      using round_f64_neg [of "- r"] by simp
  qed
qed

subsection \<open>Arithmetic, conversions and library functions\<close>

fun f64_neg :: "f64 \<Rightarrow> f64" where
  "f64_neg NaN = NaN"
| "f64_neg PosInf = NegInf"
| "f64_neg NegInf = PosInf"
| "f64_neg (Fin a) = Fin (- a)"

fun f64_add :: "f64 \<Rightarrow> f64 \<Rightarrow> f64" where
  "f64_add NaN _ = NaN"
| "f64_add _ NaN = NaN"
| "f64_add (Fin a) (Fin b) = round_f64 (a + b)"
| "f64_add (Fin _) y = y"
| "f64_add x (Fin _) = x"
| "f64_add x y = (if x = y then x else NaN)"

definition f64_sub :: "f64 \<Rightarrow> f64 \<Rightarrow> f64" where
  "f64_sub x y = f64_add x (f64_neg y)"

text \<open>The infinity with the sign of \<open>a\<close>; \<open>NaN\<close> for zero.\<close>

definition f64_inf :: "rat \<Rightarrow> f64" where
  "f64_inf a = (if 0 < a then PosInf else if a < 0 then NegInf else NaN)"

fun f64_mul :: "f64 \<Rightarrow> f64 \<Rightarrow> f64" where
  "f64_mul NaN _ = NaN"
| "f64_mul _ NaN = NaN"
| "f64_mul (Fin a) (Fin b) = round_f64 (a * b)"
| "f64_mul (Fin a) y = f64_inf (if y = PosInf then a else - a)"
| "f64_mul x (Fin b) = f64_inf (if x = PosInf then b else - b)"
| "f64_mul x y = (if x = y then PosInf else NegInf)"

text \<open>Division by the (positive) zero gives an infinity, and \<open>0 / 0\<close> is \<open>NaN\<close>.\<close>

fun f64_div :: "f64 \<Rightarrow> f64 \<Rightarrow> f64" where
  "f64_div NaN _ = NaN"
| "f64_div _ NaN = NaN"
| "f64_div (Fin a) (Fin b) = (if b = 0 then f64_inf a else round_f64 (a / b))"
| "f64_div (Fin _) _ = Fin 0"
| "f64_div x (Fin b) = (if b < 0 then f64_neg x else x)"
| "f64_div _ _ = NaN"

fun f64_max :: "f64 \<Rightarrow> f64 \<Rightarrow> f64" where
  "f64_max NaN y = y"
| "f64_max x NaN = x"
| "f64_max x y = (if f64_le x y then y else x)"

fun f64_min :: "f64 \<Rightarrow> f64 \<Rightarrow> f64" where
  "f64_min NaN y = y"
| "f64_min x NaN = x"
| "f64_min x y = (if f64_le x y then x else y)"

text \<open>\<open>x.clamp(lo, hi)\<close>, which leaves a NaN alone; every caller passes constants
  \<open>lo <= hi\<close>, so the assertion of the library never fires.\<close>

definition f64_clamp :: "f64 \<Rightarrow> f64 \<Rightarrow> f64 \<Rightarrow> f64" where
  "f64_clamp x lo hi = (if f64_lt x lo then lo else if f64_lt hi x then hi else x)"

fun f64_ceil :: "f64 \<Rightarrow> f64" where
  "f64_ceil (Fin a) = Fin (of_int \<lceil>a\<rceil>)"
| "f64_ceil x = x"

fun f64_floor :: "f64 \<Rightarrow> f64" where
  "f64_floor (Fin a) = Fin (of_int \<lfloor>a\<rfloor>)"
| "f64_floor x = x"

text \<open>Rounds half away from zero.\<close>

fun f64_round :: "f64 \<Rightarrow> f64" where
  "f64_round (Fin a) = Fin (of_int (if 0 \<le> a then \<lfloor>a + 1 / 2\<rfloor> else \<lceil>a - 1 / 2\<rceil>))"
| "f64_round x = x"

text \<open>\<open>x as u16\<close>, \<open>u32\<close>, \<open>u64\<close>: truncation, saturating at both ends.\<close>

fun f64_as_word :: "f64 \<Rightarrow> 'a::len word" where
  "f64_as_word NaN = 0"
| "f64_as_word NegInf = 0"
| "f64_as_word PosInf = - 1"
| "f64_as_word (Fin a) = sat_of_int \<lfloor>a\<rfloor>"

definition f64_of_int :: "int \<Rightarrow> f64" where
  "f64_of_int n = round_f64 (of_int n)"

text \<open>\<open>n as f64\<close> and \<open>f64::from(n)\<close>.\<close>

definition f64_of_word :: "'a::len word \<Rightarrow> f64" where
  "f64_of_word n = f64_of_int (uint n)"

text \<open>A decimal literal of the source, and the sum of an iterator.\<close>

definition f64_lit :: "rat \<Rightarrow> f64" where
  "f64_lit q = round_f64 q"

definition f64_sum :: "f64 list \<Rightarrow> f64" where
  "f64_sum xs = foldl f64_add (Fin 0) xs"

definition as_secs_f64 :: "duration \<Rightarrow> f64" where
  "as_secs_f64 d = f64_add (f64_of_int (d div nanos_per_sec))
     (f64_div (f64_of_int (d mod nanos_per_sec)) (f64_of_int nanos_per_sec))"

subsection \<open>Lemmas the components share\<close>

abbreviation f64_in :: "f64 \<Rightarrow> rat \<Rightarrow> rat \<Rightarrow> bool" where
  "f64_in x lo hi \<equiv> f64_le (Fin lo) x \<and> f64_le x (Fin hi)"

lemma f64_in_Fin: "f64_in x lo hi \<Longrightarrow> \<exists>a. x = Fin a \<and> lo \<le> a \<and> a \<le> hi"
  by (cases x) auto

lemma f64_clamp_in:
  assumes "x \<noteq> NaN" and "lo \<le> hi"
  shows "f64_in (f64_clamp x (Fin lo) (Fin hi)) lo hi"
  using assms by (cases x) (auto simp: f64_clamp_def)

lemma f64_clamp_NaN [simp]: "f64_clamp NaN lo hi = NaN"
  by (cases lo; cases hi) (simp_all add: f64_clamp_def)

lemma f64_clamp_id: "f64_in x lo hi \<Longrightarrow> f64_clamp x (Fin lo) (Fin hi) = x"
  by (cases x) (auto simp: f64_clamp_def)

lemma f64_of_int_small: "\<bar>n\<bar> \<le> 2 ^ 53 \<Longrightarrow> f64_of_int n = Fin (of_int n)"
  by (simp add: f64_of_int_def round_f64_of_int)

lemma f64_of_u32: "f64_of_word (n :: u32) = Fin (of_int (uint n))"
  using uint_lt2p [of n] by (simp add: f64_of_word_def f64_of_int_small)

lemma f64_of_int_mono: "m \<le> n \<Longrightarrow> f64_le (f64_of_int m) (f64_of_int n)"
  by (simp add: f64_of_int_def round_f64_mono)

lemma f64_of_int_nonneg: "0 \<le> n \<Longrightarrow> f64_le (Fin 0) (f64_of_int n)"
  using f64_of_int_mono [of 0 n] by (simp add: f64_of_int_small)

lemma f64_of_int_fixed: "f64_of_int n = Fin a \<Longrightarrow> round_f64 a = Fin a"
  unfolding f64_of_int_def by (rule round_f64_idem)

lemma round_f64_in:
  assumes "of_int l \<le> q" and "q \<le> of_int h" and "\<bar>l\<bar> \<le> 2 ^ 53" and "\<bar>h\<bar> \<le> 2 ^ 53"
  shows "f64_in (round_f64 q) (of_int l) (of_int h)"
  using round_f64_mono [OF assms(1)] round_f64_mono [OF assms(2)] assms(3,4)
  by (simp add: round_f64_of_int)

lemma foldl_add_bounds:
  assumes "\<And>x. x \<in> set xs \<Longrightarrow> f64_in x 0 1" and "0 \<le> s" and "s \<le> of_nat k"
    and "k + length xs \<le> 2 ^ 53"
  shows "f64_in (foldl f64_add (Fin s) xs) 0 (of_nat (k + length xs))"
  using assms
proof (induction xs arbitrary: s k)
  case Nil
  then show ?case by simp
next
  case (Cons x xs)
  obtain a where a: "x = Fin a" "0 \<le> a" "a \<le> 1"
    using Cons.prems(1) [of x] f64_in_Fin by force
  have "f64_in (round_f64 (s + a)) (of_int 0) (of_int (int (k + 1)))"
    using a Cons.prems by (intro round_f64_in) auto
  then obtain t where t: "round_f64 (s + a) = Fin t" "0 \<le> t" "t \<le> of_nat (k + 1)"
    using f64_in_Fin by force
  have "f64_in (foldl f64_add (Fin t) xs) 0 (of_nat (k + 1 + length xs))"
    using Cons.prems t by (intro Cons.IH) auto
  then show ?case
    by (simp add: a t)
qed

lemma f64_mean_in:
  assumes "\<And>x. x \<in> set xs \<Longrightarrow> f64_in x 0 1" and "xs \<noteq> []" and "length xs \<le> 2 ^ 53"
  shows "f64_in (f64_div (f64_sum xs) (f64_of_int (int (length xs)))) 0 1"
proof -
  have "f64_in (f64_sum xs) 0 (of_nat (length xs))"
    using foldl_add_bounds [of xs 0 0] assms by (simp add: f64_sum_def)
  then obtain s where s: "f64_sum xs = Fin s" "0 \<le> s" "s \<le> of_nat (length xs)"
    using f64_in_Fin by blast
  have "f64_in (round_f64 (s / of_nat (length xs))) (of_int 0) (of_int 1)"
    using s assms(2) by (intro round_f64_in) (auto simp: divide_simps)
  then show ?thesis
    using s assms by (simp add: f64_of_int_small)
qed

lemma f64_as_word_mono:
  assumes "f64_le x y"
  shows "(f64_as_word x :: 'a::len word) \<le> f64_as_word y"
proof (cases "(x, y)" rule: f64_le.cases)
  case (5 a b)
  with assms have "\<lfloor>a\<rfloor> \<le> \<lfloor>b\<rfloor>"
    by (auto intro: floor_mono)
  with 5 show ?thesis
    by (auto simp: word_le_def uint_sat_of_int)
qed (use assms in auto)

end
