(* ===== verification/F64_Eval.thy ===== *)
theory F64_Eval
  imports F64
begin

section \<open>Evaluating double arithmetic\<close>

text \<open>
  Code equations for the rounding of quotients of integers.  An operation on two doubles is one
  division of integers and a shift, without the reductions of fractions that rational arithmetic does.
\<close>

subsection \<open>Binary logarithms and powers\<close>

primrec num_log :: "num \<Rightarrow> int" where
  "num_log num.One = 0"
| "num_log (num.Bit0 n) = num_log n + 1"
| "num_log (num.Bit1 n) = num_log n + 1"

lemma zlog2_numeral: "zlog2 (numeral n) = num_log n"
proof (induction n)
  case One
  show ?case
    by (simp add: zlog2.simps [of 1])
next
  case (Bit0 n)
  then show ?case
    by (simp add: zlog2.simps [of "numeral (num.Bit0 n)"])
next
  case (Bit1 n)
  then show ?case
    by (simp add: zlog2.simps [of "numeral (num.Bit1 n)"])
qed

lemma zlog2_code [code]:
  "zlog2 (Int.Pos n) = num_log n" "zlog2 0 = 0" "zlog2 (Int.Neg n) = 0"
  by (simp_all add: zlog2_numeral zlog2.simps [of 0] zlog2.simps [of "- numeral n"])

function two_to :: "int \<Rightarrow> int" where
  "two_to k = (if 0 < k then 2 * two_to (k - 1) else 1)"
  by pat_completeness auto
termination
  by (relation "measure nat") auto

declare two_to.simps [simp del]

lemma two_to: "two_to k = 2 ^ nat k"
proof (induction k rule: two_to.induct)
  case (1 k)
  then show ?case
    by (cases "0 < k") (simp_all add: two_to.simps [of k] nat_diff_distrib flip: power_Suc)
qed

lemma pow2_quot: "pow2 k = of_int (two_to k) / of_int (two_to (- k))"
  by (simp add: pow2_def two_to)

lemma two_to_pos [simp]: "0 < two_to k"
  by (simp add: two_to)

subsection \<open>Rounding a quotient\<close>

definition log_quot :: "int \<Rightarrow> int \<Rightarrow> int" where
  "log_quot a b =
     (let k = zlog2 a - zlog2 b in if two_to k * b \<le> a * two_to (- k) then k else k - 1)"

lemma log_quot:
  assumes "0 < a" and "0 < b"
  shows "ilog2 (of_int a / of_int b) = log_quot a b"
proof -
  define m n where "m = zlog2 a" and "n = zlog2 b"
  let ?q = "rat_of_int a / of_int b"
  have A: "pow2 m \<le> of_int a" "of_int a < 2 * pow2 m"
    and B: "pow2 n \<le> of_int b" "of_int b < 2 * pow2 n"
    using zlog2_bounds [OF assms(1)] zlog2_bounds [OF assms(2)] by (simp_all add: m_def n_def pow2_Suc)
  have P: "pow2 (m - n) * pow2 n = pow2 m"
    using pow2_add [of "m - n" n] by simp
  have b: "0 < rat_of_int b" and q: "0 < ?q"
    using assms by simp_all
  have "2 * pow2 m = 2 * pow2 (m - n) * pow2 n"
    using P by simp
  also have "\<dots> \<le> 2 * pow2 (m - n) * of_int b"
    using B by simp
  finally have "of_int a < 2 * pow2 (m - n) * of_int b"
    using A by linarith
  then have hi: "?q < pow2 (m - n + 1)"
    using b by (simp add: pow2_Suc pos_divide_less_eq)
  have "pow2 (m - n - 1) * of_int b \<le> pow2 (m - n - 1) * (2 * pow2 n)"
    using B by simp
  also have "\<dots> = pow2 m"
    using P pow2_Suc [of "m - n - 1"] by simp
  finally have lo: "pow2 (m - n - 1) \<le> ?q"
    using A b by (simp add: pos_le_divide_eq)
  have le: "two_to (m - n) * b \<le> a * two_to (- (m - n)) \<longleftrightarrow> pow2 (m - n) \<le> ?q"
  proof -
    have "pow2 (m - n) \<le> ?q \<longleftrightarrow> of_int (two_to (m - n) * b) \<le> rat_of_int (a * two_to (- (m - n)))"
      using b by (simp add: pow2_quot divide_le_eq le_divide_eq field_simps)
    then show ?thesis
      by (simp only: of_int_le_iff)
  qed
  show ?thesis
  proof (cases "pow2 (m - n) \<le> ?q")
    case True
    then have "ilog2 ?q = m - n"
      using ilog2_ge [OF q True] ilog2_less [OF q hi] by simp
    with True le show ?thesis
      by (simp add: log_quot_def Let_def flip: m_def n_def)
  next
    case False
    then have "ilog2 ?q = m - n - 1"
      using ilog2_ge [OF q lo] ilog2_less [OF q, of "m - n"] by simp
    with False le show ?thesis
      by (simp add: log_quot_def Let_def flip: m_def n_def)
  qed
qed

definition half_even :: "int \<Rightarrow> int \<Rightarrow> int" where
  "half_even a b =
     (let n = a div b; r = 2 * (a mod b)
      in if r < b then n else if b < r then n + 1 else if even n then n else n + 1)"

lemma half_even:
  assumes "0 < b"
  shows "round_half_even (of_int a / of_int b) = half_even a b"
proof -
  have f: "\<lfloor>rat_of_int a / of_int b\<rfloor> = a div b"
    by (rule floor_divide_of_int_eq)
  have b: "0 < rat_of_int b"
    using assms by simp
  have "rat_of_int a = of_int b * of_int (a div b) + of_int (a mod b)"
    by (metis mult_div_mod_eq of_int_add of_int_mult)
  then have "rat_of_int a / of_int b - of_int (a div b) = of_int (a mod b) / of_int b"
    using b by (simp add: field_simps)
  moreover have "rat_of_int (a mod b) / of_int b < 1 / 2 \<longleftrightarrow> 2 * (a mod b) < b"
  proof -
    have "rat_of_int (a mod b) / of_int b < 1 / 2 \<longleftrightarrow> rat_of_int (2 * (a mod b)) < of_int b"
      using b by (simp add: field_simps)
    then show ?thesis
      by (simp only: of_int_less_iff)
  qed
  moreover have "1 / 2 < rat_of_int (a mod b) / of_int b \<longleftrightarrow> b < 2 * (a mod b)"
  proof -
    have "1 / 2 < rat_of_int (a mod b) / of_int b \<longleftrightarrow> of_int b < rat_of_int (2 * (a mod b))"
      using b by (simp add: field_simps)
    then show ?thesis
      by (simp only: of_int_less_iff)
  qed
  ultimately show ?thesis
    by (simp only: round_half_even_def half_even_def f Let_def)
qed

text \<open>The double \<open>n * 2^k\<close> with its denominator reduced.\<close>

fun halve :: "num \<Rightarrow> int \<Rightarrow> num \<times> int" where
  "halve (num.Bit0 n) j = (if 0 < j then halve n (j - 1) else (num.Bit0 n, j))"
| "halve n j = (n, j)"

definition dyadic :: "num \<Rightarrow> int \<Rightarrow> rat" where
  "dyadic n j = numeral n / of_int (two_to j)"

lemma halve:
  "halve n j = (m, i) \<Longrightarrow> dyadic n j = dyadic m i \<and> (0 < i \<longrightarrow> odd (numeral m :: int))"
proof (induction n j rule: halve.induct)
  case (1 n j)
  show ?case
  proof (cases "0 < j")
    case True
    then have two: "two_to j = 2 * two_to (j - 1)"
      by (simp add: two_to.simps [of j])
    have "dyadic (num.Bit0 n) j = (2 * numeral n) / (2 * of_int (two_to (j - 1)))"
      by (simp only: dyadic_def two numeral_Bit0 [of n] mult_2 of_int_add)
    also have "\<dots> = dyadic n (j - 1)"
      by (simp only: dyadic_def mult_divide_mult_cancel_left [OF zero_neq_numeral [symmetric]])
    finally show ?thesis
      using True 1 by simp
  next
    case False
    with 1(2) show ?thesis
      by auto
  qed
qed auto

lemma quotient_of_dyadic [code abstract]:
  "quotient_of (dyadic n j) = (let (m, i) = halve n j in (numeral m, two_to i))"
proof -
  obtain m i where h: "halve n j = (m, i)"
    by (cases "halve n j")
  have "coprime (numeral m) (two_to i)"
  proof (cases "0 < i")
    case True
    then have "odd (numeral m :: int)"
      using halve [OF h] by blast
    then show ?thesis
      by (simp add: two_to)
  qed (simp add: two_to)
  moreover have "dyadic n j = Fract (numeral m) (two_to i)"
    using halve [OF h] by (simp add: dyadic_def Fract_of_int_quotient)
  ultimately show ?thesis
    by (simp add: h quotient_of_Fract normalize_stable)
qed

text \<open>The value of an integer times a power of two, and what the rounding makes of a quotient.\<close>

definition scaled :: "int \<Rightarrow> int \<Rightarrow> rat" where
  "scaled n k = of_int n * pow2 k"

lemma scaled_code [code]:
  "scaled (Int.Pos n) k = (if 0 \<le> k then of_int (Int.Pos n * two_to k) else dyadic n (- k))"
  "scaled 0 k = 0"
  "scaled (Int.Neg n) k = - scaled (Int.Pos n) k"
  by (simp_all add: scaled_def dyadic_def pow2_def two_to)

definition round_quot :: "int \<Rightarrow> int \<Rightarrow> f64" where
  "round_quot a b = round_f64 (of_int a / of_int b)"

definition round_pos_quot :: "int \<Rightarrow> int \<Rightarrow> int \<times> int" where
  "round_pos_quot a b =
     (let k = max (log_quot a b - 52) (- 1074)
      in (half_even (a * two_to (- k)) (b * two_to k), k))"

lemma round_pos_quot:
  assumes "0 < a" and "0 < b" and "round_pos_quot a b = (n, k)"
  shows "round_pos (of_int a / of_int b) = scaled n k"
proof -
  have k: "quantum (of_int a / of_int b) = pow2 k"
    using assms by (auto simp: round_pos_quot_def Let_def quantum_def log_quot)
  have n: "n = half_even (a * two_to (- k)) (b * two_to k)"
    using assms by (auto simp: round_pos_quot_def Let_def)
  have "rat_of_int a / of_int b / pow2 k = of_int (a * two_to (- k)) / of_int (b * two_to k)"
    by (simp add: pow2_quot)
  then show ?thesis
    using half_even [of "b * two_to k" "a * two_to (- k)"] assms(2)
    by (simp add: round_pos_def k n scaled_def)
qed

lemma round_pos_quot_nonneg:
  assumes "0 < a" and "0 < b" and "round_pos_quot a b = (n, k)"
  shows "0 \<le> n"
proof -
  have "0 \<le> scaled n k"
    using round_pos_quot [OF assms] round_pos_nonneg [of "of_int a / of_int b"] assms(1,2) by simp
  then show ?thesis
    by (metis mult_neg_pos not_le of_int_less_0_iff pow2_pos scaled_def)
qed

lemma ilog2_scaled: "0 < n \<Longrightarrow> ilog2 (scaled n k) = zlog2 n + k"
proof -
  assume n: "0 < n"
  have z: "pow2 (zlog2 n) \<le> of_int n" "of_int n < pow2 (zlog2 n + 1)"
    using zlog2_bounds [OF n] by simp_all
  have "pow2 (zlog2 n + k) \<le> scaled n k"
    using z(1) by (simp add: scaled_def pow2_add)
  moreover have "scaled n k < pow2 (zlog2 n + 1 + k)"
    using z(2) by (simp add: scaled_def pow2_add [of "zlog2 n + 1"])
  moreover have "0 < scaled n k"
    using n by (simp add: scaled_def)
  ultimately show ?thesis
    using ilog2_ge [of "scaled n k" "zlog2 n + k"] ilog2_less [of "scaled n k" "zlog2 n + 1 + k"] by simp
qed

lemma round_quot_code [code]:
  "round_quot a b =
     (if b \<le> 0 then round_f64 (of_int a / of_int b)
      else if a = 0 then Fin 0
      else let (n, k) = round_pos_quot \<bar>a\<bar> b
           in if 0 < n \<and> 1024 \<le> zlog2 n + k then (if 0 < a then PosInf else NegInf)
              else Fin (scaled (if 0 < a then n else - n) k))"
proof (cases "0 < b \<and> a \<noteq> 0")
  case True
  then have b: "0 < b" and a: "a \<noteq> 0"
    by simp_all
  obtain n k where r: "round_pos_quot \<bar>a\<bar> b = (n, k)"
    by (cases "round_pos_quot \<bar>a\<bar> b")
  have pos: "round_pos (of_int \<bar>a\<bar> / of_int b) = scaled n k" and n: "0 \<le> n"
    using round_pos_quot [OF _ b r] round_pos_quot_nonneg [OF _ b r] a by simp_all
  have log: "1024 \<le> ilog2 (scaled n k) \<longleftrightarrow> 0 < n \<and> 1024 \<le> zlog2 n + k"
  proof (cases "n = 0")
    case True
    then show ?thesis
      by (simp add: scaled_def ilog2_def pow2_def zlog2.simps)
  next
    case False
    with n show ?thesis
      by (simp add: ilog2_scaled)
  qed
  have abs: "\<bar>rat_of_int a / of_int b\<bar> = of_int \<bar>a\<bar> / of_int b" and sgn: "0 < rat_of_int a / of_int b \<longleftrightarrow> 0 < a"
    and zero: "rat_of_int a / of_int b \<noteq> 0"
    using a b by (simp_all add: zero_less_divide_iff)
  have "round_f64 (of_int a / of_int b) =
      (if 0 < n \<and> 1024 \<le> zlog2 n + k then (if 0 < a then PosInf else NegInf)
       else Fin (if 0 < a then scaled n k else - scaled n k))"
    by (simp only: round_f64_def zero if_False Let_def abs pos sgn log)
  then show ?thesis
    using a b by (simp add: round_quot_def r scaled_def)
qed (auto simp: round_quot_def round_f64_def)

subsection \<open>The operations\<close>

lemma quotient_of_parts: "quotient_of p = (a, b) \<Longrightarrow> p = of_int a / of_int b \<and> 0 < b"
  using quotient_of_div quotient_of_denom_pos by blast

lemma round_f64_code [code]: "round_f64 p = (let (a, b) = quotient_of p in round_quot a b)"
proof -
  obtain a b where q: "quotient_of p = (a, b)"
    by fastforce
  then have p: "of_int a / of_int b = p"
    using quotient_of_parts by blast
  show ?thesis
    by (simp only: q round_quot_def Let_def prod.case p)
qed

definition round_sum :: "rat \<Rightarrow> rat \<Rightarrow> f64" where
  "round_sum p q = round_f64 (p + q)"

definition round_product :: "rat \<Rightarrow> rat \<Rightarrow> f64" where
  "round_product p q = round_f64 (p * q)"

definition round_ratio :: "rat \<Rightarrow> rat \<Rightarrow> f64" where
  "round_ratio p q = round_f64 (p / q)"

lemma round_sum_code [code]:
  "round_sum p q = (let (a, b) = quotient_of p; (c, d) = quotient_of q in round_quot (a * d + c * b) (b * d))"
proof -
  obtain a b c d where q: "quotient_of p = (a, b)" "quotient_of q = (c, d)"
    by (metis surj_pair)
  note parts = quotient_of_parts [OF q(1)] quotient_of_parts [OF q(2)]
  then have "p + q = of_int (a * d + c * b) / of_int (b * d)"
    by (simp add: field_simps)
  then show ?thesis
    by (simp only: q round_sum_def round_quot_def Let_def prod.case)
qed

lemma round_product_code [code]:
  "round_product p q = (let (a, b) = quotient_of p; (c, d) = quotient_of q in round_quot (a * c) (b * d))"
proof -
  obtain a b c d where q: "quotient_of p = (a, b)" "quotient_of q = (c, d)"
    by (metis surj_pair)
  note parts = quotient_of_parts [OF q(1)] quotient_of_parts [OF q(2)]
  then have "p * q = of_int (a * c) / of_int (b * d)"
    by simp
  then show ?thesis
    by (simp only: q round_product_def round_quot_def Let_def prod.case)
qed

lemma round_ratio_code [code]:
  "round_ratio p q =
     (let (a, b) = quotient_of p; (c, d) = quotient_of q
      in if c < 0 then round_quot (- a * d) (b * - c) else round_quot (a * d) (b * c))"
proof -
  obtain a b c d where q: "quotient_of p = (a, b)" "quotient_of q = (c, d)"
    by (metis surj_pair)
  note parts = quotient_of_parts [OF q(1)] quotient_of_parts [OF q(2)]
  then have "p / q = of_int (a * d) / of_int (b * c)" "p / q = of_int (- a * d) / of_int (b * - c)"
    by simp_all
  then show ?thesis
    by (simp only: q round_ratio_def round_quot_def Let_def prod.case if_cancel)
qed

lemma f64_add_code [code]: "f64_add (Fin a) (Fin b) = round_sum a b"
  by (simp add: round_sum_def)

lemma f64_mul_code [code]: "f64_mul (Fin a) (Fin b) = round_product a b"
  by (simp add: round_product_def)

lemma f64_div_code [code]: "f64_div (Fin a) (Fin b) = (if b = 0 then f64_inf a else round_ratio a b)"
  by (simp add: round_ratio_def)

end
