(* ===== verification/Configs.thy ===== *)
theory Configs
  imports F64_Eval Paths
begin

section \<open>Configuration and poll durations (config.rs)\<close>

text \<open>
  The controller's settings, their validation, the conversion of durations to numbers of polls
  and the loading of JSON documents with an \<open>include\<close> key.  The JSON library and the
  merge-patch crate are arguments.
\<close>

datatype config_error =
    ConfigInvalidValue string
  | NotPollMultiple "string list"
  | ConfigIo io_error
  | ConfigJson string

record config =
  cfg_engine :: string
  cfg_engine_config_dir :: path
  cfg_backend_config_dir :: path
  cfg_vm_state_path :: path
  cfg_min_thread_count :: u32
  cfg_max_thread_count :: u32
  cfg_host_cpu_scale_up_ceiling :: f64
  cfg_cooldown_secs :: u64
  cfg_scale_poll_secs :: u64
  cfg_round_up_durations :: bool
  cfg_enable_per_vm_status_line :: bool
  cfg_enable_per_vm_main_log :: bool
  cfg_enable_aggregate_status_line :: bool
  cfg_print_status_header :: bool
  cfg_max_instances_adjusted_per_poll :: u32
  cfg_experimental_psi_monitoring :: bool
  cfg_refresh_cgroup_on_each_read :: bool
  cfg_dry_run :: bool

definition default_min_thread_count :: u32 where
  "default_min_thread_count = 1"

definition default_max_thread_count :: u32 where
  "default_max_thread_count = 8"

definition default_host_cpu_scale_up_ceiling :: f64 where
  "default_host_cpu_scale_up_ceiling = f64_lit (9 / 10)"

definition default_cooldown_secs :: u64 where
  "default_cooldown_secs = 30"

definition default_max_instances_adjusted_per_poll :: u32 where
  "default_max_instances_adjusted_per_poll = 0"

text \<open>\<open>Config::default()\<close>, for a root path.\<close>

definition config_default :: "path \<Rightarrow> config" where
  "config_default rootp =
     \<lparr>cfg_engine = ''threshold'',
      cfg_engine_config_dir = path_new rootp (parse_path ''/etc/io-thread-controller.d/engines''),
      cfg_backend_config_dir = path_new rootp (parse_path ''/etc/io-thread-controller.d/backends''),
      cfg_vm_state_path = path_new rootp (parse_path ''/run/io-thread-controller/vm-ownership.json''),
      cfg_min_thread_count = 2,
      cfg_max_thread_count = 8,
      cfg_host_cpu_scale_up_ceiling = f64_lit (9 / 10),
      cfg_cooldown_secs = default_cooldown_secs,
      cfg_scale_poll_secs = 10,
      cfg_round_up_durations = False,
      cfg_enable_per_vm_status_line = False,
      cfg_enable_per_vm_main_log = False,
      cfg_enable_aggregate_status_line = True,
      cfg_print_status_header = False,
      cfg_max_instances_adjusted_per_poll = default_max_instances_adjusted_per_poll,
      cfg_experimental_psi_monitoring = False,
      cfg_refresh_cgroup_on_each_read = False,
      cfg_dry_run = False\<rparr>"

subsection \<open>Durations as numbers of polls\<close>

record poll_period =
  pp_secs :: u64
  pp_round_up :: bool

text \<open>\<open>PollPeriod::new\<close> panics on a zero period, which is \<open>None\<close> here.\<close>

definition poll_period_new :: "u64 \<Rightarrow> bool \<Rightarrow> poll_period option" where
  "poll_period_new secs round_up =
     (if secs = 0 then None else Some \<lparr>pp_secs = secs, pp_round_up = round_up\<rparr>)"

record poll_converter =
  pc_poll :: poll_period
  pc_errors :: "string list"

definition converter_new :: "poll_period \<Rightarrow> poll_converter" where
  "converter_new p = \<lparr>pc_poll = p, pc_errors = []\<rparr>"

definition converter_period :: "poll_converter \<Rightarrow> duration" where
  "converter_period c = duration_from_secs (pp_secs (pc_poll c))"

definition push_error :: "string \<Rightarrow> poll_converter \<Rightarrow> poll_converter" where
  "push_error e c = c\<lparr>pc_errors := pc_errors c @ [e]\<rparr>"

text \<open>\<open>PollConverter::polls\<close>: the number of polls, the duration in effect and the converter
  with the errors collected so far.\<close>

definition polls :: "string \<Rightarrow> u64 \<Rightarrow> poll_converter \<Rightarrow> u32 \<times> u64 \<times> poll_converter" where
  "polls name secs c =
     (let period = pp_secs (pc_poll c);
          n = secs div period;
          finish = (\<lambda>n secs. case u32_try_from n of
              Some n \<Rightarrow> (n, secs, c)
            | None \<Rightarrow> (0, secs, push_error
                (name @ '' ('' @ show_word secs @ '') spans too many polls'') c))
      in if secs mod period \<noteq> 0 then
           let below = n * period;
               above = sat_add below period
           in if \<not> pp_round_up (pc_poll c) then
                (0, secs, push_error
                   (name @ '' ('' @ show_word secs @ '') is not a multiple of scale_poll_secs ('' @
                    show_word period @ ''); nearest valid values: '' @ show_word below @ '' or '' @
                    show_word above) c)
              else finish (n + 1) above
         else finish n secs)"

definition converter_finish :: "poll_converter \<Rightarrow> config_error + unit" where
  "converter_finish c = (if pc_errors c = [] then Inr () else Inl (NotPollMultiple (pc_errors c)))"

text \<open>Percentages of the JSON documents are fractions in memory.\<close>

definition deserialize_percent :: "f64 \<Rightarrow> f64" where
  "deserialize_percent x = f64_div x (Fin 100)"

definition serialize_percent :: "f64 \<Rightarrow> f64" where
  "serialize_percent x = f64_mul x (Fin 100)"

definition config_poll_period :: "config \<Rightarrow> poll_period option" where
  "config_poll_period cfg = poll_period_new (cfg_scale_poll_secs cfg) (cfg_round_up_durations cfg)"

text \<open>\<open>validate_config\<close>: the configuration with rounded durations and the converter that
  carries the errors on to the engine.  The panic of a zero period cannot be reached.\<close>

definition validate_config :: "config \<Rightarrow> config_error + config \<times> poll_converter" where
  "validate_config cfg =
     (if cfg_scale_poll_secs cfg = 0
      then Inl (ConfigInvalidValue ''scale_poll_secs must be > 0'')
      else if cfg_engine cfg = []
      then Inl (ConfigInvalidValue ''engine must be non-empty'')
      else if \<not> (0 < cfg_min_thread_count cfg \<and> cfg_min_thread_count cfg \<le> cfg_max_thread_count cfg)
      then Inl (ConfigInvalidValue
        ''thread-count bounds must satisfy 0 < min_thread_count <= max_thread_count'')
      else if \<not> (f64_is_finite (cfg_host_cpu_scale_up_ceiling cfg) \<and>
                 f64_in (cfg_host_cpu_scale_up_ceiling cfg) 0 1)
      then Inl (ConfigInvalidValue ''host_cpu_scale_up_ceiling_percent must be in [0, 100]'')
      else case config_poll_period cfg of
             None \<Rightarrow> Inl (ConfigInvalidValue ''poll period must be non-zero'')
           | Some p \<Rightarrow>
               (case polls ''cooldown_secs'' (cfg_cooldown_secs cfg) (converter_new p) of
                  (_, secs, c) \<Rightarrow> Inr (cfg\<lparr>cfg_cooldown_secs := secs\<rparr>, c)))"

subsection \<open>Documents with an include key\<close>

text \<open>
  \<open>load_config_value\<close>.  \<open>parse\<close> is the deserialisation of the envelope: the
  \<open>include\<close> path and the remaining object.  \<open>merge\<close> is \<open>json_patch::merge\<close>
  and \<open>empty_obj\<close> the empty object.  The recursion follows the chain of includes and need not
  end; \<open>None\<close> is a chain longer than the fuel.  The included path is resolved against
  \<open>Path::new(\".\").parent()\<close>, which is the empty path: the variable holding the path of
  the including file is shadowed.
\<close>

definition include_base :: path where
  "include_base = (case path_parent [CurDir] of None \<Rightarrow> [CurDir] | Some p \<Rightarrow> p)"

fun load_config_value ::
  "nat \<Rightarrow> path \<Rightarrow> (string \<Rightarrow> string + (string option \<times> 'j)) \<Rightarrow> ('j \<Rightarrow> 'j \<Rightarrow> 'j) \<Rightarrow> 'j \<Rightarrow>
   (path \<Rightarrow> io_error option) \<Rightarrow> file_system \<Rightarrow> path \<Rightarrow> (config_error + 'j) option"
where
  "load_config_value 0 rootp parse merge empty_obj faults fs p = None"
| "load_config_value (Suc n) rootp parse merge empty_obj faults fs p =
     (case fs_read (faults p) fs p of
        Inl e \<Rightarrow> Some (Inl (ConfigIo e))
      | Inr data \<Rightarrow>
     (case parse data of
        Inl e \<Rightarrow> Some (Inl (ConfigJson e))
      | Inr (None, rest) \<Rightarrow> Some (Inr (merge empty_obj rest))
      | Inr (Some rel, rest) \<Rightarrow>
          map_option (result_map (\<lambda>base. merge base rest))
            (load_config_value n rootp parse merge empty_obj faults fs
               (path_new rootp (path_join include_base (parse_path rel))))))"

definition load_json_with_includes ::
  "('j \<Rightarrow> string + 'a) \<Rightarrow> nat \<Rightarrow> path \<Rightarrow> (string \<Rightarrow> string + (string option \<times> 'j)) \<Rightarrow>
   ('j \<Rightarrow> 'j \<Rightarrow> 'j) \<Rightarrow> 'j \<Rightarrow> (path \<Rightarrow> io_error option) \<Rightarrow> file_system \<Rightarrow> path \<Rightarrow>
   (config_error + 'a) option"
where
  "load_json_with_includes from_value n rootp parse merge empty_obj faults fs p =
     map_option (\<lambda>r. result_bind r (\<lambda>v. result_map_err ConfigJson (from_value v)))
       (load_config_value n rootp parse merge empty_obj faults fs p)"

subsection \<open>Lemmas\<close>

lemma u64_mod_0: "(s :: u64) mod p = 0 \<longleftrightarrow> uint s mod uint p = 0"
  by (simp add: word_uint_eq_iff uint_mod)

lemma polls_errors_grow:
  "polls name secs c = (n, secs', c') \<Longrightarrow>
   pc_poll c' = pc_poll c \<and> (\<exists>es. pc_errors c' = pc_errors c @ es)"
  by (auto simp: polls_def push_error_def Let_def split: if_splits option.splits)

lemma ceiling_div_step:
  fixes s p :: int
  assumes "0 < p" and "s mod p \<noteq> 0"
  shows "(s + p - 1) div p = s div p + 1"
proof -
  have "0 \<le> s mod p - 1" and "s mod p - 1 < p"
    using assms pos_mod_bound [of p s] pos_mod_sign [of p s] by linarith+
  then have "(s mod p - 1) div p = 0"
    by simp
  moreover have "s + p - 1 = (s mod p - 1) + (s div p + 1) * p"
    using div_mult_mod_eq [of s p] by (simp add: algebra_simps)
  ultimately show ?thesis
    using assms(1) by (metis add.left_neutral div_mult_self1 less_irrefl add.commute)
qed

lemma ceiling_div_exact:
  fixes s p :: int
  assumes "0 < p" and "s mod p = 0"
  shows "(s + p - 1) div p = s div p"
proof -
  have "s + p - 1 = (p - 1) + (s div p) * p"
    using assms div_mult_mod_eq [of s p] by simp
  moreover have "(p - 1) div p = 0"
    using assms by simp
  ultimately show ?thesis
    using assms(1) by (metis add.left_neutral div_mult_self1 less_irrefl add.commute)
qed

text \<open>What a conversion that recorded no error returned.\<close>

lemma polls_no_error:
  assumes "polls name secs c = (n, secs', c')" and "pc_errors c' = pc_errors c"
    and "0 < pp_secs (pc_poll c)"
  defines "p \<equiv> uint (pp_secs (pc_poll c))"
  shows "uint n = (uint secs + p - 1) div p"
    and "uint secs' = min (uint n * p) (2 ^ 64 - 1)"
    and "secs mod pp_secs (pc_poll c) \<noteq> 0 \<Longrightarrow> pp_round_up (pc_poll c)"
proof -
  have p: "0 < p"
    using assms(3) by (simp add: p_def word_less_def)
  have top: "word_top TYPE(64) = 2 ^ 64 - 1"
    by (simp add: word_top_def)
  have s: "0 \<le> uint secs" "uint secs \<le> 2 ^ 64 - 1"
    using uint_ge_0 uint_le_top [of secs] by (simp_all only: top)
  have le: "uint secs div p * p \<le> uint secs"
    using p div_mult_mod_eq [of "uint secs" p] pos_mod_sign [of p "uint secs"] by linarith
  have below: "uint (secs div pp_secs (pc_poll c) * pp_secs (pc_poll c)) = uint secs div p * p"
    using le s p by (simp add: uint_word_ariths uint_div p_def pos_imp_zdiv_nonneg_iff)
  show "secs mod pp_secs (pc_poll c) \<noteq> 0 \<Longrightarrow> pp_round_up (pc_poll c)"
    using assms(1,2) by (auto simp: polls_def Let_def push_error_def split: if_splits)
  have "uint n = (uint secs + p - 1) div p \<and> uint secs' = min (uint n * p) (2 ^ 64 - 1)"
  proof (cases "secs mod pp_secs (pc_poll c) = 0")
    case True
    then have "uint n = uint secs div p" "secs' = secs" "uint secs mod p = 0"
      using assms(1,2)
      by (auto simp: polls_def Let_def push_error_def u32_try_from_Some u64_mod_0 uint_div p_def
          split: option.splits)
    then show ?thesis
      using p s div_mult_mod_eq [of "uint secs" p] by (simp add: ceiling_div_exact)
  next
    case False
    then have m: "uint secs mod p \<noteq> 0"
      by (simp add: u64_mod_0 p_def)
    then have "p \<noteq> 1"
      by auto
    with p have "2 \<le> p"
      by simp
    then have "uint secs div p * 2 \<le> uint secs div p * p"
      using s p by (intro mult_left_mono) (auto simp: pos_imp_zdiv_nonneg_iff)
    with le s have "uint secs div p + 1 < 2 ^ 64"
      by simp
    then have n1: "uint (secs div pp_secs (pc_poll c) + 1) = uint secs div p + 1"
      using p s by (simp add: uint_word_ariths uint_div p_def pos_imp_zdiv_nonneg_iff)
    have "uint n = uint secs div p + 1"
      "secs' = sat_add (secs div pp_secs (pc_poll c) * pp_secs (pc_poll c)) (pp_secs (pc_poll c))"
      using False assms(1,2) n1
      by (auto simp: polls_def Let_def push_error_def u32_try_from_Some split: option.splits if_splits)
    then show ?thesis
      using ceiling_div_step [OF p m] below
      by (simp add: uint_sat_add top algebra_simps flip: p_def)
  qed
  then show "uint n = (uint secs + p - 1) div p" and "uint secs' = min (uint n * p) (2 ^ 64 - 1)"
    by simp_all
qed

subsection \<open>Properties\<close>

text \<open>
  Durations are converted exactly or rejected.  A duration that raises no error spans
  \<open>n\<close> polls, the quotient rounded up, and the duration in effect is \<open>n\<close> poll
  periods (clipped to the width); without \<open>round_up_durations\<close> it is left as configured
  and is a multiple of the period.
\<close>

lemma polls_exact:
  assumes "polls name secs c = (n, secs', c')" and "pc_errors c' = pc_errors c"
    and "0 < pp_secs (pc_poll c)"
  shows "uint n = (uint secs + uint (pp_secs (pc_poll c)) - 1) div uint (pp_secs (pc_poll c)) \<and>
    uint secs' = min (uint n * uint (pp_secs (pc_poll c))) (2 ^ 64 - 1) \<and>
    (pp_round_up (pc_poll c) \<or> secs' = secs)"
proof -
  have "pp_round_up (pc_poll c) \<or> secs' = secs"
  proof (cases "secs mod pp_secs (pc_poll c) = 0")
    case True
    with assms(1) show ?thesis
      by (auto simp: polls_def Let_def split: option.splits)
  next
    case False
    with polls_no_error(3) [OF assms] show ?thesis
      by simp
  qed
  with polls_no_error(1,2) [OF assms] show ?thesis
    by blast
qed

lemma polls_exact_witness:
  "uint (fst (polls ''cooldown_secs'' 25 (converter_new \<lparr>pp_secs = 10, pp_round_up = True\<rparr>))) = 3"
  using polls_exact [of "''cooldown_secs''" 25 "converter_new \<lparr>pp_secs = 10, pp_round_up = True\<rparr>"
      3 30 "converter_new \<lparr>pp_secs = 10, pp_round_up = True\<rparr>"]
  by (simp add: polls_def converter_new_def u32_try_from_def sat_add_def sat_of_int_def word_top_def)

lemma u32_try_from_None: "u32_try_from n = None \<longleftrightarrow> 2 ^ 32 \<le> uint n"
  by (auto simp: u32_try_from_def)

lemma f64_in_finite: "f64_in x lo hi \<Longrightarrow> f64_is_finite x"
  using f64_in_Fin by fastforce

lemma validate_config_Inr:
  "validate_config cfg = Inr (cfg', c) \<longleftrightarrow>
   0 < cfg_scale_poll_secs cfg \<and> cfg_engine cfg \<noteq> [] \<and>
   0 < cfg_min_thread_count cfg \<and> cfg_min_thread_count cfg \<le> cfg_max_thread_count cfg \<and>
   f64_in (cfg_host_cpu_scale_up_ceiling cfg) 0 1 \<and>
   (\<exists>n secs. polls ''cooldown_secs'' (cfg_cooldown_secs cfg)
        \<lparr>pc_poll = \<lparr>pp_secs = cfg_scale_poll_secs cfg, pp_round_up = cfg_round_up_durations cfg\<rparr>,
         pc_errors = []\<rparr> = (n, secs, c) \<and>
      cfg' = cfg\<lparr>cfg_cooldown_secs := secs\<rparr>)"
  using f64_in_finite [of 0 "cfg_host_cpu_scale_up_ceiling cfg" 1]
  by (cases "polls ''cooldown_secs'' (cfg_cooldown_secs cfg)
        \<lparr>pc_poll = \<lparr>pp_secs = cfg_scale_poll_secs cfg, pp_round_up = cfg_round_up_durations cfg\<rparr>,
         pc_errors = []\<rparr>")
    (auto simp: validate_config_def config_poll_period_def poll_period_new_def converter_new_def
      word_neq_0_conv)

end
