(* ===== verification/Clients.thy ===== *)
theory Clients
  imports Configs
begin

section \<open>Backend clients (backends/mod.rs, instance.rs)\<close>

text \<open>
  The error and argument types of the per-VM backend clients and the \<open>InstanceClient\<close>
  trait: a dictionary of operations over a client state \<open>'c\<close>, each returning its result and
  the state after the call.  Errors of third-party crates carry their rendered text.
\<close>

record vq_mapping =
  vm_iothread :: string
  vm_vqs :: "u16 list"

record io_thread_properties =
  ip_poll_max_ns :: "i64 option"
  ip_poll_grow :: "i64 option"
  ip_poll_shrink :: "i64 option"
  ip_aio_max_batch :: "i64 option"
  ip_thread_pool_min :: "i64 option"
  ip_thread_pool_max :: "i64 option"

definition io_thread_properties_default :: io_thread_properties where
  "io_thread_properties_default = \<lparr>ip_poll_max_ns = None, ip_poll_grow = None,
     ip_poll_shrink = None, ip_aio_max_batch = None, ip_thread_pool_min = None,
     ip_thread_pool_max = None\<rparr>"

datatype backend_client_error =
    ClientClap string
  | ClientConfig config_error
  | ClientInstance string
  | NotSupported string
  | Disconnected string
  | ClientJson string
  | Transport string
  | QmpError string string string
  | Protocol string
  | InvalidState string
  | ClientProcfs
  | ClientZbus string

fun show_config_error :: "config_error \<Rightarrow> string" where
  "show_config_error (ConfigInvalidValue s) = ''invalid configuration value: '' @ s"
| "show_config_error (NotPollMultiple es) =
     ''durations must be multiples of scale_poll_secs (set round_up_durations or pass --round-up-durations to round them up):''
     @ [CHR 0x0A] @ ''  '' @ join ([CHR 0x0A] @ ''  '') es"
| "show_config_error (ConfigIo e) = show_io_error e"
| "show_config_error (ConfigJson s) = s"

text \<open>The \<open>Display\<close> implementation thiserror derives.\<close>

fun show_client_error :: "backend_client_error \<Rightarrow> string" where
  "show_client_error (ClientClap s) = s"
| "show_client_error (ClientConfig e) = show_config_error e"
| "show_client_error (ClientInstance s) = s"
| "show_client_error (NotSupported s) = ''operation not supported on this backend: '' @ s"
| "show_client_error (Disconnected s) = ''disconnected: '' @ s"
| "show_client_error (ClientJson s) = s"
| "show_client_error (Transport s) = ''transport: '' @ s"
| "show_client_error (QmpError cmd cls desc) =
     ''qmp '' @ cmd @ '' error: '' @ cls @ '': '' @ desc"
| "show_client_error (Protocol s) = s"
| "show_client_error (InvalidState s) = s"
| "show_client_error ClientProcfs = ''proc error''"
| "show_client_error (ClientZbus s) = s"

text \<open>Transport failures: the kinds that mean the peer went away become \<open>Disconnected\<close>.\<close>

datatype io_kind =
    BrokenPipe | ConnectionReset | ConnectionAborted | UnexpectedEof | KindNotFound
  | WouldBlock | InvalidData | OtherKind

definition is_peer_disconnect_kind :: "io_kind \<Rightarrow> bool" where
  "is_peer_disconnect_kind k =
     (k \<in> {BrokenPipe, ConnectionReset, ConnectionAborted, UnexpectedEof, KindNotFound})"

definition from_transport_io :: "string \<Rightarrow> io_kind \<times> string \<Rightarrow> backend_client_error" where
  "from_transport_io ctxt e = (case e of (k, text) \<Rightarrow>
     let message = ctxt @ '': '' @ text
     in if is_peer_disconnect_kind k then Disconnected message else Transport message)"

definition client_error_from_io :: "io_kind \<times> string \<Rightarrow> backend_client_error" where
  "client_error_from_io e = (case e of (k, text) \<Rightarrow>
     if is_peer_disconnect_kind k then Disconnected text else Transport text)"

subsection \<open>Snapshots\<close>

record snapshot_latency =
  lat_p50 :: u64
  lat_p95 :: u64
  lat_p99 :: u64
  lat_avg :: u64

record perf_sample =
  perf_read_io_count :: u64
  perf_write_io_count :: u64
  perf_other_io_count :: u64
  perf_read_bytes_total :: u64
  perf_write_bytes_total :: u64
  perf_read_seq_ops :: u64
  perf_read_rand_ops :: u64
  perf_write_seq_ops :: u64
  perf_write_rand_ops :: u64
  perf_small_ops :: u64
  perf_large_ops :: u64
  perf_read_latency_us :: "snapshot_latency option"
  perf_write_latency_us :: "snapshot_latency option"
  perf_per_vq_depth :: "u64 list option"

definition total_io_count :: "perf_sample \<Rightarrow> u64" where
  "total_io_count p =
     sat_add (sat_add (perf_read_io_count p) (perf_write_io_count p)) (perf_other_io_count p)"

record thread_pool_snapshot =
  tps_thread_count :: u32
  tps_vcpu_count :: u32
  tps_perf :: "perf_sample option"
  tps_per_thread_util :: "f64 option"

subsection \<open>The client trait\<close>

record 'c client_ops =
  op_set_thread_count :: "u32 \<Rightarrow> 'c \<Rightarrow> (backend_client_error + unit) \<times> 'c"
  op_get_thread_pool_snapshot :: "'c \<Rightarrow> (backend_client_error + thread_pool_snapshot) \<times> 'c"
  op_initial_pool_is_managed :: "u32 \<Rightarrow> u32 \<Rightarrow> 'c \<Rightarrow> bool"
  op_close :: "'c \<Rightarrow> 'c"
  op_add_io_thread ::
    "string \<Rightarrow> io_thread_properties option \<Rightarrow> 'c \<Rightarrow> (backend_client_error + unit) \<times> 'c"
  op_del_io_thread :: "string \<Rightarrow> 'c \<Rightarrow> (backend_client_error + unit) \<times> 'c"
  op_set_io_thread_vq_mapping ::
    "string \<Rightarrow> vq_mapping list \<Rightarrow> 'c \<Rightarrow> (backend_client_error + unit) \<times> 'c"
  op_get_io_thread_vq_mapping ::
    "string \<Rightarrow> 'c \<Rightarrow> (backend_client_error + vq_mapping list) \<times> 'c"

text \<open>The provided methods of the trait: what an implementation that overrides none of them
  does, given its three required methods.\<close>

definition client_defaults ::
  "(u32 \<Rightarrow> 'c \<Rightarrow> (backend_client_error + unit) \<times> 'c) \<Rightarrow>
   ('c \<Rightarrow> (backend_client_error + thread_pool_snapshot) \<times> 'c) \<Rightarrow> ('c \<Rightarrow> 'c) \<Rightarrow> 'c client_ops"
where
  "client_defaults set_count snapshot close =
     \<lparr>op_set_thread_count = set_count,
      op_get_thread_pool_snapshot = snapshot,
      op_initial_pool_is_managed = (\<lambda>_ _ _. True),
      op_close = close,
      op_add_io_thread = (\<lambda>_ _ c. (Inl (NotSupported ''add IOThread''), c)),
      op_del_io_thread = (\<lambda>_ c. (Inl (NotSupported ''delete IOThread''), c)),
      op_set_io_thread_vq_mapping =
        (\<lambda>_ _ c. (Inl (NotSupported ''set IOThread virtqueue mapping''), c)),
      op_get_io_thread_vq_mapping =
        (\<lambda>_ c. (Inl (NotSupported ''get IOThread virtqueue mapping''), c))\<rparr>"

text \<open>
  \<open>impl InstanceClient for Box<T>\<close> forwards four methods and inherits the provided ones.
  \<open>Instance::client\<close> is a \<open>Box<dyn InstanceClient>\<close>, so every call the controller
  makes on it selects this implementation.
\<close>

definition box_client :: "'c client_ops \<Rightarrow> 'c client_ops" where
  "box_client inner =
     (client_defaults (op_set_thread_count inner) (op_get_thread_pool_snapshot inner)
        (op_close inner))\<lparr>op_initial_pool_is_managed := op_initial_pool_is_managed inner\<rparr>"

end
