(* ===== verification/Rolling.thy ===== *)
theory Rolling
  imports F64_Eval Texts
begin

section \<open>Rolling 1m/5m/15m metrics (rolling.rs)\<close>

text \<open>
  The bounded per-VM history: one sample per successful sampling interval, the baseline of the
  cumulative counters, and the averages over a window.  The kernel tick rate
  (\<open>TICKS_PER_SECOND\<close>, read through the procfs crate) is the argument \<open>tps\<close>.
\<close>

definition max_window :: duration where
  "max_window = 15 * 60 * nanos_per_sec"

record tick_sample =
  ts_wall_ts :: instant
  ts_io_ops_delta :: u64
  ts_cpu_ns_delta :: u64
  ts_wall_dt_ns :: u64

text \<open>The deque's front is the head of the list.\<close>

record rolling_metrics =
  rm_samples :: "tick_sample list"
  rm_previous_wall_ts :: "instant option"
  rm_previous_io_ops :: "u64 option"
  rm_previous_cpu_ticks :: "u64 option"

definition rolling_new :: rolling_metrics where
  "rolling_new = \<lparr>rm_samples = [], rm_previous_wall_ts = None,
     rm_previous_io_ops = None, rm_previous_cpu_ticks = None\<rparr>"

definition set_baseline :: "instant \<Rightarrow> u64 \<Rightarrow> u64 \<Rightarrow> rolling_metrics \<Rightarrow> rolling_metrics" where
  "set_baseline now io_ops cpu_ticks m =
     m\<lparr>rm_previous_wall_ts := Some now, rm_previous_io_ops := Some io_ops,
       rm_previous_cpu_ticks := Some cpu_ticks\<rparr>"

definition set_backend_baseline :: "instant \<Rightarrow> u64 \<Rightarrow> rolling_metrics \<Rightarrow> rolling_metrics" where
  "set_backend_baseline now io_ops m =
     m\<lparr>rm_previous_wall_ts := Some now, rm_previous_io_ops := Some io_ops,
       rm_previous_cpu_ticks := None\<rparr>"

text \<open>The \<open>while\<close> loop that pops the front of the deque.\<close>

fun pop_before :: "instant \<Rightarrow> tick_sample list \<Rightarrow> tick_sample list" where
  "pop_before cutoff [] = []"
| "pop_before cutoff (s # ss) =
     (if ts_wall_ts s < cutoff then pop_before cutoff ss else s # ss)"

definition trim_samples :: "instant \<Rightarrow> tick_sample list \<Rightarrow> tick_sample list" where
  "trim_samples now ss =
     (case instant_checked_sub now max_window of
        None \<Rightarrow> ss
      | Some cutoff \<Rightarrow> pop_before cutoff ss)"

definition trim_rolling :: "instant \<Rightarrow> rolling_metrics \<Rightarrow> rolling_metrics" where
  "trim_rolling now m = m\<lparr>rm_samples := trim_samples now (rm_samples m)\<rparr>"

definition push_back :: "tick_sample \<Rightarrow> rolling_metrics \<Rightarrow> rolling_metrics" where
  "push_back s m = m\<lparr>rm_samples := rm_samples m @ [s]\<rparr>"

definition push_from_procfs_delta ::
  "f64 \<Rightarrow> instant \<Rightarrow> u64 \<Rightarrow> u64 \<Rightarrow> rolling_metrics \<Rightarrow> rolling_metrics" where
  "push_from_procfs_delta tps now io_ops cpu_ticks m =
     (case rm_previous_wall_ts m of
        None \<Rightarrow> set_baseline now io_ops cpu_ticks m
      | Some previous_wall_ts \<Rightarrow>
     (case (rm_previous_io_ops m, rm_previous_cpu_ticks m) of
        (Some previous_io_ops, Some previous_cpu_ticks) \<Rightarrow>
     (case checked_duration_since now previous_wall_ts of
        None \<Rightarrow> set_baseline now io_ops cpu_ticks m
      | Some elapsed \<Rightarrow>
          if io_ops < previous_io_ops \<or> cpu_ticks < previous_cpu_ticks
          then set_baseline now io_ops cpu_ticks m
          else
            let cpu_tick_delta = cpu_ticks - previous_cpu_ticks;
                cpu_ns_delta = f64_as_word
                  (f64_div (f64_mul (f64_of_word cpu_tick_delta) (f64_lit 1000000000)) tps)
            in trim_rolling now (set_baseline now io_ops cpu_ticks
                 (push_back \<lparr>ts_wall_ts = now, ts_io_ops_delta = io_ops - previous_io_ops,
                    ts_cpu_ns_delta = cpu_ns_delta, ts_wall_dt_ns = nanos_u64 elapsed\<rparr> m)))
      | _ \<Rightarrow> set_baseline now io_ops cpu_ticks m))"

definition push_from_backend_util ::
  "instant \<Rightarrow> u64 \<Rightarrow> f64 \<Rightarrow> u32 \<Rightarrow> rolling_metrics \<Rightarrow> rolling_metrics" where
  "push_from_backend_util now io_ops per_thread_util thread_count m =
     (case (rm_previous_wall_ts m, rm_previous_io_ops m) of
        (Some previous_wall_ts, Some previous_io_ops) \<Rightarrow>
     (case checked_duration_since now previous_wall_ts of
        None \<Rightarrow> set_backend_baseline now io_ops m
      | Some elapsed \<Rightarrow>
          if io_ops < previous_io_ops then set_backend_baseline now io_ops m
          else
            let wall_dt_ns = nanos_u64 elapsed;
                cpu_ns_delta = f64_as_word (f64_min
                  (f64_mul (f64_mul (f64_of_word wall_dt_ns)
                     (f64_clamp per_thread_util (Fin 0) (Fin 1))) (f64_of_word thread_count))
                  (f64_of_word (- 1 :: u64)))
            in trim_rolling now (set_backend_baseline now io_ops
                 (push_back \<lparr>ts_wall_ts = now, ts_io_ops_delta = io_ops - previous_io_ops,
                    ts_cpu_ns_delta = cpu_ns_delta, ts_wall_dt_ns = wall_dt_ns\<rparr> m)))
      | _ \<Rightarrow> set_backend_baseline now io_ops m)"

definition push_delta :: "instant \<Rightarrow> u64 \<Rightarrow> u64 \<Rightarrow> rolling_metrics \<Rightarrow> rolling_metrics" where
  "push_delta now io_ops_delta cpu_ns_delta m =
     (case rm_previous_wall_ts m of
        None \<Rightarrow> m\<lparr>rm_previous_wall_ts := Some now\<rparr>
      | Some previous_wall_ts \<Rightarrow>
     (case checked_duration_since now previous_wall_ts of
        None \<Rightarrow> m\<lparr>rm_previous_wall_ts := Some now\<rparr>
      | Some elapsed \<Rightarrow>
          trim_rolling now ((push_back \<lparr>ts_wall_ts = now, ts_io_ops_delta = io_ops_delta,
              ts_cpu_ns_delta = cpu_ns_delta, ts_wall_dt_ns = nanos_u64 elapsed\<rparr> m)
            \<lparr>rm_previous_wall_ts := Some now\<rparr>)))"

definition last_delta :: "rolling_metrics \<Rightarrow> (u64 \<times> u64) option" where
  "last_delta m = (if rm_samples m = [] then None
     else Some (ts_io_ops_delta (last (rm_samples m)), ts_cpu_ns_delta (last (rm_samples m))))"

text \<open>The samples inside \<open>window\<close> of the newest one, and their saturating sums.\<close>

definition in_window :: "duration \<Rightarrow> instant \<Rightarrow> tick_sample list \<Rightarrow> tick_sample list" where
  "in_window window newest ss =
     filter (\<lambda>s. case instant_checked_sub newest window of
               None \<Rightarrow> True | Some cutoff \<Rightarrow> cutoff \<le> ts_wall_ts s) ss"

definition add_sample :: "u64 \<times> u64 \<times> u64 \<Rightarrow> tick_sample \<Rightarrow> u64 \<times> u64 \<times> u64" where
  "add_sample acc s = (case acc of (io_ops, cpu_ns, wall_ns) \<Rightarrow>
     (sat_add io_ops (ts_io_ops_delta s), sat_add cpu_ns (ts_cpu_ns_delta s),
      sat_add wall_ns (ts_wall_dt_ns s)))"

definition totals :: "duration \<Rightarrow> rolling_metrics \<Rightarrow> (u64 \<times> u64 \<times> u64) option" where
  "totals window m = (if rm_samples m = [] then None
     else Some (foldl add_sample (0, 0, 0)
            (in_window window (ts_wall_ts (last (rm_samples m))) (rm_samples m))))"

definition iops_over :: "duration \<Rightarrow> rolling_metrics \<Rightarrow> u64 option" where
  "iops_over window m =
     (case totals window m of
        None \<Rightarrow> None
      | Some (io_ops, _, wall_ns) \<Rightarrow>
          if 0 < wall_ns then Some (sat_of_int (uint io_ops * 1000000000 div uint wall_ns))
          else None)"

definition cpu_us_per_io_over :: "duration \<Rightarrow> rolling_metrics \<Rightarrow> u64 option" where
  "cpu_us_per_io_over window m =
     (case totals window m of
        None \<Rightarrow> None
      | Some (io_ops, cpu_ns, _) \<Rightarrow>
          if 0 < io_ops then Some (cpu_ns div io_ops div 1000) else None)"

definition rolling_len :: "rolling_metrics \<Rightarrow> nat" where
  "rolling_len m = length (rm_samples m)"

definition rolling_is_empty :: "rolling_metrics \<Rightarrow> bool" where
  "rolling_is_empty m = (rm_samples m = [])"

definition minutes :: "int \<Rightarrow> duration" where
  "minutes n = n * 60 * nanos_per_sec"

definition optional_cell :: "u64 option \<Rightarrow> string" where
  "optional_cell v = (case v of None \<Rightarrow> ''-'' | Some n \<Rightarrow> show_word n)"

definition format_1_5_15 ::
  "(duration \<Rightarrow> rolling_metrics \<Rightarrow> u64 option) \<Rightarrow> string \<Rightarrow> rolling_metrics \<Rightarrow> string" where
  "format_1_5_15 getter sep m =
     join sep (map (\<lambda>n. optional_cell (getter (minutes n) m)) [1, 5, 15])"

subsection \<open>Saturating sums\<close>

definition total_of :: "(tick_sample \<Rightarrow> u64) \<Rightarrow> tick_sample list \<Rightarrow> int" where
  "total_of f ss = sum_list (map (\<lambda>s. uint (f s)) ss)"

lemma total_of_simps [simp]:
  "total_of f [] = 0"
  "total_of f (s # ss) = uint (f s) + total_of f ss"
  "total_of f (ss @ ss') = total_of f ss + total_of f ss'"
  by (simp_all add: total_of_def)

lemma total_of_nonneg [simp]: "0 \<le> total_of f ss"
  by (auto simp: total_of_def intro!: sum_list_nonneg)

text \<open>The fold of saturating additions is the exact sum, clipped.\<close>

lemma foldl_add_sample:
  "foldl add_sample (a, b, c) ss =
     (sat_of_int (uint a + total_of ts_io_ops_delta ss),
      sat_of_int (uint b + total_of ts_cpu_ns_delta ss),
      sat_of_int (uint c + total_of ts_wall_dt_ns ss))"
proof (induction ss arbitrary: a b c)
  case Nil
  then show ?case
    by (simp add: word_uint_eq_iff word_int)
next
  case (Cons s ss)
  have sat: "sat_of_int (uint (sat_add x y) + k) = (sat_of_int (uint x + (uint y + k)) :: u64)"
    if "0 \<le> k" for x y :: u64 and k
    using that uint_ge_0 [of x] uint_ge_0 [of y]
    by (simp add: word_uint_eq_iff word_int)
  have "foldl add_sample (a, b, c) (s # ss) =
      foldl add_sample (sat_add a (ts_io_ops_delta s), sat_add b (ts_cpu_ns_delta s),
        sat_add c (ts_wall_dt_ns s)) ss"
    by (simp add: add_sample_def)
  then show ?case
    by (simp add: Cons.IH sat)
qed

lemma totals_eq:
  assumes "rm_samples m \<noteq> []"
  shows "totals window m =
     (let ss = in_window window (ts_wall_ts (last (rm_samples m))) (rm_samples m)
      in Some (sat_of_int (total_of ts_io_ops_delta ss), sat_of_int (total_of ts_cpu_ns_delta ss),
               sat_of_int (total_of ts_wall_dt_ns ss)))"
  using assms by (simp add: totals_def foldl_add_sample Let_def)

subsection \<open>The retained window\<close>

text \<open>What a history holds between two pushes, the last one at \<open>now\<close>.\<close>

definition rolling_ok :: "instant \<Rightarrow> rolling_metrics \<Rightarrow> bool" where
  "rolling_ok now m \<longleftrightarrow>
     sorted (map ts_wall_ts (rm_samples m)) \<and>
     list_all (\<lambda>s. instant_min \<le> ts_wall_ts s \<and> ts_wall_ts s \<le> now \<and>
       ts_wall_ts (last (rm_samples m)) - max_window \<le> ts_wall_ts s) (rm_samples m)"

lemma set_pop_before: "set (pop_before c ss) \<subseteq> set ss"
  by (induction ss) auto

lemma sorted_pop_before: "sorted (map ts_wall_ts ss) \<Longrightarrow> sorted (map ts_wall_ts (pop_before c ss))"
  by (induction ss) auto

lemma pop_before_ge:
  "sorted (map ts_wall_ts ss) \<Longrightarrow> s \<in> set (pop_before c ss) \<Longrightarrow> c \<le> ts_wall_ts s"
  by (induction ss) (auto split: if_splits)

lemma pop_before_snoc: "c \<le> ts_wall_ts s \<Longrightarrow> pop_before c (ss @ [s]) = pop_before c ss @ [s]"
  by (induction ss) auto

lemma pop_before_id: "list_all (\<lambda>s. c \<le> ts_wall_ts s) ss \<Longrightarrow> pop_before c ss = ss"
  by (cases ss) auto

lemma max_window_pos [simp]: "0 < max_window"
  by (simp add: max_window_def nanos_per_sec_def)

lemma trim_samples_snoc: "trim_samples (ts_wall_ts s) (ss @ [s]) = trim_samples (ts_wall_ts s) ss @ [s]"
  using max_window_pos
  by (auto simp: trim_samples_def instant_checked_sub_def intro!: pop_before_snoc less_imp_le)

text \<open>
  The three ways to push share one contract: the push appends at most one sample, stamped with
  the time of the push, and then trims.  The window property follows from the contract.
\<close>

definition pushed_at :: "instant \<Rightarrow> tick_sample list \<Rightarrow> tick_sample list \<Rightarrow> bool" where
  "pushed_at now ss ss' \<longleftrightarrow>
     ss' = ss \<or> (\<exists>s. ts_wall_ts s = now \<and> ss' = trim_samples now (ss @ [s]))"

lemma pushed_at_same [simp]: "pushed_at now ss ss"
  by (simp add: pushed_at_def)

lemma pushed_at_snoc [simp]: "ts_wall_ts s = now \<Longrightarrow> pushed_at now ss (trim_samples now (ss @ [s]))"
  by (auto simp: pushed_at_def)

lemma set_trim_samples: "set (trim_samples now ss) \<subseteq> set ss"
  using set_pop_before by (auto simp: trim_samples_def split: option.splits)

lemma sorted_trim_samples:
  "sorted (map ts_wall_ts ss) \<Longrightarrow> sorted (map ts_wall_ts (trim_samples now ss))"
  by (auto simp: trim_samples_def sorted_pop_before split: option.splits)

lemma trim_samples_ge:
  assumes "sorted (map ts_wall_ts ss)" and "s \<in> set (trim_samples now ss)"
    and "instant_min \<le> ts_wall_ts s"
  shows "now - max_window \<le> ts_wall_ts s"
proof (cases "instant_checked_sub now max_window")
  case None
  then show ?thesis
    using assms(3) by (simp add: instant_checked_sub_def split: if_splits)
next
  case (Some c)
  then have "c = now - max_window"
    by (simp add: instant_checked_sub_def split: if_splits)
  then show ?thesis
    using assms pop_before_ge [of ss s c] Some by (simp add: trim_samples_def)
qed

lemma rolling_ok_pushed:
  assumes ok: "rolling_ok t m" and "t \<le> now" and "instant_min \<le> now"
    and pushed: "pushed_at now (rm_samples m) (rm_samples m')"
  shows "rolling_ok now m'"
  using pushed unfolding pushed_at_def
proof (elim disjE exE conjE)
  assume "rm_samples m' = rm_samples m"
  with ok \<open>t \<le> now\<close> show ?thesis
    by (fastforce simp: rolling_ok_def list_all_iff)
next
  fix s
  assume s: "ts_wall_ts s = now" and p: "rm_samples m' = trim_samples now (rm_samples m @ [s])"
  let ?ts = "trim_samples now (rm_samples m)"
  have m': "rm_samples m' = ?ts @ [s]"
    using p s trim_samples_snoc by metis
  have old: "instant_min \<le> ts_wall_ts x \<and> ts_wall_ts x \<le> now \<and> now - max_window \<le> ts_wall_ts x"
    if "x \<in> set ?ts" for x
    using that ok \<open>t \<le> now\<close> set_trim_samples [of now "rm_samples m"]
      trim_samples_ge [of "rm_samples m" x now]
    by (force simp: rolling_ok_def list_all_iff)
  have "sorted (map ts_wall_ts ?ts)"
    using ok sorted_trim_samples by (simp add: rolling_ok_def)
  then have "sorted (map ts_wall_ts (?ts @ [s]))"
    using old s by (auto simp: sorted_append)
  moreover have "0 \<le> max_window"
    by (rule less_imp_le) (rule max_window_pos)
  ultimately show ?thesis
    using old s assms(3) by (simp add: rolling_ok_def list_all_iff m' del: map_append)
qed

locale rolling_push =
  fixes push :: "instant \<Rightarrow> 'a \<Rightarrow> rolling_metrics \<Rightarrow> rolling_metrics"
  assumes push_samples: "pushed_at now (rm_samples m) (rm_samples (push now a m))"
  and push_baseline: "rm_previous_wall_ts (push now a m) = Some now"
begin

lemma push_keeps_window:
  "rolling_ok t m \<Longrightarrow> t \<le> now \<Longrightarrow> instant_min \<le> now \<Longrightarrow> rolling_ok now (push now a m)"
  using rolling_ok_pushed push_samples by blast

lemma pushes_keep_window:
  "rolling_ok t m \<Longrightarrow> sorted (t # map fst ps) \<Longrightarrow> instant_min \<le> t \<Longrightarrow>
   rolling_ok (last (t # map fst ps)) (fold (\<lambda>(now, a). push now a) ps m)"
proof (induction ps arbitrary: t m)
  case Nil
  then show ?case by simp
next
  case (Cons p ps)
  obtain now a where p: "p = (now, a)"
    by (cases p)
  have "rolling_ok now (push now a m)"
    using Cons.prems by (intro push_keeps_window) (auto simp: p)
  then have "rolling_ok (last (now # map fst ps)) (fold (\<lambda>(now, a). push now a) ps (push now a m))"
    using Cons.prems by (intro Cons.IH) (auto simp: p)
  then show ?case
    by (simp add: p)
qed

end

lemmas push_defs = set_baseline_def set_backend_baseline_def trim_rolling_def push_back_def

interpretation procfs_push: rolling_push "\<lambda>now (io, cpu). push_from_procfs_delta tps now io cpu"
  by unfold_locales
    (auto simp: push_from_procfs_delta_def push_defs Let_def split: option.splits)

interpretation backend_push: rolling_push "\<lambda>now (io, util, n). push_from_backend_util now io util n"
  by unfold_locales
    (auto simp: push_from_backend_util_def push_defs Let_def split: option.splits)

interpretation delta_push: rolling_push "\<lambda>now (io, cpu). push_delta now io cpu"
  by unfold_locales
    (auto simp: push_delta_def push_defs Let_def split: option.splits)

lemma rolling_ok_new [simp]: "rolling_ok t rolling_new"
  by (simp add: rolling_ok_def rolling_new_def)


subsection \<open>Averages are exact over an uninterrupted run\<close>

text \<open>
  The state of a history fed with monotone readings since \<open>(t0, io0)\<close>: the deltas
  telescope to the difference between the newest and the first reading.
\<close>

definition run_since :: "instant \<Rightarrow> u64 \<Rightarrow> instant \<times> u64 \<times> u64 \<Rightarrow> rolling_metrics \<Rightarrow> bool" where
  "run_since t0 io0 r m = (case r of (t, io, c) \<Rightarrow>
     t0 \<le> t \<and> io0 \<le> io \<and>
     rm_previous_wall_ts m = Some t \<and> rm_previous_io_ops m = Some io \<and>
     rm_previous_cpu_ticks m = Some c \<and>
     total_of ts_io_ops_delta (rm_samples m) = uint io - uint io0 \<and>
     total_of ts_wall_dt_ns (rm_samples m) = t - t0 \<and>
     list_all (\<lambda>s. t0 \<le> ts_wall_ts s) (rm_samples m) \<and>
     (rm_samples m \<noteq> [] \<longrightarrow> ts_wall_ts (last (rm_samples m)) = t))"

lemma trim_samples_id:
  "list_all (\<lambda>s. now - max_window \<le> ts_wall_ts s) ss \<Longrightarrow> trim_samples now ss = ss"
  by (auto simp: trim_samples_def instant_checked_sub_def intro!: pop_before_id)

lemma run_since_first:
  "run_since t io (t, io, c) (push_from_procfs_delta tps t io c rolling_new)"
  by (simp add: run_since_def push_from_procfs_delta_def rolling_new_def set_baseline_def)

lemma run_since_push:
  assumes run: "run_since t0 io0 (t, io, c) m"
    and mono: "t \<le> t'" "io \<le> io'" "c \<le> c'"
    and span: "t' - t0 \<le> max_window"
  shows "run_since t0 io0 (t', io', c') (push_from_procfs_delta tps t' io' c' m)"
proof -
  have t0: "t0 \<le> t"
    using run by (simp add: run_since_def)
  have top: "t' - t \<le> word_top TYPE(64)"
    using span t0 by (simp add: max_window_def nanos_per_sec_def word_top_def)
  define s where "s = \<lparr>ts_wall_ts = t', ts_io_ops_delta = io' - io,
    ts_cpu_ns_delta = f64_as_word (f64_div (f64_mul (f64_of_word (c' - c)) (f64_lit 1000000000)) tps),
    ts_wall_dt_ns = nanos_u64 (t' - t)\<rparr>"
  have push: "push_from_procfs_delta tps t' io' c' m =
      trim_rolling t' (set_baseline t' io' c' (push_back s m))"
    using run mono
    by (simp add: run_since_def push_from_procfs_delta_def checked_duration_since_def s_def Let_def
        not_less)
  have "list_all (\<lambda>s. t' - max_window \<le> ts_wall_ts s) (rm_samples m @ [s])"
    using run span mono t0 by (auto simp: run_since_def list_all_iff s_def)
  then have samples: "rm_samples (push_from_procfs_delta tps t' io' c' m) = rm_samples m @ [s]"
    by (simp add: push push_defs trim_samples_id)
  have "uint (ts_wall_dt_ns s) = t' - t"
    using top mono by (simp add: s_def nanos_u64_def word_int)
  moreover have "uint (ts_io_ops_delta s) = uint io' - uint io"
    using mono by (simp add: s_def word_int)
  moreover have "ts_wall_ts s = t'" "io0 \<le> io'"
    using run mono by (auto simp: s_def run_since_def)
  ultimately show ?thesis
    using run mono t0 samples by (simp add: run_since_def) (simp add: push push_defs)
qed

definition feed_procfs :: "f64 \<Rightarrow> (instant \<times> u64 \<times> u64) list \<Rightarrow> rolling_metrics \<Rightarrow> rolling_metrics" where
  "feed_procfs tps rs m = fold (\<lambda>(t, io, c). push_from_procfs_delta tps t io c) rs m"

text \<open>Readings that a monotone clock and monotone counters produce.\<close>

fun monotone_from :: "instant \<times> u64 \<times> u64 \<Rightarrow> (instant \<times> u64 \<times> u64) list \<Rightarrow> bool" where
  "monotone_from r [] = True"
| "monotone_from (t, io, c) ((t', io', c') # rs) =
     (t \<le> t' \<and> io \<le> io' \<and> c \<le> c' \<and> monotone_from (t', io', c') rs)"

lemma monotone_from_last: "monotone_from r rs \<Longrightarrow> fst r \<le> fst (last (r # rs))"
  by (induction r rs rule: monotone_from.induct) (auto split: if_splits)

lemma run_since_feed:
  "run_since t0 io0 r m \<Longrightarrow> monotone_from r rs \<Longrightarrow> fst (last (r # rs)) - t0 \<le> max_window \<Longrightarrow>
   run_since t0 io0 (last (r # rs)) (feed_procfs tps rs m)"
proof (induction r rs arbitrary: m rule: monotone_from.induct)
  case (1 r)
  then show ?case
    by (simp add: feed_procfs_def)
next
  case (2 t io c t' io' c' rs)
  have "t' - t0 \<le> max_window"
    using 2(3,4) monotone_from_last [of "(t', io', c')" rs] by simp
  then have "run_since t0 io0 (t', io', c') (push_from_procfs_delta tps t' io' c' m)"
    using 2(2,3) by (intro run_since_push [of t0 io0 t io c]) auto
  then show ?case
    using 2(1) 2(3,4) by (simp add: feed_procfs_def)
qed

text \<open>
  C32: averages telescope.  Whatever the number of samples in between, the IOPS over a window
  that covers an uninterrupted run of monotone readings is the I/O done between the first and
  the last reading divided by the time between them: no interval is lost or counted twice.
\<close>

theorem iops_over_exact:
  assumes "monotone_from (t0, io0, c0) rs"
    and "last ((t0, io0, c0) # rs) = (t, io, c)"
    and "t0 < t" and "t - t0 \<le> window" and "window \<le> max_window"
  shows "iops_over window (feed_procfs tps ((t0, io0, c0) # rs) rolling_new) =
    Some (sat_of_int ((uint io - uint io0) * 1000000000 div (t - t0)))"
proof -
  let ?m = "feed_procfs tps ((t0, io0, c0) # rs) rolling_new"
  have run: "run_since t0 io0 (t, io, c) ?m"
    using run_since_feed [OF run_since_first, of t0 io0 c0 rs tps tps] assms
    by (simp add: feed_procfs_def)
  have ne: "rm_samples ?m \<noteq> []"
    using run assms(3) by (auto simp: run_since_def)
  have "in_window window (ts_wall_ts (last (rm_samples ?m))) (rm_samples ?m) = rm_samples ?m"
    using run assms(4) ne
    by (auto simp: run_since_def in_window_def instant_checked_sub_def list_all_iff filter_id_conv
        split: option.splits if_splits)
  then have totals: "\<exists>cpu. totals window ?m = Some (sat_of_int (uint io - uint io0), cpu, sat_of_int (t - t0))"
    using ne run by (simp add: totals_eq Let_def run_since_def)
  have wall: "uint (sat_of_int (t - t0) :: u64) = t - t0"
    using assms(3-5) by (simp add: word_int max_window_def nanos_per_sec_def word_top_def)
  have io: "uint (sat_of_int (uint io - uint io0) :: u64) = uint io - uint io0"
  proof -
    have "uint io0 \<le> uint io"
      using run by (simp add: run_since_def word_le_def)
    moreover have "uint io - uint io0 \<le> word_top TYPE(64)"
      using uint_le_top [of io] uint_ge_0 [of io0] by linarith
    ultimately show ?thesis
      by (simp add: word_int)
  qed
  have "0 < (sat_of_int (t - t0) :: u64)"
    using assms(3) by (simp add: word_less_def wall)
  then show ?thesis
    using totals by (auto simp: iops_over_def io wall)
qed

lemma iops_over_exact_witness:
  "iops_over (minutes 1) (feed_procfs (Fin 100) [(0, 10, 0), (1000000000, 40, 5), (3000000000, 100, 9)]
     rolling_new) = Some 30"
  using iops_over_exact [of 0 10 0 "[(1000000000, 40, 5), (3000000000, 100, 9)]" 3000000000 100 9
      "minutes 1" "Fin 100"]
  by (simp add: minutes_def max_window_def nanos_per_sec_def sat_of_int_def word_top_def)

text \<open>
  The history is bounded.  After any sequence of \<open>/proc\<close> readings at nondecreasing times,
  the retained samples are in time order and none is older than the 15 minute window before the
  newest one.
\<close>

lemma procfs_history_bounded:
  assumes "sorted (t # map fst ps)" and "instant_min \<le> t"
  shows "rolling_ok (last (t # map fst ps))
    (fold (\<lambda>(now, a). case a of (io, cpu) \<Rightarrow> push_from_procfs_delta tps now io cpu) ps rolling_new)"
  using procfs_push.pushes_keep_window [OF rolling_ok_new assms(1,2)] by simp

lemma procfs_history_bounded_witness:
  "rolling_ok 1000000000 (fold (\<lambda>(now, a). case a of (io, cpu) \<Rightarrow> push_from_procfs_delta (Fin 100) now io cpu)
     [(0, 5, 7), (1000000000, 9, 8)] rolling_new)"
  using procfs_history_bounded [of 0 "[(0, 5, 7), (1000000000, 9, 8)]" "Fin 100"]
  by (simp add: instant_min_def nanos_per_sec_def)

end
