(* ===== verification/Instances.thy ===== *)
theory Instances
  imports Clients Rolling
begin

section \<open>One VM and its refresh (instance.rs)\<close>

text \<open>
  The record the controller keeps per VM, and what one refresh does to it: rates from the
  cumulative counters, utilisation from the backend or from \<open>/proc\<close>, cgroup throttling and
  the rolling history.  What a refresh reads of the host is a record of readings
  (\<open>proc_env\<close>); the regular expression engine and the kernel tick rate are arguments.
\<close>

record task_cpu_sample =
  task_tid :: i32
  task_name :: string
  task_cpu_ticks :: u64

record cpu_sample =
  cpu_ticks :: u64
  cpu_sampled_at :: instant
  cpu_thread_count :: u32
  cpu_per_worker :: "task_cpu_sample list"

record cgroup_sample =
  cg_quota_cores :: f64
  cg_nr_throttled :: u64
  cg_throttled_usec :: u64

text \<open>Most recent mutable state for one VM.\<close>

record instance_status =
  st_thread_count :: u32
  st_vcpu_count :: u32
  st_alive :: bool
  st_scaling_allowed_field :: bool
  st_ownership_classification :: "bool option"
  st_cooldown_until :: "instant option"
  st_manual_scaling_sticky :: bool
  st_perf :: "perf_sample option"
  st_per_thread_util :: f64
  st_last_cpu_sample :: "cpu_sample option"
  st_per_worker_util :: "f64 list"
  st_last_worker_names :: "string list option"
  st_cgroup :: "cgroup_sample option"
  st_throttled_usec_delta :: u64
  st_rolling :: rolling_metrics
  st_previous_perf_time :: "instant option"
  st_previous_read_io_count :: u64
  st_previous_write_io_count :: u64
  st_previous_other_io_count :: u64
  st_previous_read_bytes_total :: u64
  st_previous_write_bytes_total :: u64
  st_read_iops :: u64
  st_write_iops :: u64
  st_other_iops :: u64
  st_read_latency_us :: "snapshot_latency option"
  st_write_latency_us :: "snapshot_latency option"
  st_per_vq_depth :: "u64 list option"
  st_read_bytes_per_second :: u64
  st_write_bytes_per_second :: u64

definition status_default :: instance_status where
  "status_default =
     \<lparr>st_thread_count = 0, st_vcpu_count = 0, st_alive = False, st_scaling_allowed_field = False,
      st_ownership_classification = None, st_cooldown_until = None,
      st_manual_scaling_sticky = False, st_perf = None, st_per_thread_util = Fin 0,
      st_last_cpu_sample = None, st_per_worker_util = [], st_last_worker_names = None,
      st_cgroup = None, st_throttled_usec_delta = 0, st_rolling = rolling_new,
      st_previous_perf_time = None, st_previous_read_io_count = 0,
      st_previous_write_io_count = 0, st_previous_other_io_count = 0,
      st_previous_read_bytes_total = 0, st_previous_write_bytes_total = 0, st_read_iops = 0,
      st_write_iops = 0, st_other_iops = 0, st_read_latency_us = None,
      st_write_latency_us = None, st_per_vq_depth = None, st_read_bytes_per_second = 0,
      st_write_bytes_per_second = 0\<rparr>"

text \<open>The method \<open>scaling_allowed()\<close>, which is not the field of that name.\<close>

definition scaling_allowed :: "instance_status \<Rightarrow> bool" where
  "scaling_allowed s = (case st_ownership_classification s of None \<Rightarrow> False | Some m \<Rightarrow> m)"

subsection \<open>Task name filter\<close>

record 'r thread_name_filter =
  tf_match_regex :: "'r option"
  tf_ignored_names :: "string set"

definition thread_name_filter_default :: "'r thread_name_filter" where
  "thread_name_filter_default = \<lparr>tf_match_regex = None, tf_ignored_names = {}\<rparr>"

definition thread_name_filter_new ::
  "(string \<Rightarrow> string + 'r) \<Rightarrow> string \<Rightarrow> string list \<Rightarrow> string + 'r thread_name_filter" where
  "thread_name_filter_new regex_new pattern ignored =
     (if pattern = [] then Inr \<lparr>tf_match_regex = None, tf_ignored_names = set ignored\<rparr>
      else result_map (\<lambda>r. \<lparr>tf_match_regex = Some r, tf_ignored_names = set ignored\<rparr>)
             (regex_new (''(?:'' @ pattern @ '')'')))"

definition filter_matches ::
  "('r \<Rightarrow> string \<Rightarrow> bool) \<Rightarrow> 'r thread_name_filter \<Rightarrow> string \<Rightarrow> bool" where
  "filter_matches is_match f name =
     (if name \<in> tf_ignored_names f then False
      else case tf_match_regex f of None \<Rightarrow> True | Some r \<Rightarrow> is_match r name)"

record ('c, 'r) vm_instance =
  inst_id :: string
  inst_sock_path :: path
  inst_pid :: i32
  inst_filter :: "'r thread_name_filter"
  inst_client :: 'c
  inst_status :: instance_status

definition instance_new :: "string \<Rightarrow> path \<Rightarrow> i32 \<Rightarrow> 'c \<Rightarrow> ('c, 'r) vm_instance" where
  "instance_new i p pid c =
     \<lparr>inst_id = i, inst_sock_path = p, inst_pid = pid, inst_filter = thread_name_filter_default,
      inst_client = c, inst_status = status_default\<lparr>st_scaling_allowed_field := True\<rparr>\<rparr>"

definition with_thread_name_filter ::
  "'r thread_name_filter \<Rightarrow> ('c, 'r) vm_instance \<Rightarrow> ('c, 'r) vm_instance" where
  "with_thread_name_filter f i = i\<lparr>inst_filter := f\<rparr>"

definition show_instance :: "('c, 'r) vm_instance \<Rightarrow> string" where
  "show_instance i = trim (inst_id i)"

subsection \<open>Readings of the host\<close>

record task_stat =
  stat_pid :: i32
  stat_comm :: string
  stat_utime :: u64
  stat_stime :: u64

text \<open>
  A task of the listing that cannot be opened or whose \<open>stat\<close> cannot be read is a
  \<open>None\<close>: both are skipped with a warning.
\<close>

record cgroup_entry =
  cge_hierarchy :: u32
  cge_controllers :: "string list"
  cge_pathname :: string

record proc_env =
  pe_tasks :: "string + task_stat option list"
  pe_sampled_at :: instant
  pe_cgroups :: "string + cgroup_entry list"
  pe_read_file :: "path \<Rightarrow> io_error + string"
  pe_now :: instant

datatype cpu_sample_error = NoCpuSamples | CpuProc string

fun sample_tasks ::
  "('r \<Rightarrow> string \<Rightarrow> bool) \<Rightarrow> 'r thread_name_filter \<Rightarrow> task_stat option list \<Rightarrow>
   u64 \<times> u32 \<times> task_cpu_sample list \<Rightarrow> u64 \<times> u32 \<times> task_cpu_sample list"
where
  "sample_tasks is_match f [] acc = acc"
| "sample_tasks is_match f (None # ts) acc = sample_tasks is_match f ts acc"
| "sample_tasks is_match f (Some t # ts) (ticks, n, workers) =
     (if \<not> filter_matches is_match f (stat_comm t)
      then sample_tasks is_match f ts (ticks, n, workers)
      else let task_ticks = sat_add (stat_utime t) (stat_stime t)
           in sample_tasks is_match f ts (sat_add ticks task_ticks, n + 1,
                workers @ [\<lparr>task_tid = stat_pid t, task_name = stat_comm t,
                            task_cpu_ticks = task_ticks\<rparr>]))"

definition read_cpu_sample ::
  "('r \<Rightarrow> string \<Rightarrow> bool) \<Rightarrow> 'r thread_name_filter \<Rightarrow> proc_env \<Rightarrow> cpu_sample_error + cpu_sample"
where
  "read_cpu_sample is_match f env =
     (case pe_tasks env of
        Inl e \<Rightarrow> Inl (CpuProc e)
      | Inr tasks \<Rightarrow>
          (case sample_tasks is_match f tasks (0, 0, []) of
             (ticks, n, workers) \<Rightarrow>
               if n = 0 then Inl NoCpuSamples
               else Inr \<lparr>cpu_ticks = ticks, cpu_sampled_at = pe_sampled_at env,
                         cpu_thread_count = n, cpu_per_worker = workers\<rparr>))"

subsection \<open>Cgroup limits\<close>

text \<open>\<open>str::parse::<f64>\<close>: an optional sign, then \<open>inf\<close>, \<open>infinity\<close>,
  \<open>nan\<close> or a decimal number with optional fraction and exponent.\<close>

definition is_digit :: "char \<Rightarrow> bool" where
  "is_digit c = (digit_val c \<noteq> None)"

definition lower :: "char \<Rightarrow> char" where
  "lower c = (let n = of_char c :: int in if 65 \<le> n \<and> n \<le> 90 then char_of (n + 32) else c)"

definition digits_value :: "string \<Rightarrow> int" where
  "digits_value s = (case parse_digits 0 s of None \<Rightarrow> 0 | Some n \<Rightarrow> n)"

definition parse_exponent :: "string \<Rightarrow> int option" where
  "parse_exponent s =
     (case s of
        [] \<Rightarrow> Some 0
      | c # cs \<Rightarrow>
          if c \<noteq> CHR ''e'' \<and> c \<noteq> CHR ''E'' then None
          else let neg = (cs \<noteq> [] \<and> hd cs = CHR ''-'');
                   ds = (if cs \<noteq> [] \<and> (hd cs = CHR ''-'' \<or> hd cs = CHR ''+'') then tl cs else cs)
               in if ds = [] \<or> \<not> list_all is_digit ds then None
                  else Some (if neg then - digits_value ds else digits_value ds))"

definition pow10 :: "int \<Rightarrow> rat" where
  "pow10 k = (if 0 \<le> k then 10 ^ nat k else 1 / 10 ^ nat (- k))"

definition parse_decimal :: "string \<Rightarrow> rat option" where
  "parse_decimal s =
     (let ip = takeWhile is_digit s;
          rest = dropWhile is_digit s;
          dotted = (rest \<noteq> [] \<and> hd rest = CHR ''.'');
          fp = (if dotted then takeWhile is_digit (tl rest) else []);
          rest = (if dotted then dropWhile is_digit (tl rest) else rest)
      in if ip @ fp = [] then None
         else map_option (\<lambda>e. of_int (digits_value (ip @ fp)) * pow10 (e - int (length fp)))
                (parse_exponent rest))"

definition parse_f64 :: "string \<Rightarrow> f64 option" where
  "parse_f64 s =
     (let signed = (s \<noteq> [] \<and> (hd s = CHR ''-'' \<or> hd s = CHR ''+''));
          neg = (signed \<and> hd s = CHR ''-'');
          body = (if signed then tl s else s);
          word = map lower body;
          v = (if word = ''inf'' \<or> word = ''infinity'' then Some PosInf
               else if word = ''nan'' then Some NaN
               else map_option round_f64 (parse_decimal body))
      in if neg then map_option f64_neg v else v)"

datatype cgroup_error =
    CgroupIo io_error
  | CgroupInvalidValue string
  | CgroupMissingFile string
  | CgroupMissingField string
  | CgroupParseFloat
  | CgroupParseInt
  | CgroupProc string

definition ok_or :: "'e \<Rightarrow> 'a option \<Rightarrow> 'e + 'a" where
  "ok_or e v = (case v of None \<Rightarrow> Inl e | Some a \<Rightarrow> Inr a)"

text \<open>The loop over the lines of \<open>cpu.stat\<close>.\<close>

fun read_cpu_stat :: "string list \<Rightarrow> cgroup_sample \<Rightarrow> cgroup_error + cgroup_sample" where
  "read_cpu_stat [] s = Inr s"
| "read_cpu_stat (l # ls) s =
     (case split_whitespace l of
        k # v # _ \<Rightarrow>
          if k = ''nr_throttled'' then
            result_bind (ok_or CgroupParseInt (parse_u64 v))
              (\<lambda>n. read_cpu_stat ls (s\<lparr>cg_nr_throttled := n\<rparr>))
          else if k = ''throttled_usec'' then
            result_bind (ok_or CgroupParseInt (parse_u64 v))
              (\<lambda>n. read_cpu_stat ls (s\<lparr>cg_throttled_usec := n\<rparr>))
          else read_cpu_stat ls s
      | _ \<Rightarrow> read_cpu_stat ls s)"

definition cgroup_quota :: "string \<Rightarrow> cgroup_error + f64" where
  "cgroup_quota cpu_max =
     (let parts = split_whitespace cpu_max in
      if parts = [] then Inl (CgroupMissingField ''quota'')
      else if tl parts = [] then Inl (CgroupMissingField ''period'')
      else result_bind (ok_or CgroupParseFloat (parse_f64 (hd (tl parts)))) (\<lambda>period.
        if f64_le period (Fin 0)
        then Inl (CgroupInvalidValue ''cpu.max period must be positive'')
        else if hd parts = ''max'' then Inr PosInf
        else result_map (\<lambda>quota. f64_div quota period)
               (ok_or CgroupParseFloat (parse_f64 (hd parts)))))"

definition read_cgroup_sample :: "path \<Rightarrow> proc_env \<Rightarrow> cgroup_error + cgroup_sample" where
  "read_cgroup_sample rootp env =
     (case pe_cgroups env of
        Inl e \<Rightarrow> Inl (CgroupProc e)
      | Inr entries \<Rightarrow>
     (case find (\<lambda>e. cge_hierarchy e = 0 \<and> cge_controllers e = []) entries of
        None \<Rightarrow> Inl (CgroupMissingFile ''cgroup path'')
      | Some e \<Rightarrow>
          let base = path_new rootp (parse_path (''/sys/fs/cgroup'' @ cge_pathname e));
              read = (\<lambda>f. result_map_err CgroupIo (pe_read_file env (path_join base [Normal f])))
          in result_bind (read ''cpu.max'') (\<lambda>cpu_max.
             result_bind (read ''cpu.stat'') (\<lambda>cpu_stat.
             result_bind (cgroup_quota cpu_max) (\<lambda>quota.
             read_cpu_stat (lines cpu_stat)
               \<lparr>cg_quota_cores = quota, cg_nr_throttled = 0, cg_throttled_usec = 0\<rparr>)))))"

subsection \<open>Utilisation from task counters\<close>

text \<open>
  \<open>compute_per_worker_util\<close>: a task counts when the previous sample has its identifier
  under the same name and its counter did not run backwards.  (Collecting into a map keeps the
  last of several samples of one identifier.)
\<close>

definition task_util ::
  "task_cpu_sample list \<Rightarrow> f64 \<Rightarrow> task_cpu_sample \<Rightarrow> (string \<times> f64) option" where
  "task_util previous wall_ticks task =
     (case map_of (rev (map (\<lambda>p. (task_tid p, (task_name p, task_cpu_ticks p))) previous)) (task_tid task) of
        None \<Rightarrow> None
      | Some (name, previous_ticks) \<Rightarrow>
          if name \<noteq> task_name task then None
          else case checked_sub (task_cpu_ticks task) previous_ticks of
                 None \<Rightarrow> None
               | Some delta \<Rightarrow> Some (task_name task,
                   f64_clamp (f64_div (f64_of_word delta) wall_ticks) (Fin 0) (Fin 1)))"

definition compute_per_worker_util ::
  "task_cpu_sample list \<Rightarrow> task_cpu_sample list \<Rightarrow> f64 \<Rightarrow> (string \<times> f64) list"
where
  "compute_per_worker_util previous current wall_ticks =
     List.map_filter (task_util previous wall_ticks) current"

definition update_worker_utilisation ::
  "(string \<times> f64) list \<Rightarrow> instance_status \<Rightarrow> instance_status" where
  "update_worker_utilisation worker_util s =
     (let names = sort (map fst worker_util); utils = map snd worker_util
      in s\<lparr>st_last_worker_names := Some names,
           st_per_worker_util := utils,
           st_per_thread_util :=
             (if utils = [] then Fin 0
              else f64_div (f64_sum utils) (f64_of_int (int (length utils))))\<rparr>)"

subsection \<open>Refreshing a VM\<close>

text \<open>The closure \<open>rate\<close>; the cast of the 128 bit quotient keeps its low 64 bits.\<close>

definition perf_rate :: "int \<Rightarrow> u64 \<Rightarrow> u64 \<Rightarrow> u64" where
  "perf_rate elapsed_ns current previous =
     word_of_int (uint (sat_sub current previous) * 1000000000 div elapsed_ns)"

definition update_perf_rates ::
  "perf_sample option \<Rightarrow> instant \<Rightarrow> instance_status \<Rightarrow> instance_status" where
  "update_perf_rates perf now s =
     (let (rd, wr, other, rb, wb) =
        (case perf of
           None \<Rightarrow> (0, 0, 0, 0, 0)
         | Some p \<Rightarrow> (perf_read_io_count p, perf_write_io_count p, perf_other_io_count p,
             perf_read_bytes_total p, perf_write_bytes_total p));
      elapsed_ns =
        (case st_previous_perf_time s of
           None \<Rightarrow> 0
         | Some previous \<Rightarrow>
             (case checked_duration_since now previous of None \<Rightarrow> 0 | Some d \<Rightarrow> d));
      rate = perf_rate elapsed_ns;
      s = (if elapsed_ns > 0
           then s\<lparr>st_read_iops := rate rd (st_previous_read_io_count s),
                  st_write_iops := rate wr (st_previous_write_io_count s),
                  st_other_iops := rate other (st_previous_other_io_count s),
                  st_read_bytes_per_second := rate rb (st_previous_read_bytes_total s),
                  st_write_bytes_per_second := rate wb (st_previous_write_bytes_total s)\<rparr>
           else s)
      in s\<lparr>st_previous_perf_time := Some now,
           st_previous_read_io_count := rd,
           st_previous_write_io_count := wr,
           st_previous_other_io_count := other,
           st_previous_read_bytes_total := rb,
           st_previous_write_bytes_total := wb\<rparr>)"

text \<open>
  \<open>apply_thread_pool_snapshot\<close>, in three parts that follow the code: the snapshot's own
  fields, the utilisation, and the history with the cgroup throttling.
\<close>

definition apply_snapshot_fields ::
  "(u32 \<Rightarrow> u32 \<Rightarrow> bool) \<Rightarrow> thread_pool_snapshot \<Rightarrow> instant \<Rightarrow> instance_status \<Rightarrow> instance_status"
where
  "apply_snapshot_fields is_managed snap now s =
     (let s = (if st_ownership_classification s = None
               then s\<lparr>st_ownership_classification :=
                 Some (is_managed (tps_thread_count snap) (tps_vcpu_count snap))\<rparr>
               else s);
          s = update_perf_rates (tps_perf snap) now s
      in s\<lparr>st_thread_count := tps_thread_count snap,
           st_vcpu_count := tps_vcpu_count snap,
           st_perf := tps_perf snap,
           st_read_latency_us := Option.bind (tps_perf snap) perf_read_latency_us,
           st_write_latency_us := Option.bind (tps_perf snap) perf_write_latency_us,
           st_per_vq_depth := Option.bind (tps_perf snap) perf_per_vq_depth,
           st_alive := True\<rparr>)"

definition apply_utilisation ::
  "f64 \<Rightarrow> f64 option \<Rightarrow> cpu_sample option \<Rightarrow> instance_status \<Rightarrow> instance_status" where
  "apply_utilisation tps backend_util cpu s =
     (case backend_util of
        Some u \<Rightarrow> s\<lparr>st_per_worker_util := [], st_last_worker_names := None,
                     st_per_thread_util := u\<rparr>
      | None \<Rightarrow>
     (case (st_last_cpu_sample s, cpu) of
        (Some previous, Some current) \<Rightarrow>
          (case checked_duration_since (cpu_sampled_at current) (cpu_sampled_at previous) of
             None \<Rightarrow> s
           | Some elapsed \<Rightarrow>
               let wall_ticks = f64_mul (as_secs_f64 elapsed) tps
               in if f64_lt (Fin 0) wall_ticks
                  then update_worker_utilisation (compute_per_worker_util
                         (cpu_per_worker previous) (cpu_per_worker current) wall_ticks) s
                  else s)
      | _ \<Rightarrow> s))"

definition apply_history ::
  "f64 \<Rightarrow> thread_pool_snapshot \<Rightarrow> f64 option \<Rightarrow> cpu_sample option \<Rightarrow> instant \<Rightarrow>
   instance_status \<Rightarrow> instance_status"
where
  "apply_history tps snap backend_util cpu now s =
     (let io_ops_total = (case tps_perf snap of None \<Rightarrow> 0 | Some p \<Rightarrow> total_io_count p)
      in case backend_util of
           Some u \<Rightarrow> s\<lparr>st_rolling :=
             push_from_backend_util now io_ops_total u (tps_thread_count snap) (st_rolling s)\<rparr>
         | None \<Rightarrow>
             (case cpu of
                Some c \<Rightarrow> s\<lparr>st_rolling :=
                  push_from_procfs_delta tps now io_ops_total (cpu_ticks c) (st_rolling s)\<rparr>
              | None \<Rightarrow> s))"

definition apply_cgroup :: "cgroup_sample option \<Rightarrow> instance_status \<Rightarrow> instance_status" where
  "apply_cgroup cgroup s =
     s\<lparr>st_throttled_usec_delta :=
         (case (st_cgroup s, cgroup) of
            (Some previous, Some current) \<Rightarrow>
              sat_sub (cg_throttled_usec current) (cg_throttled_usec previous)
          | _ \<Rightarrow> 0),
       st_cgroup := cgroup\<rparr>"

definition apply_thread_pool_snapshot ::
  "path \<Rightarrow> f64 \<Rightarrow> ('r \<Rightarrow> string \<Rightarrow> bool) \<Rightarrow> (u32 \<Rightarrow> u32 \<Rightarrow> bool) \<Rightarrow> bool \<Rightarrow> proc_env \<Rightarrow>
   'r thread_name_filter \<Rightarrow> thread_pool_snapshot \<Rightarrow> instance_status \<Rightarrow> instance_status"
where
  "apply_thread_pool_snapshot rootp tps is_match is_managed refresh_cgroup env f snap s =
     (let cpu = (if tps_per_thread_util snap = None then result_ok (read_cpu_sample is_match f env)
                 else None);
          cgroup = (if refresh_cgroup \<or> st_cgroup s = None
                    then result_ok (read_cgroup_sample rootp env) else st_cgroup s);
          now = pe_now env;
          backend_util = map_option (\<lambda>u. f64_clamp u (Fin 0) (Fin 1)) (tps_per_thread_util snap);
          s = apply_snapshot_fields is_managed snap now s;
          s = apply_utilisation tps backend_util cpu s;
          s = apply_history tps snap backend_util cpu now s;
          s = s\<lparr>st_last_cpu_sample := (if backend_util = None then cpu else None)\<rparr>
      in apply_cgroup cgroup s)"

text \<open>\<open>Instance::refresh_state\<close>.\<close>

definition refresh_state ::
  "path \<Rightarrow> f64 \<Rightarrow> ('r \<Rightarrow> string \<Rightarrow> bool) \<Rightarrow> 'c client_ops \<Rightarrow> bool \<Rightarrow> proc_env \<Rightarrow>
   ('c, 'r) vm_instance \<Rightarrow> bool \<times> ('c, 'r) vm_instance"
where
  "refresh_state rootp tps is_match ops refresh_cgroup env i =
     (case op_get_thread_pool_snapshot ops (inst_client i) of
        (Inr snap, c) \<Rightarrow>
          (True, i\<lparr>inst_client := c,
             inst_status := apply_thread_pool_snapshot rootp tps is_match
               (\<lambda>n v. op_initial_pool_is_managed ops n v c) refresh_cgroup env
               (inst_filter i) snap (inst_status i)\<rparr>)
      | (Inl e, c) \<Rightarrow>
          (False, i\<lparr>inst_client := op_close ops c,
             inst_status := (inst_status i)\<lparr>st_alive := False\<rparr>\<rparr>))"

subsection \<open>Lemmas\<close>

lemma f64_of_word_finite:
  "\<exists>a. f64_of_word (n :: u64) = Fin a \<and> 0 \<le> a"
proof -
  have "uint n \<le> 2 ^ 64"
    using uint_lt2p [of n] by simp
  then have "f64_le (f64_of_word n) (f64_of_int (2 ^ 64))"
    unfolding f64_of_word_def by (rule f64_of_int_mono)
  moreover have "f64_of_int (2 ^ 64) = Fin (2 ^ 64)"
    unfolding f64_of_int_def
    using round_f64_exact [of "2 ^ 64" 1 64] by (simp add: pow2_def)
  ultimately show ?thesis
    using f64_of_int_nonneg [of "uint n"] f64_in_Fin [of 0 "f64_of_word n" "2 ^ 64"]
    by (auto simp: f64_of_word_def)
qed

lemma worker_util_in:
  assumes "f64_lt (Fin 0) wall_ticks"
  shows "f64_in (f64_clamp (f64_div (f64_of_word (d :: u64)) wall_ticks) (Fin 0) (Fin 1)) 0 1"
proof -
  obtain a where "f64_of_word d = Fin a"
    using f64_of_word_finite by blast
  then have "f64_div (f64_of_word d) wall_ticks \<noteq> NaN"
    using assms by (cases wall_ticks) auto
  then show ?thesis
    using f64_clamp_in [of _ 0 1] by simp
qed

lemma task_util_Some:
  assumes "task_util previous w task = Some (name, u)"
  obtains d where "u = f64_clamp (f64_div (f64_of_word (d :: u64)) w) (Fin 0) (Fin 1)"
proof (cases "map_of (rev (map (\<lambda>p. (task_tid p, (task_name p, task_cpu_ticks p))) previous))
    (task_tid task)")
  case (Some entry)
  with assms that show ?thesis
    by (cases entry; cases "checked_sub (task_cpu_ticks task) (snd entry)")
      (auto simp: task_util_def split: if_splits)
qed (use assms in \<open>simp add: task_util_def\<close>)

lemma compute_per_worker_util_in:
  assumes "f64_lt (Fin 0) wall_ticks"
    and "(name, u) \<in> set (compute_per_worker_util previous current wall_ticks)"
  shows "f64_in u 0 1"
  using assms(2) worker_util_in [OF assms(1)]
  by (auto simp: compute_per_worker_util_def set_map_filter_iff elim!: task_util_Some)

lemma length_compute_per_worker_util:
  "length (compute_per_worker_util previous current wall_ticks) \<le> length current"
  by (simp add: compute_per_worker_util_def length_map_filter_le)

lemma sample_tasks_length:
  "length (snd (snd (sample_tasks is_match f ts (a, n, ws)))) \<le> length ws + length ts"
  by (induction is_match f ts "(a, n, ws)" arbitrary: a n ws rule: sample_tasks.induct)
    (fastforce simp: Let_def)+

lemma read_cpu_sample_length:
  assumes "read_cpu_sample is_match f env = Inr c" and "pe_tasks env = Inr ts"
  shows "length (cpu_per_worker c) \<le> length ts"
  using assms sample_tasks_length [of is_match f ts 0 0 "[]"]
  by (auto simp: read_cpu_sample_def split: prod.splits if_splits)

lemma update_worker_utilisation_in:
  assumes "\<And>n u. (n, u) \<in> set w \<Longrightarrow> f64_in u 0 1" and "length w \<le> 2 ^ 53"
  shows "f64_in (st_per_thread_util (update_worker_utilisation w s)) 0 1"
proof (cases "w = []")
  case True
  then show ?thesis
    by (simp add: update_worker_utilisation_def)
next
  case False
  have "f64_in (f64_div (f64_sum (map snd w)) (f64_of_int (int (length (map snd w))))) 0 1"
    using False assms by (intro f64_mean_in) auto
  with False show ?thesis
    by (simp add: update_worker_utilisation_def Let_def)
qed

text \<open>What a refresh does not touch, part by part.\<close>

lemma update_perf_rates_frame [simp]:
  "st_thread_count (update_perf_rates p now s) = st_thread_count s"
  "st_ownership_classification (update_perf_rates p now s) = st_ownership_classification s"
  "st_cooldown_until (update_perf_rates p now s) = st_cooldown_until s"
  "st_manual_scaling_sticky (update_perf_rates p now s) = st_manual_scaling_sticky s"
  "st_per_thread_util (update_perf_rates p now s) = st_per_thread_util s"
  "st_rolling (update_perf_rates p now s) = st_rolling s"
  "st_last_cpu_sample (update_perf_rates p now s) = st_last_cpu_sample s"
  "st_scaling_allowed_field (update_perf_rates p now s) = st_scaling_allowed_field s"
  by (simp_all add: update_perf_rates_def Let_def split: option.split)

lemma update_worker_utilisation_frame [simp]:
  "st_thread_count (update_worker_utilisation w s) = st_thread_count s"
  "st_vcpu_count (update_worker_utilisation w s) = st_vcpu_count s"
  "st_perf (update_worker_utilisation w s) = st_perf s"
  "st_alive (update_worker_utilisation w s) = st_alive s"
  "st_ownership_classification (update_worker_utilisation w s) = st_ownership_classification s"
  "st_cooldown_until (update_worker_utilisation w s) = st_cooldown_until s"
  "st_manual_scaling_sticky (update_worker_utilisation w s) = st_manual_scaling_sticky s"
  "st_rolling (update_worker_utilisation w s) = st_rolling s"
  "st_scaling_allowed_field (update_worker_utilisation w s) = st_scaling_allowed_field s"
  by (simp_all add: update_worker_utilisation_def Let_def)

lemma apply_utilisation_frame [simp]:
  "st_thread_count (apply_utilisation tps b c s) = st_thread_count s"
  "st_vcpu_count (apply_utilisation tps b c s) = st_vcpu_count s"
  "st_perf (apply_utilisation tps b c s) = st_perf s"
  "st_alive (apply_utilisation tps b c s) = st_alive s"
  "st_ownership_classification (apply_utilisation tps b c s) = st_ownership_classification s"
  "st_cooldown_until (apply_utilisation tps b c s) = st_cooldown_until s"
  "st_manual_scaling_sticky (apply_utilisation tps b c s) = st_manual_scaling_sticky s"
  "st_rolling (apply_utilisation tps b c s) = st_rolling s"
  "st_scaling_allowed_field (apply_utilisation tps b c s) = st_scaling_allowed_field s"
  by (simp_all add: apply_utilisation_def Let_def split: option.split)

lemma apply_history_frame [simp]:
  "st_thread_count (apply_history tps snap b c now s) = st_thread_count s"
  "st_vcpu_count (apply_history tps snap b c now s) = st_vcpu_count s"
  "st_perf (apply_history tps snap b c now s) = st_perf s"
  "st_alive (apply_history tps snap b c now s) = st_alive s"
  "st_ownership_classification (apply_history tps snap b c now s) = st_ownership_classification s"
  "st_cooldown_until (apply_history tps snap b c now s) = st_cooldown_until s"
  "st_manual_scaling_sticky (apply_history tps snap b c now s) = st_manual_scaling_sticky s"
  "st_per_thread_util (apply_history tps snap b c now s) = st_per_thread_util s"
  "st_scaling_allowed_field (apply_history tps snap b c now s) = st_scaling_allowed_field s"
  by (simp_all add: apply_history_def Let_def split: option.split)

lemma refresh_fields:
  "st_thread_count (apply_thread_pool_snapshot rootp tps is_match is_managed b env f snap s) =
     tps_thread_count snap"
  "st_vcpu_count (apply_thread_pool_snapshot rootp tps is_match is_managed b env f snap s) =
     tps_vcpu_count snap"
  "st_perf (apply_thread_pool_snapshot rootp tps is_match is_managed b env f snap s) = tps_perf snap"
  "st_alive (apply_thread_pool_snapshot rootp tps is_match is_managed b env f snap s)"
  "st_ownership_classification
     (apply_thread_pool_snapshot rootp tps is_match is_managed b env f snap s) =
     (case st_ownership_classification s of
        None \<Rightarrow> Some (is_managed (tps_thread_count snap) (tps_vcpu_count snap))
      | Some c \<Rightarrow> Some c)"
  "st_cooldown_until (apply_thread_pool_snapshot rootp tps is_match is_managed b env f snap s) =
     st_cooldown_until s"
  "st_manual_scaling_sticky (apply_thread_pool_snapshot rootp tps is_match is_managed b env f snap s) =
     st_manual_scaling_sticky s"
  "st_scaling_allowed_field (apply_thread_pool_snapshot rootp tps is_match is_managed b env f snap s) =
     st_scaling_allowed_field s"
  by (cases "st_ownership_classification s";
      simp add: apply_thread_pool_snapshot_def Let_def apply_cgroup_def apply_snapshot_fields_def)+

lemma apply_utilisation_in:
  assumes "f64_in (st_per_thread_util s) 0 1"
    and "case b of None \<Rightarrow> True | Some u \<Rightarrow> f64_in u 0 1"
    and "case c of None \<Rightarrow> True | Some cs \<Rightarrow> length (cpu_per_worker cs) \<le> 2 ^ 53"
  shows "f64_in (st_per_thread_util (apply_utilisation tps b c s)) 0 1"
proof -
  have "f64_in (st_per_thread_util (update_worker_utilisation
      (compute_per_worker_util prev (cpu_per_worker cs) w) s)) 0 1"
    if "f64_lt (Fin 0) w" and "c = Some cs" for prev cs w
    using that assms(3) length_compute_per_worker_util [of prev "cpu_per_worker cs" w]
    by (intro update_worker_utilisation_in) (auto dest: compute_per_worker_util_in)
  then show ?thesis
    using assms(1,2)
    by (cases b; cases "st_last_cpu_sample s"; cases c)
      (simp_all add: apply_utilisation_def Let_def split: option.split)
qed

text \<open>
  The utilisation the engine decides on is a fraction.  Every refresh, whether the backend
  reports the utilisation or it is computed from task counters, keeps it within [0, 1], provided
  the backend does not report a NaN.
\<close>

lemma refresh_util_fraction:
  assumes "f64_in (st_per_thread_util s) 0 1"
    and "tps_per_thread_util snap \<noteq> Some NaN"
    and "\<And>tasks. pe_tasks env = Inr tasks \<Longrightarrow> length tasks \<le> 2 ^ 53"
  shows "f64_in (st_per_thread_util
    (apply_thread_pool_snapshot rootp tps is_match is_managed refresh_cgroup env f snap s)) 0 1"
proof -
  have u: "case map_option (\<lambda>u. f64_clamp u (Fin 0) (Fin 1)) (tps_per_thread_util snap) of
      None \<Rightarrow> True | Some u \<Rightarrow> f64_in u 0 1"
    using assms(2) f64_clamp_in [of _ 0 1] by (auto split: option.split)
  have c: "case result_ok (read_cpu_sample is_match f env) of
      None \<Rightarrow> True | Some cs \<Rightarrow> length (cpu_per_worker cs) \<le> 2 ^ 53"
  proof (cases "read_cpu_sample is_match f env")
    case (Inr cs)
    moreover from this obtain tasks where "pe_tasks env = Inr tasks"
      by (auto simp: read_cpu_sample_def split: sum.splits)
    ultimately show ?thesis
      using read_cpu_sample_length [of is_match f env cs tasks] assms(3) [of tasks] by simp
  qed simp
  have s: "f64_in (st_per_thread_util (apply_snapshot_fields is_managed snap now s)) 0 1" for now
    using assms(1) by (simp add: apply_snapshot_fields_def Let_def)
  show ?thesis
    using apply_utilisation_in [OF s u, where tps = tps and c = "if tps_per_thread_util snap = None
        then result_ok (read_cpu_sample is_match f env) else None"] c
    by (simp add: apply_thread_pool_snapshot_def Let_def apply_cgroup_def)
qed

text \<open>A VM with one worker, no cgroup and no previous reading, whose backend reports 1.5.\<close>

definition demo_proc :: proc_env where
  "demo_proc = \<lparr>pe_tasks = Inr [Some \<lparr>stat_pid = 7, stat_comm = ''iothread1'', stat_utime = 3,
     stat_stime = 4\<rparr>], pe_sampled_at = 10, pe_cgroups = Inr [], pe_read_file = (\<lambda>_. Inl NotFound),
     pe_now = 11\<rparr>"

lemma refresh_util_fraction_witness:
  "f64_in (st_per_thread_util (apply_thread_pool_snapshot [RootDir] (Fin 100) (\<lambda>(_ :: unit) _. True)
     (\<lambda>_ _. True) False demo_proc thread_name_filter_default
     \<lparr>tps_thread_count = 1, tps_vcpu_count = 4, tps_perf = None, tps_per_thread_util = Some (Fin (3 / 2))\<rparr>
     status_default)) 0 1"
  by (rule refresh_util_fraction) (simp_all add: status_default_def demo_proc_def)

end
