(* ===== verification/Engines.thy ===== *)
theory Engines
  imports Instances
begin

section \<open>The scaling engine contract (engines/mod.rs)\<close>

text \<open>
  Actions, tick context, outcomes reported back to an engine, the \<open>ScalingEngine\<close> trait as
  a dictionary of operations over an engine state \<open>'e\<close>, its default fleet evaluation, and
  the registry.
\<close>

datatype engine_error = EngineConfig config_error | NoSuchEngine string

record psi_sample =
  psi_cpu_some_avg10 :: f64
  psi_io_some_avg10 :: f64
  psi_memory_some_avg10 :: f64

definition psi_default :: psi_sample where
  "psi_default = \<lparr>psi_cpu_some_avg10 = Fin 0, psi_io_some_avg10 = Fin 0,
     psi_memory_some_avg10 = Fin 0\<rparr>"

datatype scale_action = Hold | Up u32 | Down u32 | Revert u32

fun target :: "scale_action \<Rightarrow> u32 option" where
  "target Hold = None"
| "target (Up n) = Some n"
| "target (Down n) = Some n"
| "target (Revert n) = Some n"

fun show_action :: "scale_action \<Rightarrow> string" where
  "show_action Hold = ''none''"
| "show_action (Up _) = ''up''"
| "show_action (Down _) = ''down''"
| "show_action (Revert _) = ''revert''"

fun is_up :: "scale_action \<Rightarrow> bool" where
  "is_up (Up _) = True"
| "is_up _ = False"

fun is_up_or_down :: "scale_action \<Rightarrow> bool" where
  "is_up_or_down (Up _) = True"
| "is_up_or_down (Down _) = True"
| "is_up_or_down _ = False"

record tick_context =
  tc_now :: instant
  tc_min_thread_count :: u32
  tc_max_thread_count :: u32
  tc_host_cpu_util :: f64
  tc_psi :: psi_sample
  tc_tick_index :: u64

text \<open>The default context, but for its time, which is that of the call.\<close>

definition tick_context_default :: "instant \<Rightarrow> tick_context" where
  "tick_context_default now =
     \<lparr>tc_now = now, tc_min_thread_count = 2, tc_max_thread_count = 8, tc_host_cpu_util = Fin 0,
      tc_psi = psi_default, tc_tick_index = 0\<rparr>"

record instance_decision =
  dec_instance_id :: string
  dec_action :: scale_action

definition instance_decision_new :: "string \<Rightarrow> scale_action \<Rightarrow> instance_decision" where
  "instance_decision_new i action = \<lparr>dec_instance_id = i, dec_action = action\<rparr>"

datatype blocked_reason =
    ManualOverride | UnmanagedVm | TargetBelowMinimum | TargetExceedsMaximum
  | TargetExceedsVcpuCount | HostCpuCeiling | Cooldown

fun show_blocked_reason :: "blocked_reason \<Rightarrow> string" where
  "show_blocked_reason ManualOverride = ''manual override is sticky''"
| "show_blocked_reason UnmanagedVm = ''VM is not managed by the controller''"
| "show_blocked_reason TargetBelowMinimum = ''target is below controller minimum''"
| "show_blocked_reason TargetExceedsMaximum = ''target exceeds controller maximum''"
| "show_blocked_reason TargetExceedsVcpuCount = ''target exceeds vCPU count''"
| "show_blocked_reason HostCpuCeiling = ''host CPU is at or above scale-up ceiling''"
| "show_blocked_reason Cooldown = ''VM is in post-action cooldown''"

text \<open>\<open>Success\<close> and \<open>DryRun\<close> carry the action, the count and the I/O total before it,
  and the time at which the outcome was recorded.\<close>

datatype applied_outcome =
    Success scale_action u32 u64 instant
  | DryRun scale_action u32 u64 instant
  | Blocked scale_action blocked_reason
  | Failed scale_action backend_client_error

record 'e engine_ops =
  eng_name :: string
  eng_evaluate :: "string \<Rightarrow> instance_status \<Rightarrow> tick_context \<Rightarrow> 'e \<Rightarrow> scale_action \<times> 'e"
  eng_evaluate_fleet ::
    "(string \<times> instance_status) list \<Rightarrow> tick_context \<Rightarrow> 'e \<Rightarrow> instance_decision list \<times> 'e"
  eng_on_applied :: "string \<Rightarrow> applied_outcome \<Rightarrow> 'e \<Rightarrow> 'e"
  eng_on_instance_added :: "string \<Rightarrow> 'e \<Rightarrow> 'e"
  eng_on_instance_removed :: "string \<Rightarrow> 'e \<Rightarrow> 'e"

text \<open>
  The provided \<open>evaluate_fleet\<close>.  It skips sticky VMs and VMs whose \<^emph>\<open>field\<close>
  \<open>scaling_allowed\<close> is false.  The futures are polled in fleet order and run without
  suspending, so the evaluations happen in that order; \<open>fleet_decisions\<close> below shows the
  order does not matter for an engine whose VMs do not interfere.
\<close>

definition fleet_eligible :: "instance_status \<Rightarrow> bool" where
  "fleet_eligible s = (\<not> st_manual_scaling_sticky s \<and> st_scaling_allowed_field s)"

fun evaluate_fleet ::
  "(string \<Rightarrow> instance_status \<Rightarrow> tick_context \<Rightarrow> 'e \<Rightarrow> scale_action \<times> 'e) \<Rightarrow>
   (string \<times> instance_status) list \<Rightarrow> tick_context \<Rightarrow> 'e \<Rightarrow> instance_decision list \<times> 'e"
where
  "evaluate_fleet ev [] ctxt e = ([], e)"
| "evaluate_fleet ev ((i, s) # fleet) ctxt e =
     (if \<not> fleet_eligible s then evaluate_fleet ev fleet ctxt e
      else let (action, e') = ev i s ctxt e;
               (decisions, e'') = evaluate_fleet ev fleet ctxt e'
           in (\<lparr>dec_instance_id = i, dec_action = action\<rparr> # decisions, e''))"

text \<open>The registry: the first registration of the configured name builds the engine.\<close>

fun load_registered_engine ::
  "(string \<times> (path \<Rightarrow> poll_converter \<Rightarrow> engine_error + 'e \<times> poll_converter)) list \<Rightarrow>
   path \<Rightarrow> string \<Rightarrow> poll_converter \<Rightarrow> engine_error + 'e \<times> poll_converter"
where
  "load_registered_engine [] dir name c = Inl (NoSuchEngine name)"
| "load_registered_engine ((reg_name, build) # regs) dir name c =
     (if reg_name = name then build dir c else load_registered_engine regs dir name c)"

lemma load_registered_engine_map:
  "load_registered_engine regs dir name c =
     (case map_of regs name of None \<Rightarrow> Inl (NoSuchEngine name) | Some build \<Rightarrow> build dir c)"
  by (induction regs) auto

subsection \<open>Engines that keep their VMs apart\<close>

text \<open>
  An engine keeps its VMs apart when the part of its state seen for a VM (\<open>view\<close>) decides
  the verdict for that VM and is the only part its evaluation changes.
\<close>

locale isolated_engine =
  fixes ev :: "string \<Rightarrow> instance_status \<Rightarrow> tick_context \<Rightarrow> 'e \<Rightarrow> scale_action \<times> 'e"
    and view :: "string \<Rightarrow> 'e \<Rightarrow> 'v"
  assumes ev_view:
    "view i e = view i e' \<Longrightarrow>
       fst (ev i s ctxt e) = fst (ev i s ctxt e') \<and>
       view i (snd (ev i s ctxt e)) = view i (snd (ev i s ctxt e'))"
    and ev_other: "j \<noteq> i \<Longrightarrow> view j (snd (ev i s ctxt e)) = view j e"
begin

lemma fleet_view:
  "distinct (map fst fleet) \<Longrightarrow>
   view i (snd (evaluate_fleet ev fleet ctxt e)) =
     (case map_of fleet i of
        None \<Rightarrow> view i e
      | Some s \<Rightarrow> if fleet_eligible s then view i (snd (ev i s ctxt e)) else view i e)"
proof (induction fleet arbitrary: e)
  case Nil
  then show ?case by simp
next
  case (Cons x fleet)
  obtain j s where x: "x = (j, s)"
    by (cases x)
  show ?case
  proof (cases "fleet_eligible s")
    case False
    have "map_of fleet j = None"
      using Cons.prems by (simp add: x map_of_eq_None_iff)
    with False Cons show ?thesis
      by (cases "i = j") (simp_all add: x)
  next
    case True
    have step: "snd (evaluate_fleet ev (x # fleet) ctxt e) =
        snd (evaluate_fleet ev fleet ctxt (snd (ev j s ctxt e)))"
      using True by (simp add: x split_beta Let_def)
    show ?thesis
    proof (cases "i = j")
      case True
      with Cons.prems have "map_of fleet i = None"
        by (auto simp: x map_of_eq_None_iff)
      with \<open>fleet_eligible s\<close> Cons True show ?thesis
        unfolding step by (simp add: x)
    next
      case False
      then have "view i (snd (ev j s ctxt e)) = view i e"
        by (rule ev_other)
      with False Cons show ?thesis
        unfolding step using ev_view [of i "snd (ev j s ctxt e)" e]
        by (simp add: x split: option.split)
    qed
  qed
qed

lemma fleet_decisions:
  "distinct (map fst fleet) \<Longrightarrow>
   fst (evaluate_fleet ev fleet ctxt e) =
     map (\<lambda>(i, s). \<lparr>dec_instance_id = i, dec_action = fst (ev i s ctxt e)\<rparr>)
       (filter (\<lambda>(i, s). fleet_eligible s) fleet)"
proof (induction fleet arbitrary: e)
  case Nil
  then show ?case by simp
next
  case (Cons x fleet)
  obtain j s where x: "x = (j, s)"
    by (cases x)
  have other: "fst (ev i s' ctxt (snd (ev j s ctxt e))) = fst (ev i s' ctxt e)"
    if "(i, s') \<in> set fleet" for i s'
  proof -
    have "i \<noteq> j"
      using Cons.prems that by (force simp: x)
    then show ?thesis
      using ev_view ev_other by blast
  qed
  show ?case
  proof (cases "fleet_eligible s")
    case False
    with Cons x show ?thesis by simp
  next
    case True
    then have "fst (evaluate_fleet ev (x # fleet) ctxt e) =
        \<lparr>dec_instance_id = j, dec_action = fst (ev j s ctxt e)\<rparr> #
        fst (evaluate_fleet ev fleet ctxt (snd (ev j s ctxt e)))"
      by (simp add: x split_beta Let_def)
    also have "fst (evaluate_fleet ev fleet ctxt (snd (ev j s ctxt e))) =
        map (\<lambda>(i, s'). \<lparr>dec_instance_id = i, dec_action = fst (ev i s' ctxt (snd (ev j s ctxt e)))\<rparr>)
          (filter (\<lambda>(i, s). fleet_eligible s) fleet)"
      using Cons by (simp add: x)
    also have "\<dots> = map (\<lambda>(i, s'). \<lparr>dec_instance_id = i, dec_action = fst (ev i s' ctxt e)\<rparr>)
          (filter (\<lambda>(i, s). fleet_eligible s) fleet)"
      using other by auto
    finally show ?thesis
      using True by (simp add: x)
  qed
qed

end

text \<open>Every decision of the default evaluation is for an eligible VM of the fleet.\<close>

lemma evaluate_fleet_ids:
  "map dec_instance_id (fst (evaluate_fleet ev fleet ctxt e)) =
     map fst (filter (\<lambda>(i, s). fleet_eligible s) fleet)"
  by (induction fleet arbitrary: e) (auto simp: split_beta Let_def)

end
