(* ===== verification/Threshold.thy ===== *)
theory Threshold
  imports Engines
begin

section \<open>The threshold engine (engines/threshold.rs)\<close>

text \<open>
  Per-VM state machine: sustain counting for scale-down, baseline measurement, validation of
  every applied action with revert on regression, the grace and recovery hold after a failed
  scale-up, and the exponential backoffs.  Decisions are functions of the status, the tick
  context and the state; the logging calls have no effect on them and are left out.
\<close>

definition engine_name :: string where
  "engine_name = ''threshold''"

record threshold_config =
  thc_scale_up_threshold :: f64
  thc_scale_down_sustain_secs :: u64
  thc_max_scale_down_step :: u32
  thc_scale_up_min_gain :: f64
  thc_scale_down_revert_drop :: f64
  thc_scale_validation_delay_secs :: u64
  thc_scale_validation_delay_per_thread_secs :: u64
  thc_block_scale_up_when_cgroup_throttled :: bool
  thc_post_revert_up_grace_secs :: u64
  thc_post_revert_up_recovery_secs :: u64
  thc_post_revert_up_backoff_max_secs :: u64
  thc_scale_down_backoff_max_secs :: u64

record threshold_polls =
  tp_scale_down_sustain :: u32
  tp_scale_validation_delay :: u32
  tp_scale_validation_delay_per_thread :: u32
  tp_post_revert_up_grace :: u32
  tp_post_revert_up_recovery :: u32
  tp_post_revert_up_backoff_max :: u32
  tp_scale_down_backoff_max :: u32

definition default_scale_up_threshold :: f64 where
  "default_scale_up_threshold = f64_lit (95 / 100)"

definition default_scale_up_min_gain :: f64 where
  "default_scale_up_min_gain = f64_lit (5 / 100)"

definition default_scale_down_revert_drop :: f64 where
  "default_scale_down_revert_drop = f64_lit (5 / 100)"

definition threshold_config_default :: threshold_config where
  "threshold_config_default =
     \<lparr>thc_scale_up_threshold = default_scale_up_threshold,
      thc_scale_down_sustain_secs = 30,
      thc_max_scale_down_step = 0,
      thc_scale_up_min_gain = default_scale_up_min_gain,
      thc_scale_down_revert_drop = default_scale_down_revert_drop,
      thc_scale_validation_delay_secs = 20,
      thc_scale_validation_delay_per_thread_secs = 0,
      thc_block_scale_up_when_cgroup_throttled = True,
      thc_post_revert_up_grace_secs = 10,
      thc_post_revert_up_recovery_secs = 20,
      thc_post_revert_up_backoff_max_secs = 300,
      thc_scale_down_backoff_max_secs = 1200\<rparr>"

definition backoff_polls :: "u32 \<Rightarrow> u32 \<Rightarrow> u32 \<Rightarrow> u32" where
  "backoff_polls base doublings mx =
     (if mx = 0 then base else min (sat_mul base (sat_pow 2 doublings)) (max mx base))"

definition validate_threshold :: "threshold_config \<Rightarrow> config_error + unit" where
  "validate_threshold cfg =
     (if \<not> (f64_is_finite (thc_scale_up_threshold cfg) \<and>
            f64_lt (Fin 0) (thc_scale_up_threshold cfg) \<and> f64_le (thc_scale_up_threshold cfg) (Fin 1))
      then Inl (ConfigInvalidValue ''scale_up_threshold_percent must be in (0, 100]'')
      else if \<not> (f64_is_finite (thc_scale_up_min_gain cfg) \<and> f64_in (thc_scale_up_min_gain cfg) 0 1)
      then Inl (ConfigInvalidValue ''scale_up_min_gain_percent must be in [0, 100]'')
      else if \<not> (f64_is_finite (thc_scale_down_revert_drop cfg) \<and>
                 f64_in (thc_scale_down_revert_drop cfg) 0 1)
      then Inl (ConfigInvalidValue ''scale_down_revert_drop_percent must be in [0, 100]'')
      else Inr ())"

definition resolve_polls ::
  "threshold_config \<Rightarrow> poll_converter \<Rightarrow> threshold_polls \<times> threshold_config \<times> poll_converter"
where
  "resolve_polls cfg c =
     (let (sustain, sustain_secs, c) =
            polls ''scale_down_sustain_secs'' (thc_scale_down_sustain_secs cfg) c;
          (delay, delay_secs, c) =
            polls ''scale_validation_delay_secs'' (thc_scale_validation_delay_secs cfg) c;
          (per_thread, per_thread_secs, c) =
            polls ''scale_validation_delay_per_thread_secs''
              (thc_scale_validation_delay_per_thread_secs cfg) c;
          (grace, grace_secs, c) =
            polls ''post_revert_up_grace_secs'' (thc_post_revert_up_grace_secs cfg) c;
          (recovery, recovery_secs, c) =
            polls ''post_revert_up_recovery_secs'' (thc_post_revert_up_recovery_secs cfg) c;
          (up_max, up_max_secs, c) =
            polls ''post_revert_up_backoff_max_secs'' (thc_post_revert_up_backoff_max_secs cfg) c;
          (down_max, down_max_secs, c) =
            polls ''scale_down_backoff_max_secs'' (thc_scale_down_backoff_max_secs cfg) c
      in (\<lparr>tp_scale_down_sustain = sustain,
           tp_scale_validation_delay = delay,
           tp_scale_validation_delay_per_thread = per_thread,
           tp_post_revert_up_grace = grace,
           tp_post_revert_up_recovery = recovery,
           tp_post_revert_up_backoff_max = up_max,
           tp_scale_down_backoff_max = down_max\<rparr>,
          cfg\<lparr>thc_scale_down_sustain_secs := sustain_secs,
              thc_scale_validation_delay_secs := delay_secs,
              thc_scale_validation_delay_per_thread_secs := per_thread_secs,
              thc_post_revert_up_grace_secs := grace_secs,
              thc_post_revert_up_recovery_secs := recovery_secs,
              thc_post_revert_up_backoff_max_secs := up_max_secs,
              thc_scale_down_backoff_max_secs := down_max_secs\<rparr>, c))"

subsection \<open>Per-VM state\<close>

record io_sample =
  is_io_count :: u64
  is_at :: instant

record pending_validation =
  pv_action :: scale_action
  pv_baseline_thread_count :: u32
  pv_baseline_iops :: u64
  pv_validation_start :: io_sample
  pv_polls_remaining :: u32

datatype post_revert_up_hold = Grace u32 | Recovery u32 io_sample

text \<open>The retained \<open>Arc<Instance>\<close> is only read for its identifier.\<close>

record vm_state =
  vs_instance_id :: string
  vs_low_util_polls :: u32
  vs_pending_validation :: "pending_validation option"
  vs_baseline_window_start :: "io_sample option"
  vs_current_baseline_iops :: u64
  vs_post_revert_up_hold :: "post_revert_up_hold option"
  vs_consecutive_failed_ups :: u32
  vs_consecutive_failed_downs :: u32

definition vm_state_new :: "string \<Rightarrow> vm_state" where
  "vm_state_new i =
     \<lparr>vs_instance_id = i, vs_low_util_polls = 0, vs_pending_validation = None,
      vs_baseline_window_start = None, vs_current_baseline_iops = 0,
      vs_post_revert_up_hold = None, vs_consecutive_failed_ups = 0,
      vs_consecutive_failed_downs = 0\<rparr>"

definition iops_rate :: "io_sample \<Rightarrow> io_sample \<Rightarrow> u64" where
  "iops_rate start end_s =
     (case checked_duration_since (is_at end_s) (is_at start) of
        None \<Rightarrow> 0
      | Some elapsed \<Rightarrow>
          let secs = as_secs_f64 elapsed
          in if f64_le secs (Fin 0) then 0
             else let delta = f64_of_word (sat_sub (is_io_count end_s) (is_io_count start))
                  in f64_as_word (f64_round (f64_div delta secs)))"

definition start_validation ::
  "scale_action \<Rightarrow> u32 \<Rightarrow> u64 \<Rightarrow> io_sample \<Rightarrow> u32 \<Rightarrow> vm_state \<Rightarrow> vm_state" where
  "start_validation action previous_thread_count baseline_iops start polls_remaining v =
     v\<lparr>vs_pending_validation := Some
         \<lparr>pv_action = action, pv_baseline_thread_count = previous_thread_count,
          pv_baseline_iops = baseline_iops, pv_validation_start = start,
          pv_polls_remaining = polls_remaining\<rparr>\<rparr>"

definition reset_baseline_window :: "io_sample \<Rightarrow> vm_state \<Rightarrow> vm_state" where
  "reset_baseline_window start v =
     v\<lparr>vs_baseline_window_start := Some start, vs_current_baseline_iops := 0\<rparr>"

fun reset_after_applied :: "scale_action \<Rightarrow> vm_state \<Rightarrow> vm_state" where
  "reset_after_applied (Up _) v = v\<lparr>vs_consecutive_failed_downs := 0, vs_low_util_polls := 0\<rparr>"
| "reset_after_applied (Down _) v =
     v\<lparr>vs_post_revert_up_hold := None, vs_consecutive_failed_ups := 0, vs_low_util_polls := 0\<rparr>"
| "reset_after_applied _ v = v"

definition refresh_baseline_rate :: "io_sample \<Rightarrow> vm_state \<Rightarrow> vm_state" where
  "refresh_baseline_rate end_s v =
     (case vs_baseline_window_start v of
        None \<Rightarrow> v\<lparr>vs_baseline_window_start := Some end_s, vs_current_baseline_iops := 0\<rparr>
      | Some start \<Rightarrow> v\<lparr>vs_current_baseline_iops := iops_rate start end_s\<rparr>)"

definition begin_post_revert_up_hold :: "u32 \<Rightarrow> vm_state \<Rightarrow> vm_state" where
  "begin_post_revert_up_hold grace_polls v =
     v\<lparr>vs_baseline_window_start := None, vs_current_baseline_iops := 0,
       vs_post_revert_up_hold := Some (Grace grace_polls)\<rparr>"

definition advance_post_revert_up_hold :: "io_sample \<Rightarrow> u32 \<Rightarrow> vm_state \<Rightarrow> bool \<times> vm_state" where
  "advance_post_revert_up_hold sample recovery_polls v =
     (case vs_post_revert_up_hold v of
        None \<Rightarrow> (False, v)
      | Some (Grace n) \<Rightarrow>
          if 0 < n then (True, v\<lparr>vs_post_revert_up_hold := Some (Grace (n - 1))\<rparr>)
          else if recovery_polls = 0
          then (False, reset_baseline_window sample (v\<lparr>vs_post_revert_up_hold := None\<rparr>))
          else (True, v\<lparr>vs_post_revert_up_hold := Some (Recovery recovery_polls sample)\<rparr>)
      | Some (Recovery n window_start) \<Rightarrow>
          let rate = iops_rate window_start sample;
              v = v\<lparr>vs_current_baseline_iops := rate\<rparr>
          in if 1 < n
             then (True, v\<lparr>vs_post_revert_up_hold := Some (Recovery (n - 1) window_start)\<rparr>)
             else (False, v\<lparr>vs_post_revert_up_hold := None,
                            vs_baseline_window_start := Some window_start\<rparr>))"

subsection \<open>The engine\<close>

record threshold_engine =
  te_cfg :: threshold_config
  te_polls :: threshold_polls
  te_poll_period :: duration
  te_state :: "vm_state hash_map"

definition threshold_new ::
  "threshold_config \<Rightarrow> poll_converter \<Rightarrow> config_error + threshold_engine \<times> poll_converter" where
  "threshold_new cfg c =
     result_bind (validate_threshold cfg) (\<lambda>_.
       let (ps, cfg, c) = resolve_polls cfg c
       in Inr (\<lparr>te_cfg = cfg, te_polls = ps, te_poll_period = converter_period c,
                te_state = []\<rparr>, c))"

text \<open>\<open>from_config_dir\<close>, given how files are tested and documents loaded.\<close>

definition threshold_from_config_dir ::
  "(path \<Rightarrow> bool) \<Rightarrow> (path \<Rightarrow> config_error + threshold_config) \<Rightarrow> path \<Rightarrow> path \<Rightarrow>
   poll_converter \<Rightarrow> engine_error + threshold_engine \<times> poll_converter"
where
  "threshold_from_config_dir path_exists load rootp dir c =
     (let p = path_new rootp (path_join dir [Normal (engine_name @ ''.json'')])
      in result_map_err EngineConfig
           (result_bind (if path_exists p then load p else Inr threshold_config_default)
              (\<lambda>cfg. threshold_new cfg c)))"

definition validation_sample_polls :: "threshold_polls \<Rightarrow> u32 \<Rightarrow> u32" where
  "validation_sample_polls ps target_thread_count =
     sat_add (tp_scale_validation_delay ps)
       (sat_mul (tp_scale_validation_delay_per_thread ps) target_thread_count)"

definition scale_down_target :: "threshold_config \<Rightarrow> f64 \<Rightarrow> u32 \<Rightarrow> u32 \<Rightarrow> u32" where
  "scale_down_target cfg per_thread_util thread_count min_thread_count =
     (let total_load = f64_mul per_thread_util (f64_of_word thread_count);
          required = f64_as_word (f64_clamp (f64_ceil (f64_div total_load (thc_scale_up_threshold cfg)))
            (Fin 1) (f64_of_word (- 1 :: u32)));
          tgt = max required min_thread_count
      in if thread_count \<le> tgt then thread_count
         else if thc_max_scale_down_step cfg = 0 then tgt
         else max tgt (max (sat_sub thread_count (thc_max_scale_down_step cfg)) min_thread_count))"

definition validation_revert_target ::
  "threshold_config \<Rightarrow> u64 \<Rightarrow> f64 \<Rightarrow> pending_validation \<Rightarrow> u32 option" where
  "validation_revert_target cfg observed_iops per_thread_util pending =
     (let baseline = pv_baseline_iops pending;
          verdict = (\<lambda>required bound.
            if f64_lt (Fin 0) bound \<and> 0 < baseline \<and> f64_lt (f64_of_word observed_iops) required
            then Some (pv_baseline_thread_count pending) else None)
      in case pv_action pending of
           Up _ \<Rightarrow> verdict
             (f64_mul (f64_of_word baseline) (f64_add (Fin 1) (thc_scale_up_min_gain cfg)))
             (thc_scale_up_min_gain cfg)
         | Down _ \<Rightarrow>
             if f64_le per_thread_util (thc_scale_up_threshold cfg) then None
             else verdict
               (f64_mul (f64_of_word baseline) (f64_sub (Fin 1) (thc_scale_down_revert_drop cfg)))
               (thc_scale_down_revert_drop cfg)
         | _ \<Rightarrow> None)"

definition post_revert_up_grace_polls :: "threshold_polls \<Rightarrow> u32 \<Rightarrow> u32" where
  "post_revert_up_grace_polls ps failures =
     (let recovery = tp_post_revert_up_recovery ps;
          hold = backoff_polls (sat_add (tp_post_revert_up_grace ps) recovery)
            (sat_sub failures 1) (tp_post_revert_up_backoff_max ps)
      in sat_sub hold recovery)"

definition scale_down_sustain_polls :: "threshold_polls \<Rightarrow> u32 \<Rightarrow> u32" where
  "scale_down_sustain_polls ps failures =
     backoff_polls (tp_scale_down_sustain ps) failures (tp_scale_down_backoff_max ps)"

definition validation_after :: "threshold_polls \<Rightarrow> duration \<Rightarrow> u32 \<Rightarrow> duration" where
  "validation_after ps period target_thread_count =
     duration_saturating_mul period (sat_add (validation_sample_polls ps target_thread_count) 1)"

text \<open>
  \<open>evaluate\<close> on one VM's entry, in the two parts of the code: an action waiting for its
  validation, and ordinary scaling.
\<close>

definition evaluate_validation ::
  "threshold_config \<Rightarrow> threshold_polls \<Rightarrow> f64 \<Rightarrow> io_sample \<Rightarrow> pending_validation \<Rightarrow> vm_state \<Rightarrow>
   scale_action \<times> vm_state"
where
  "evaluate_validation cfg ps per_thread_util sample pending v =
     (if 0 < pv_polls_remaining pending
      then (Hold, v\<lparr>vs_pending_validation := Some
              (pending\<lparr>pv_polls_remaining := pv_polls_remaining pending - 1\<rparr>)\<rparr>)
      else
        let observed_iops = iops_rate (pv_validation_start pending) sample;
            failed_up = is_up (pv_action pending);
            revert_target = validation_revert_target cfg observed_iops per_thread_util pending;
            v = reset_baseline_window sample (v\<lparr>vs_pending_validation := None\<rparr>)
        in case revert_target of
             None \<Rightarrow> (Hold, if failed_up then v\<lparr>vs_consecutive_failed_ups := 0\<rparr>
                            else v\<lparr>vs_consecutive_failed_downs := 0\<rparr>)
           | Some tgt \<Rightarrow>
               (Revert tgt,
                if failed_up then
                  let failures = sat_add (vs_consecutive_failed_ups v) 1
                  in begin_post_revert_up_hold (post_revert_up_grace_polls ps failures)
                       (v\<lparr>vs_consecutive_failed_ups := failures\<rparr>)
                else v\<lparr>vs_consecutive_failed_downs :=
                         sat_add (vs_consecutive_failed_downs v) 1\<rparr>))"

definition evaluate_scaling ::
  "threshold_config \<Rightarrow> threshold_polls \<Rightarrow> tick_context \<Rightarrow> instance_status \<Rightarrow> io_sample \<Rightarrow>
   vm_state \<Rightarrow> scale_action \<times> vm_state"
where
  "evaluate_scaling cfg ps ctxt s sample v =
     (let thread_count = st_thread_count s;
          down_target = scale_down_target cfg (st_per_thread_util s) thread_count
            (tc_min_thread_count ctxt);
          (block_scale_up, v) =
            advance_post_revert_up_hold sample (tp_post_revert_up_recovery ps) v;
          v = (if block_scale_up then v else refresh_baseline_rate sample v);
          v = (if down_target < thread_count
               then v\<lparr>vs_low_util_polls := vs_low_util_polls v + 1\<rparr>
               else v\<lparr>vs_low_util_polls := 0\<rparr>)
      in if \<not> block_scale_up \<and> thread_count < tc_max_thread_count ctxt \<and>
            f64_lt (thc_scale_up_threshold cfg) (st_per_thread_util s)
         then if thc_block_scale_up_when_cgroup_throttled cfg \<and> 0 < st_throttled_usec_delta s
              then (Hold, v)
              else (Up (min (thread_count + 1) (tc_max_thread_count ctxt)), v)
         else if down_target < thread_count \<and>
            scale_down_sustain_polls ps (vs_consecutive_failed_downs v) \<le> vs_low_util_polls v
         then (Down down_target, v)
         else (Hold, v))"

definition evaluate_vm ::
  "threshold_config \<Rightarrow> threshold_polls \<Rightarrow> tick_context \<Rightarrow> instance_status \<Rightarrow> vm_state \<Rightarrow>
   scale_action \<times> vm_state"
where
  "evaluate_vm cfg ps ctxt s v =
     (let sample = \<lparr>is_io_count = (case st_perf s of None \<Rightarrow> 0 | Some p \<Rightarrow> total_io_count p),
                    is_at = tc_now ctxt\<rparr>
      in case vs_pending_validation v of
           Some pending \<Rightarrow> evaluate_validation cfg ps (st_per_thread_util s) sample pending v
         | None \<Rightarrow> evaluate_scaling cfg ps ctxt s sample v)"

definition entry_or_new :: "string \<Rightarrow> vm_state hash_map \<Rightarrow> vm_state" where
  "entry_or_new i m = (case hm_get m i of None \<Rightarrow> vm_state_new i | Some v \<Rightarrow> v)"

definition threshold_evaluate ::
  "string \<Rightarrow> instance_status \<Rightarrow> tick_context \<Rightarrow> threshold_engine \<Rightarrow> scale_action \<times> threshold_engine"
where
  "threshold_evaluate i s ctxt e =
     (let (action, v) = evaluate_vm (te_cfg e) (te_polls e) ctxt s (entry_or_new i (te_state e))
      in (action, e\<lparr>te_state := hm_insert i v (te_state e)\<rparr>))"

text \<open>\<open>on_applied\<close> on one entry, for the outcomes it acts on.\<close>

definition on_applied_vm ::
  "threshold_config \<Rightarrow> threshold_polls \<Rightarrow> scale_action \<Rightarrow> u32 \<Rightarrow> io_sample \<Rightarrow> vm_state \<Rightarrow> vm_state" where
  "on_applied_vm cfg ps action previous_thread_count applied v =
     (case action of
        Up n \<Rightarrow>
          let v = reset_after_applied action v
          in if f64_lt (Fin 0) (thc_scale_up_min_gain cfg)
             then start_validation action previous_thread_count (vs_current_baseline_iops v) applied
                    (validation_sample_polls ps n) v
             else reset_baseline_window applied v
      | Down n \<Rightarrow>
          let v = reset_after_applied action v
          in if f64_lt (Fin 0) (thc_scale_down_revert_drop cfg)
             then start_validation action previous_thread_count (vs_current_baseline_iops v) applied
                    (validation_sample_polls ps n) v
             else reset_baseline_window applied v
      | _ \<Rightarrow> v)"

definition threshold_on_applied :: "string \<Rightarrow> applied_outcome \<Rightarrow> threshold_engine \<Rightarrow> threshold_engine" where
  "threshold_on_applied i outcome e =
     (let acted = (case outcome of
            Success action n io t \<Rightarrow> Some (action, n, io, t)
          | DryRun action n io t \<Rightarrow> Some (action, n, io, t)
          | Blocked _ _ \<Rightarrow> None
          | Failed _ _ \<Rightarrow> None)
      in case acted of
           None \<Rightarrow> e
         | Some (action, n, io, t) \<Rightarrow>
             (case hm_get (te_state e) i of
                None \<Rightarrow> e
              | Some v \<Rightarrow> e\<lparr>te_state := hm_insert i
                  (on_applied_vm (te_cfg e) (te_polls e) action n
                     \<lparr>is_io_count = io, is_at = t\<rparr> v) (te_state e)\<rparr>))"

definition threshold_on_instance_added :: "string \<Rightarrow> threshold_engine \<Rightarrow> threshold_engine" where
  "threshold_on_instance_added i e =
     e\<lparr>te_state := hm_or_insert i (vm_state_new i) (te_state e)\<rparr>"

definition threshold_on_instance_removed :: "string \<Rightarrow> threshold_engine \<Rightarrow> threshold_engine" where
  "threshold_on_instance_removed i e = e\<lparr>te_state := hm_remove i (te_state e)\<rparr>"

definition threshold_ops :: "threshold_engine engine_ops" where
  "threshold_ops =
     \<lparr>eng_name = engine_name,
      eng_evaluate = threshold_evaluate,
      eng_evaluate_fleet = evaluate_fleet threshold_evaluate,
      eng_on_applied = threshold_on_applied,
      eng_on_instance_added = threshold_on_instance_added,
      eng_on_instance_removed = threshold_on_instance_removed\<rparr>"

subsection \<open>Backoff\<close>

lemma uint_backoff_polls:
  assumes "mx \<noteq> 0"
  shows "uint (backoff_polls base d mx) = min (uint base * 2 ^ unat d) (max (uint mx) (uint base))"
proof -
  have top: "max (uint mx) (uint base) \<le> word_top TYPE(32)"
    by simp
  have "min (uint base * min (2 ^ unat d) (word_top TYPE(32))) (max (uint mx) (uint base)) =
      min (uint base * 2 ^ unat d) (max (uint mx) (uint base))"
  proof (cases "uint base = 0")
    case True
    then show ?thesis by simp
  next
    case False
    then have "1 \<le> uint base"
      using uint_ge_0 [of base] by linarith
    then have "word_top TYPE(32) \<le> uint base * word_top TYPE(32)"
      by (simp add: mult_le_cancel_right1 word_top_def)
    moreover have "uint base * word_top TYPE(32) \<le> uint base * 2 ^ unat d"
      if "word_top TYPE(32) \<le> 2 ^ unat d"
      using that by (intro mult_left_mono) auto
    ultimately have "word_top TYPE(32) \<le> uint base * 2 ^ unat d"
        "word_top TYPE(32) \<le> uint base * word_top TYPE(32)"
      if "word_top TYPE(32) \<le> 2 ^ unat d"
      using that by linarith+
    moreover have "min X (max (uint mx) (uint base)) = max (uint mx) (uint base)"
      if "word_top TYPE(32) \<le> X" for X
      using order_trans [OF top that] by (rule min_absorb2)
    ultimately show ?thesis
      by (cases "word_top TYPE(32) \<le> 2 ^ unat d") (simp_all add: min_absorb1 min_absorb2)
  qed
  then show ?thesis
    using assms top
    by (simp add: backoff_polls_def uint_min uint_max uint_sat_mul uint_sat_pow min.assoc)
qed

lemma backoff_polls_ge: "base \<le> backoff_polls base d mx"
proof (cases "mx = 0")
  case True
  then show ?thesis by (simp add: backoff_polls_def)
next
  case False
  have "uint base * 1 \<le> uint base * 2 ^ unat d"
    by (intro mult_left_mono) auto
  then show ?thesis
    by (simp add: word_le_def uint_backoff_polls [OF False])
qed

text \<open>
  C31: backoff doubles and is capped.  Computed in saturating 32 bit arithmetic, the backoff is
  exactly the base doubled once per failure, capped at the configured maximum but never below the
  base; a zero maximum disables it, and more failures never shorten it.
\<close>

theorem backoff_exact:
  "backoff_polls base d 0 = base \<and>
   (mx = 0 \<or> uint (backoff_polls base d mx) = min (uint base * 2 ^ unat d) (max (uint mx) (uint base))) \<and>
   base \<le> backoff_polls base d mx \<and>
   backoff_polls base (min d d') mx \<le> backoff_polls base d mx"
proof -
  have "backoff_polls base (min d d') mx \<le> backoff_polls base d mx"
  proof (cases "mx = 0")
    case True
    then show ?thesis by (simp add: backoff_polls_def)
  next
    case False
    have "unat (min d d') \<le> unat d"
      by (simp add: min_def word_le_nat_alt)
    then have "uint base * 2 ^ unat (min d d') \<le> uint base * 2 ^ unat d"
      by (intro mult_left_mono power_increasing) auto
    then show ?thesis
      unfolding word_le_def uint_backoff_polls [OF False] by linarith
  qed
  then show ?thesis
    using uint_backoff_polls [of mx base d] backoff_polls_ge [of base d mx]
    by (simp add: backoff_polls_def)
qed

subsection \<open>The hold after a failed scale-up\<close>

text \<open>The number of evaluations a hold still blocks.\<close>

definition hold_remaining :: "threshold_polls \<Rightarrow> vm_state \<Rightarrow> int" where
  "hold_remaining ps v =
     (case vs_post_revert_up_hold v of
        None \<Rightarrow> 0
      | Some (Grace n) \<Rightarrow> uint n + uint (tp_post_revert_up_recovery ps)
      | Some (Recovery n _) \<Rightarrow> max 0 (uint n - 1))"

lemma hold_remaining_nonneg [simp]: "0 \<le> hold_remaining ps v"
  by (simp add: hold_remaining_def split: option.split post_revert_up_hold.split)

lemma hold_remaining_le_0 [simp]: "hold_remaining ps v \<le> 0 \<longleftrightarrow> hold_remaining ps v = 0"
  using hold_remaining_nonneg [of ps v] by linarith

lemma word_not_pos: "\<not> 0 < (w :: 'a::len word) \<longleftrightarrow> w = 0"
  using word_neq_0_conv by blast

lemma uint_minus_one: "0 < (n :: 'a::len word) \<Longrightarrow> uint (n - 1) = uint n - 1"
  using uint_sub_le [of 1 n] by (simp add: word_le_def word_less_def)

lemma hold_remaining_advance:
  assumes "advance_post_revert_up_hold sample (tp_post_revert_up_recovery ps) v = (blocked, v')"
  shows "blocked = (0 < hold_remaining ps v) \<and> hold_remaining ps v' = max 0 (hold_remaining ps v - 1)"
proof (cases "vs_post_revert_up_hold v")
  case None
  with assms show ?thesis
    by (auto simp: advance_post_revert_up_hold_def hold_remaining_def)
next
  case (Some hold)
  let ?r = "tp_post_revert_up_recovery ps"
  define R where "R = uint ?r"
  have r: "0 \<le> R" "?r = 0 \<longleftrightarrow> R = 0"
    by (simp_all add: word_uint_eq_iff R_def)
  show ?thesis
  proof (cases hold)
    case (Grace n)
    show ?thesis
    proof (cases "0 < n")
      case True
      then have "0 < uint n"
        by (simp add: word_less_def)
      with True show ?thesis
        using assms Some Grace r(1) uint_minus_one [OF True]
        by (auto simp: advance_post_revert_up_hold_def hold_remaining_def simp flip: R_def)
    next
      case False
      then have "n = 0"
        using word_neq_0_conv by blast
      with assms Some Grace r show ?thesis
        by (auto simp: advance_post_revert_up_hold_def hold_remaining_def reset_baseline_window_def
            simp flip: R_def split: if_splits)
    qed
  next
    case (Recovery n w)
    show ?thesis
    proof (cases "1 < n")
      case True
      then have "0 < n" and "1 < uint n"
        by (simp_all add: word_less_def)
      with True show ?thesis
        using assms Some Recovery uint_minus_one [of n]
        by (auto simp: advance_post_revert_up_hold_def hold_remaining_def Let_def)
    next
      case False
      then have "uint n \<le> 1"
        by (simp add: word_less_def)
      with False assms Some Recovery show ?thesis
        by (auto simp: advance_post_revert_up_hold_def hold_remaining_def Let_def)
    qed
  qed
qed

text \<open>What the hold and the baseline leave alone.\<close>

lemma advance_frame:
  assumes "advance_post_revert_up_hold sample n v = (blocked, v')"
  shows "vs_pending_validation v' = vs_pending_validation v"
    and "vs_low_util_polls v' = vs_low_util_polls v"
    and "vs_consecutive_failed_ups v' = vs_consecutive_failed_ups v"
    and "vs_consecutive_failed_downs v' = vs_consecutive_failed_downs v"
    and "vs_instance_id v' = vs_instance_id v"
  using assms
  by (auto simp: advance_post_revert_up_hold_def reset_baseline_window_def Let_def
      split: option.splits post_revert_up_hold.splits if_splits)

lemma refresh_baseline_rate_frame [simp]:
  "vs_pending_validation (refresh_baseline_rate sample v) = vs_pending_validation v"
  "vs_low_util_polls (refresh_baseline_rate sample v) = vs_low_util_polls v"
  "vs_post_revert_up_hold (refresh_baseline_rate sample v) = vs_post_revert_up_hold v"
  "vs_consecutive_failed_ups (refresh_baseline_rate sample v) = vs_consecutive_failed_ups v"
  "vs_consecutive_failed_downs (refresh_baseline_rate sample v) = vs_consecutive_failed_downs v"
  "vs_instance_id (refresh_baseline_rate sample v) = vs_instance_id v"
  by (simp_all add: refresh_baseline_rate_def split: option.split)

text \<open>
  One evaluation without a pending validation, by its observable parts: the verdict, the hold, the
  sustain counter and the fields that stay.
\<close>

definition down_target_of :: "threshold_config \<Rightarrow> tick_context \<Rightarrow> instance_status \<Rightarrow> u32" where
  "down_target_of cfg ctxt s = scale_down_target cfg (st_per_thread_util s) (st_thread_count s)
     (tc_min_thread_count ctxt)"

definition wants_up :: "threshold_config \<Rightarrow> tick_context \<Rightarrow> instance_status \<Rightarrow> bool" where
  "wants_up cfg ctxt s \<longleftrightarrow> st_thread_count s < tc_max_thread_count ctxt \<and>
     f64_lt (thc_scale_up_threshold cfg) (st_per_thread_util s)"

definition throttled :: "threshold_config \<Rightarrow> instance_status \<Rightarrow> bool" where
  "throttled cfg s \<longleftrightarrow> thc_block_scale_up_when_cgroup_throttled cfg \<and> 0 < st_throttled_usec_delta s"

lemma evaluate_scaling_eq:
  assumes "evaluate_scaling cfg ps ctxt s sample v = (action, v')"
  shows "vs_low_util_polls v' =
      (if down_target_of cfg ctxt s < st_thread_count s then vs_low_util_polls v + 1 else 0)"
    and "hold_remaining ps v' = max 0 (hold_remaining ps v - 1)"
    and "vs_pending_validation v' = vs_pending_validation v"
    and "vs_consecutive_failed_ups v' = vs_consecutive_failed_ups v"
    and "vs_consecutive_failed_downs v' = vs_consecutive_failed_downs v"
    and "vs_instance_id v' = vs_instance_id v"
    and "action =
      (if hold_remaining ps v = 0 \<and> wants_up cfg ctxt s
       then if throttled cfg s then Hold
            else Up (min (st_thread_count s + 1) (tc_max_thread_count ctxt))
       else if down_target_of cfg ctxt s < st_thread_count s \<and>
         scale_down_sustain_polls ps (vs_consecutive_failed_downs v) \<le> vs_low_util_polls v'
       then Down (down_target_of cfg ctxt s)
       else Hold)"
proof -
  obtain blocked w where adv:
      "advance_post_revert_up_hold sample (tp_post_revert_up_recovery ps) v = (blocked, w)"
    by (cases "advance_post_revert_up_hold sample (tp_post_revert_up_recovery ps) v")
  define w' where "w' = (if blocked then w else refresh_baseline_rate sample w)"
  define w'' where "w'' = w'\<lparr>vs_low_util_polls :=
    (if down_target_of cfg ctxt s < st_thread_count s then vs_low_util_polls w' + 1 else 0)\<rparr>"
  have rem: "blocked = (0 < hold_remaining ps v)" "hold_remaining ps w = max 0 (hold_remaining ps v - 1)"
    using hold_remaining_advance [OF adv] by auto
  have v': "v' = w''" and action: "action =
      (if \<not> blocked \<and> wants_up cfg ctxt s
       then if throttled cfg s then Hold
            else Up (min (st_thread_count s + 1) (tc_max_thread_count ctxt))
       else if down_target_of cfg ctxt s < st_thread_count s \<and>
         scale_down_sustain_polls ps (vs_consecutive_failed_downs w'') \<le> vs_low_util_polls w''
       then Down (down_target_of cfg ctxt s) else Hold)"
    using assms adv
    by (auto simp: evaluate_scaling_def Let_def w'_def w''_def wants_up_def throttled_def
        down_target_of_def split: if_splits)
  have hold: "hold_remaining ps w'' = hold_remaining ps w"
    by (simp add: w''_def w'_def hold_remaining_def)
  show "vs_low_util_polls v' =
      (if down_target_of cfg ctxt s < st_thread_count s then vs_low_util_polls v + 1 else 0)"
    and "vs_pending_validation v' = vs_pending_validation v"
    and "vs_consecutive_failed_ups v' = vs_consecutive_failed_ups v"
    and cd: "vs_consecutive_failed_downs v' = vs_consecutive_failed_downs v"
    and "vs_instance_id v' = vs_instance_id v"
    using advance_frame [OF adv] by (simp_all add: v' w''_def w'_def)
  show "hold_remaining ps v' = max 0 (hold_remaining ps v - 1)"
    using hold rem v' by simp
  show "action =
      (if hold_remaining ps v = 0 \<and> wants_up cfg ctxt s
       then if throttled cfg s then Hold
            else Up (min (st_thread_count s + 1) (tc_max_thread_count ctxt))
       else if down_target_of cfg ctxt s < st_thread_count s \<and>
         scale_down_sustain_polls ps (vs_consecutive_failed_downs v) \<le> vs_low_util_polls v'
       then Down (down_target_of cfg ctxt s)
       else Hold)"
    using action cd rem(1) hold_remaining_nonneg [of ps v] by (simp add: v' order_le_less)
qed

subsection \<open>Verdicts\<close>

lemma scale_down_target_bounds:
  assumes "scale_down_target cfg u count mn < count"
  shows "mn \<le> scale_down_target cfg u count mn"
    and "thc_max_scale_down_step cfg = 0 \<or>
      sat_sub count (thc_max_scale_down_step cfg) \<le> scale_down_target cfg u count mn"
  using assms by (auto simp: scale_down_target_def Let_def le_max_iff_disj split: if_splits)

text \<open>The sample an evaluation takes of a VM: its I/O count at the time of the tick.\<close>

definition vm_sample :: "tick_context \<Rightarrow> instance_status \<Rightarrow> io_sample" where
  "vm_sample ctxt s =
     \<lparr>is_io_count = (case st_perf s of None \<Rightarrow> 0 | Some p \<Rightarrow> total_io_count p),
      is_at = tc_now ctxt\<rparr>"

lemma evaluate_vm_pending:
  "vs_pending_validation v = Some p \<Longrightarrow>
   evaluate_vm cfg ps ctxt s v = evaluate_validation cfg ps (st_per_thread_util s) (vm_sample ctxt s) p v"
  by (simp add: evaluate_vm_def vm_sample_def Let_def)

lemma evaluate_vm_scaling:
  "vs_pending_validation v = None \<Longrightarrow>
   \<exists>sample. evaluate_vm cfg ps ctxt s v = evaluate_scaling cfg ps ctxt s sample v"
  by (auto simp: evaluate_vm_def Let_def)

text \<open>
  When validation fails: the I/O rate before the action is known, the check is enabled, and the rate
  measured since did not gain enough after a scale-up, or dropped too far after a scale-down that
  left the workers above the threshold.
\<close>

definition validation_failed :: "threshold_config \<Rightarrow> u64 \<Rightarrow> f64 \<Rightarrow> pending_validation \<Rightarrow> bool" where
  "validation_failed cfg io u p \<longleftrightarrow> 0 < pv_baseline_iops p \<and>
     (case pv_action p of
        Up _ \<Rightarrow> f64_lt (Fin 0) (thc_scale_up_min_gain cfg) \<and>
          f64_lt (f64_of_word io)
            (f64_mul (f64_of_word (pv_baseline_iops p)) (f64_add (Fin 1) (thc_scale_up_min_gain cfg)))
      | Down _ \<Rightarrow> \<not> f64_le u (thc_scale_up_threshold cfg) \<and>
          f64_lt (Fin 0) (thc_scale_down_revert_drop cfg) \<and>
          f64_lt (f64_of_word io)
            (f64_mul (f64_of_word (pv_baseline_iops p)) (f64_sub (Fin 1) (thc_scale_down_revert_drop cfg)))
      | _ \<Rightarrow> False)"

lemma validation_revert_target_Some:
  "validation_revert_target cfg io u p = Some n \<longleftrightarrow>
     validation_failed cfg io u p \<and> n = pv_baseline_thread_count p"
  by (auto simp: validation_revert_target_def validation_failed_def Let_def split: scale_action.split)

lemma evaluate_validation_action:
  "evaluate_validation cfg ps u sample p v = (action, v') \<Longrightarrow>
   action = Hold \<or> (\<exists>n. action = Revert n \<and> pv_polls_remaining p = 0 \<and>
     n = pv_baseline_thread_count p \<and>
     validation_failed cfg (iops_rate (pv_validation_start p) sample) u p \<and>
     vs_pending_validation v' = None)"
  by (auto simp: evaluate_validation_def validation_revert_target_Some Let_def
      reset_baseline_window_def begin_post_revert_up_hold_def word_not_pos
      split: if_splits option.splits)

lemma verdict_cases:
  assumes "evaluate_vm cfg ps ctxt s v = (action, v')"
  shows "case action of
      Hold \<Rightarrow> True
    | Up n \<Rightarrow> vs_pending_validation v = None \<and> hold_remaining ps v = 0 \<and>
        f64_lt (thc_scale_up_threshold cfg) (st_per_thread_util s) \<and> \<not> throttled cfg s \<and>
        uint n = uint (st_thread_count s) + 1 \<and> n \<le> tc_max_thread_count ctxt
    | Down n \<Rightarrow> vs_pending_validation v = None \<and>
        n < st_thread_count s \<and> tc_min_thread_count ctxt \<le> n \<and>
        (thc_max_scale_down_step cfg = 0 \<or>
          sat_sub (st_thread_count s) (thc_max_scale_down_step cfg) \<le> n) \<and>
        scale_down_sustain_polls ps (vs_consecutive_failed_downs v) \<le> vs_low_util_polls v + 1
    | Revert n \<Rightarrow> (\<exists>p. vs_pending_validation v = Some p \<and> pv_polls_remaining p = 0 \<and>
        validation_failed cfg (iops_rate (pv_validation_start p) (vm_sample ctxt s))
          (st_per_thread_util s) p \<and>
        n = pv_baseline_thread_count p)"
proof (cases "vs_pending_validation v")
  case (Some p)
  then show ?thesis
    using assms evaluate_vm_pending [of v p cfg ps ctxt s] evaluate_validation_action
    by (fastforce split: scale_action.splits)
next
  case None
  then obtain sample where "evaluate_scaling cfg ps ctxt s sample v = (action, v')"
    using assms evaluate_vm_scaling [of v cfg ps ctxt s] by auto
  note eq = evaluate_scaling_eq [OF this]
  have up: "uint (min (st_thread_count s + 1) (tc_max_thread_count ctxt)) = uint (st_thread_count s) + 1"
    if "wants_up cfg ctxt s"
    using that uint_word_plus_one [of "st_thread_count s" "tc_max_thread_count ctxt"]
    by (simp add: wants_up_def uint_min word_less_def)
  show ?thesis
  proof (cases "hold_remaining ps v = 0 \<and> wants_up cfg ctxt s")
    case True
    with None up show ?thesis
      by (auto simp: eq(7) wants_up_def)
  next
    case False
    then show ?thesis
      using None scale_down_target_bounds [of cfg "st_per_thread_util s" "st_thread_count s"
          "tc_min_thread_count ctxt"]
      by (auto simp: eq(1,7) down_target_of_def)
  qed
qed

text \<open>
  C4: every verdict is justified and within bounds.  A scale-up asks for exactly one more worker,
  within the maximum, only without a pending validation or an active hold, above the threshold and
  without recent throttling; a scale-down stays between the minimum and the current count, respects
  the step limit and has been sustained; a revert restores the count recorded with an action whose
  validation period is over and whose validation failed: the rate measured since the action did not
  gain enough, or dropped too far.
\<close>

theorem verdict_justified:
  "case fst (evaluate_vm cfg ps ctxt s v) of
      Hold \<Rightarrow> True
    | Up n \<Rightarrow> vs_pending_validation v = None \<and> hold_remaining ps v = 0 \<and>
        f64_lt (thc_scale_up_threshold cfg) (st_per_thread_util s) \<and> \<not> throttled cfg s \<and>
        uint n = uint (st_thread_count s) + 1 \<and> n \<le> tc_max_thread_count ctxt
    | Down n \<Rightarrow> vs_pending_validation v = None \<and>
        n < st_thread_count s \<and> tc_min_thread_count ctxt \<le> n \<and>
        (thc_max_scale_down_step cfg = 0 \<or>
          sat_sub (st_thread_count s) (thc_max_scale_down_step cfg) \<le> n) \<and>
        scale_down_sustain_polls ps (vs_consecutive_failed_downs v) \<le> vs_low_util_polls v + 1
    | Revert n \<Rightarrow> (\<exists>p. vs_pending_validation v = Some p \<and> pv_polls_remaining p = 0 \<and>
        validation_failed cfg (iops_rate (pv_validation_start p) (vm_sample ctxt s))
          (st_per_thread_util s) p \<and>
        n = pv_baseline_thread_count p)"
  by (rule verdict_cases [OF prod.collapse [symmetric]])

subsection \<open>Runs of evaluations\<close>

text \<open>Successive ticks of one VM with no action applied in between.\<close>

fun evaluate_run ::
  "threshold_config \<Rightarrow> threshold_polls \<Rightarrow> (tick_context \<times> instance_status) list \<Rightarrow> vm_state \<Rightarrow>
   scale_action list \<times> vm_state"
where
  "evaluate_run cfg ps [] v = ([], v)"
| "evaluate_run cfg ps ((ctxt, s) # ticks) v =
     (let (action, v') = evaluate_vm cfg ps ctxt s v;
          (actions, v'') = evaluate_run cfg ps ticks v'
      in (action # actions, v''))"

lemma evaluate_run_length: "length (fst (evaluate_run cfg ps ticks v)) = length ticks"
  by (induction ticks arbitrary: v) (auto simp: split_beta Let_def)

lemma evaluate_run_snoc:
  "evaluate_run cfg ps (ticks @ [(ctxt, s)]) v =
     (let (actions, v') = evaluate_run cfg ps ticks v;
          (action, v'') = evaluate_vm cfg ps ctxt s v'
      in (actions @ [action], v''))"
  by (induction ticks arbitrary: v) (auto simp: split_beta Let_def)

lemma evaluate_vm_no_pending:
  assumes "vs_pending_validation v = None" and "evaluate_vm cfg ps ctxt s v = (action, v')"
  shows "vs_pending_validation v' = None"
    and "hold_remaining ps v' = max 0 (hold_remaining ps v - 1)"
    and "is_up action \<longleftrightarrow> hold_remaining ps v = 0 \<and> wants_up cfg ctxt s \<and> \<not> throttled cfg s"
    and "vs_consecutive_failed_downs v' = vs_consecutive_failed_downs v"
    and "vs_low_util_polls v' =
      (if down_target_of cfg ctxt s < st_thread_count s then vs_low_util_polls v + 1 else 0)"
    and "(\<exists>n. action = Down n) \<Longrightarrow> down_target_of cfg ctxt s < st_thread_count s \<and>
      scale_down_sustain_polls ps (vs_consecutive_failed_downs v) \<le> vs_low_util_polls v'"
proof -
  obtain sample where "evaluate_scaling cfg ps ctxt s sample v = (action, v')"
    using assms evaluate_vm_scaling [of v cfg ps ctxt s] by auto
  note eq = evaluate_scaling_eq [OF this]
  show "vs_pending_validation v' = None"
    and "hold_remaining ps v' = max 0 (hold_remaining ps v - 1)"
    and "vs_consecutive_failed_downs v' = vs_consecutive_failed_downs v"
    and "vs_low_util_polls v' =
      (if down_target_of cfg ctxt s < st_thread_count s then vs_low_util_polls v + 1 else 0)"
    using eq assms(1) by simp_all
  show "is_up action \<longleftrightarrow> hold_remaining ps v = 0 \<and> wants_up cfg ctxt s \<and> \<not> throttled cfg s"
    by (auto simp: eq(7))
  show "(\<exists>n. action = Down n) \<Longrightarrow> down_target_of cfg ctxt s < st_thread_count s \<and>
      scale_down_sustain_polls ps (vs_consecutive_failed_downs v) \<le> vs_low_util_polls v'"
    using eq(7) by (auto split: if_splits)
qed

text \<open>Without a pending validation, scale-up is blocked for exactly the rest of the hold.\<close>

lemma run_hold:
  assumes "vs_pending_validation v = None" and "k < length ticks"
  shows "is_up (fst (evaluate_run cfg ps ticks v) ! k) \<longleftrightarrow>
    hold_remaining ps v \<le> int k \<and> wants_up cfg (fst (ticks ! k)) (snd (ticks ! k)) \<and>
    \<not> throttled cfg (snd (ticks ! k))"
  using assms
proof (induction ticks arbitrary: v k)
  case Nil
  then show ?case by simp
next
  case (Cons t ticks)
  obtain ctxt s where t: "t = (ctxt, s)"
    by (cases t)
  obtain action v' where ev: "evaluate_vm cfg ps ctxt s v = (action, v')"
    by (cases "evaluate_vm cfg ps ctxt s v")
  note step = evaluate_vm_no_pending [OF Cons.prems(1) ev]
  show ?case
  proof (cases k)
    case 0
    then show ?thesis
      using step(3) hold_remaining_nonneg [of ps v] by (auto simp: t ev split_beta Let_def)
  next
    case (Suc j)
    then have "j < length ticks"
      using Cons.prems by simp
    from Cons.IH [OF step(1) this] Suc show ?thesis
      by (auto simp: t ev split_beta Let_def step(2))
  qed
qed

lemma grace_recovery_total:
  "uint (post_revert_up_grace_polls ps f) + uint (tp_post_revert_up_recovery ps) =
     uint (backoff_polls (sat_add (tp_post_revert_up_grace ps) (tp_post_revert_up_recovery ps))
       (sat_sub f 1) (tp_post_revert_up_backoff_max ps))"
proof -
  have "tp_post_revert_up_recovery ps \<le>
      sat_add (tp_post_revert_up_grace ps) (tp_post_revert_up_recovery ps)"
    using le_sat_add sat_add_commute by metis
  from order_trans [OF this backoff_polls_ge] show ?thesis
    by (simp add: post_revert_up_grace_polls_def Let_def uint_sat_sub word_le_def)
qed

text \<open>
  C5: a failed scale-up blocks exactly the backed-off hold.  After validation reverts a scale-up,
  the next evaluations propose a scale-up at position \<open>k\<close> if and only if the hold of
  \<open>grace + recovery\<close> polls, doubled for each earlier consecutive failure and capped, is over
  by then and the VM wants one; neither a poll more nor a poll less is waited.
\<close>

theorem failed_up_hold_exact:
  assumes "vs_pending_validation v = Some p" and "is_up (pv_action p)"
    and "evaluate_vm cfg ps ctxt s v = (Revert n, v')"
    and "k < length ticks"
  shows "is_up (fst (evaluate_run cfg ps ticks v') ! k) \<longleftrightarrow>
    uint (backoff_polls (sat_add (tp_post_revert_up_grace ps) (tp_post_revert_up_recovery ps))
      (sat_sub (sat_add (vs_consecutive_failed_ups v) 1) 1) (tp_post_revert_up_backoff_max ps))
      \<le> int k \<and>
    wants_up cfg (fst (ticks ! k)) (snd (ticks ! k)) \<and> \<not> throttled cfg (snd (ticks ! k))"
proof -
  obtain sample where "evaluate_validation cfg ps (st_per_thread_util s) sample p v = (Revert n, v')"
    using assms evaluate_vm_pending [of v p cfg ps ctxt s] by auto
  then have "vs_pending_validation v' = None \<and> vs_post_revert_up_hold v' =
      Some (Grace (post_revert_up_grace_polls ps (sat_add (vs_consecutive_failed_ups v) 1)))"
    using assms(2)
    by (auto simp: evaluate_validation_def Let_def begin_post_revert_up_hold_def
        reset_baseline_window_def split: if_splits option.splits)
  then show ?thesis
    using run_hold [of v' k ticks cfg ps] assms(4)
    by (simp add: hold_remaining_def grace_recovery_total)
qed

subsection \<open>Validation\<close>

lemma evaluate_vm_waiting:
  assumes "vs_pending_validation v = Some p" and "0 < pv_polls_remaining p"
  shows "evaluate_vm cfg ps ctxt s v = (Hold, v\<lparr>vs_pending_validation :=
    Some (p\<lparr>pv_polls_remaining := pv_polls_remaining p - 1\<rparr>)\<rparr>)"
  using assms by (simp add: evaluate_vm_def evaluate_validation_def)

lemma evaluate_vm_due:
  assumes "vs_pending_validation v = Some p" and "pv_polls_remaining p = 0"
  shows "fst (evaluate_vm cfg ps ctxt s v) =
      (case validation_revert_target cfg (iops_rate (pv_validation_start p) (vm_sample ctxt s))
         (st_per_thread_util s) p of None \<Rightarrow> Hold | Some n \<Rightarrow> Revert n)"
    and "vs_pending_validation (snd (evaluate_vm cfg ps ctxt s v)) = None"
  using assms
  by (auto simp: evaluate_vm_def evaluate_validation_def vm_sample_def Let_def
      reset_baseline_window_def begin_post_revert_up_hold_def split: option.split)

lemma validation_schedule:
  assumes "vs_pending_validation v = Some p" and "k < length ticks"
    and "int k \<le> uint (pv_polls_remaining p)"
  shows "fst (evaluate_run cfg ps ticks v) ! k =
    (if int k < uint (pv_polls_remaining p) then Hold
     else case validation_revert_target cfg
            (iops_rate (pv_validation_start p) (vm_sample (fst (ticks ! k)) (snd (ticks ! k))))
            (st_per_thread_util (snd (ticks ! k))) p of None \<Rightarrow> Hold | Some n \<Rightarrow> Revert n)"
  using assms
proof (induction ticks arbitrary: v p k)
  case Nil
  then show ?case by simp
next
  case (Cons t ticks)
  obtain ctxt s where t: "t = (ctxt, s)"
    by (cases t)
  show ?case
  proof (cases "0 < pv_polls_remaining p")
    case True
    let ?p = "p\<lparr>pv_polls_remaining := pv_polls_remaining p - 1\<rparr>"
    let ?v = "v\<lparr>vs_pending_validation := Some ?p\<rparr>"
    note ev = evaluate_vm_waiting [OF Cons.prems(1) True, of cfg ps ctxt s]
    have u: "uint (pv_polls_remaining ?p) = uint (pv_polls_remaining p) - 1"
      using uint_minus_one [OF True] by simp
    show ?thesis
    proof (cases k)
      case 0
      with True show ?thesis
        by (simp add: t ev split_beta Let_def word_less_def)
    next
      case (Suc j)
      have "fst (evaluate_run cfg ps ticks ?v) ! j =
          (if int j < uint (pv_polls_remaining ?p) then Hold
           else case validation_revert_target cfg
              (iops_rate (pv_validation_start ?p) (vm_sample (fst (ticks ! j)) (snd (ticks ! j))))
              (st_per_thread_util (snd (ticks ! j))) ?p of None \<Rightarrow> Hold | Some n \<Rightarrow> Revert n)"
        using Cons.prems Suc u by (intro Cons.IH) simp_all
      moreover have "validation_revert_target cfg io util ?p = validation_revert_target cfg io util p"
        for io util
        by (simp add: validation_revert_target_def Let_def split: scale_action.split)
      ultimately show ?thesis
        using Suc u by (simp add: t ev split_beta Let_def)
    qed
  next
    case False
    then have zero: "pv_polls_remaining p = 0"
      by (simp add: word_not_pos)
    with Cons.prems(3) have "k = 0"
      by simp
    then show ?thesis
      using evaluate_vm_due(1) [OF Cons.prems(1) zero, of cfg ps ctxt s]
      by (simp add: t zero split_beta Let_def)
  qed
qed

text \<open>Without a pending validation no evaluation reverts, and none starts a validation.\<close>

lemma run_never_reverts:
  assumes "vs_pending_validation v = None"
  shows "vs_pending_validation (snd (evaluate_run cfg ps ticks v)) = None \<and>
    (k < length ticks \<longrightarrow> fst (evaluate_run cfg ps ticks v) ! k \<noteq> Revert n)"
  using assms
proof (induction ticks arbitrary: v k)
  case (Cons t ticks)
  obtain action v' where ev: "evaluate_vm cfg ps (fst t) (snd t) v = (action, v')"
    by fastforce
  have "action \<noteq> Revert n"
    using verdict_cases [OF ev] Cons.prems by auto
  with Cons.IH [OF evaluate_vm_no_pending(1) [OF Cons.prems ev]] ev show ?case
    by (cases t; cases k) (auto simp: split_beta Let_def)
qed simp

text \<open>A pending validation is taken by the evaluation in which it is due, for good.\<close>

lemma validation_taken:
  assumes "vs_pending_validation v = Some p"
  shows "(vs_pending_validation (snd (evaluate_run cfg ps ticks v)) = None \<longleftrightarrow>
      uint (pv_polls_remaining p) < int (length ticks)) \<and>
    (k < length ticks \<longrightarrow> uint (pv_polls_remaining p) < int k \<longrightarrow>
      fst (evaluate_run cfg ps ticks v) ! k \<noteq> Revert n)"
  using assms
proof (induction ticks arbitrary: v p k)
  case (Cons t ticks)
  show ?case
  proof (cases "0 < pv_polls_remaining p")
    case True
    let ?p = "p\<lparr>pv_polls_remaining := pv_polls_remaining p - 1\<rparr>"
    have u: "uint (pv_polls_remaining ?p) = uint (pv_polls_remaining p) - 1"
      using uint_minus_one [OF True] by simp
    note ih = Cons.IH [of "v\<lparr>vs_pending_validation := Some ?p\<rparr>" ?p "k - 1", unfolded u]
    from ih evaluate_vm_waiting [OF Cons.prems True, of cfg ps "fst t" "snd t"] True show ?thesis
      by (cases t; cases k) (auto simp: split_beta Let_def word_less_def)
  next
    case False
    then have zero: "pv_polls_remaining p = 0"
      by (simp add: word_not_pos)
    with run_never_reverts [OF evaluate_vm_due(2) [OF Cons.prems zero],
        of cfg ps ticks cfg ps "fst t" "snd t" "k - 1" n] show ?thesis
      by (cases t; cases k) (auto simp: split_beta Let_def)
  qed
qed simp

text \<open>
  C6: an action is validated exactly once, exactly when its settling time is over.  Started with
  \<open>n\<close> polls remaining and with no further action applied, the next \<open>n\<close> evaluations hold
  whatever the load; the one after them compares the I/O rate measured since the action, and reverts
  to the recorded count or keeps the action; no evaluation after that one reverts anything.  The
  validation is pending exactly until that one evaluation.
\<close>

theorem validation_exact:
  assumes "vs_pending_validation v = Some p" and "k < length ticks"
  shows "(int k < uint (pv_polls_remaining p) \<longrightarrow> fst (evaluate_run cfg ps ticks v) ! k = Hold) \<and>
    (int k = uint (pv_polls_remaining p) \<longrightarrow> fst (evaluate_run cfg ps ticks v) ! k =
       (case validation_revert_target cfg
            (iops_rate (pv_validation_start p) (vm_sample (fst (ticks ! k)) (snd (ticks ! k))))
            (st_per_thread_util (snd (ticks ! k))) p of None \<Rightarrow> Hold | Some n \<Rightarrow> Revert n)) \<and>
    (uint (pv_polls_remaining p) < int k \<longrightarrow> (\<nexists>n. fst (evaluate_run cfg ps ticks v) ! k = Revert n)) \<and>
    (vs_pending_validation (snd (evaluate_run cfg ps (take k ticks) v)) \<noteq> None \<longleftrightarrow>
       int k \<le> uint (pv_polls_remaining p))"
  using validation_schedule [OF assms] validation_taken [OF assms(1)] assms(2)
  by (auto simp: not_less)

lemma u64_le_f64: "n \<le> (m :: u64) \<Longrightarrow> f64_le (f64_of_word n) (f64_of_word m)"
  by (simp add: f64_of_word_def f64_of_int_mono word_le_def)

lemma f64_scale_up:
  assumes "f64_in g 1 2"
  shows "f64_le (f64_of_word (b :: u64)) (f64_mul (f64_of_word b) g)"
proof -
  obtain a where a: "f64_of_word b = Fin a" "0 \<le> a"
    using f64_of_word_finite by blast
  then have r: "round_f64 a = Fin a"
    using f64_of_int_fixed by (simp add: f64_of_word_def)
  obtain c where c: "g = Fin c" "1 \<le> c"
    using f64_in_Fin [OF assms] by auto
  then have "a \<le> a * c"
    using a(2) by (simp add: mult_le_cancel_left1)
  then show ?thesis
    using round_f64_mono [of a "a * c"] by (simp add: a c r)
qed

lemma validation_cases:
  assumes "f64_in (thc_scale_up_min_gain cfg) 0 1" and "f64_in (thc_scale_down_revert_drop cfg) 0 1"
    and "uint (pv_baseline_iops p) \<le> 2 ^ 53"
  shows "\<And>n. pv_action p = Up n \<Longrightarrow> thc_scale_up_min_gain cfg \<noteq> Fin 0 \<Longrightarrow> io < pv_baseline_iops p \<Longrightarrow>
      validation_revert_target cfg io util p = Some (pv_baseline_thread_count p)"
    and "\<And>n. pv_action p = Down n \<Longrightarrow>
      f64_le util (thc_scale_up_threshold cfg) \<or> pv_baseline_iops p \<le> io \<Longrightarrow>
      validation_revert_target cfg io util p = None"
    and "pv_baseline_iops p = 0 \<Longrightarrow> validation_revert_target cfg io util p = None"
proof -
  obtain g where g: "thc_scale_up_min_gain cfg = Fin g" "0 \<le> g" "g \<le> 1"
    using f64_in_Fin [OF assms(1)] by auto
  obtain d where d: "thc_scale_down_revert_drop cfg = Fin d" "0 \<le> d" "d \<le> 1"
    using f64_in_Fin [OF assms(2)] by auto
  have b: "f64_of_word (pv_baseline_iops p) = Fin (of_int (uint (pv_baseline_iops p)))"
    using assms(3) by (simp add: f64_of_word_def f64_of_int_small)
  show "validation_revert_target cfg io util p = Some (pv_baseline_thread_count p)"
    if "pv_action p = Up n" and "thc_scale_up_min_gain cfg \<noteq> Fin 0" and less: "io < pv_baseline_iops p"
    for n
  proof -
    have "f64_of_word io = Fin (of_int (uint io))"
      using assms(3) less by (simp add: f64_of_word_def f64_of_int_small word_less_def)
    then have "f64_lt (f64_of_word io) (f64_of_word (pv_baseline_iops p))"
      using less by (simp only: b word_less_def f64_lt.simps of_int_less_iff)
    moreover have "f64_in (round_f64 (1 + g)) (of_int 1) (of_int 2)"
      using g by (intro round_f64_in) auto
    then have "f64_le (f64_of_word (pv_baseline_iops p))
        (f64_mul (f64_of_word (pv_baseline_iops p)) (f64_add (Fin 1) (Fin g)))"
      using f64_scale_up by simp
    ultimately have "f64_lt (f64_of_word io)
        (f64_mul (f64_of_word (pv_baseline_iops p)) (f64_add (Fin 1) (Fin g)))"
      by (meson f64_le_trans f64_lt_le_not_le)
    moreover have "0 < pv_baseline_iops p"
      using less by (metis word_not_simps(1) word_neq_0_conv)
    ultimately show ?thesis
      using that g by (simp add: validation_revert_target_def Let_def)
  qed
  have drop: "f64_le (f64_mul (f64_of_word (pv_baseline_iops p)) (f64_sub (Fin 1) (Fin d)))
      (f64_of_word (pv_baseline_iops p))"
  proof -
    have "f64_in (round_f64 (1 - d)) (of_int 0) (of_int 1)"
      using d by (intro round_f64_in) auto
    then obtain c where c: "round_f64 (1 - d) = Fin c" "0 \<le> c" "c \<le> 1"
      using f64_in_Fin by force
    have "0 \<le> rat_of_int (uint (pv_baseline_iops p))"
      by (simp only: of_int_0_le_iff uint_ge_0)
    from mult_left_le [OF c(3) this]
    have "of_int (uint (pv_baseline_iops p)) * c \<le> of_int (uint (pv_baseline_iops p))" .
    then show ?thesis
      using round_f64_mono c b assms(3) round_f64_of_int [of "uint (pv_baseline_iops p)"]
      by (fastforce simp: f64_sub_def)
  qed
  show "validation_revert_target cfg io util p = None"
    if "pv_action p = Down n"
      and ok: "f64_le util (thc_scale_up_threshold cfg) \<or> pv_baseline_iops p \<le> io" for n
  proof -
    have "\<not> f64_lt (f64_of_word io)
        (f64_mul (f64_of_word (pv_baseline_iops p)) (f64_sub (Fin 1) (Fin d)))"
      if "pv_baseline_iops p \<le> io"
      using f64_le_trans [OF drop u64_le_f64 [OF that]] by (simp add: f64_lt_le_not_le)
    with ok \<open>pv_action p = Down n\<close> d show ?thesis
      by (auto simp: validation_revert_target_def Let_def)
  qed
  show "validation_revert_target cfg io util p = None" if "pv_baseline_iops p = 0"
    using that by (simp add: validation_revert_target_def Let_def split: scale_action.split)
qed

text \<open>
  What validation concludes.  A scale-up under validation is reverted whenever the I/O rate did
  not even reach the rate before it (for rates below \<open>2^53\<close>, where doubles are exact).  A
  scale-down is never reverted while the remaining workers are at or below the threshold, nor when
  the rate did not drop.  Nothing is reverted when the rate before the action was zero or the
  check is disabled.
\<close>

lemma validation_conclusions:
  assumes "f64_in (thc_scale_up_min_gain cfg) 0 1" and "f64_in (thc_scale_down_revert_drop cfg) 0 1"
    and "uint (pv_baseline_iops p) \<le> 2 ^ 53"
  shows "(pv_action p = Up n \<and> thc_scale_up_min_gain cfg \<noteq> Fin 0 \<and> io < pv_baseline_iops p \<longrightarrow>
      validation_revert_target cfg io util p = Some (pv_baseline_thread_count p)) \<and>
    (pv_action p = Down n \<and> (f64_le util (thc_scale_up_threshold cfg) \<or> pv_baseline_iops p \<le> io) \<longrightarrow>
      validation_revert_target cfg io util p = None) \<and>
    (pv_baseline_iops p = 0 \<longrightarrow> validation_revert_target cfg io util p = None)"
  using validation_cases [OF assms] by blast

subsection \<open>Sustained low utilisation\<close>

definition down_eligible :: "threshold_config \<Rightarrow> tick_context \<times> instance_status \<Rightarrow> bool" where
  "down_eligible cfg t = (down_target_of cfg (fst t) (snd t) < st_thread_count (snd t))"

text \<open>The sustain counter never exceeds the number of eligible ticks at the end of a run.\<close>

lemma run_low_util:
  assumes "vs_pending_validation v = None" and "vs_low_util_polls v = 0"
  shows "vs_pending_validation (snd (evaluate_run cfg ps ticks v)) = None \<and>
    vs_consecutive_failed_downs (snd (evaluate_run cfg ps ticks v)) = vs_consecutive_failed_downs v \<and>
    uint (vs_low_util_polls (snd (evaluate_run cfg ps ticks v))) \<le> int (length ticks) \<and>
    (\<forall>j<length ticks. int (length ticks) - uint (vs_low_util_polls (snd (evaluate_run cfg ps ticks v)))
        \<le> int j \<longrightarrow> down_eligible cfg (ticks ! j))"
proof (induction ticks rule: rev_induct)
  case Nil
  then show ?case
    using assms by simp
next
  case (snoc t ticks)
  obtain ctxt s where t: "t = (ctxt, s)"
    by (cases t)
  obtain as w where run: "evaluate_run cfg ps ticks v = (as, w)"
    by (cases "evaluate_run cfg ps ticks v")
  obtain action w' where ev: "evaluate_vm cfg ps ctxt s w = (action, w')"
    by (cases "evaluate_vm cfg ps ctxt s w")
  have w: "vs_pending_validation w = None"
    using snoc run by simp
  note step = evaluate_vm_no_pending [OF w ev]
  have final: "snd (evaluate_run cfg ps (ticks @ [t]) v) = w'"
    by (simp add: t evaluate_run_snoc run ev)
  show ?case
  proof (cases "down_eligible cfg t")
    case False
    then have "vs_low_util_polls w' = 0"
      by (simp add: step(5) down_eligible_def t)
    then show ?thesis
      using snoc run step final by simp
  next
    case True
    then have low: "vs_low_util_polls w' = vs_low_util_polls w + 1"
      by (simp add: step(5) down_eligible_def t)
    then have "uint (vs_low_util_polls w') \<le> uint (vs_low_util_polls w) + 1"
      using uint_add_le [of "vs_low_util_polls w" 1] by simp
    then show ?thesis
      using snoc run step(1,4) final True
      by (auto simp: nth_append not_less less_Suc_eq)
  qed
qed

text \<open>
  C8: scale-down needs sustained low load.  From the state left by an applied action (no pending
  validation, counter at zero), a scale-down at tick \<open>k\<close> means that the required number of
  polls, backed off by the consecutive failed scale-downs, had passed and that every one of the
  last ticks of that number was eligible: one busy tick restarts the wait.
\<close>

theorem down_is_sustained:
  assumes "vs_pending_validation v = None" and "vs_low_util_polls v = 0"
    and "k < length ticks" and "fst (evaluate_run cfg ps ticks v) ! k = Down n"
  shows "uint (scale_down_sustain_polls ps (vs_consecutive_failed_downs v)) \<le> int k + 1 \<and>
    (\<forall>j\<le>k. int k + 1 - uint (scale_down_sustain_polls ps (vs_consecutive_failed_downs v)) \<le> int j \<longrightarrow>
      down_eligible cfg (ticks ! j))"
proof -
  obtain ctxt s where t: "ticks ! k = (ctxt, s)"
    by (cases "ticks ! k")
  obtain as w where run: "evaluate_run cfg ps (take k ticks) v = (as, w)"
    by (cases "evaluate_run cfg ps (take k ticks) v")
  obtain action w' where ev: "evaluate_vm cfg ps ctxt s w = (action, w')"
    by (cases "evaluate_vm cfg ps ctxt s w")
  have split: "ticks = take k ticks @ (ctxt, s) # drop (Suc k) ticks"
    using assms(3) t by (metis id_take_nth_drop)
  have prefix: "evaluate_run cfg ps (take (Suc k) ticks) v = (as @ [action], w')"
    using assms(3) t run ev by (simp add: take_Suc_conv_app_nth evaluate_run_snoc)
  have len: "length as = k"
    using evaluate_run_length [of cfg ps "take k ticks" v] run assms(3) by simp
  have append: "fst (evaluate_run cfg ps (xs @ ys) u) = fst (evaluate_run cfg ps xs u) @
      fst (evaluate_run cfg ps ys (snd (evaluate_run cfg ps xs u)))" for xs ys u
    by (induction xs arbitrary: u) (auto simp: split_beta Let_def)
  have "fst (evaluate_run cfg ps ticks v) ! k = action"
    using append [of "take (Suc k) ticks" "drop (Suc k) ticks" v] len prefix
    by (simp add: nth_append)
  then have down: "action = Down n"
    using assms(4) by simp
  have w: "vs_pending_validation w = None" "vs_consecutive_failed_downs w = vs_consecutive_failed_downs v"
    using run_low_util [OF assms(1,2), of cfg ps "take k ticks"] run by simp_all
  have low: "scale_down_sustain_polls ps (vs_consecutive_failed_downs v) \<le> vs_low_util_polls w'"
    using evaluate_vm_no_pending(6) [OF w(1) ev] down w(2) by simp
  have inv: "uint (vs_low_util_polls w') \<le> int k + 1 \<and>
      (\<forall>j<Suc k. int k + 1 - uint (vs_low_util_polls w') \<le> int j \<longrightarrow>
        down_eligible cfg (take (Suc k) ticks ! j))"
    using run_low_util [OF assms(1,2), of cfg ps "take (Suc k) ticks"] prefix assms(3)
    by (simp add: min_absorb2 Suc_le_eq algebra_simps)
  have "down_eligible cfg (ticks ! j)"
    if "j \<le> k" and "int k + 1 - uint (scale_down_sustain_polls ps (vs_consecutive_failed_downs v)) \<le> int j"
    for j
  proof -
    have "int k + 1 - uint (vs_low_util_polls w') \<le> int j"
      using that(2) low by (simp add: word_le_def)
    then show ?thesis
      using inv that(1) by (simp add: less_Suc_eq_le)
  qed
  then show ?thesis
    using inv low by (auto simp: word_le_def)
qed

subsection \<open>VMs do not interfere\<close>

text \<open>What an engine knows of one VM: the settings all VMs share and the VM's own entry.\<close>

definition threshold_view ::
  "string \<Rightarrow> threshold_engine \<Rightarrow> threshold_config \<times> threshold_polls \<times> vm_state" where
  "threshold_view i e = (te_cfg e, te_polls e, entry_or_new i (te_state e))"

lemma entry_or_new_insert [hmap]:
  "entry_or_new j (hm_insert i v m) = (if j = i then v else entry_or_new j m)"
  by (simp add: entry_or_new_def hm_get_insert)

lemma threshold_evaluate_fst:
  "fst (threshold_evaluate i s ctxt e) =
     fst (evaluate_vm (te_cfg e) (te_polls e) ctxt s (entry_or_new i (te_state e)))"
  by (simp add: threshold_evaluate_def split_beta Let_def)

lemma threshold_view_evaluate:
  "threshold_view j (snd (threshold_evaluate i s ctxt e)) =
     (te_cfg e, te_polls e,
      if j = i then snd (evaluate_vm (te_cfg e) (te_polls e) ctxt s (entry_or_new i (te_state e)))
      else entry_or_new j (te_state e))"
  by (simp add: threshold_evaluate_def threshold_view_def split_beta Let_def hmap)

interpretation threshold: isolated_engine threshold_evaluate threshold_view
proof
  fix i e e' s ctxt
  assume "threshold_view i e = threshold_view i e'"
  then show "fst (threshold_evaluate i s ctxt e) = fst (threshold_evaluate i s ctxt e') \<and>
      threshold_view i (snd (threshold_evaluate i s ctxt e)) =
      threshold_view i (snd (threshold_evaluate i s ctxt e'))"
    by (simp add: threshold_evaluate_fst threshold_view_evaluate) (simp add: threshold_view_def)
next
  fix i j e s ctxt
  assume "(j :: string) \<noteq> i"
  then show "threshold_view j (snd (threshold_evaluate i s ctxt e)) = threshold_view j e"
    by (simp add: threshold_view_evaluate) (simp add: threshold_view_def)
qed

text \<open>
  C30: the fleet is evaluated VM by VM.  The plan for a fleet with distinct identifiers holds, for
  every eligible VM and no other, exactly the verdict the engine reaches for that VM alone on the
  state before the tick; the order in which the concurrent evaluations run has no influence.
\<close>

theorem fleet_plan_is_per_vm:
  assumes "distinct (map fst fleet)"
  shows "fst (eng_evaluate_fleet threshold_ops fleet ctxt e) =
    map (\<lambda>(i, s). \<lparr>dec_instance_id = i,
           dec_action = fst (evaluate_vm (te_cfg e) (te_polls e) ctxt s (entry_or_new i (te_state e)))\<rparr>)
      (filter (\<lambda>(i, s). fleet_eligible s) fleet)"
  using threshold.fleet_decisions [OF assms, of ctxt e]
  by (simp add: threshold_ops_def threshold_evaluate_fst)

subsection \<open>Reachable engine states\<close>

inductive engine_step :: "threshold_engine \<Rightarrow> threshold_engine \<Rightarrow> bool" where
  step_evaluate: "engine_step e (snd (threshold_evaluate i s ctxt e))"
| step_applied: "engine_step e (threshold_on_applied i outcome e)"
| step_added: "engine_step e (threshold_on_instance_added i e)"
| step_removed: "engine_step e (threshold_on_instance_removed i e)"

inductive engine_reachable :: "threshold_engine \<Rightarrow> threshold_engine \<Rightarrow> bool" where
  reach_start: "te_state e = [] \<Longrightarrow> engine_reachable e e"
| reach_step: "engine_reachable e0 e \<Longrightarrow> engine_step e e' \<Longrightarrow> engine_reachable e0 e'"

definition vm_state_ok :: "threshold_config \<Rightarrow> threshold_polls \<Rightarrow> string \<Rightarrow> vm_state \<Rightarrow> bool" where
  "vm_state_ok cfg ps i v \<longleftrightarrow>
     vs_instance_id v = i \<and>
     (case vs_pending_validation v of
        None \<Rightarrow> True
      | Some p \<Rightarrow>
          (case pv_action p of
             Up n \<Rightarrow> thc_scale_up_min_gain cfg \<noteq> Fin 0 \<and>
               pv_polls_remaining p \<le> validation_sample_polls ps n
           | Down n \<Rightarrow> thc_scale_down_revert_drop cfg \<noteq> Fin 0 \<and>
               pv_polls_remaining p \<le> validation_sample_polls ps n
           | _ \<Rightarrow> False)) \<and>
     (case vs_post_revert_up_hold v of
        Some (Recovery n _) \<Rightarrow> 0 < n \<and> n \<le> tp_post_revert_up_recovery ps
      | _ \<Rightarrow> True)"

definition engine_ok :: "threshold_engine \<Rightarrow> bool" where
  "engine_ok e \<longleftrightarrow> hm_ok (te_state e) \<and>
     (\<forall>i v. hm_get (te_state e) i = Some v \<longrightarrow> vm_state_ok (te_cfg e) (te_polls e) i v)"

lemma vm_state_ok_new [simp]: "vm_state_ok cfg ps i (vm_state_new i)"
  by (simp add: vm_state_ok_def vm_state_new_def)

lemma word_minus_one_le: "0 < (n :: 'a::len word) \<Longrightarrow> n - 1 \<le> n"
  using uint_minus_one [of n] by (simp add: word_le_def)

lemma word_minus_one_pos: "1 < (n :: 'a::len word) \<Longrightarrow> 0 < n - 1"
  using uint_minus_one [of n] by (simp add: word_less_def)

lemma advance_ok:
  assumes "vm_state_ok cfg ps i v"
    and "advance_post_revert_up_hold sample (tp_post_revert_up_recovery ps) v = (blocked, v')"
  shows "vm_state_ok cfg ps i v'"
proof -
  have rec: "0 < n - 1 \<and> n - 1 \<le> tp_post_revert_up_recovery ps"
    if "1 < n" and "n \<le> tp_post_revert_up_recovery ps" for n
  proof
    show "0 < n - 1"
      using that(1) by (rule word_minus_one_pos)
    have "0 < n"
      using that(1) by (simp add: word_less_def)
    then show "n - 1 \<le> tp_post_revert_up_recovery ps"
      using that(2) word_minus_one_le order_trans by blast
  qed
  show ?thesis
    using assms rec
    by (auto simp: vm_state_ok_def advance_post_revert_up_hold_def reset_baseline_window_def
        Let_def word_neq_0_conv split: option.splits post_revert_up_hold.splits if_splits)
qed

lemma evaluate_scaling_ok:
  assumes "vm_state_ok cfg ps i v"
  shows "vm_state_ok cfg ps i (snd (evaluate_scaling cfg ps ctxt s sample v))"
proof -
  obtain blocked w where adv:
      "advance_post_revert_up_hold sample (tp_post_revert_up_recovery ps) v = (blocked, w)"
    by (cases "advance_post_revert_up_hold sample (tp_post_revert_up_recovery ps) v")
  have "vm_state_ok cfg ps i w"
    using advance_ok [OF assms adv] .
  then have "vm_state_ok cfg ps i ((if blocked then w else refresh_baseline_rate sample w)
      \<lparr>vs_low_util_polls := n\<rparr>)" for n
    by (simp add: vm_state_ok_def)
  then show ?thesis
    using adv by (auto simp: evaluate_scaling_def Let_def)
qed

lemma evaluate_validation_ok:
  assumes "vm_state_ok cfg ps i v" and "vs_pending_validation v = Some p"
  shows "vm_state_ok cfg ps i (snd (evaluate_validation cfg ps u sample p v))"
  using assms word_minus_one_le [of "pv_polls_remaining p"]
  by (auto simp: evaluate_validation_def vm_state_ok_def Let_def reset_baseline_window_def
      begin_post_revert_up_hold_def split: option.split scale_action.splits intro: order_trans)

lemma evaluate_vm_ok:
  assumes "vm_state_ok cfg ps i v"
  shows "vm_state_ok cfg ps i (snd (evaluate_vm cfg ps ctxt s v))"
  using evaluate_scaling_ok [OF assms] evaluate_validation_ok [OF assms]
  by (simp add: evaluate_vm_def Let_def split: option.split)

lemma on_applied_vm_ok:
  assumes "vm_state_ok cfg ps i v"
  shows "vm_state_ok cfg ps i (on_applied_vm cfg ps action n applied v)"
proof -
  have pos: "f64_lt (Fin 0) x \<Longrightarrow> x \<noteq> Fin 0" for x
    by auto
  show ?thesis
    using assms pos
    by (cases action)
      (auto simp: on_applied_vm_def vm_state_ok_def start_validation_def reset_baseline_window_def
        Let_def)
qed

lemma entry_ok:
  "engine_ok e \<Longrightarrow> vm_state_ok (te_cfg e) (te_polls e) i (entry_or_new i (te_state e))"
  by (auto simp: engine_ok_def entry_or_new_def split: option.split)

lemma engine_step_ok:
  assumes "engine_step e e'" and "engine_ok e"
  shows "engine_ok e' \<and> te_cfg e' = te_cfg e \<and> te_polls e' = te_polls e"
  using assms
proof (cases rule: engine_step.cases)
  case (step_evaluate i s ctxt)
  with assms(2) show ?thesis
    using evaluate_vm_ok [OF entry_ok [OF assms(2)], of i ctxt s]
    by (simp add: threshold_evaluate_def split_beta Let_def engine_ok_def hm_get_insert)
next
  case (step_applied i outcome)
  then show ?thesis
    using assms(2)
    by (auto simp: threshold_on_applied_def engine_ok_def hm_get_insert Let_def
        intro!: on_applied_vm_ok split: option.splits)
next
  case (step_added i)
  with assms(2) show ?thesis
    by (auto simp: threshold_on_instance_added_def engine_ok_def hm_get_or_insert split: option.splits)
next
  case (step_removed i)
  with assms(2) show ?thesis
    by (auto simp: threshold_on_instance_removed_def engine_ok_def hm_get_remove)
qed

text \<open>
  C29: the engine's records stay coherent.  In every state reachable from a new engine by
  evaluations, reports, additions and removals in any order, the settings are the initial ones,
  each VM has one record under its own identifier, only scale-ups and scale-downs with validation
  enabled are ever awaiting validation, for no longer than their settling time, and a recovery
  phase has a positive number of polls within its configured length.
\<close>

theorem reachable_engine_ok:
  assumes "engine_reachable e0 e"
  shows "engine_ok e \<and> te_cfg e = te_cfg e0 \<and> te_polls e = te_polls e0"
  using assms
proof induction
  case (reach_start e)
  then show ?case
    by (simp add: engine_ok_def)
next
  case (reach_step e0 e e')
  then show ?case
    using engine_step_ok by metis
qed

subsection \<open>Construction\<close>

lemma polls_length:
  "polls name secs c = (n, secs', c') \<Longrightarrow> length (pc_errors c) \<le> length (pc_errors c')"
  by (auto dest!: polls_errors_grow)

lemma polls_same:
  assumes "polls name secs c = (n, secs', c')" and "length (pc_errors c') = length (pc_errors c)"
  shows "c' = c"
  using polls_errors_grow [OF assms(1)] assms(2) by (cases c; cases c') auto

text \<open>The number of polls of a duration: the quotient by the period, rounded up.\<close>

definition polls_of :: "u64 \<Rightarrow> u64 \<Rightarrow> int" where
  "polls_of period secs = (uint secs + uint period - 1) div uint period"

lemma polls_unchanged:
  assumes "polls name secs c = (n, secs', c)" and "0 < pp_secs (pc_poll c)"
  shows "uint n = polls_of (pp_secs (pc_poll c)) secs"
  using polls_no_error(1) [OF assms(1) refl assms(2)] by (simp add: polls_of_def)

lemma threshold_new_counts:
  assumes "threshold_new cfg c = Inr (e, c')" and "pc_errors c' = pc_errors c"
    and "0 < pp_secs (pc_poll c)"
  defines "n \<equiv> polls_of (pp_secs (pc_poll c))"
  shows "uint (tp_scale_down_sustain (te_polls e)) = n (thc_scale_down_sustain_secs cfg) \<and>
    uint (tp_scale_validation_delay (te_polls e)) = n (thc_scale_validation_delay_secs cfg) \<and>
    uint (tp_scale_validation_delay_per_thread (te_polls e)) =
      n (thc_scale_validation_delay_per_thread_secs cfg) \<and>
    uint (tp_post_revert_up_grace (te_polls e)) = n (thc_post_revert_up_grace_secs cfg) \<and>
    uint (tp_post_revert_up_recovery (te_polls e)) = n (thc_post_revert_up_recovery_secs cfg) \<and>
    uint (tp_post_revert_up_backoff_max (te_polls e)) = n (thc_post_revert_up_backoff_max_secs cfg) \<and>
    uint (tp_scale_down_backoff_max (te_polls e)) = n (thc_scale_down_backoff_max_secs cfg) \<and>
    te_poll_period e = duration_from_secs (pp_secs (pc_poll c)) \<and> te_state e = []"
proof -
  obtain n1 s1 c1 where p1: "polls ''scale_down_sustain_secs'' (thc_scale_down_sustain_secs cfg) c = (n1, s1, c1)"
    by (metis prod_cases3)
  obtain n2 s2 c2 where p2: "polls ''scale_validation_delay_secs'' (thc_scale_validation_delay_secs cfg) c1 = (n2, s2, c2)"
    by (metis prod_cases3)
  obtain n3 s3 c3 where p3: "polls ''scale_validation_delay_per_thread_secs''
      (thc_scale_validation_delay_per_thread_secs cfg) c2 = (n3, s3, c3)"
    by (metis prod_cases3)
  obtain n4 s4 c4 where p4: "polls ''post_revert_up_grace_secs'' (thc_post_revert_up_grace_secs cfg) c3 = (n4, s4, c4)"
    by (metis prod_cases3)
  obtain n5 s5 c5 where p5: "polls ''post_revert_up_recovery_secs'' (thc_post_revert_up_recovery_secs cfg) c4 = (n5, s5, c5)"
    by (metis prod_cases3)
  obtain n6 s6 c6 where p6: "polls ''post_revert_up_backoff_max_secs''
      (thc_post_revert_up_backoff_max_secs cfg) c5 = (n6, s6, c6)"
    by (metis prod_cases3)
  obtain n7 s7 c7 where p7: "polls ''scale_down_backoff_max_secs'' (thc_scale_down_backoff_max_secs cfg) c6 = (n7, s7, c7)"
    by (metis prod_cases3)
  note ps = p1 p2 p3 p4 p5 p6 p7
  have e: "te_polls e = \<lparr>tp_scale_down_sustain = n1, tp_scale_validation_delay = n2,
      tp_scale_validation_delay_per_thread = n3, tp_post_revert_up_grace = n4,
      tp_post_revert_up_recovery = n5, tp_post_revert_up_backoff_max = n6,
      tp_scale_down_backoff_max = n7\<rparr>"
    and "c' = c7" and rest: "te_poll_period e = converter_period c7" "te_state e = []"
    using assms(1) by (simp_all add: threshold_new_def result_bind_Inr resolve_polls_def ps Let_def)
      (auto split: sum.splits)
  have len: "length (pc_errors c1) = length (pc_errors c)" "length (pc_errors c2) = length (pc_errors c1)"
      "length (pc_errors c3) = length (pc_errors c2)" "length (pc_errors c4) = length (pc_errors c3)"
      "length (pc_errors c5) = length (pc_errors c4)" "length (pc_errors c6) = length (pc_errors c5)"
      "length (pc_errors c7) = length (pc_errors c6)"
    using ps [THEN polls_length] assms(2) \<open>c' = c7\<close> by simp_all
  have same: "c1 = c" "c2 = c" "c3 = c" "c4 = c" "c5 = c" "c6 = c" "c7 = c"
    using polls_same [OF p1 len(1)] polls_same [OF p2 len(2)] polls_same [OF p3 len(3)]
      polls_same [OF p4 len(4)] polls_same [OF p5 len(5)] polls_same [OF p6 len(6)]
      polls_same [OF p7 len(7)] by simp_all
  note unchanged = ps [unfolded same, THEN polls_unchanged, OF assms(3)]
  show ?thesis
    using unchanged by (simp add: n_def e rest same converter_period_def)
qed

subsection \<open>A concrete engine\<close>

text \<open>Round settings at a poll period of ten seconds, and a VM with four workers.\<close>

definition demo_converter :: poll_converter where
  "demo_converter = \<lparr>pc_poll = \<lparr>pp_secs = 10, pp_round_up = False\<rparr>, pc_errors = []\<rparr>"

definition demo_config :: threshold_config where
  "demo_config =
     \<lparr>thc_scale_up_threshold = Fin (3 / 4), thc_scale_down_sustain_secs = 30,
      thc_max_scale_down_step = 0, thc_scale_up_min_gain = Fin (1 / 4),
      thc_scale_down_revert_drop = Fin (1 / 4), thc_scale_validation_delay_secs = 20,
      thc_scale_validation_delay_per_thread_secs = 0,
      thc_block_scale_up_when_cgroup_throttled = True, thc_post_revert_up_grace_secs = 10,
      thc_post_revert_up_recovery_secs = 20, thc_post_revert_up_backoff_max_secs = 300,
      thc_scale_down_backoff_max_secs = 1200\<rparr>"

definition demo_polls :: threshold_polls where
  "demo_polls =
  \<lparr>tp_scale_down_sustain = 3, tp_scale_validation_delay = 2, tp_scale_validation_delay_per_thread = 0,
   tp_post_revert_up_grace = 1, tp_post_revert_up_recovery = 2, tp_post_revert_up_backoff_max = 30,
   tp_scale_down_backoff_max = 120\<rparr>"

definition demo_tick :: "int \<Rightarrow> f64 \<Rightarrow> tick_context \<times> instance_status" where
  "demo_tick now util =
     (\<lparr>tc_now = now, tc_min_thread_count = 2, tc_max_thread_count = 8, tc_host_cpu_util = Fin 0,
       tc_psi = psi_default, tc_tick_index = 1\<rparr>,
      status_default\<lparr>st_thread_count := 4, st_vcpu_count := 8, st_alive := True,
        st_ownership_classification := Some True, st_per_thread_util := util\<rparr>)"

definition demo_pending :: "u32 \<Rightarrow> vm_state" where
  "demo_pending n = (vm_state_new ''vm'')\<lparr>vs_pending_validation := Some
     \<lparr>pv_action = Up 4, pv_baseline_thread_count = 3, pv_baseline_iops = 100,
      pv_validation_start = \<lparr>is_io_count = 0, is_at = 0\<rparr>, pv_polls_remaining = n\<rparr>\<rparr>"

lemma demo_pending_validation: "vs_pending_validation (demo_pending n) = Some
   \<lparr>pv_action = Up 4, pv_baseline_thread_count = 3, pv_baseline_iops = 100,
      pv_validation_start = \<lparr>is_io_count = 0, is_at = 0\<rparr>, pv_polls_remaining = n\<rparr>"
  by (simp add: demo_pending_def)

lemma demo_tick_simps:
  "tc_now (fst (demo_tick now u)) = now"
  "tc_min_thread_count (fst (demo_tick now u)) = 2"
  "tc_max_thread_count (fst (demo_tick now u)) = 8"
  "st_perf (snd (demo_tick now u)) = None"
  "st_thread_count (snd (demo_tick now u)) = 4"
  "st_per_thread_util (snd (demo_tick now u)) = u"
  "st_throttled_usec_delta (snd (demo_tick now u)) = 0"
  by (simp_all add: demo_tick_def status_default_def)

lemma demo_evaluate_pending:
  "evaluate_vm cfg ps (fst (demo_tick now u)) (snd (demo_tick now u)) (demo_pending n) =
     evaluate_validation cfg ps u \<lparr>is_io_count = 0, is_at = now\<rparr>
       (the (vs_pending_validation (demo_pending n))) (demo_pending n)"
  by (simp add: evaluate_vm_def demo_tick_simps demo_pending_validation Let_def)

lemma demo_evaluate:
  "vs_pending_validation v = None \<Longrightarrow>
   evaluate_vm cfg ps (fst (demo_tick now u)) (snd (demo_tick now u)) v =
     evaluate_scaling cfg ps (fst (demo_tick now u)) (snd (demo_tick now u))
          \<lparr>is_io_count = 0, is_at = now\<rparr> v"
  by (simp add: evaluate_vm_def demo_tick_simps Let_def)

definition demo_engine :: threshold_engine where
  "demo_engine = \<lparr>te_cfg = demo_config, te_polls = demo_polls,
     te_poll_period = duration_from_secs 10, te_state = []\<rparr>"

lemma demo_values:
  "iops_rate \<lparr>is_io_count = 0, is_at = 0\<rparr> \<lparr>is_io_count = 0, is_at = 0\<rparr> = 0"
  "validation_revert_target demo_config 0 (Fin 1) (the (vs_pending_validation (demo_pending 0))) = Some 3"
  "scale_down_target demo_config (Fin (1 / 4)) 4 2 = 2"
  "scale_down_sustain_polls demo_polls 0 = 3"
  "f64_lt (thc_scale_up_threshold demo_config) (Fin (1 / 4)) = False"
  by code_simp+

lemma demo_revert:
  "fst (evaluate_vm demo_config demo_polls (fst (demo_tick 0 (Fin 1))) (snd (demo_tick 0 (Fin 1)))
     (demo_pending 0)) = Revert 3"
  using demo_values(2)
  by (simp add: demo_evaluate_pending evaluate_validation_def Let_def demo_values(1)
      demo_pending_validation)

definition demo_low :: "u32 \<Rightarrow> vm_state" where
  "demo_low n = (vm_state_new ''vm'')\<lparr>vs_baseline_window_start := Some \<lparr>is_io_count = 0, is_at = 0\<rparr>,
     vs_low_util_polls := n\<rparr>"

lemma demo_low_steps:
  "evaluate_vm demo_config demo_polls (fst (demo_tick 0 (Fin (1/4))))
     (snd (demo_tick 0 (Fin (1/4)))) (vm_state_new ''vm'') = (Hold, demo_low 1)"
  "evaluate_vm demo_config demo_polls (fst (demo_tick 0 (Fin (1/4))))
     (snd (demo_tick 0 (Fin (1/4)))) (demo_low 1) = (Hold, demo_low 2)"
  "evaluate_vm demo_config demo_polls (fst (demo_tick 0 (Fin (1/4))))
     (snd (demo_tick 0 (Fin (1/4)))) (demo_low 2) = (Down 2, demo_low 3)"
  by (simp_all add: demo_evaluate evaluate_scaling_def Let_def demo_tick_simps demo_values
      advance_post_revert_up_hold_def refresh_baseline_rate_def demo_low_def vm_state_new_def) code_simp

lemma evaluate_run_Cons:
  "evaluate_run cfg ps (t # ticks) v =
     (let (action, v') = evaluate_vm cfg ps (fst t) (snd t) v;
          (actions, v'') = evaluate_run cfg ps ticks v'
      in (action # actions, v''))"
  by (cases t) simp

lemma demo_run:
  "fst (evaluate_run demo_config demo_polls (replicate 3 (demo_tick 0 (Fin (1/4))))
     (vm_state_new ''vm'')) = [Hold, Hold, Down 2]"
  by (simp add: numeral_3_eq_3 evaluate_run_Cons demo_low_steps del: evaluate_run.simps(2))

subsection \<open>Witnesses\<close>

lemma failed_up_hold_exact_witness:
  "let v' = snd (evaluate_vm demo_config demo_polls (fst (demo_tick 0 (Fin 1)))
       (snd (demo_tick 0 (Fin 1))) (demo_pending 0))
   in \<not> is_up (fst (evaluate_run demo_config demo_polls [demo_tick 10 (Fin 1)] v') ! 0)"
proof -
  have "backoff_polls (sat_add (tp_post_revert_up_grace demo_polls) (tp_post_revert_up_recovery demo_polls))
      (sat_sub (sat_add 0 1) 1) (tp_post_revert_up_backoff_max demo_polls) = 3"
    by code_simp
  moreover have "vs_consecutive_failed_ups (demo_pending 0) = 0"
    by (simp add: demo_pending_def vm_state_new_def)
  moreover define v' where "v' = snd (evaluate_vm demo_config demo_polls
      (fst (demo_tick 0 (Fin 1))) (snd (demo_tick 0 (Fin 1))) (demo_pending 0))"
  moreover have "evaluate_vm demo_config demo_polls (fst (demo_tick 0 (Fin 1)))
      (snd (demo_tick 0 (Fin 1))) (demo_pending 0) = (Revert 3, v')"
    unfolding v'_def demo_revert [symmetric] by simp
  ultimately show ?thesis
    using failed_up_hold_exact [OF demo_pending_validation, of 0 demo_config demo_polls
        "fst (demo_tick 0 (Fin 1))" "snd (demo_tick 0 (Fin 1))" 3 v' 0 "[demo_tick 10 (Fin 1)]"]
    by (simp add: Let_def)
qed

lemma validation_exact_witness:
  "fst (evaluate_run demo_config demo_polls [demo_tick 0 (Fin 1), demo_tick 5 (Fin 1)]
     (demo_pending 1)) ! 0 = Hold"
  using validation_exact [of "demo_pending 1", OF demo_pending_validation, of 0
      "[demo_tick 0 (Fin 1), demo_tick 5 (Fin 1)]" demo_config demo_polls]
  by simp

lemma validation_conclusions_witness:
  "validation_revert_target demo_config 50 (Fin 1)
     (the (vs_pending_validation (demo_pending 0))) = Some 3"
proof -
  have "f64_in (thc_scale_up_min_gain demo_config) 0 1"
    and "f64_in (thc_scale_down_revert_drop demo_config) 0 1"
    and "thc_scale_up_min_gain demo_config \<noteq> Fin 0"
    by code_simp+
  then show ?thesis
    using validation_conclusions [of demo_config "the (vs_pending_validation (demo_pending 0))" 4 50]
    by (simp add: demo_pending_validation)
qed

lemma down_is_sustained_witness:
  "down_eligible demo_config (replicate 3 (demo_tick 0 (Fin (1/4))) ! 0) \<and>
   uint (scale_down_sustain_polls demo_polls 0) \<le> 3"
proof -
  have "uint (scale_down_sustain_polls demo_polls 0) = 3"
    by code_simp
  moreover have "vs_pending_validation (vm_state_new ''vm'') = None" "vs_low_util_polls (vm_state_new ''vm'') = 0"
      "vs_consecutive_failed_downs (vm_state_new ''vm'') = 0"
    by (simp_all add: vm_state_new_def)
  ultimately show ?thesis
    using down_is_sustained [of "vm_state_new ''vm''" 2 "replicate 3 (demo_tick 0 (Fin (1/4)))"
        demo_config demo_polls 2]
    by (auto simp: demo_run dest: spec [of _ 0])
qed

lemma fleet_plan_is_per_vm_witness:
  "length (fst (eng_evaluate_fleet threshold_ops [(''a'', snd (demo_tick 0 (Fin 1))), (''b'', status_default)]
     (fst (demo_tick 0 (Fin 1))) demo_engine)) \<le> 2"
  using fleet_plan_is_per_vm [of "[(''a'', snd (demo_tick 0 (Fin 1))), (''b'', status_default)]"
      "fst (demo_tick 0 (Fin 1))" demo_engine]
  by simp

lemma reachable_engine_ok_witness:
  "engine_ok (threshold_on_instance_added ''vm'' demo_engine)"
proof -
  have "engine_reachable demo_engine demo_engine"
    by (rule reach_start) (simp add: demo_engine_def)
  then have "engine_reachable demo_engine (threshold_on_instance_added ''vm'' demo_engine)"
    by (rule reach_step) (rule step_added)
  from reachable_engine_ok [OF this] show ?thesis
    by blast
qed

end
