(* ===== verification/Controller.thy ===== *)
theory Controller
  imports Ownership Threshold "HOL-Library.Product_Lexorder"
begin

section \<open>The controller (controller.rs)\<close>

text \<open>
  The live inventory and the tick: refresh every VM, persist first classifications, ask the engine
  for one plan, apply it behind the controller's guards, and emit the status records.  Also the
  requests of the D-Bus interface that the tick loop serves.

  The backends' client (\<open>ce_client\<close>), the engine, the regular expression matcher, the kernel
  tick rate, the median of the statistics crate and the JSON encoder are arguments; every call on
  a VM's client goes through \<open>box_client\<close>, as in the program.  What a tick reads of the
  clock, of \<open>/proc\<close> and of the file system's mood is a record of readings.
\<close>

datatype controller_error =
    CtlBackendClient backend_client_error
  | CtlState state_error
  | CtlThreadCount string
  | CtlVm string
  | CtlPanic string

fun show_state_error :: "state_error \<Rightarrow> string" where
  "show_state_error (StateIo e) = show_io_error e"
| "show_state_error (StateJson s) = s"
| "show_state_error (StateVm s) = ''VM error: '' @ s"

fun show_controller_error :: "controller_error \<Rightarrow> string" where
  "show_controller_error (CtlBackendClient e) = show_client_error e"
| "show_controller_error (CtlState e) = show_state_error e"
| "show_controller_error (CtlThreadCount s) = ''Set thread count error: '' @ s"
| "show_controller_error (CtlVm s) = ''VM error: '' @ s"
| "show_controller_error (CtlPanic s) = s"

subsection \<open>Wire formats\<close>

record snapshot_vm =
  sv_id :: string
  sv_vcpu_count :: u32
  sv_pid :: i32
  sv_thread_count :: u32
  sv_alive :: bool
  sv_perf_available :: bool
  sv_per_thread_util :: f64
  sv_manual_scaling_sticky :: bool
  sv_read_iops :: u64
  sv_write_iops :: u64
  sv_other_iops :: u64
  sv_read_bw_bps :: u64
  sv_write_bw_bps :: u64
  sv_read_latency_us :: "snapshot_latency option"
  sv_write_latency_us :: "snapshot_latency option"
  sv_num_queues :: "u32 option"
  sv_per_vq_depth :: "u64 list option"
  sv_qd_total :: "u64 option"
  sv_qd_avg_x100 :: "u64 option"
  sv_qd_median :: "u64 option"
  sv_cpu_pct_avg :: "u64 option"
  sv_cpu_pct_median :: "u64 option"
  sv_cpu_pct_total :: "u64 option"

text \<open>One entry of the \<open>GetStats\<close> reply.\<close>

record stats_vm =
  sw_vm :: string
  sw_thread_count :: u32
  sw_manual_scaling_sticky :: bool
  sw_scaling_allowed :: bool
  sw_vcpu_count :: u32
  sw_per_thread_util :: f64
  sw_read_io_count :: u64
  sw_write_io_count :: u64
  sw_other_io_count :: u64

text \<open>\<open>DbusRequest\<close> without the reply channels; the handler returns the reply.\<close>

datatype dbus_request =
    SetThreadCount string u32 bool
  | SetAllThreadCounts u32 bool
  | GetStats
  | GetSnapshot
  | GetVersion
  | GetIoThreadVqMapping string string
  | AddIoThread string string i64
  | DelIoThread string string
  | SetIoThreadVqMapping string string string

datatype dbus_reply =
    ReplyUnit "string + unit"
  | ReplyText string
  | ReplyTextResult "string + string"
  | ReplySummary u32 string

subsection \<open>Host readings\<close>

record host_cpu_sample =
  hc_busy_ticks :: u64
  hc_total_ticks :: u64

record cpu_time =
  ct_user :: u64
  ct_nice :: u64
  ct_system :: u64
  ct_idle :: u64
  ct_iowait :: "u64 option"
  ct_irq :: "u64 option"
  ct_softirq :: "u64 option"
  ct_steal :: "u64 option"
  ct_guest :: "u64 option"
  ct_guest_nice :: "u64 option"

definition unwrap_or_0 :: "u64 option \<Rightarrow> u64" where
  "unwrap_or_0 v = (case v of None \<Rightarrow> 0 | Some n \<Rightarrow> n)"

definition host_cpu_of :: "cpu_time \<Rightarrow> host_cpu_sample" where
  "host_cpu_of t =
     (let idle_ticks = sat_add (ct_idle t) (unwrap_or_0 (ct_iowait t));
          total_ticks = foldl sat_add (ct_user t)
            [ct_nice t, ct_system t, ct_idle t, unwrap_or_0 (ct_iowait t), unwrap_or_0 (ct_irq t),
             unwrap_or_0 (ct_softirq t), unwrap_or_0 (ct_steal t), unwrap_or_0 (ct_guest t),
             unwrap_or_0 (ct_guest_nice t)]
      in \<lparr>hc_busy_ticks = sat_sub total_ticks idle_ticks, hc_total_ticks = total_ticks\<rparr>)"

definition host_cpu_utilisation :: "host_cpu_sample \<Rightarrow> host_cpu_sample \<Rightarrow> f64" where
  "host_cpu_utilisation previous current =
     (let delta_busy = f64_of_word (sat_sub (hc_busy_ticks current) (hc_busy_ticks previous));
          delta_total = f64_of_word (sat_sub (hc_total_ticks current) (hc_total_ticks previous))
      in if f64_eq delta_total (Fin 0) then Fin 0
         else f64_clamp (f64_div delta_busy delta_total) (Fin 0) (Fin 1))"

text \<open>\<open>read_psi_sample\<close>: pressure values that cannot be read become zero.\<close>

definition psi_of :: "f64 option \<times> f64 option \<times> f64 option \<Rightarrow> psi_sample" where
  "psi_of r = (case r of (cpu, io, memory) \<Rightarrow>
     let value = (\<lambda>v. case v of None \<Rightarrow> Fin 0 | Some x \<Rightarrow> x)
     in \<lparr>psi_cpu_some_avg10 = value cpu, psi_io_some_avg10 = value io,
         psi_memory_some_avg10 = value memory\<rparr>)"

subsection \<open>State\<close>

text \<open>
  \<open>ct_files\<close> are the files the ownership store works on; the store's path is the
  configured one.
\<close>

record ('c, 'r, 'e) controller =
  ct_cfg :: config
  ct_engine :: 'e
  ct_vm_ownership :: vm_ownership
  ct_instances :: "('c, 'r) vm_instance hash_map"
  ct_tick_index :: u64
  ct_last_host_cpu :: "host_cpu_sample option"
  ct_host_cpu_util :: f64
  ct_psi :: psi_sample
  ct_files :: file_system

record ('c, 'r, 'e) controller_env =
  ce_client :: "'c client_ops"
  ce_engine :: "'e engine_ops"
  ce_is_match :: "'r \<Rightarrow> string \<Rightarrow> bool"
  ce_ticks_per_second :: f64
  ce_root :: path
  ce_process_id :: string
  ce_encode :: "vm_ownership \<Rightarrow> string + string"
  ce_median :: "f64 list \<Rightarrow> f64"
  ce_version :: string
  ce_snapshot_json :: "snapshot_vm list \<Rightarrow> string"
  ce_stats_json :: "u64 \<Rightarrow> stats_vm list \<Rightarrow> string"
  ce_mapping_json :: "vq_mapping list \<Rightarrow> string + string"
  ce_parse_mapping :: "string \<Rightarrow> string + vq_mapping list"

text \<open>
  The readings of one tick.  A VM is refreshed once and acted on at most once per tick, so the
  clock readings taken for it are functions of its identifier: \<open>tk_guard_now\<close> in the
  cooldown guard, \<open>tk_cooldown_now\<close> for the cooldown of a dry run, \<open>tk_applied_at\<close>
  when the outcome is recorded.
\<close>

record tick_env =
  tk_host_cpu :: "cpu_time option"
  tk_pressure :: "f64 option \<times> f64 option \<times> f64 option"
  tk_now :: instant
  tk_proc :: "string \<Rightarrow> proc_env"
  tk_guard_now :: "string \<Rightarrow> instant"
  tk_cooldown_now :: "string \<Rightarrow> instant"
  tk_applied_at :: "string \<Rightarrow> instant"
  tk_save :: save_faults

definition client_of :: "('c, 'r, 'e) controller_env \<Rightarrow> 'c client_ops" where
  "client_of env = box_client (ce_client env)"

definition controller_new ::
  "(string \<Rightarrow> string + vm_ownership) \<Rightarrow> io_error option \<Rightarrow> file_system \<Rightarrow> config \<Rightarrow> 'e \<Rightarrow>
   controller_error + ('c, 'r, 'e) controller"
where
  "controller_new dec fault fs cfg engine =
     result_map (\<lambda>ownership.
         \<lparr>ct_cfg = cfg, ct_engine = engine, ct_vm_ownership = ownership, ct_instances = [],
          ct_tick_index = 0, ct_last_host_cpu = None, ct_host_cpu_util = Fin 0,
          ct_psi = psi_default, ct_files = fs\<rparr>)
       (result_map_err CtlState (store_load dec fault fs (cfg_vm_state_path cfg)))"

definition close_instance ::
  "('c, 'r, 'e) controller_env \<Rightarrow> ('c, 'r) vm_instance \<Rightarrow> ('c, 'r) vm_instance" where
  "close_instance env i = i\<lparr>inst_client := op_close (client_of env) (inst_client i)\<rparr>"

definition set_engine :: "('e \<Rightarrow> 'e) \<Rightarrow> ('c, 'r, 'e) controller \<Rightarrow> ('c, 'r, 'e) controller" where
  "set_engine f c = c\<lparr>ct_engine := f (ct_engine c)\<rparr>"

definition set_instance ::
  "string \<Rightarrow> ('c, 'r) vm_instance \<Rightarrow> ('c, 'r, 'e) controller \<Rightarrow> ('c, 'r, 'e) controller" where
  "set_instance k i c = c\<lparr>ct_instances := hm_insert k i (ct_instances c)\<rparr>"

subsection \<open>Reconciling with discovery\<close>

text \<open>
  The loop over the discovered VMs: known ones are closed again (the closed duplicates are
  returned), new ones get their persisted classification, are announced to the engine and enter
  the inventory.
\<close>

fun sync_add ::
  "('c, 'r, 'e) controller_env \<Rightarrow> ('c, 'r) vm_instance list \<Rightarrow> ('c, 'r, 'e) controller \<Rightarrow>
   nat \<times> ('c, 'r) vm_instance list \<times> ('c, 'r, 'e) controller"
where
  "sync_add env [] c = (0, [], c)"
| "sync_add env (i # is) c =
     (if hm_get (ct_instances c) (inst_id i) \<noteq> None then
        let (added, dropped, c') = sync_add env is c in (added, close_instance env i # dropped, c')
      else
        let i' = i\<lparr>inst_status := (inst_status i)
                    \<lparr>st_ownership_classification := classification (ct_vm_ownership c) (inst_id i)\<rparr>\<rparr>;
            c = set_engine (eng_on_instance_added (ce_engine env) (inst_id i)) c;
            (added, dropped, c') = sync_add env is (set_instance (inst_id i) i' c)
        in (added + 1, dropped, c'))"

fun sync_remove ::
  "('c, 'r, 'e) controller_env \<Rightarrow> string list \<Rightarrow> ('c, 'r, 'e) controller \<Rightarrow>
   ('c, 'r) vm_instance list \<times> ('c, 'r, 'e) controller"
where
  "sync_remove env [] c = ([], c)"
| "sync_remove env (k # ks) c =
     (case hm_get (ct_instances c) k of
        None \<Rightarrow> sync_remove env ks c
      | Some i \<Rightarrow>
          let c = c\<lparr>ct_instances := hm_remove k (ct_instances c)\<rparr>;
              c = set_engine (eng_on_instance_removed (ce_engine env) k) c;
              (dropped, c') = sync_remove env ks c
          in (close_instance env i # dropped, c'))"

definition sync_instances ::
  "('c, 'r, 'e) controller_env \<Rightarrow> ('c, 'r) vm_instance list \<Rightarrow> ('c, 'r, 'e) controller \<Rightarrow>
   (nat \<times> nat) \<times> ('c, 'r) vm_instance list \<times> ('c, 'r, 'e) controller"
where
  "sync_instances env discovered c =
     (let seen = map inst_id discovered;
          (added, dropped, c) = sync_add env discovered c;
          stale = filter (\<lambda>k. k \<notin> set seen) (hm_keys (ct_instances c));
          (dropped', c) = sync_remove env stale c
      in ((added, length stale), dropped @ dropped', c))"

subsection \<open>The parts of a tick\<close>

text \<open>Host CPU, pressure and the tick counter.\<close>

definition tick_host ::
  "tick_env \<Rightarrow> ('c, 'r, 'e) controller \<Rightarrow> ('c, 'r, 'e) controller" where
  "tick_host t c =
     (let c = c\<lparr>ct_tick_index := ct_tick_index c + 1\<rparr>;
          c = (case tk_host_cpu t of
                 None \<Rightarrow> c
               | Some cpu_times \<Rightarrow>
                   let current = host_cpu_of cpu_times;
                       c = (case ct_last_host_cpu c of
                              None \<Rightarrow> c
                            | Some previous \<Rightarrow>
                                c\<lparr>ct_host_cpu_util := host_cpu_utilisation previous current\<rparr>)
                   in c\<lparr>ct_last_host_cpu := Some current\<rparr>)
      in if cfg_experimental_psi_monitoring (ct_cfg c)
         then c\<lparr>ct_psi := psi_of (tk_pressure t)\<rparr> else c)"

definition tick_context_of :: "tick_env \<Rightarrow> ('c, 'r, 'e) controller \<Rightarrow> tick_context" where
  "tick_context_of t c =
     \<lparr>tc_now = tk_now t,
      tc_min_thread_count = cfg_min_thread_count (ct_cfg c),
      tc_max_thread_count = cfg_max_thread_count (ct_cfg c),
      tc_host_cpu_util = ct_host_cpu_util c,
      tc_psi = ct_psi c,
      tc_tick_index = ct_tick_index c\<rparr>"

definition refresh_instance ::
  "('c, 'r, 'e) controller_env \<Rightarrow> tick_env \<Rightarrow> bool \<Rightarrow> ('c, 'r) vm_instance \<Rightarrow>
   bool \<times> ('c, 'r) vm_instance"
where
  "refresh_instance env t refresh_cgroup i =
     refresh_state (ce_root env) (ce_ticks_per_second env) (ce_is_match env) (client_of env)
       refresh_cgroup (tk_proc t (inst_id i)) i"

fun forget_failed ::
  "('c, 'r, 'e) controller_env \<Rightarrow> string list \<Rightarrow> ('c, 'r, 'e) controller \<Rightarrow> ('c, 'r, 'e) controller"
where
  "forget_failed env [] c = c"
| "forget_failed env (k # ks) c =
     forget_failed env ks (set_engine (eng_on_instance_removed (ce_engine env) k)
       (c\<lparr>ct_instances := hm_remove k (ct_instances c)\<rparr>))"

definition tick_refresh ::
  "('c, 'r, 'e) controller_env \<Rightarrow> tick_env \<Rightarrow> ('c, 'r, 'e) controller \<Rightarrow> ('c, 'r, 'e) controller"
where
  "tick_refresh env t c =
     (let refreshes = map (\<lambda>(k, i). (k, refresh_instance env t
            (cfg_refresh_cgroup_on_each_read (ct_cfg c)) i)) (ct_instances c);
          c = c\<lparr>ct_instances := map (\<lambda>(k, _, i). (k, i)) refreshes\<rparr>;
          failed = map (\<lambda>(_, _, i). inst_id i) (filter (\<lambda>(_, refreshed, _). \<not> refreshed) refreshes)
      in forget_failed env failed c)"

text \<open>The loop of \<open>persist_new_classifications\<close>.\<close>

fun record_classifications ::
  "('c, 'r) vm_instance list \<Rightarrow> bool \<Rightarrow> vm_ownership \<Rightarrow> (controller_error + bool) \<times> vm_ownership"
where
  "record_classifications [] changed r = (Inr changed, r)"
| "record_classifications (i # is) changed r =
     (case st_ownership_classification (inst_status i) of
        None \<Rightarrow> record_classifications is changed r
      | Some managed \<Rightarrow>
     (case classification r (inst_id i) of
        Some persisted \<Rightarrow>
          if persisted \<noteq> managed
          then (Inl (CtlVm (''VM '' @ inst_id i @ '' ownership changed after classification'')), r)
          else record_classifications is changed r
      | None \<Rightarrow>
     (case record_vm r (inst_id i) managed of
        Inl e \<Rightarrow> (Inl (CtlState e), r)
      | Inr r' \<Rightarrow> record_classifications is True r')))"

definition persist_new_classifications ::
  "('c, 'r, 'e) controller_env \<Rightarrow> save_faults \<Rightarrow> ('c, 'r, 'e) controller \<Rightarrow>
   (controller_error + unit) \<times> ('c, 'r, 'e) controller"
where
  "persist_new_classifications env faults c =
     (case record_classifications (map snd (ct_instances c)) False (ct_vm_ownership c) of
        (Inl e, r) \<Rightarrow> (Inl e, c\<lparr>ct_vm_ownership := r\<rparr>)
      | (Inr changed, r) \<Rightarrow>
          let c = c\<lparr>ct_vm_ownership := r\<rparr>
          in if \<not> changed then (Inr (), c)
             else case store_save (ce_encode env) (ce_process_id env) faults
                         (cfg_vm_state_path (ct_cfg c)) r (ct_files c) of
                    (result, files) \<Rightarrow>
                      (result_map_err CtlState result, c\<lparr>ct_files := last files\<rparr>))"

text \<open>
  The plan: the first decision for each known VM that asks for a different count, with its sequence
  number and whether it grows the pool.
\<close>

fun build_plan ::
  "('c, 'r) vm_instance hash_map \<Rightarrow> nat \<Rightarrow> string list \<Rightarrow> instance_decision list \<Rightarrow>
   (bool \<times> nat \<times> string \<times> scale_action) list"
where
  "build_plan insts n planned [] = []"
| "build_plan insts n planned (d # ds) =
     (if dec_instance_id d \<in> set planned then build_plan insts (Suc n) planned ds
      else let planned = dec_instance_id d # planned
           in case hm_get insts (dec_instance_id d) of
                None \<Rightarrow> build_plan insts (Suc n) planned ds
              | Some i \<Rightarrow>
                  (case target (dec_action d) of
                     None \<Rightarrow> build_plan insts (Suc n) planned ds
                   | Some tgt \<Rightarrow>
                       let current = st_thread_count (inst_status i)
                       in if tgt = current then build_plan insts (Suc n) planned ds
                          else (current < tgt, n, dec_instance_id d, dec_action d) #
                               build_plan insts (Suc n) planned ds))"

text \<open>\<open>plan.sort_by_key(|(is_up, sequence, _, _)| (*is_up, *sequence))\<close>: scale-downs first,
  in decision order (\<open>false\<close> is less than \<open>true\<close>).\<close>

definition plan_key :: "bool \<times> nat \<times> string \<times> scale_action \<Rightarrow> bool \<times> nat" where
  "plan_key p = (case p of (up, n, _, _) \<Rightarrow> (up, n))"

definition sort_plan ::
  "(bool \<times> nat \<times> string \<times> scale_action) list \<Rightarrow> (bool \<times> nat \<times> string \<times> scale_action) list" where
  "sort_plan plan = sort_key plan_key plan"

text \<open>The controller's safety checks, in the order of the code.\<close>

definition guard ::
  "config \<Rightarrow> f64 \<Rightarrow> instant \<Rightarrow> instance_status \<Rightarrow> scale_action \<Rightarrow> u32 \<Rightarrow> blocked_reason option"
where
  "guard cfg host_cpu_util now s action tgt =
     (if st_manual_scaling_sticky s then Some ManualOverride
      else if \<not> scaling_allowed s then Some UnmanagedVm
      else if tgt < cfg_min_thread_count cfg then Some TargetBelowMinimum
      else if cfg_max_thread_count cfg < tgt then Some TargetExceedsMaximum
      else if st_vcpu_count s < tgt then Some TargetExceedsVcpuCount
      else if is_up_or_down action \<and>
              (case st_cooldown_until s of None \<Rightarrow> False | Some t \<Rightarrow> now < t)
      then Some Cooldown
      else if st_thread_count s < tgt \<and> is_up action \<and>
              f64_lt (Fin 0) (cfg_host_cpu_scale_up_ceiling cfg) \<and>
              f64_le (cfg_host_cpu_scale_up_ceiling cfg) host_cpu_util
      then Some HostCpuCeiling
      else None)"

text \<open>
  \<open>apply_engine_decision\<close>: whether the action counts as an adjustment.  Adding a cooldown
  that leaves the clock's range panics.
\<close>

definition apply_engine_decision ::
  "('c, 'r, 'e) controller_env \<Rightarrow> tick_env \<Rightarrow> string \<Rightarrow> scale_action \<Rightarrow> ('c, 'r, 'e) controller \<Rightarrow>
   (controller_error + bool) \<times> ('c, 'r, 'e) controller"
where
  "apply_engine_decision env t k action c =
     (case target action of
        None \<Rightarrow> (Inr False, c)
      | Some tgt \<Rightarrow>
     (case hm_get (ct_instances c) k of
        None \<Rightarrow> (Inr False, c)
      | Some i \<Rightarrow>
          let s = inst_status i;
              previous_count = st_thread_count s;
              previous_io_count = (case st_perf s of None \<Rightarrow> 0 | Some p \<Rightarrow> total_io_count p);
              cooldown = duration_from_secs (cfg_cooldown_secs (ct_cfg c));
              report = (\<lambda>outcome. set_engine (eng_on_applied (ce_engine env) (inst_id i) outcome));
              panic = CtlPanic ''overflow when adding duration to instant''
          in case guard (ct_cfg c) (ct_host_cpu_util c) (tk_guard_now t k) s action tgt of
               Some reason \<Rightarrow>
                 (Inr False, set_engine (eng_on_applied (ce_engine env)
                    (if reason \<in> {ManualOverride, UnmanagedVm} then inst_id i else k)
                    (Blocked action reason)) c)
             | None \<Rightarrow>
                 if cfg_dry_run (ct_cfg c) then
                   (case instant_checked_add (tk_cooldown_now t k) cooldown of
                      None \<Rightarrow> (Inl panic, c)
                    | Some until \<Rightarrow>
                        (Inr True,
                         report (DryRun action previous_count previous_io_count (tk_applied_at t k))
                           (set_instance k (i\<lparr>inst_status := s\<lparr>st_cooldown_until := Some until\<rparr>\<rparr>) c)))
                 else
                   (case op_set_thread_count (client_of env) tgt (inst_client i) of
                      (Inl e, client) \<Rightarrow>
                        (Inr False, report (Failed action e)
                           (set_instance k (i\<lparr>inst_client := client\<rparr>) c))
                    | (Inr _, client) \<Rightarrow>
                        (case instant_checked_add (tk_applied_at t k) cooldown of
                           None \<Rightarrow> (Inl panic, set_instance k (i\<lparr>inst_client := client,
                             inst_status := s\<lparr>st_thread_count := tgt\<rparr>\<rparr>) c)
                         | Some until \<Rightarrow>
                             (Inr True,
                              report (Success action previous_count previous_io_count (tk_applied_at t k))
                                (set_instance k (i\<lparr>inst_client := client,
                                   inst_status := s\<lparr>st_thread_count := tgt,
                                     st_cooldown_until := Some until\<rparr>\<rparr>) c))))))"

text \<open>The loop over the plan with the cap on adjusted VMs.\<close>

fun apply_plan ::
  "('c, 'r, 'e) controller_env \<Rightarrow> tick_env \<Rightarrow> (bool \<times> nat \<times> string \<times> scale_action) list \<Rightarrow> nat \<Rightarrow>
   ('c, 'r, 'e) controller \<Rightarrow> (controller_error + nat) \<times> ('c, 'r, 'e) controller"
where
  "apply_plan env t [] adjusted c = (Inr adjusted, c)"
| "apply_plan env t ((_, _, k, action) # plan) adjusted c =
     (let cap = cfg_max_instances_adjusted_per_poll (ct_cfg c)
      in if 0 < cap \<and> uint cap \<le> int adjusted then apply_plan env t plan adjusted c
         else case apply_engine_decision env t k action c of
                (Inl e, c') \<Rightarrow> (Inl e, c')
              | (Inr did, c') \<Rightarrow> apply_plan env t plan (if did then Suc adjusted else adjusted) c')"

subsection \<open>Statistics and status lines\<close>

record cpu_stats =
  cs_avg_pct :: u64
  cs_median_pct :: u64
  cs_total_pct :: u64

definition percent :: "f64 \<Rightarrow> u64" where
  "percent x = f64_as_word (f64_round (f64_mul x (Fin 100)))"

definition compute_cpu_stats :: "(f64 list \<Rightarrow> f64) \<Rightarrow> instance_status \<Rightarrow> cpu_stats" where
  "compute_cpu_stats median s =
     (if st_per_worker_util s \<noteq> [] then
        let total = f64_sum (st_per_worker_util s)
        in \<lparr>cs_avg_pct = percent (f64_div total (f64_of_int (int (length (st_per_worker_util s))))),
            cs_median_pct = percent (median (st_per_worker_util s)),
            cs_total_pct = percent total\<rparr>
      else
        \<lparr>cs_avg_pct = percent (st_per_thread_util s),
         cs_median_pct = percent (st_per_thread_util s),
         cs_total_pct = percent (f64_mul (st_per_thread_util s) (f64_of_word (st_thread_count s)))\<rparr>)"

definition summarize_vq_depths ::
  "(f64 list \<Rightarrow> f64) \<Rightarrow> u64 list option \<Rightarrow> u32 option \<times> u64 option \<times> u64 option \<times> u64 option"
where
  "summarize_vq_depths median depths =
     (case depths of
        None \<Rightarrow> (None, None, None, None)
      | Some ds \<Rightarrow>
          if ds = [] then (None, None, None, None)
          else let total = foldl sat_add 0 ds
               in (Some (word_of_int (int (length ds))),
                   Some total,
                   Some (word_of_int (uint total * 100 div int (length ds))),
                   Some (f64_as_word (f64_floor (median (map f64_of_word ds))))))"

definition status_windows :: "duration list" where
  "status_windows = [minutes 1, minutes 5, minutes 15]"

definition format_optional_cells :: "u64 option list \<Rightarrow> string \<Rightarrow> string" where
  "format_optional_cells cells sep = join sep (map optional_cell cells)"

definition format_latency_cell :: "snapshot_latency option \<Rightarrow> string \<Rightarrow> string" where
  "format_latency_cell latency sep =
     (case latency of
        Some l \<Rightarrow> join sep (map show_word [lat_p50 l, lat_p95 l, lat_p99 l, lat_avg l])
      | None \<Rightarrow> join sep [''-'', ''-'', ''-'', ''-''])"

definition format_instance_status_line ::
  "(f64 list \<Rightarrow> f64) \<Rightarrow> instance_status \<Rightarrow> u64 option list \<Rightarrow> string" where
  "format_instance_status_line median s iops_windows =
     (let cpu = compute_cpu_stats median s
      in ''status='' @ join '' ''
           [show_word (st_thread_count s),
            show_word (st_read_iops s),
            show_word (st_write_iops s),
            show_word (st_other_iops s),
            format_optional_cells iops_windows '' '',
            show_word (st_read_bytes_per_second s div 1000000),
            show_word (st_write_bytes_per_second s div 1000000),
            show_word (cs_avg_pct cpu),
            show_word (cs_median_pct cpu),
            show_word (cs_total_pct cpu),
            format_latency_cell (st_read_latency_us s) '' '',
            format_latency_cell (st_write_latency_us s) '' '',
            format_1_5_15 cpu_us_per_io_over '' '' (st_rolling s)])"

text \<open>
  The status events of a tick: one line for a VM's own file, one record on the main target with
  its fields, or the aggregate line.
\<close>

datatype status_event =
    StatusFile string string
  | StatusMain string u32 u64 u64 u64 string u64 u64 string string
  | StatusAggregate string

definition emit_instance_status_file ::
  "(f64 list \<Rightarrow> f64) \<Rightarrow> ('c, 'r) vm_instance \<Rightarrow> u64 option list \<Rightarrow> status_event" where
  "emit_instance_status_file median i iops_windows =
     StatusFile (inst_id i) (format_instance_status_line median (inst_status i) iops_windows)"

definition emit_instance_status_main ::
  "('c, 'r) vm_instance \<Rightarrow> u64 option list \<Rightarrow> status_event" where
  "emit_instance_status_main i iops_windows =
     (let s = inst_status i
      in StatusMain (show_instance i) (st_thread_count s) (st_read_iops s) (st_write_iops s)
           (st_other_iops s) (format_optional_cells iops_windows ''/'')
           (st_read_bytes_per_second s div 1000000) (st_write_bytes_per_second s div 1000000)
           (format_latency_cell (st_read_latency_us s) ''/'')
           (format_latency_cell (st_write_latency_us s) ''/''))"

definition instance_status_events ::
  "config \<Rightarrow> (f64 list \<Rightarrow> f64) \<Rightarrow> ('c, 'r) vm_instance \<Rightarrow> status_event list" where
  "instance_status_events cfg median i =
     (let iops_windows = map (\<lambda>w. iops_over w (st_rolling (inst_status i))) status_windows
      in (if cfg_enable_per_vm_status_line cfg \<and> cfg_enable_per_vm_main_log cfg
          then [emit_instance_status_main i iops_windows]
          else if cfg_enable_per_vm_status_line cfg
          then [emit_instance_status_file median i iops_windows] else []) @
         (if cfg_enable_per_vm_main_log cfg then [emit_instance_status_main i iops_windows] else []))"

definition aggregate_iops :: "('c, 'r) vm_instance list \<Rightarrow> duration \<Rightarrow> u64 option" where
  "aggregate_iops fleet window =
     (let values = List.map_filter (\<lambda>i. iops_over window (st_rolling (inst_status i))) fleet
      in if values = [] then None else Some (foldl sat_add 0 values))"

definition emit_status_lines ::
  "('c, 'r, 'e) controller_env \<Rightarrow> ('c, 'r, 'e) controller \<Rightarrow> status_event list" where
  "emit_status_lines env c =
     (let fleet = sort_key inst_id (map snd (ct_instances c));
          total_threads = foldl (\<lambda>n i. n + ucast (st_thread_count (inst_status i))) (0 :: u64) fleet
      in concat (map (instance_status_events (ct_cfg c) (ce_median env)) fleet) @
         (if cfg_enable_aggregate_status_line (ct_cfg c)
          then [StatusAggregate (join '' ''
                  [show_int (int (length (ct_instances c))), show_word total_threads,
                   format_optional_cells (map (aggregate_iops fleet) status_windows) '' ''])]
          else []))"

subsection \<open>The tick\<close>

text \<open>
  An error of the ownership store, and a panic, end the tick early; otherwise it returns the status
  events.
\<close>

definition tick_plan ::
  "('c, 'r, 'e) controller_env \<Rightarrow> tick_context \<Rightarrow> ('c, 'r, 'e) controller \<Rightarrow>
   (bool \<times> nat \<times> string \<times> scale_action) list \<times> ('c, 'r, 'e) controller"
where
  "tick_plan env ctxt c =
     (let fleet = map (\<lambda>(_, i). (inst_id i, inst_status i)) (ct_instances c);
          (decisions, e) = eng_evaluate_fleet (ce_engine env) fleet ctxt (ct_engine c)
      in (sort_plan (build_plan (ct_instances c) 0 [] decisions), c\<lparr>ct_engine := e\<rparr>))"

definition tick ::
  "('c, 'r, 'e) controller_env \<Rightarrow> tick_env \<Rightarrow> ('c, 'r, 'e) controller \<Rightarrow>
   (controller_error + status_event list) \<times> ('c, 'r, 'e) controller"
where
  "tick env t c =
     (let c = tick_host t c;
          ctxt = tick_context_of t c;
          c = tick_refresh env t c
      in case persist_new_classifications env (tk_save t) c of
           (Inl e, c) \<Rightarrow> (Inl e, c)
         | (Inr _, c) \<Rightarrow>
             (case tick_plan env ctxt c of
                (plan, c) \<Rightarrow>
                  (case apply_plan env t plan 0 c of
                     (Inl e, c) \<Rightarrow> (Inl e, c)
                   | (Inr _, c) \<Rightarrow> (Inr (emit_status_lines env c), c))))"

subsection \<open>D-Bus requests\<close>

text \<open>The two error texts with braces are string literals in the program: nothing is formatted
  into them.\<close>

definition handle_set_thread_count ::
  "('c, 'r, 'e) controller_env \<Rightarrow> string \<Rightarrow> u32 \<Rightarrow> bool \<Rightarrow> ('c, 'r, 'e) controller \<Rightarrow>
   (controller_error + unit) \<times> ('c, 'r, 'e) controller"
where
  "handle_set_thread_count env vm threads sticky c =
     (case hm_get (ct_instances c) vm of
        None \<Rightarrow> (Inl (CtlVm ''unknown VM {vm}''), c)
      | Some i \<Rightarrow>
          if threads = 0
          then (Inl (CtlThreadCount ''target thread count must be greater than zero''), c)
          else if st_vcpu_count (inst_status i) < threads
          then (Inl (CtlThreadCount ''target thread count {threads} > guest vCPU count {vcpu_count}''), c)
          else case op_set_thread_count (client_of env) threads (inst_client i) of
                 (Inl e, client) \<Rightarrow>
                   (Inl (CtlBackendClient e), set_instance vm (i\<lparr>inst_client := client\<rparr>) c)
               | (Inr _, client) \<Rightarrow>
                   (Inr (), set_instance vm (i\<lparr>inst_client := client,
                      inst_status := (inst_status i)
                        \<lparr>st_thread_count := threads, st_manual_scaling_sticky := sticky\<rparr>\<rparr>) c))"

fun set_all_loop ::
  "('c, 'r, 'e) controller_env \<Rightarrow> string list \<Rightarrow> u32 \<Rightarrow> bool \<Rightarrow> ('c, 'r, 'e) controller \<Rightarrow>
   nat \<times> string list \<times> ('c, 'r, 'e) controller"
where
  "set_all_loop env [] threads sticky c = (0, [], c)"
| "set_all_loop env (k # ks) threads sticky c =
     (case handle_set_thread_count env k threads sticky c of
        (Inr _, c) \<Rightarrow>
          let (succeeded, failures, c) = set_all_loop env ks threads sticky c
          in (Suc succeeded, failures, c)
      | (Inl e, c) \<Rightarrow>
          let (succeeded, failures, c) = set_all_loop env ks threads sticky c
          in (succeeded, (k @ '': '' @ show_controller_error e) # failures, c))"

definition handle_set_all_thread_counts ::
  "('c, 'r, 'e) controller_env \<Rightarrow> u32 \<Rightarrow> bool \<Rightarrow> ('c, 'r, 'e) controller \<Rightarrow>
   (u32 \<times> string) \<times> ('c, 'r, 'e) controller"
where
  "handle_set_all_thread_counts env threads sticky c =
     (let ids = sort (hm_keys (ct_instances c));
          (succeeded, failures, c) = set_all_loop env ids threads sticky c;
          summary = ''set thread count to '' @ show_word threads @
            (if sticky then '' (sticky)'' else '''') @ '' on '' @ show_int (int succeeded) @ ''/'' @
            show_int (int (length ids)) @ '' VMs'' @
            (if failures = [] then '''' else ''; failures: '' @ join ''; '' failures)
      in ((sat_of_int (int (length failures)), summary), c))"

definition snapshot_of :: "(f64 list \<Rightarrow> f64) \<Rightarrow> string \<Rightarrow> ('c, 'r) vm_instance \<Rightarrow> snapshot_vm" where
  "snapshot_of median k i =
     (let s = inst_status i;
          cpu = compute_cpu_stats median s;
          (num_queues, qd_total, qd_avg_x100, qd_median) =
            summarize_vq_depths median (st_per_vq_depth s)
      in \<lparr>sv_id = k,
          sv_vcpu_count = st_vcpu_count s,
          sv_pid = inst_pid i,
          sv_thread_count = st_thread_count s,
          sv_alive = st_alive s,
          sv_perf_available = (st_perf s \<noteq> None),
          sv_per_thread_util =
            (if f64_is_finite (st_per_thread_util s) then st_per_thread_util s else Fin 0),
          sv_manual_scaling_sticky = st_manual_scaling_sticky s,
          sv_read_iops = st_read_iops s,
          sv_write_iops = st_write_iops s,
          sv_other_iops = st_other_iops s,
          sv_read_bw_bps = st_read_bytes_per_second s,
          sv_write_bw_bps = st_write_bytes_per_second s,
          sv_read_latency_us = st_read_latency_us s,
          sv_write_latency_us = st_write_latency_us s,
          sv_num_queues = num_queues,
          sv_per_vq_depth = st_per_vq_depth s,
          sv_qd_total = qd_total,
          sv_qd_avg_x100 = qd_avg_x100,
          sv_qd_median = qd_median,
          sv_cpu_pct_avg = Some (cs_avg_pct cpu),
          sv_cpu_pct_median = Some (cs_median_pct cpu),
          sv_cpu_pct_total = Some (cs_total_pct cpu)\<rparr>)"

definition handle_get_snapshot ::
  "('c, 'r, 'e) controller_env \<Rightarrow> ('c, 'r, 'e) controller \<Rightarrow> string" where
  "handle_get_snapshot env c =
     ce_snapshot_json env (map (\<lambda>(k, i). snapshot_of (ce_median env) k i) (ct_instances c))"

definition stats_of :: "string \<Rightarrow> ('c, 'r) vm_instance \<Rightarrow> stats_vm" where
  "stats_of k i =
     (let s = inst_status i;
          io = (\<lambda>f. case st_perf s of None \<Rightarrow> 0 | Some p \<Rightarrow> f p)
      in \<lparr>sw_vm = k,
          sw_thread_count = st_thread_count s,
          sw_manual_scaling_sticky = st_manual_scaling_sticky s,
          sw_scaling_allowed = st_scaling_allowed_field s,
          sw_vcpu_count = st_vcpu_count s,
          sw_per_thread_util = st_per_thread_util s,
          sw_read_io_count = io perf_read_io_count,
          sw_write_io_count = io perf_write_io_count,
          sw_other_io_count = io perf_other_io_count\<rparr>)"

text \<open>A call on the client of one VM, with the error rendered.\<close>

definition with_client ::
  "string \<Rightarrow> ('c \<Rightarrow> (backend_client_error + 'a) \<times> 'c) \<Rightarrow> ('c, 'r, 'e) controller \<Rightarrow>
   (string + 'a) \<times> ('c, 'r, 'e) controller"
where
  "with_client vm call c =
     (case hm_get (ct_instances c) vm of
        None \<Rightarrow> (Inl (''unknown VM '' @ vm), c)
      | Some i \<Rightarrow>
          (case call (inst_client i) of
             (r, client) \<Rightarrow>
               (result_map_err show_client_error r, set_instance vm (i\<lparr>inst_client := client\<rparr>) c)))"

definition handle_dbus_request ::
  "('c, 'r, 'e) controller_env \<Rightarrow> dbus_request \<Rightarrow> ('c, 'r, 'e) controller \<Rightarrow>
   dbus_reply \<times> ('c, 'r, 'e) controller"
where
  "handle_dbus_request env request c =
     (case request of
        SetThreadCount vm threads sticky \<Rightarrow>
          (case handle_set_thread_count env vm threads sticky c of
             (r, c) \<Rightarrow> (ReplyUnit (result_map_err show_controller_error r), c))
      | SetAllThreadCounts threads sticky \<Rightarrow>
          (case handle_set_all_thread_counts env threads sticky c of
             ((failed, summary), c) \<Rightarrow> (ReplySummary failed summary, c))
      | GetSnapshot \<Rightarrow> (ReplyText (handle_get_snapshot env c), c)
      | GetVersion \<Rightarrow> (ReplyText (ce_version env), c)
      | GetIoThreadVqMapping vm device \<Rightarrow>
          (case with_client vm (op_get_io_thread_vq_mapping (client_of env) device) c of
             (r, c) \<Rightarrow> (ReplyTextResult (result_bind r (\<lambda>mapping.
                result_map_err (\<lambda>e. ''serialize mapping: '' @ e) (ce_mapping_json env mapping))), c))
      | GetStats \<Rightarrow>
          (ReplyText (ce_stats_json env (ct_tick_index c)
             (map (\<lambda>(k, i). stats_of k i) (ct_instances c))), c)
      | AddIoThread vm io poll_max_ns \<Rightarrow>
          let properties = (if 0 \<le> sint poll_max_ns
                then Some (io_thread_properties_default\<lparr>ip_poll_max_ns := Some poll_max_ns\<rparr>) else None)
          in (case with_client vm (op_add_io_thread (client_of env) io properties) c of
                (r, c) \<Rightarrow> (ReplyUnit r, c))
      | DelIoThread vm io \<Rightarrow>
          (case with_client vm (op_del_io_thread (client_of env) io) c of (r, c) \<Rightarrow> (ReplyUnit r, c))
      | SetIoThreadVqMapping vm device mapping_json \<Rightarrow>
          (case ce_parse_mapping env mapping_json of
             Inl e \<Rightarrow> (ReplyUnit (Inl (''parse mapping JSON: '' @ e)), c)
           | Inr mapping \<Rightarrow>
               (case with_client vm (op_set_io_thread_vq_mapping (client_of env) device mapping) c of
                  (r, c) \<Rightarrow> (ReplyUnit r, c))))"

subsection \<open>Lemmas on the guards and one decision\<close>

definition in_bounds :: "config \<Rightarrow> instance_status \<Rightarrow> u32 \<Rightarrow> bool" where
  "in_bounds cfg s tgt \<longleftrightarrow>
     cfg_min_thread_count cfg \<le> tgt \<and> tgt \<le> cfg_max_thread_count cfg \<and> tgt \<le> st_vcpu_count s"

lemma guard_None:
  "guard cfg host now s action tgt = None \<longleftrightarrow>
     \<not> st_manual_scaling_sticky s \<and> scaling_allowed s \<and> in_bounds cfg s tgt \<and>
     \<not> (is_up_or_down action \<and> (\<exists>t. st_cooldown_until s = Some t \<and> now < t)) \<and>
     \<not> (st_thread_count s < tgt \<and> is_up action \<and> f64_lt (Fin 0) (cfg_host_cpu_scale_up_ceiling cfg) \<and>
        f64_le (cfg_host_cpu_scale_up_ceiling cfg) host)"
  by (auto simp: guard_def in_bounds_def split: option.split)

lemma set_engine_simps [simp]:
  "ct_instances (set_engine f c) = ct_instances c"
  "ct_cfg (set_engine f c) = ct_cfg c"
  "ct_vm_ownership (set_engine f c) = ct_vm_ownership c"
  "ct_files (set_engine f c) = ct_files c"
  "ct_host_cpu_util (set_engine f c) = ct_host_cpu_util c"
  "ct_tick_index (set_engine f c) = ct_tick_index c"
  "ct_engine (set_engine f c) = f (ct_engine c)"
  by (simp_all add: set_engine_def)

lemma set_instance_simps [simp]:
  "ct_instances (set_instance k i c) = hm_insert k i (ct_instances c)"
  "ct_cfg (set_instance k i c) = ct_cfg c"
  "ct_vm_ownership (set_instance k i c) = ct_vm_ownership c"
  "ct_files (set_instance k i c) = ct_files c"
  "ct_host_cpu_util (set_instance k i c) = ct_host_cpu_util c"
  "ct_tick_index (set_instance k i c) = ct_tick_index c"
  "ct_engine (set_instance k i c) = ct_engine c"
  by (simp_all add: set_instance_def)

text \<open>What a decision may do to the record of a VM.\<close>

definition vm_adjusted ::
  "('c, 'r, 'e) controller_env \<Rightarrow> tick_env \<Rightarrow> config \<Rightarrow> f64 \<Rightarrow> string \<Rightarrow> scale_action \<Rightarrow> ('c, 'r) vm_instance \<Rightarrow>
   ('c, 'r) vm_instance \<Rightarrow> bool"
where
  "vm_adjusted env t cfg host k action i i' \<longleftrightarrow>
     (\<exists>tgt. target action = Some tgt \<and>
        guard cfg host (tk_guard_now t k) (inst_status i) action tgt = None \<and>
        (if cfg_dry_run cfg
         then \<exists>until. i' = i\<lparr>inst_status := (inst_status i)\<lparr>st_cooldown_until := Some until\<rparr>\<rparr>
         else \<exists>r client cooldown. op_set_thread_count (client_of env) tgt (inst_client i) = (r, client) \<and>
           i' = i\<lparr>inst_client := client, inst_status :=
             (if r = Inr () then (inst_status i)\<lparr>st_thread_count := tgt, st_cooldown_until := cooldown\<rparr>
              else inst_status i)\<rparr>))"

lemma apply_engine_decision_cases:
  assumes "apply_engine_decision env t k action c = (r, c')"
  obtains "ct_instances c' = ct_instances c" and "\<And>did. r = Inr did \<Longrightarrow> \<not> did"
    | i i' where "hm_get (ct_instances c) k = Some i" and "vm_adjusted env t (ct_cfg c) (ct_host_cpu_util c) k action i i'"
        and "ct_instances c' = hm_insert k i' (ct_instances c)"
        and "r = Inr False \<Longrightarrow> inst_status i' = inst_status i"
proof (cases "target action")
  case None
  with assms show ?thesis
    by (intro that(1)) (auto simp: apply_engine_decision_def)
next
  case target: (Some tgt)
  show ?thesis
  proof (cases "hm_get (ct_instances c) k")
    case None
    with assms target show ?thesis
      by (intro that(1)) (auto simp: apply_engine_decision_def)
  next
    case inst: (Some i)
    show ?thesis
    proof (cases "guard (ct_cfg c) (ct_host_cpu_util c) (tk_guard_now t k) (inst_status i) action tgt")
      case (Some reason)
      with assms target inst show ?thesis
        by (intro that(1)) (auto simp: apply_engine_decision_def Let_def)
    next
      case None
      show ?thesis
      proof (cases "cfg_dry_run (ct_cfg c)")
        case True
        show ?thesis
        proof (cases "instant_checked_add (tk_cooldown_now t k)
            (duration_from_secs (cfg_cooldown_secs (ct_cfg c)))")
          case (Some until)
          have "vm_adjusted env t (ct_cfg c) (ct_host_cpu_util c) k action i
              (i\<lparr>inst_status := (inst_status i)\<lparr>st_cooldown_until := Some until\<rparr>\<rparr>)"
            using True target None by (auto simp: vm_adjusted_def)
          from that(2) [OF inst this] show ?thesis
            using assms target inst None True Some by (auto simp: apply_engine_decision_def Let_def)
        qed (use assms target inst None True in \<open>intro that(1);
            auto simp: apply_engine_decision_def Let_def\<close>)
      next
        case False
        obtain res client where
          call: "op_set_thread_count (client_of env) tgt (inst_client i) = (res, client)"
          by (cases "op_set_thread_count (client_of env) tgt (inst_client i)")
        have adj: "vm_adjusted env t (ct_cfg c) (ct_host_cpu_util c) k action i (i\<lparr>inst_client := client, inst_status :=
            (if res = Inr () then (inst_status i)\<lparr>st_thread_count := tgt, st_cooldown_until := cd\<rparr>
             else inst_status i)\<rparr>)" for cd
          using False target None call by (auto simp: vm_adjusted_def)
        show ?thesis
        proof (cases res)
          case (Inl e)
          with that(2) [OF inst adj] show ?thesis
            using assms target inst None False call
            by (auto simp: apply_engine_decision_def Let_def)
        next
          case (Inr u)
          show ?thesis
          proof (cases "instant_checked_add (tk_applied_at t k)
              (duration_from_secs (cfg_cooldown_secs (ct_cfg c)))")
            case None': None
            with that(2) [OF inst adj [of "st_cooldown_until (inst_status i)"]] show ?thesis
              using assms target inst None False call Inr
              by (auto simp: apply_engine_decision_def Let_def)
          next
            case (Some until)
            with that(2) [OF inst adj [of "Some until"]] show ?thesis
              using assms target inst None False call Inr
              by (auto simp: apply_engine_decision_def Let_def)
          qed
        qed
      qed
    qed
  qed
qed

lemma apply_engine_decision_frame:
  assumes "apply_engine_decision env t k action c = (r, c')"
  shows "ct_cfg c' = ct_cfg c" and "ct_vm_ownership c' = ct_vm_ownership c"
    and "ct_files c' = ct_files c" and "ct_host_cpu_util c' = ct_host_cpu_util c"
    and "ct_tick_index c' = ct_tick_index c"
  using assms
  by (auto simp: apply_engine_decision_def Let_def split: option.splits if_splits sum.splits prod.splits)

subsection \<open>Applying a plan\<close>

definition plan_id :: "bool \<times> nat \<times> string \<times> scale_action \<Rightarrow> string" where
  "plan_id p = fst (snd (snd p))"

definition plan_action :: "bool \<times> nat \<times> string \<times> scale_action \<Rightarrow> scale_action" where
  "plan_action p = snd (snd (snd p))"

lemma plan_entry_simps [simp]:
  "plan_id (up, n, k, action) = k" "plan_action (up, n, k, action) = action"
  by (simp_all add: plan_id_def plan_action_def)

text \<open>Every VM is left alone or adjusted once, by an entry of the plan.\<close>

definition plan_effect ::
  "('c, 'r, 'e) controller_env \<Rightarrow> tick_env \<Rightarrow> config \<Rightarrow> f64 \<Rightarrow> (bool \<times> nat \<times> string \<times> scale_action) list \<Rightarrow>
   ('c, 'r) vm_instance hash_map \<Rightarrow> ('c, 'r) vm_instance hash_map \<Rightarrow> bool"
where
  "plan_effect env t cfg host plan m m' \<longleftrightarrow>
     (\<forall>k. hm_get m' k = hm_get m k \<or>
        (\<exists>p\<in>set plan. plan_id p = k \<and> (\<exists>i i'. hm_get m k = Some i \<and> hm_get m' k = Some i' \<and>
           vm_adjusted env t cfg host k (plan_action p) i i')))"

lemma apply_plan_effect:
  assumes "apply_plan env t plan n c = (r, c')" and "distinct (map plan_id plan)"
  shows "plan_effect env t (ct_cfg c) (ct_host_cpu_util c) plan (ct_instances c) (ct_instances c') \<and>
    ct_cfg c' = ct_cfg c \<and> ct_vm_ownership c' = ct_vm_ownership c \<and> ct_files c' = ct_files c"
  using assms
proof (induction plan arbitrary: n c)
  case Nil
  then show ?case
    by (simp add: plan_effect_def)
next
  case (Cons p plan)
  obtain up seq k action where p: "p = (up, seq, k, action)"
    by (metis prod_cases4)
  let ?skip = "0 < cfg_max_instances_adjusted_per_poll (ct_cfg c) \<and>
      uint (cfg_max_instances_adjusted_per_poll (ct_cfg c)) \<le> int n"
  have weaken: "plan_effect env t cfg host (p # plan) m m'" if "plan_effect env t cfg host plan m m'" for cfg host m m'
    using that by (fastforce simp: plan_effect_def)
  show ?case
  proof (cases ?skip)
    case True
    then have "apply_plan env t plan n c = (r, c')"
      using Cons.prems(1) by (simp add: p)
    with Cons weaken show ?thesis
      by simp
  next
    case False
    obtain r1 c1 where step: "apply_engine_decision env t k action c = (r1, c1)"
      by (cases "apply_engine_decision env t k action c")
    note frame = apply_engine_decision_frame [OF step]
    have first: "hm_get (ct_instances c1) j = hm_get (ct_instances c) j \<or>
        j = k \<and> (\<exists>i i'. hm_get (ct_instances c) k = Some i \<and> hm_get (ct_instances c1) k = Some i' \<and>
          vm_adjusted env t (ct_cfg c) (ct_host_cpu_util c) k action i i')" for j
      using step by (rule apply_engine_decision_cases) (auto simp: hm_get_insert)
    show ?thesis
    proof (cases r1)
      case (Inl e)
      then have "c' = c1"
        using Cons.prems(1) False step by (simp add: p)
      with first frame show ?thesis
        by (auto simp: plan_effect_def p)
    next
      case (Inr did)
      then have rest: "apply_plan env t plan (if did then Suc n else n) c1 = (r, c')"
        using Cons.prems(1) False step by (simp add: p)
      have IH: "plan_effect env t (ct_cfg c1) (ct_host_cpu_util c1) plan (ct_instances c1) (ct_instances c') \<and>
          ct_cfg c' = ct_cfg c1 \<and> ct_vm_ownership c' = ct_vm_ownership c1 \<and> ct_files c' = ct_files c1"
        using Cons.IH [OF rest] Cons.prems(2) by simp
      have "hm_get (ct_instances c') j = hm_get (ct_instances c) j \<or>
          (\<exists>q\<in>set (p # plan). plan_id q = j \<and> (\<exists>i i'. hm_get (ct_instances c) j = Some i \<and>
            hm_get (ct_instances c') j = Some i' \<and> vm_adjusted env t (ct_cfg c) (ct_host_cpu_util c) j (plan_action q) i i'))" for j
      proof (cases "j = k")
        case True
        then have "hm_get (ct_instances c') j = hm_get (ct_instances c1) j"
          using IH Cons.prems(2) by (force simp: plan_effect_def p)
        with True first [of j] show ?thesis
          by (auto simp: p)
      next
        case False
        then have "hm_get (ct_instances c1) j = hm_get (ct_instances c) j"
          using first by blast
        moreover have "hm_get (ct_instances c') j = hm_get (ct_instances c1) j \<or>
            (\<exists>q\<in>set plan. plan_id q = j \<and> (\<exists>i i'. hm_get (ct_instances c1) j = Some i \<and>
              hm_get (ct_instances c') j = Some i' \<and> vm_adjusted env t (ct_cfg c) (ct_host_cpu_util c) j (plan_action q) i i'))"
          using IH by (simp add: plan_effect_def frame(1,4))
        ultimately show ?thesis
          by auto
      qed
      with IH frame show ?thesis
        by (simp add: plan_effect_def)
    qed
  qed
qed

text \<open>The number of adjusted VMs, and the cap on it.\<close>

lemma apply_plan_count:
  assumes "apply_plan env t plan n c = (Inr n', c')" and "distinct (map plan_id plan)"
  shows "\<exists>S \<subseteq> set (map plan_id plan). n' = n + card S \<and>
    (\<forall>k. k \<notin> S \<longrightarrow> map_option inst_status (hm_get (ct_instances c') k) =
      map_option inst_status (hm_get (ct_instances c) k)) \<and>
    (0 < cfg_max_instances_adjusted_per_poll (ct_cfg c) \<longrightarrow>
      int n \<le> uint (cfg_max_instances_adjusted_per_poll (ct_cfg c)) \<longrightarrow>
      int n' \<le> uint (cfg_max_instances_adjusted_per_poll (ct_cfg c)))"
  using assms
proof (induction plan arbitrary: n c)
  case Nil
  then show ?case
    by auto
next
  case (Cons p plan)
  obtain up seq k action where p: "p = (up, seq, k, action)"
    by (metis prod_cases4)
  let ?cap = "cfg_max_instances_adjusted_per_poll (ct_cfg c)"
  show ?case
  proof (cases "0 < ?cap \<and> uint ?cap \<le> int n")
    case True
    then have "apply_plan env t plan n c = (Inr n', c')"
      using Cons.prems(1) by (simp add: p)
    with Cons.IH [OF this] Cons.prems(2) obtain S where "S \<subseteq> set (map plan_id plan)"
      and "n' = n + card S"
      and "\<forall>j. j \<notin> S \<longrightarrow> map_option inst_status (hm_get (ct_instances c') j) =
        map_option inst_status (hm_get (ct_instances c) j)"
      and "0 < ?cap \<longrightarrow> int n \<le> uint ?cap \<longrightarrow> int n' \<le> uint ?cap"
      by auto
    then show ?thesis
      by (intro exI [of _ S]) (auto simp: p)
  next
    case False
    obtain r1 c1 where step: "apply_engine_decision env t k action c = (r1, c1)"
      by (cases "apply_engine_decision env t k action c")
    with False Cons.prems(1) obtain did where did: "r1 = Inr did"
      by (auto simp: p split: sum.splits)
    then have rest: "apply_plan env t plan (if did then Suc n else n) c1 = (Inr n', c')"
      using Cons.prems(1) False step by (simp add: p)
    have cfg: "ct_cfg c1 = ct_cfg c"
      using apply_engine_decision_frame [OF step] by simp
    obtain S where S: "S \<subseteq> set (map plan_id plan)" "n' = (if did then Suc n else n) + card S"
      "\<forall>j. j \<notin> S \<longrightarrow> map_option inst_status (hm_get (ct_instances c') j) =
        map_option inst_status (hm_get (ct_instances c1) j)"
      "0 < ?cap \<longrightarrow> int (if did then Suc n else n) \<le> uint ?cap \<longrightarrow> int n' \<le> uint ?cap"
      using Cons.IH [OF rest] Cons.prems(2) by (auto simp: cfg)
    have first: "map_option inst_status (hm_get (ct_instances c1) j) =
        map_option inst_status (hm_get (ct_instances c) j)" if "\<not> did \<or> j \<noteq> k" for j
      using step that did by (cases rule: apply_engine_decision_cases) (auto simp: hm_get_insert)
    have k: "k \<notin> S"
      using S(1) Cons.prems(2) by (auto simp: p)
    have fin: "finite S"
      using S(1) finite_subset by blast
    have le: "0 < ?cap \<longrightarrow> int n \<le> uint ?cap \<longrightarrow> int n' \<le> uint ?cap"
    proof (intro impI)
      assume "0 < ?cap" and "int n \<le> uint ?cap"
      with False have "int (if did then Suc n else n) \<le> uint ?cap"
        by auto
      with S(4) \<open>0 < ?cap\<close> show "int n' \<le> uint ?cap"
        by blast
    qed
    show ?thesis
    proof (cases did)
      case True
      with S k fin first le show ?thesis
        by (intro exI [of _ "insert k S"]) (auto simp: p)
    next
      case False
      with S first le show ?thesis
        by (intro exI [of _ S]) (auto simp: p)
    qed
  qed
qed

subsection \<open>The plan\<close>

definition changes_count :: "('c, 'r) vm_instance hash_map \<Rightarrow> string \<Rightarrow> scale_action \<Rightarrow> bool \<Rightarrow> bool" where
  "changes_count insts k action up \<longleftrightarrow>
     (\<exists>i tgt. hm_get insts k = Some i \<and> target action = Some tgt \<and>
        tgt \<noteq> st_thread_count (inst_status i) \<and> up = (st_thread_count (inst_status i) < tgt))"

lemma build_plan_step:
  "build_plan insts n planned (d # ds) =
     (if dec_instance_id d \<in> set planned then []
      else if changes_count insts (dec_instance_id d) (dec_action d) True
      then [(True, n, dec_instance_id d, dec_action d)]
      else if changes_count insts (dec_instance_id d) (dec_action d) False
      then [(False, n, dec_instance_id d, dec_action d)] else []) @
     build_plan insts (Suc n)
       (if dec_instance_id d \<in> set planned then planned else dec_instance_id d # planned) ds"
  by (auto simp: changes_count_def Let_def split: option.split)

lemma changes_count_up: "changes_count insts k a up \<Longrightarrow> \<not> changes_count insts k a (\<not> up)"
  by (auto simp: changes_count_def)

text \<open>The entries without their sequence numbers.\<close>

definition plan_entries ::
  "(bool \<times> nat \<times> string \<times> scale_action) list \<Rightarrow> (bool \<times> string \<times> scale_action) set" where
  "plan_entries plan = (\<lambda>(up, _, k, a). (up, k, a)) ` set plan"

lemma plan_entries_simps [simp]:
  "plan_entries [] = {}"
  "plan_entries ((up, n, k, a) # plan) = insert (up, k, a) (plan_entries plan)"
  "plan_entries (xs @ ys) = plan_entries xs \<union> plan_entries ys"
  by (simp_all add: plan_entries_def image_Un)

lemma build_plan_entries:
  "(up, k, a) \<in> plan_entries (build_plan insts n planned ds) \<longleftrightarrow>
     k \<notin> set planned \<and> map_of (map (\<lambda>d. (dec_instance_id d, dec_action d)) ds) k = Some a \<and>
     changes_count insts k a up"
proof (induction ds arbitrary: n planned up k a)
  case Nil
  then show ?case by simp
next
  case (Cons d ds)
  show ?case
    using changes_count_up [of insts k a up]
    by (cases up; cases "k = dec_instance_id d")
      (auto simp: build_plan_step Cons.IH simp del: build_plan.simps split: if_splits)
qed

lemma build_plan_ids:
  "distinct (map plan_id (build_plan insts n planned ds)) \<and>
   set (map plan_id (build_plan insts n planned ds)) \<inter> set planned = {}"
proof (induction ds arbitrary: n planned)
  case Nil
  then show ?case by simp
next
  case (Cons d ds)
  show ?case
    using Cons.IH [of "Suc n" planned] Cons.IH [of "Suc n" "dec_instance_id d # planned"]
    by (auto simp: build_plan_step simp del: build_plan.simps)
qed

lemma set_sort_plan [simp]: "set (sort_plan plan) = set plan"
  by (simp add: sort_plan_def)

lemma plan_entries_sort_plan [simp]: "plan_entries (sort_plan plan) = plan_entries plan"
  by (simp add: plan_entries_def)

lemma distinct_sort_plan: "distinct (map plan_id (sort_plan plan)) = distinct (map plan_id plan)"
  by (simp add: distinct_map sort_plan_def)

lemma sort_plan_downs_first: "sorted (map fst (sort_plan plan))"
proof -
  have "sorted_wrt (\<lambda>p q. plan_key p \<le> plan_key q) (sort_plan plan)"
    using sorted_sort_key [of plan_key plan] by (simp add: sort_plan_def sorted_wrt_map)
  then have "sorted_wrt (\<lambda>p q. fst p \<le> fst q) (sort_plan plan)"
    by (rule sorted_wrt_mono_rel [rotated]) (auto simp: plan_key_def less_eq_prod_def split: prod.splits)
  then show ?thesis
    by (simp add: sorted_wrt_map)
qed

text \<open>
  The plan is the engine's first word on every VM, shrinking first.  Each VM occurs at most
  once; it occurs exactly when the first decision for it asks for a count other than its current
  one; decisions for unknown VMs are dropped; and all entries that shrink a pool precede all that
  grow one.
\<close>

lemma plan_sound:
  "let plan = sort_plan (build_plan insts n [] decisions)
   in distinct (map plan_id plan) \<and> sorted (map fst plan) \<and>
      (\<forall>up k a. (up, k, a) \<in> plan_entries plan \<longleftrightarrow>
          map_of (map (\<lambda>d. (dec_instance_id d, dec_action d)) decisions) k = Some a \<and>
          changes_count insts k a up)"
  using build_plan_ids [of insts n "[]" decisions] sort_plan_downs_first
  by (simp add: Let_def distinct_sort_plan build_plan_entries)

subsection \<open>The invariant of the controller\<close>

text \<open>
  Every VM is filed under its own identifier, the registry classifies no VM both ways, and the
  status of a VM the registry knows has its classification.
\<close>

definition controller_ok :: "('c, 'r, 'e) controller \<Rightarrow> bool" where
  "controller_ok c \<longleftrightarrow> hm_ok (ct_instances c) \<and> ownership_ok (ct_vm_ownership c) \<and>
     (\<forall>k i. hm_get (ct_instances c) k = Some i \<longrightarrow> inst_id i = k \<and>
        (\<forall>p. classification (ct_vm_ownership c) k = Some p \<longrightarrow>
           st_ownership_classification (inst_status i) = Some p))"

lemma hm_get_map_val:
  "hm_get (map (\<lambda>(k, v). (k, f v)) m) k = map_option f (hm_get m k)"
  by (induction m) (auto simp: hm_get_def)

lemma hm_ok_map_val: "hm_ok (map (\<lambda>(k, v). (k, f v)) m) = hm_ok m"
  by (simp add: hm_ok_def hm_keys_def comp_def split_beta)

lemma tick_host_frame [simp]:
  "ct_instances (tick_host t c) = ct_instances c"
  "ct_cfg (tick_host t c) = ct_cfg c"
  "ct_vm_ownership (tick_host t c) = ct_vm_ownership c"
  "ct_files (tick_host t c) = ct_files c"
  "ct_engine (tick_host t c) = ct_engine c"
  by (simp_all add: tick_host_def Let_def split: option.split)

lemma forget_failed_frame [simp]:
  "ct_cfg (forget_failed env ks c) = ct_cfg c"
  "ct_vm_ownership (forget_failed env ks c) = ct_vm_ownership c"
  "ct_files (forget_failed env ks c) = ct_files c"
  "ct_host_cpu_util (forget_failed env ks c) = ct_host_cpu_util c"
  by (induction ks arbitrary: c) simp_all

lemma forget_failed_get:
  "hm_get (ct_instances (forget_failed env ks c)) k =
     (if k \<in> set ks then None else hm_get (ct_instances c) k)"
  by (induction ks arbitrary: c) (auto simp: hm_get_remove)

lemma forget_failed_ok: "hm_ok (ct_instances c) \<Longrightarrow> hm_ok (ct_instances (forget_failed env ks c))"
  by (induction ks arbitrary: c) simp_all

lemma refresh_instance_keeps:
  "inst_id (snd (refresh_instance env t b i)) = inst_id i"
  "st_ownership_classification (inst_status i) = Some m \<Longrightarrow>
     st_ownership_classification (inst_status (snd (refresh_instance env t b i))) = Some m"
  by (auto simp: refresh_instance_def refresh_state_def refresh_fields
      split: prod.splits sum.splits)

lemma tick_refresh_frame [simp]:
  "ct_cfg (tick_refresh env t c) = ct_cfg c"
  "ct_vm_ownership (tick_refresh env t c) = ct_vm_ownership c"
  "ct_files (tick_refresh env t c) = ct_files c"
  "ct_host_cpu_util (tick_refresh env t c) = ct_host_cpu_util c"
  by (simp_all add: tick_refresh_def Let_def)

text \<open>What the refresh phase leaves: the refreshed record of every VM that answered.\<close>

lemma tick_refresh_get:
  assumes "controller_ok c"
  shows "hm_get (ct_instances (tick_refresh env t c)) k =
    (case hm_get (ct_instances c) k of
       None \<Rightarrow> None
     | Some i \<Rightarrow>
         (case refresh_instance env t (cfg_refresh_cgroup_on_each_read (ct_cfg c)) i of
            (refreshed, i') \<Rightarrow> if refreshed then Some i' else None))"
proof -
  let ?f = "refresh_instance env t (cfg_refresh_cgroup_on_each_read (ct_cfg c))"
  let ?m = "ct_instances c"
  define failed where "failed = map (\<lambda>(_, _, i). inst_id i)
    (filter (\<lambda>(_, refreshed, _). \<not> refreshed) (map (\<lambda>(k, i). (k, ?f i)) ?m))"
  have m: "map (\<lambda>(k, _, i). (k, i)) (map (\<lambda>(k, i). (k, ?f i)) ?m) = map (\<lambda>(k, i). (k, snd (?f i))) ?m"
    by (simp add: split_beta)
  have "k \<in> set failed \<longleftrightarrow> (\<exists>i. hm_get ?m k = Some i \<and> \<not> fst (?f i))"
  proof
    assume "k \<in> set failed"
    then obtain k' i where "(k', i) \<in> set ?m" "\<not> fst (?f i)" "k = inst_id i"
      by (auto simp: failed_def split_beta refresh_instance_keeps)
    moreover from this have "hm_get ?m k' = Some i"
      using assms by (simp add: hm_get_mem controller_ok_def)
    ultimately show "\<exists>i. hm_get ?m k = Some i \<and> \<not> fst (?f i)"
      using assms by (auto simp: controller_ok_def)
  next
    assume "\<exists>i. hm_get ?m k = Some i \<and> \<not> fst (?f i)"
    then obtain i where i: "hm_get ?m k = Some i" "\<not> fst (?f i)"
      by blast
    then have "(k, i) \<in> set ?m" and "inst_id i = k"
      using assms by (simp_all add: hm_get_mem controller_ok_def)
    with i show "k \<in> set failed"
      by (force simp: failed_def split_beta refresh_instance_keeps)
  qed
  then show ?thesis
    by (auto simp: tick_refresh_def Let_def forget_failed_get m hm_get_map_val failed_def [symmetric]
        simp del: map_map split: option.split prod.split)
qed

lemma tick_refresh_ok:
  assumes "controller_ok c"
  shows "controller_ok (tick_refresh env t c)"
proof -
  have "hm_ok (ct_instances (tick_refresh env t c))"
    using assms
    by (auto simp: tick_refresh_def Let_def controller_ok_def comp_def split_beta
        intro!: forget_failed_ok) (simp add: hm_ok_def hm_keys_def comp_def split_beta)
  moreover have "inst_id i' = k \<and> (\<forall>p. classification (ct_vm_ownership c) k = Some p \<longrightarrow>
      st_ownership_classification (inst_status i') = Some p)"
    if get: "hm_get (ct_instances (tick_refresh env t c)) k = Some i'" for k i'
  proof -
    obtain i where i: "hm_get (ct_instances c) k = Some i" and
      i': "i' = snd (refresh_instance env t (cfg_refresh_cgroup_on_each_read (ct_cfg c)) i)"
      using get tick_refresh_get [OF assms, of env t k]
      by (cases "hm_get (ct_instances c) k") (auto split: if_splits prod.splits)
    from i assms have "inst_id i = k \<and> (\<forall>p. classification (ct_vm_ownership c) k = Some p \<longrightarrow>
        st_ownership_classification (inst_status i) = Some p)"
      by (simp add: controller_ok_def)
    then show ?thesis
      using refresh_instance_keeps i' by metis
  qed
  ultimately show ?thesis
    using assms by (simp add: controller_ok_def)
qed

text \<open>Recording the first classifications never fails under the invariant.\<close>

definition first_class :: "('c, 'r) vm_instance list \<Rightarrow> string \<Rightarrow> bool option" where
  "first_class insts vm =
     Option.bind (map_of (map (\<lambda>i. (inst_id i, st_ownership_classification (inst_status i))) insts) vm)
       (\<lambda>p. p)"

lemma first_class_Nil [simp]: "first_class [] vm = None"
  by (simp add: first_class_def)

lemma first_class_Cons:
  "first_class (i # insts) vm =
     (if vm = inst_id i then st_ownership_classification (inst_status i) else first_class insts vm)"
  by (simp add: first_class_def)

lemma first_class_absent: "vm \<notin> inst_id ` set insts \<Longrightarrow> first_class insts vm = None"
  by (induction insts) (auto simp: first_class_Cons)

lemma record_classifications_ok:
  assumes "\<And>i p. i \<in> set insts \<Longrightarrow> classification r (inst_id i) = Some p \<Longrightarrow>
      st_ownership_classification (inst_status i) = Some p"
    and "distinct (map inst_id insts)"
  shows "\<exists>changed' r'. record_classifications insts changed r = (Inr changed', r') \<and>
    (changed' \<longleftrightarrow> changed \<or> r' \<noteq> r) \<and> (ownership_ok r \<longrightarrow> ownership_ok r') \<and>
    (\<forall>vm. classification r' vm =
      (case classification r vm of Some p \<Rightarrow> Some p | None \<Rightarrow> first_class insts vm))"
  using assms
proof (induction insts arbitrary: changed r)
  case Nil
  show ?case
    by (auto split: option.split)
next
  case (Cons i insts)
  have absent: "first_class insts (inst_id i) = None"
    using Cons.prems(2) by (simp add: first_class_absent)
  show ?case
  proof (cases "st_ownership_classification (inst_status i) = None \<or> classification r (inst_id i) \<noteq> None")
    case True
    have skip: "record_classifications (i # insts) changed r = record_classifications insts changed r"
      using True Cons.prems(1) [of i] by (auto split: option.split)
    have same: "(case classification r vm of Some p \<Rightarrow> Some p | None \<Rightarrow> first_class (i # insts) vm) =
        (case classification r vm of Some p \<Rightarrow> Some p | None \<Rightarrow> first_class insts vm)" for vm
      using True absent by (auto simp: first_class_Cons split: option.split)
    show ?thesis
      unfolding skip same using Cons.prems by (intro Cons.IH) auto
  next
    case False
    then obtain m where m: "st_ownership_classification (inst_status i) = Some m"
        and none: "classification r (inst_id i) = None"
      by auto
    obtain r1 where r1: "record_vm r (inst_id i) m = Inr r1"
      using record_vm_new [OF none] by blast
    note new = record_vm_Inr [OF r1]
    have "record_classifications (i # insts) changed r = record_classifications insts True r1"
      using m none r1 by simp
    moreover have "\<exists>changed' r'. record_classifications insts True r1 = (Inr changed', r') \<and>
        (changed' \<longleftrightarrow> True \<or> r' \<noteq> r1) \<and> (ownership_ok r1 \<longrightarrow> ownership_ok r') \<and>
        (\<forall>vm. classification r' vm =
          (case classification r1 vm of Some p \<Rightarrow> Some p | None \<Rightarrow> first_class insts vm))"
    proof (rule Cons.IH)
      show "st_ownership_classification (inst_status j) = Some p"
        if "j \<in> set insts" and "classification r1 (inst_id j) = Some p" for j p
      proof -
        have "inst_id j \<noteq> inst_id i"
          using Cons.prems(2) that(1) by (auto simp: image_iff)
        with that new(3) Cons.prems(1) [of j p] show ?thesis
          by simp
      qed
      show "distinct (map inst_id insts)"
        using Cons.prems(2) by simp
    qed
    ultimately obtain r' where r': "record_classifications (i # insts) changed r = (Inr True, r')"
        "ownership_ok r1 \<longrightarrow> ownership_ok r'"
        "\<And>vm. classification r' vm =
          (case classification r1 vm of Some p \<Rightarrow> Some p | None \<Rightarrow> first_class insts vm)"
      by auto
    have cls: "classification r' vm =
        (case classification r vm of Some p \<Rightarrow> Some p | None \<Rightarrow> first_class (i # insts) vm)" for vm
      using r'(3) [of vm] new(2) new(3) [of vm] none m
      by (cases "vm = inst_id i"; cases "classification r vm") (simp_all add: first_class_Cons)
    then have "classification r' (inst_id i) \<noteq> classification r (inst_id i)"
      using none m by (simp add: first_class_Cons)
    then have "r' \<noteq> r"
      by auto
    with r' cls new(4) show ?thesis
      by auto
  qed
qed

lemma first_class_inventory:
  assumes "controller_ok c"
  shows "first_class (map snd (ct_instances c)) k =
    Option.bind (hm_get (ct_instances c) k) (\<lambda>i. st_ownership_classification (inst_status i))"
proof -
  have "inst_id i = k" if "(k, i) \<in> set (ct_instances c)" for k i
    using that assms by (simp add: hm_get_mem controller_ok_def)
  then have "map (\<lambda>i. (inst_id i, st_ownership_classification (inst_status i))) (map snd (ct_instances c)) =
      map (\<lambda>(k, i). (k, st_ownership_classification (inst_status i))) (ct_instances c)"
    by auto
  then have "first_class (map snd (ct_instances c)) k =
      Option.bind (hm_get (map (\<lambda>(k, i). (k, st_ownership_classification (inst_status i))) (ct_instances c)) k)
        (\<lambda>p. p)"
    by (simp only: first_class_def hm_get_def)
  then show ?thesis
    by (simp add: hm_get_map_val) (cases "hm_get (ct_instances c) k"; simp)
qed

lemma distinct_ids:
  assumes "controller_ok c"
  shows "distinct (map inst_id (map snd (ct_instances c)))"
proof -
  have "inst_id i = k" if "(k, i) \<in> set (ct_instances c)" for k i
    using that assms by (simp add: hm_get_mem controller_ok_def)
  then have "map inst_id (map snd (ct_instances c)) = map fst (ct_instances c)"
    by auto
  then show ?thesis
    using assms by (simp only: controller_ok_def hm_ok_def hm_keys_def)
qed

lemma persist_classifications:
  assumes ok: "controller_ok c" and "persist_new_classifications env faults c = (res, c')"
  shows "ct_instances c' = ct_instances c" and "ct_cfg c' = ct_cfg c"
    and "ct_engine c' = ct_engine c" and "ct_host_cpu_util c' = ct_host_cpu_util c"
    and "controller_ok c'"
    and "classification (ct_vm_ownership c') vm =
      (case classification (ct_vm_ownership c) vm of
         Some p \<Rightarrow> Some p
       | None \<Rightarrow> Option.bind (hm_get (ct_instances c) vm) (\<lambda>i. st_ownership_classification (inst_status i)))"
    and "res = Inl e \<Longrightarrow> \<exists>s. e = CtlState s"
    and "res = Inr () \<Longrightarrow> ct_files c' = ct_files c \<and> ct_vm_ownership c' = ct_vm_ownership c \<or>
      (\<exists>trace. store_save (ce_encode env) (ce_process_id env) faults (cfg_vm_state_path (ct_cfg c))
        (ct_vm_ownership c') (ct_files c) = (Inr (), trace) \<and> ct_files c' = last trace)"
    and "res = Inl e \<Longrightarrow> \<exists>s trace. e = CtlState s \<and> ct_vm_ownership c' \<noteq> ct_vm_ownership c \<and>
      store_save (ce_encode env) (ce_process_id env) faults (cfg_vm_state_path (ct_cfg c))
        (ct_vm_ownership c') (ct_files c) = (Inl s, trace)"
proof -
  have known: "st_ownership_classification (inst_status i) = Some p"
    if "i \<in> set (map snd (ct_instances c))" and "classification (ct_vm_ownership c) (inst_id i) = Some p" for i p
    using that ok hm_get_mem by (fastforce simp: controller_ok_def)
  from record_classifications_ok [where r = "ct_vm_ownership c" and changed = False,
      OF known distinct_ids [OF ok]]
  obtain changed r where rc: "record_classifications (map snd (ct_instances c)) False (ct_vm_ownership c) =
        (Inr changed, r)"
      "changed \<longleftrightarrow> r \<noteq> ct_vm_ownership c" "ownership_ok r"
      "\<And>vm. classification r vm = (case classification (ct_vm_ownership c) vm of
         Some p \<Rightarrow> Some p | None \<Rightarrow> first_class (map snd (ct_instances c)) vm)"
    using ok by (auto simp: controller_ok_def)
  have c': "\<exists>files. c' = c\<lparr>ct_vm_ownership := r, ct_files := files\<rparr> \<and>
      (if changed then \<exists>res' trace. store_save (ce_encode env) (ce_process_id env) faults
          (cfg_vm_state_path (ct_cfg c)) r (ct_files c) = (res', trace) \<and> files = last trace \<and>
          res = result_map_err CtlState res'
       else files = ct_files c \<and> res = Inr ())"
    using assms(2) rc(1)
    by (auto simp: persist_new_classifications_def Let_def split: if_splits prod.splits)
  then have own: "ct_vm_ownership c' = r"
    by auto
  show insts: "ct_instances c' = ct_instances c" and "ct_cfg c' = ct_cfg c"
    and "ct_engine c' = ct_engine c" and "ct_host_cpu_util c' = ct_host_cpu_util c"
    using c' by auto
  show cls: "classification (ct_vm_ownership c') vm =
      (case classification (ct_vm_ownership c) vm of
         Some p \<Rightarrow> Some p
       | None \<Rightarrow> Option.bind (hm_get (ct_instances c) vm) (\<lambda>i. st_ownership_classification (inst_status i)))" for vm
    unfolding own rc(4) first_class_inventory [OF ok] by (rule refl)
  show "controller_ok c'"
    unfolding controller_ok_def
  proof (intro conjI allI impI)
    show "hm_ok (ct_instances c')" "ownership_ok (ct_vm_ownership c')"
      using ok by (simp_all add: insts own rc(3) controller_ok_def)
    fix k i p
    assume i: "hm_get (ct_instances c') k = Some i"
    show "inst_id i = k"
      using ok i by (simp add: insts controller_ok_def)
    assume "classification (ct_vm_ownership c') k = Some p"
    with i show "st_ownership_classification (inst_status i) = Some p"
      using ok by (auto simp: cls insts controller_ok_def split: option.splits)
  qed
  show failed: "res = Inl e \<Longrightarrow> \<exists>s trace. e = CtlState s \<and> ct_vm_ownership c' \<noteq> ct_vm_ownership c \<and>
      store_save (ce_encode env) (ce_process_id env) faults (cfg_vm_state_path (ct_cfg c))
        (ct_vm_ownership c') (ct_files c) = (Inl s, trace)"
  proof (cases changed)
    case True
    assume "res = Inl e"
    from c' True obtain files res' trace where "c' = c\<lparr>ct_vm_ownership := r, ct_files := files\<rparr>"
        and "store_save (ce_encode env) (ce_process_id env) faults
          (cfg_vm_state_path (ct_cfg c)) r (ct_files c) = (res', trace)"
        and "res = result_map_err CtlState res'"
      by auto
    moreover from this \<open>res = Inl e\<close> obtain s where "res' = Inl s" "e = CtlState s"
      by (cases res') auto
    ultimately show ?thesis
      using True rc(2) by auto
  next
    case False
    assume "res = Inl e"
    with c' False show ?thesis
      by auto
  qed
  then show "res = Inl e \<Longrightarrow> \<exists>s. e = CtlState s"
    by blast
  show "res = Inr () \<Longrightarrow> ct_files c' = ct_files c \<and> ct_vm_ownership c' = ct_vm_ownership c \<or>
      (\<exists>trace. store_save (ce_encode env) (ce_process_id env) faults (cfg_vm_state_path (ct_cfg c))
        (ct_vm_ownership c') (ct_files c) = (Inr (), trace) \<and> ct_files c' = last trace)"
  proof (cases changed)
    case True
    assume "res = Inr ()"
    from c' True obtain files res' trace where "c' = c\<lparr>ct_vm_ownership := r, ct_files := files\<rparr>"
        and "store_save (ce_encode env) (ce_process_id env) faults
          (cfg_vm_state_path (ct_cfg c)) r (ct_files c) = (res', trace)"
        and "files = last trace" and "res = result_map_err CtlState res'"
      by auto
    moreover from this \<open>res = Inr ()\<close> have "res' = Inr ()"
      by (cases res') auto
    ultimately show ?thesis
      by auto
  next
    case False
    with c' rc(2) show ?thesis
      by auto
  qed
qed

text \<open>The phases of a tick.\<close>

definition refreshed ::
  "('c, 'r, 'e) controller_env \<Rightarrow> tick_env \<Rightarrow> ('c, 'r, 'e) controller \<Rightarrow> ('c, 'r, 'e) controller" where
  "refreshed env t c = tick_refresh env t (tick_host t c)"

lemma refreshed_ok: "controller_ok c \<Longrightarrow> controller_ok (refreshed env t c)"
  unfolding refreshed_def by (rule tick_refresh_ok) (simp add: controller_ok_def)

lemma tick_phases:
  assumes "tick env t c = (r, c')"
  obtains e where "r = Inl e" and "persist_new_classifications env (tk_save t) (refreshed env t c) = (Inl e, c')"
    | c2 ds e3 plan r' where
        "persist_new_classifications env (tk_save t) (refreshed env t c) = (Inr (), c2)"
        "eng_evaluate_fleet (ce_engine env) (map (\<lambda>(_, i). (inst_id i, inst_status i)) (ct_instances c2))
           (tick_context_of t (tick_host t c)) (ct_engine c2) = (ds, e3)"
        "plan = sort_plan (build_plan (ct_instances c2) 0 [] ds)"
        "apply_plan env t plan 0 (c2\<lparr>ct_engine := e3\<rparr>) = (r', c')"
        "r = result_map (\<lambda>_. emit_status_lines env c') r'"
proof -
  obtain r2 c2 where p: "persist_new_classifications env (tk_save t) (refreshed env t c) = (r2, c2)"
    by (cases "persist_new_classifications env (tk_save t) (refreshed env t c)")
  show ?thesis
  proof (cases r2)
    case (Inl e)
    with p assms show ?thesis
      by (intro that(1) [of e]) (simp_all add: tick_def Let_def refreshed_def)
  next
    case (Inr u)
    obtain ds e3 where ev: "eng_evaluate_fleet (ce_engine env)
        (map (\<lambda>(_, i). (inst_id i, inst_status i)) (ct_instances c2))
        (tick_context_of t (tick_host t c)) (ct_engine c2) = (ds, e3)"
      by (cases "eng_evaluate_fleet (ce_engine env)
        (map (\<lambda>(_, i). (inst_id i, inst_status i)) (ct_instances c2))
        (tick_context_of t (tick_host t c)) (ct_engine c2)")
    obtain r' c4 where ap: "apply_plan env t (sort_plan (build_plan (ct_instances c2) 0 [] ds)) 0
        (c2\<lparr>ct_engine := e3\<rparr>) = (r', c4)"
      by (cases "apply_plan env t (sort_plan (build_plan (ct_instances c2) 0 [] ds)) 0 (c2\<lparr>ct_engine := e3\<rparr>)")
    have "tick env t c = (case r' of Inl e \<Rightarrow> (Inl e, c4) | Inr _ \<Rightarrow> (Inr (emit_status_lines env c4), c4))"
      using p Inr ev ap
      by (simp add: tick_def Let_def refreshed_def tick_plan_def split: sum.split)
    then have "r = result_map (\<lambda>_. emit_status_lines env c4) r'" and "c' = c4"
      using assms by (cases r'; simp)+
    with p Inr ev ap show ?thesis
      by (intro that(2)) auto
  qed
qed

lemma plan_effect_get:
  assumes "plan_effect env t cfg host plan m m'" and "hm_get m' k = Some i'"
  shows "\<exists>i. hm_get m k = Some i \<and> (i' = i \<or> (\<exists>action. vm_adjusted env t cfg host k action i i'))"
proof -
  have "hm_get m' k = hm_get m k \<or> (\<exists>action i i'. hm_get m k = Some i \<and> hm_get m' k = Some i' \<and>
      vm_adjusted env t cfg host k action i i')"
    using assms(1) [unfolded plan_effect_def, rule_format, of k] by blast
  with assms(2) show ?thesis
    by (metis option.inject)
qed

lemma vm_adjusted_keeps:
  assumes "vm_adjusted env t cfg host k action i i'"
  shows "inst_id i' = inst_id i"
    and "st_ownership_classification (inst_status i') = st_ownership_classification (inst_status i)"
proof -
  have "\<exists>client status. i' = i\<lparr>inst_client := client, inst_status := status\<rparr> \<and>
      st_ownership_classification status = st_ownership_classification (inst_status i)"
  proof (cases "cfg_dry_run cfg")
    case True
    with assms obtain until where
        i': "i' = i\<lparr>inst_status := (inst_status i)\<lparr>st_cooldown_until := Some until\<rparr>\<rparr>"
      by (auto simp: vm_adjusted_def)
    then show ?thesis
      by (intro exI [of _ "inst_client i"] exI [of _ "inst_status i'"]) simp
  next
    case False
    with assms obtain tgt client cooldown and r :: "backend_client_error + unit" where
        i': "i' = i\<lparr>inst_client := client, inst_status :=
             (if r = Inr () then (inst_status i)\<lparr>st_thread_count := tgt, st_cooldown_until := cooldown\<rparr>
              else inst_status i)\<rparr>"
      by (simp only: vm_adjusted_def if_False) blast
    then show ?thesis
      by (intro exI [of _ client] exI [of _ "inst_status i'"]) simp
  qed
  then show "inst_id i' = inst_id i"
    and "st_ownership_classification (inst_status i') = st_ownership_classification (inst_status i)"
    by auto
qed

lemma plan_effect_none:
  assumes "plan_effect env t cfg host plan m m'"
  shows "hm_get m k = None \<longleftrightarrow> hm_get m' k = None"
  using assms [unfolded plan_effect_def, rule_format, of k] by auto

lemma hm_ok_apply_plan:
  "hm_ok (ct_instances c) \<Longrightarrow> apply_plan env t plan n c = (r, c') \<Longrightarrow> hm_ok (ct_instances c')"
proof (induction plan arbitrary: n c)
  case Nil
  then show ?case by simp
next
  case (Cons p plan)
  obtain up seq k action where p: "p = (up, seq, k, action)"
    by (metis prod_cases4)
  obtain r1 c1 where step: "apply_engine_decision env t k action c = (r1, c1)"
    by (cases "apply_engine_decision env t k action c")
  then have "hm_ok (ct_instances c1)"
    by (rule apply_engine_decision_cases) (use Cons.prems(1) in simp_all)
  with Cons step show ?case
    by (auto simp: p Let_def split: if_splits sum.splits)
qed

text \<open>What a whole tick does to the inventory, however it ends.\<close>

lemma tick_effect:
  assumes ok: "controller_ok c" and "tick env t c = (r, c')"
  shows "controller_ok c'"
    and "ct_cfg c' = ct_cfg c"
    and "hm_get (ct_instances c') k = Some i' \<Longrightarrow>
      \<exists>i. hm_get (ct_instances (refreshed env t c)) k = Some i \<and>
        (i' = i \<or> (\<exists>action. vm_adjusted env t (ct_cfg c) (ct_host_cpu_util (refreshed env t c)) k action i i'))"
    and "hm_get (ct_instances c') k = None \<longleftrightarrow> hm_get (ct_instances (refreshed env t c)) k = None"
    and "classification (ct_vm_ownership c) vm = Some p \<Longrightarrow> classification (ct_vm_ownership c') vm = Some p"
    and "r = Inr events \<Longrightarrow> hm_get (ct_instances c') k = Some i' \<Longrightarrow>
      st_ownership_classification (inst_status i') = classification (ct_vm_ownership c') k \<or>
      st_ownership_classification (inst_status i') = None"
proof -
  note ok1 = refreshed_ok [OF ok, of env t]
  have cfg1: "ct_cfg (refreshed env t c) = ct_cfg c" "ct_vm_ownership (refreshed env t c) = ct_vm_ownership c"
    by (simp_all add: refreshed_def)
  have all: "controller_ok c' \<and> ct_cfg c' = ct_cfg c \<and>
      (\<forall>k i'. hm_get (ct_instances c') k = Some i' \<longrightarrow>
        (\<exists>i. hm_get (ct_instances (refreshed env t c)) k = Some i \<and>
          (i' = i \<or> (\<exists>action. vm_adjusted env t (ct_cfg c) (ct_host_cpu_util (refreshed env t c)) k action i i')))) \<and>
      (\<forall>k. hm_get (ct_instances c') k = None \<longleftrightarrow> hm_get (ct_instances (refreshed env t c)) k = None) \<and>
      (\<forall>vm p. classification (ct_vm_ownership c) vm = Some p \<longrightarrow>
        classification (ct_vm_ownership c') vm = Some p) \<and>
      (\<forall>events k i'. r = Inr events \<longrightarrow> hm_get (ct_instances c') k = Some i' \<longrightarrow>
        st_ownership_classification (inst_status i') = classification (ct_vm_ownership c') k \<or>
        st_ownership_classification (inst_status i') = None)"
    using assms(2)
  proof (cases rule: tick_phases)
    case (1 e)
    note p = persist_classifications [OF ok1 1(2)]
    show ?thesis
      using p(1,2,5,6) 1(1) by (simp add: cfg1)
  next
    case (2 c2 ds e3 plan r')
    note p = persist_classifications [OF ok1 2(1)]
    have dist: "distinct (map plan_id plan)"
      using build_plan_ids [of "ct_instances c2" 0 "[]" ds] by (simp add: 2(3) distinct_sort_plan)
    have eff: "plan_effect env t (ct_cfg c) (ct_host_cpu_util (refreshed env t c)) plan (ct_instances (refreshed env t c)) (ct_instances c')"
      "ct_cfg c' = ct_cfg c" "ct_vm_ownership c' = ct_vm_ownership c2"
      using apply_plan_effect [OF 2(4) dist] by (simp_all add: p(1,2,4) cfg1)
    have get: "\<exists>i. hm_get (ct_instances (refreshed env t c)) k = Some i \<and>
        (i' = i \<or> (\<exists>action. vm_adjusted env t (ct_cfg c) (ct_host_cpu_util (refreshed env t c)) k action i i'))"
      if "hm_get (ct_instances c') k = Some i'" for k i'
      using plan_effect_get [OF eff(1) that] .
    have keeps: "\<exists>i. hm_get (ct_instances c2) k = Some i \<and> inst_id i' = inst_id i \<and>
        st_ownership_classification (inst_status i') = st_ownership_classification (inst_status i)"
      if "hm_get (ct_instances c') k = Some i'" for k i'
      using get [OF that] vm_adjusted_keeps p(1) by metis
    have "hm_ok (ct_instances c')"
      using hm_ok_apply_plan [OF _ 2(4)] p(5) by (simp add: controller_ok_def)
    moreover have "inst_id i' = k \<and> (\<forall>q. classification (ct_vm_ownership c') k = Some q \<longrightarrow>
        st_ownership_classification (inst_status i') = Some q)"
      if "hm_get (ct_instances c') k = Some i'" for k i'
      using keeps [OF that] p(5) eff(3) by (auto simp: controller_ok_def)
    ultimately have "controller_ok c'"
      using p(5) eff(3) by (simp add: controller_ok_def)
    moreover have "classification (ct_vm_ownership c') vm = Some q"
      if "classification (ct_vm_ownership c) vm = Some q" for vm q
      using that p(6) [of vm] by (simp add: eff(3) cfg1)
    moreover have "st_ownership_classification (inst_status i') = classification (ct_vm_ownership c') k \<or>
        st_ownership_classification (inst_status i') = None"
      if i': "hm_get (ct_instances c') k = Some i'" for k i'
    proof (cases "st_ownership_classification (inst_status i')")
      case (Some m)
      obtain i where i: "hm_get (ct_instances c2) k = Some i"
          "st_ownership_classification (inst_status i') = st_ownership_classification (inst_status i)"
        using keeps [OF i'] by blast
      have "classification (ct_vm_ownership c2) k = Some m"
      proof (cases "classification (ct_vm_ownership (refreshed env t c)) k")
        case None
        with p(6) [of k] i Some show ?thesis
          by (simp add: p(1) [symmetric])
      next
        case q: (Some q)
        then have "classification (ct_vm_ownership c2) k = Some q"
          using p(6) [of k] by simp
        moreover from this have "st_ownership_classification (inst_status i) = Some q"
          using p(5) i(1) by (simp add: controller_ok_def)
        ultimately show ?thesis
          using i(2) Some by simp
      qed
      with Some eff(3) show ?thesis
        by simp
    qed simp
    ultimately show ?thesis
      using get eff(2) plan_effect_none [OF eff(1)] by auto
  qed
  show "controller_ok c'"
    by (rule all [THEN conjunct1])
  show "ct_cfg c' = ct_cfg c"
    by (rule all [THEN conjunct2, THEN conjunct1])
  show "hm_get (ct_instances c') k = Some i' \<Longrightarrow>
      \<exists>i. hm_get (ct_instances (refreshed env t c)) k = Some i \<and>
        (i' = i \<or> (\<exists>action. vm_adjusted env t (ct_cfg c) (ct_host_cpu_util (refreshed env t c)) k action i i'))"
    by (rule all [THEN conjunct2, THEN conjunct2, THEN conjunct1, rule_format])
  show "hm_get (ct_instances c') k = None \<longleftrightarrow> hm_get (ct_instances (refreshed env t c)) k = None"
    by (rule all [THEN conjunct2, THEN conjunct2, THEN conjunct2, THEN conjunct1, rule_format])
  show "classification (ct_vm_ownership c) vm = Some p \<Longrightarrow> classification (ct_vm_ownership c') vm = Some p"
    by (rule all [THEN conjunct2, THEN conjunct2, THEN conjunct2, THEN conjunct2, THEN conjunct1, rule_format])
  show "r = Inr events \<Longrightarrow> hm_get (ct_instances c') k = Some i' \<Longrightarrow>
      st_ownership_classification (inst_status i') = classification (ct_vm_ownership c') k \<or>
      st_ownership_classification (inst_status i') = None"
    by (rule all [THEN conjunct2, THEN conjunct2, THEN conjunct2, THEN conjunct2, THEN conjunct2, rule_format])
qed

subsection \<open>Reconciliation\<close>

definition classify :: "vm_ownership \<Rightarrow> ('c, 'r) vm_instance \<Rightarrow> ('c, 'r) vm_instance" where
  "classify r i =
     i\<lparr>inst_status := (inst_status i)\<lparr>st_ownership_classification := classification r (inst_id i)\<rparr>\<rparr>"

lemma classify_simps [simp]:
  "inst_id (classify r i) = inst_id i"
  "st_ownership_classification (inst_status (classify r i)) = classification r (inst_id i)"
  by (simp_all add: classify_def)

lemma sync_add_spec:
  assumes "sync_add env insts c = (added, cls, c')"
  shows "ct_cfg c' = ct_cfg c \<and> ct_vm_ownership c' = ct_vm_ownership c \<and> ct_files c' = ct_files c \<and>
    (hm_ok (ct_instances c) \<longrightarrow> hm_ok (ct_instances c')) \<and>
    (\<forall>k. hm_get (ct_instances c') k =
      (case hm_get (ct_instances c) k of
         Some i \<Rightarrow> Some i
       | None \<Rightarrow> map_option (classify (ct_vm_ownership c)) (map_of (map (\<lambda>i. (inst_id i, i)) insts) k))) \<and>
    added = card (inst_id ` set insts - {k. hm_get (ct_instances c) k \<noteq> None})"
  using assms
proof (induction insts arbitrary: c c' added cls)
  case Nil
  then show ?case
    by (auto split: option.split)
next
  case (Cons i insts)
  let ?known = "{k. hm_get (ct_instances c) k \<noteq> None}"
  show ?case
  proof (cases "hm_get (ct_instances c) (inst_id i) = None")
    case False
    obtain n cl c1 where rest: "sync_add env insts c = (n, cl, c1)"
      by (metis prod_cases3)
    with Cons.prems False have "added = n" "c' = c1"
      by auto
    moreover have "inst_id ` set (i # insts) - ?known = inst_id ` set insts - ?known"
      using False by auto
    ultimately show ?thesis
      using Cons.IH [OF rest] False by (auto split: option.splits)
  next
    case True
    define c1 where "c1 = set_instance (inst_id i) (classify (ct_vm_ownership c) i)
      (set_engine (eng_on_instance_added (ce_engine env) (inst_id i)) c)"
    obtain n cl c2 where rest: "sync_add env insts c1 = (n, cl, c2)"
      by (metis prod_cases3)
    have res: "added = Suc n" "c' = c2"
      using Cons.prems True rest by (auto simp: c1_def classify_def Let_def)
    have known1: "{k. hm_get (ct_instances c1) k \<noteq> None} = insert (inst_id i) ?known"
      by (auto simp: c1_def hm_get_insert)
    have "inst_id ` set (i # insts) - ?known =
        insert (inst_id i) (inst_id ` set insts - insert (inst_id i) ?known)"
      using True by auto
    then have card: "card (inst_id ` set (i # insts) - ?known) =
        Suc (card (inst_id ` set insts - insert (inst_id i) ?known))"
      by simp
    note IH = Cons.IH [OF rest]
    have "hm_get (ct_instances c2) k =
        (case hm_get (ct_instances c) k of
           Some i \<Rightarrow> Some i
         | None \<Rightarrow> map_option (classify (ct_vm_ownership c)) (map_of (map (\<lambda>i. (inst_id i, i)) (i # insts)) k))" for k
      using IH True by (cases "k = inst_id i") (auto simp: c1_def hm_get_insert split: option.split)
    then show ?thesis
      using IH res card known1 by (simp add: c1_def)
  qed
qed

lemma sync_remove_spec:
  assumes "sync_remove env ks c = (cls, c')"
  shows "ct_cfg c' = ct_cfg c \<and> ct_vm_ownership c' = ct_vm_ownership c \<and> ct_files c' = ct_files c \<and>
    (hm_ok (ct_instances c) \<longrightarrow> hm_ok (ct_instances c')) \<and>
    (\<forall>k. hm_get (ct_instances c') k = (if k \<in> set ks then None else hm_get (ct_instances c) k))"
  using assms
proof (induction ks arbitrary: c c' cls)
  case Nil
  then show ?case by simp
next
  case (Cons k ks)
  show ?case
  proof (cases "hm_get (ct_instances c) k")
    case None
    with Cons show ?thesis
      by (auto simp del: not_None_eq)
  next
    case (Some i)
    define c1 where "c1 = set_engine (eng_on_instance_removed (ce_engine env) k)
      (c\<lparr>ct_instances := hm_remove k (ct_instances c)\<rparr>)"
    obtain cl c2 where rest: "sync_remove env ks c1 = (cl, c2)"
      by (cases "sync_remove env ks c1")
    have "c' = c2"
      using Cons.prems Some rest by (simp add: c1_def Let_def)
    with Cons.IH [OF rest] show ?thesis
      by (auto simp: c1_def hm_get_remove)
  qed
qed

lemma sync_instances_get:
  assumes "sync_instances env discovered c = ((added, removed), cls, c')"
  shows "ct_cfg c' = ct_cfg c \<and> ct_vm_ownership c' = ct_vm_ownership c \<and> ct_files c' = ct_files c \<and>
    (hm_ok (ct_instances c) \<longrightarrow> hm_ok (ct_instances c')) \<and>
    (\<forall>k. hm_get (ct_instances c') k =
      (if k \<notin> inst_id ` set discovered then None
       else case hm_get (ct_instances c) k of
         Some i \<Rightarrow> Some i
       | None \<Rightarrow> map_option (classify (ct_vm_ownership c))
           (map_of (map (\<lambda>i. (inst_id i, i)) discovered) k))) \<and>
    added = card (inst_id ` set discovered - {k. hm_get (ct_instances c) k \<noteq> None}) \<and>
    (hm_ok (ct_instances c) \<longrightarrow>
      removed = card ({k. hm_get (ct_instances c) k \<noteq> None} - inst_id ` set discovered))"
proof -
  obtain n cl1 c1 where add: "sync_add env discovered c = (n, cl1, c1)"
    by (metis prod_cases3)
  define stale where "stale = filter (\<lambda>k. k \<notin> inst_id ` set discovered) (hm_keys (ct_instances c1))"
  obtain cl2 c2 where rem: "sync_remove env stale c1 = (cl2, c2)"
    by (cases "sync_remove env stale c1")
  have res: "added = n" "removed = length stale" "c' = c2"
    using assms add rem by (auto simp: sync_instances_def Let_def stale_def)
  note A = sync_add_spec [OF add] and R = sync_remove_spec [OF rem]
  have absent: "map_of (map (\<lambda>i. (inst_id i, i)) discovered) k = None \<longleftrightarrow> k \<notin> inst_id ` set discovered" for k
    by (auto simp: map_of_eq_None_iff image_image)
  have stale: "set stale = {k. hm_get (ct_instances c) k \<noteq> None} - inst_id ` set discovered"
  proof -
    have "hm_get (ct_instances c1) k \<noteq> None \<longleftrightarrow>
        hm_get (ct_instances c) k \<noteq> None \<or> k \<in> inst_id ` set discovered" for k
      using A absent [of k] by (auto simp del: not_None_eq split: option.split)
    then show ?thesis
      unfolding stale_def set_filter set_hm_keys by blast
  qed
  have "hm_get (ct_instances c') k =
      (if k \<notin> inst_id ` set discovered then None
       else case hm_get (ct_instances c) k of
         Some i \<Rightarrow> Some i
       | None \<Rightarrow> map_option (classify (ct_vm_ownership c))
           (map_of (map (\<lambda>i. (inst_id i, i)) discovered) k))" for k
    using A R absent [of k] by (auto simp: res(3) stale split: option.split)
  moreover have "removed = card ({k. hm_get (ct_instances c) k \<noteq> None} - inst_id ` set discovered)"
    if "hm_ok (ct_instances c)"
  proof -
    have "distinct stale"
      using A that by (simp add: stale_def hm_ok_def)
    then show ?thesis
      using stale res(2) by (metis distinct_card)
  qed
  ultimately show ?thesis
    using A R res by simp
qed

subsection \<open>Requests\<close>

lemma set_instance_ok:
  assumes "controller_ok c" and "hm_get (ct_instances c) k = Some i"
    and "inst_id i' = inst_id i"
    and "st_ownership_classification (inst_status i') = st_ownership_classification (inst_status i)"
  shows "controller_ok (set_instance k i' c)"
  using assms by (auto simp: controller_ok_def hm_get_insert)

lemma handle_set_thread_count_ok:
  assumes "controller_ok c"
  shows "controller_ok (snd (handle_set_thread_count env vm threads sticky c)) \<and>
    ct_cfg (snd (handle_set_thread_count env vm threads sticky c)) = ct_cfg c \<and>
    ct_vm_ownership (snd (handle_set_thread_count env vm threads sticky c)) = ct_vm_ownership c"
  using assms
  by (auto simp: handle_set_thread_count_def intro!: set_instance_ok
      split: option.split prod.split sum.split)

lemma set_all_loop_ok:
  "controller_ok c \<Longrightarrow> set_all_loop env ks threads sticky c = (n, failures, c') \<Longrightarrow>
   controller_ok c' \<and> ct_cfg c' = ct_cfg c \<and> ct_vm_ownership c' = ct_vm_ownership c"
proof (induction ks arbitrary: c n failures c')
  case Nil
  then show ?case by simp
next
  case (Cons k ks)
  obtain r c1 where one: "handle_set_thread_count env k threads sticky c = (r, c1)"
    by (cases "handle_set_thread_count env k threads sticky c")
  have c1: "controller_ok c1 \<and> ct_cfg c1 = ct_cfg c \<and> ct_vm_ownership c1 = ct_vm_ownership c"
    using handle_set_thread_count_ok [OF Cons.prems(1), of env k threads sticky] one by simp
  obtain n' fs' c2 where rest: "set_all_loop env ks threads sticky c1 = (n', fs', c2)"
    by (metis prod_cases3)
  have "c' = c2"
    using Cons.prems(2) one rest by (cases r) (auto simp: Let_def)
  with Cons.IH [OF _ rest] c1 show ?case
    by simp
qed

lemma with_client_ok:
  assumes "controller_ok c"
  shows "controller_ok (snd (with_client vm call c)) \<and> ct_cfg (snd (with_client vm call c)) = ct_cfg c \<and>
    ct_vm_ownership (snd (with_client vm call c)) = ct_vm_ownership c"
  using assms
  by (auto simp: with_client_def intro!: set_instance_ok split: option.split prod.split)

lemma handle_dbus_request_ok:
  assumes "controller_ok c"
  shows "controller_ok (snd (handle_dbus_request env request c)) \<and>
    ct_cfg (snd (handle_dbus_request env request c)) = ct_cfg c \<and>
    ct_vm_ownership (snd (handle_dbus_request env request c)) = ct_vm_ownership c"
proof (cases request)
  case (SetThreadCount vm threads sticky)
  then show ?thesis
    using handle_set_thread_count_ok [OF assms, of env vm threads sticky]
    by (cases "handle_set_thread_count env vm threads sticky c") (simp add: handle_dbus_request_def)
next
  case (SetAllThreadCounts threads sticky)
  obtain n fs c' where "set_all_loop env (sort (hm_keys (ct_instances c))) threads sticky c = (n, fs, c')"
    by (metis prod_cases3)
  then show ?thesis
    using set_all_loop_ok [OF assms] SetAllThreadCounts
    by (auto simp: handle_dbus_request_def handle_set_all_thread_counts_def Let_def)
next
  case (GetIoThreadVqMapping vm device)
  then show ?thesis
    using with_client_ok [OF assms, of vm "op_get_io_thread_vq_mapping (client_of env) device"]
    by (auto simp: handle_dbus_request_def split: prod.split)
next
  case (AddIoThread vm io n)
  define properties where "properties = (if 0 \<le> sint n
      then Some (io_thread_properties_default\<lparr>ip_poll_max_ns := Some n\<rparr>) else None)"
  have "snd (handle_dbus_request env request c) =
      snd (with_client vm (op_add_io_thread (client_of env) io properties) c)"
    unfolding AddIoThread handle_dbus_request_def properties_def dbus_request.case Let_def
    by (simp only: split_beta snd_conv)
  then show ?thesis
    using with_client_ok [OF assms, of vm "op_add_io_thread (client_of env) io properties"] by simp
next
  case (DelIoThread vm io)
  then show ?thesis
    using with_client_ok [OF assms, of vm "op_del_io_thread (client_of env) io"]
    by (auto simp: handle_dbus_request_def split: prod.split)
next
  case (SetIoThreadVqMapping vm device json)
  then show ?thesis
  proof (cases "ce_parse_mapping env json")
    case (Inl e)
    with SetIoThreadVqMapping assms show ?thesis
      by (simp add: handle_dbus_request_def)
  next
    case (Inr mapping)
    with SetIoThreadVqMapping show ?thesis
      using with_client_ok [OF assms, of vm "op_set_io_thread_vq_mapping (client_of env) device mapping"]
      by (auto simp: handle_dbus_request_def split: prod.split)
  qed
qed (use assms in \<open>simp_all add: handle_dbus_request_def\<close>)

text \<open>A manual request for one VM reads and writes that VM only.\<close>

lemma handle_set_thread_count_other:
  "j \<noteq> k \<Longrightarrow> hm_get (ct_instances (snd (handle_set_thread_count env k threads sticky c))) j =
     hm_get (ct_instances c) j"
  by (auto simp: handle_set_thread_count_def hm_get_insert split: option.split prod.split sum.split)

lemma handle_set_thread_count_local:
  assumes "hm_get (ct_instances c) k = hm_get (ct_instances c') k"
  shows "fst (handle_set_thread_count env k threads sticky c) =
      fst (handle_set_thread_count env k threads sticky c')"
    and "hm_get (ct_instances (snd (handle_set_thread_count env k threads sticky c))) k =
      hm_get (ct_instances (snd (handle_set_thread_count env k threads sticky c'))) k"
  using assms
  by (auto simp: handle_set_thread_count_def hm_get_insert split: option.split prod.split sum.split)

lemma set_all_loop_spec:
  assumes "set_all_loop env ks threads sticky c = (n, failures, c')" and "distinct ks"
  shows "n = length (filter (\<lambda>k. fst (handle_set_thread_count env k threads sticky c) = Inr ()) ks) \<and>
    failures = List.map_filter (\<lambda>k. case fst (handle_set_thread_count env k threads sticky c) of
        Inl e \<Rightarrow> Some (k @ '': '' @ show_controller_error e) | Inr _ \<Rightarrow> None) ks \<and>
    (\<forall>j. hm_get (ct_instances c') j =
      (if j \<in> set ks then hm_get (ct_instances (snd (handle_set_thread_count env j threads sticky c))) j
       else hm_get (ct_instances c) j))"
  using assms
proof (induction ks arbitrary: c n failures c')
  case Nil
  then show ?case by (simp add: List.map_filter_simps)
next
  case (Cons k ks)
  obtain r c1 where one: "handle_set_thread_count env k threads sticky c = (r, c1)"
    by (cases "handle_set_thread_count env k threads sticky c")
  obtain n' fs' c2 where rest: "set_all_loop env ks threads sticky c1 = (n', fs', c2)"
    by (metis prod_cases3)
  have other: "hm_get (ct_instances c1) j = hm_get (ct_instances c) j" if "j \<noteq> k" for j
    using handle_set_thread_count_other [OF that, of env threads sticky c] one by simp
  have same: "fst (handle_set_thread_count env j threads sticky c1) =
        fst (handle_set_thread_count env j threads sticky c)"
      "hm_get (ct_instances (snd (handle_set_thread_count env j threads sticky c1))) j =
        hm_get (ct_instances (snd (handle_set_thread_count env j threads sticky c))) j"
    if "j \<in> set ks" for j
  proof -
    have "j \<noteq> k"
      using that Cons.prems(2) by auto
    from handle_set_thread_count_local [OF other [OF this]] show
      "fst (handle_set_thread_count env j threads sticky c1) =
        fst (handle_set_thread_count env j threads sticky c)"
      "hm_get (ct_instances (snd (handle_set_thread_count env j threads sticky c1))) j =
        hm_get (ct_instances (snd (handle_set_thread_count env j threads sticky c))) j"
      by blast+
  qed
  have IH: "n' = length (filter (\<lambda>k. fst (handle_set_thread_count env k threads sticky c) = Inr ()) ks)"
      "fs' = List.map_filter (\<lambda>k. case fst (handle_set_thread_count env k threads sticky c) of
        Inl e \<Rightarrow> Some (k @ '': '' @ show_controller_error e) | Inr _ \<Rightarrow> None) ks"
      "\<And>j. hm_get (ct_instances c2) j =
        (if j \<in> set ks then hm_get (ct_instances (snd (handle_set_thread_count env j threads sticky c))) j
         else hm_get (ct_instances c1) j)"
    using Cons.IH [OF rest] Cons.prems(2) same
    by (auto simp: List.map_filter_def cong: filter_cong)
  have "hm_get (ct_instances c2) j =
      (if j \<in> set (k # ks) then hm_get (ct_instances (snd (handle_set_thread_count env j threads sticky c))) j
       else hm_get (ct_instances c) j)" for j
    using IH(3) [of j] other [of j] one Cons.prems(2) by auto
  then show ?case
    using Cons.prems(1) one rest IH(1,2)
    by (cases r) (auto simp: Let_def List.map_filter_simps)
qed

end
