(* ===== verification/Controller_Safety.thy ===== *)
theory Controller_Safety
  imports Controller
begin

section \<open>What the controller guarantees\<close>

text \<open>
  The properties of \<open>Controller\<close> that hold for every engine and backend, and the one that
  ties a change of a pool to the verdict of the threshold engine.  The witnesses run the model on a
  host with one or two VMs, defined in the first section.
\<close>

subsection \<open>What a tick does to one VM\<close>

text \<open>The engine's decision on a VM in a tick: its first one for it.\<close>

definition decision_of ::
  "('c, 'r, 'e) controller_env \<Rightarrow> tick_env \<Rightarrow> ('c, 'r, 'e) controller \<Rightarrow> string \<Rightarrow> scale_action option"
where
  "decision_of env t c k =
     (let c1 = refreshed env t c
      in map_of (map (\<lambda>d. (dec_instance_id d, dec_action d))
           (fst (eng_evaluate_fleet (ce_engine env)
             (map (\<lambda>(_, i). (inst_id i, inst_status i)) (ct_instances c1))
             (tick_context_of t (tick_host t c)) (ct_engine c1)))) k)"

text \<open>The plan of a tick holds the engine's decisions.\<close>

lemma plan_decision:
  assumes ok: "controller_ok c"
    and p: "persist_new_classifications env faults (refreshed env t c) = (Inr (), c2)"
    and ev: "eng_evaluate_fleet (ce_engine env) (map (\<lambda>(_, i). (inst_id i, inst_status i)) (ct_instances c2))
      (tick_context_of t (tick_host t c)) (ct_engine c2) = (ds, e3)"
    and plan: "plan = sort_plan (build_plan (ct_instances c2) 0 [] ds)"
    and q: "q \<in> set plan" "plan_id q = k"
  shows "decision_of env t c k = Some (plan_action q)"
proof -
  note p = persist_classifications [OF refreshed_ok [OF ok] p]
  obtain up n j a where q': "q = (up, n, j, a)"
    by (metis prod_cases4)
  have "(up, j, a) \<in> plan_entries plan"
    using q by (force simp: q' plan_entries_def)
  then have "map_of (map (\<lambda>d. (dec_instance_id d, dec_action d)) ds) j = Some a"
    by (simp add: plan build_plan_entries)
  with q ev show ?thesis
    by (simp add: q' decision_of_def p(1,3) Let_def)
qed

lemma plan_distinct: "distinct (map plan_id (sort_plan (build_plan m 0 [] ds)))"
  using build_plan_ids [of m 0 "[]" ds] by (simp add: distinct_sort_plan)

lemma tick_decided:
  assumes ok: "controller_ok c" and "tick env t c = (r, c')"
    and "hm_get (ct_instances (refreshed env t c)) k = Some i"
    and "hm_get (ct_instances c') k = Some i'"
  shows "i' = i \<or> (\<exists>action. decision_of env t c k = Some action \<and>
    vm_adjusted env t (ct_cfg c) (ct_host_cpu_util (refreshed env t c)) k action i i')"
  using assms(2)
proof (cases rule: tick_phases)
  case (1 e)
  then show ?thesis
    using persist_classifications(1) [OF refreshed_ok [OF ok] 1(2)] assms(3,4) by simp
next
  case (2 c2 ds e3 plan r')
  note p = persist_classifications [OF refreshed_ok [OF ok] 2(1)]
  have dist: "distinct (map plan_id plan)"
    by (simp add: 2(3) plan_distinct)
  note dec = plan_decision [OF ok 2(1,2,3)]
  have "plan_effect env t (ct_cfg c) (ct_host_cpu_util (refreshed env t c)) plan
      (ct_instances (refreshed env t c)) (ct_instances c')"
    using apply_plan_effect [OF 2(4) dist] by (simp add: p(1,2,4)) (simp add: refreshed_def)
  then have "hm_get (ct_instances c') k = hm_get (ct_instances (refreshed env t c)) k \<or>
      (\<exists>q\<in>set plan. plan_id q = k \<and> vm_adjusted env t (ct_cfg c) (ct_host_cpu_util (refreshed env t c)) k
        (plan_action q) i i')"
    using assms(3,4) unfolding plan_effect_def by (metis option.inject)
  with assms(3,4) dec show ?thesis
    by auto
qed

lemma vm_adjusted_count:
  assumes "vm_adjusted env t cfg host k action i i'"
  obtains tgt where "target action = Some tgt"
    and "guard cfg host (tk_guard_now t k) (inst_status i) action tgt = None"
    and "st_thread_count (inst_status i') \<noteq> st_thread_count (inst_status i) \<Longrightarrow>
      st_thread_count (inst_status i') = tgt"
    and "inst_client i' = (if cfg_dry_run cfg then inst_client i
      else snd (op_set_thread_count (client_of env) tgt (inst_client i)))"
    and "cfg_dry_run cfg \<Longrightarrow> st_thread_count (inst_status i') = st_thread_count (inst_status i)"
    and "st_thread_count (inst_status i') \<noteq> st_thread_count (inst_status i) \<Longrightarrow>
      fst (op_set_thread_count (client_of env) tgt (inst_client i)) = Inr ()"
proof (cases "cfg_dry_run cfg")
  case True
  with assms that show ?thesis
    by (auto simp: vm_adjusted_def)
next
  case False
  with assms that show ?thesis
    by (force simp: vm_adjusted_def split: if_splits)
qed

text \<open>
  C1: no engine and no order of events makes a tick break the operator's limits.  After a tick, a VM
  that was refreshed either keeps its worker count and its client, or the engine asked for a count
  for it and every guard let it pass: it has no manual override, is managed, the count lies within
  the configured minimum and maximum and the VM's vCPUs, a cooldown was over unless the action is a
  revert, and a scale-up to a larger count was asked for below the host CPU ceiling only.  (The
  ceiling blocks nothing else: reverts are exempt from it, as the README says, and so is a scale-down
  whose target lies above the current count, which the \<open>FIXME\<close> at the check admits; the threshold
  engine never asks for one.)  The backend was then called once with exactly that count, and the count
  is believed changed only if it reported success.
\<close>

theorem tick_respects_guards:
  assumes "controller_ok c"
    and "hm_get (ct_instances (refreshed env t c)) k = Some i"
    and "hm_get (ct_instances (snd (tick env t c))) k = Some i'"
  shows "(st_thread_count (inst_status i') = st_thread_count (inst_status i) \<and>
      inst_client i' = inst_client i) \<or>
    (\<exists>action tgt. decision_of env t c k = Some action \<and> target action = Some tgt \<and>
      \<not> st_manual_scaling_sticky (inst_status i) \<and>
      st_ownership_classification (inst_status i) = Some True \<and>
      in_bounds (ct_cfg c) (inst_status i) tgt \<and>
      \<not> (is_up_or_down action \<and> (\<exists>u. st_cooldown_until (inst_status i) = Some u \<and> tk_guard_now t k < u)) \<and>
      \<not> (is_up action \<and> st_thread_count (inst_status i) < tgt \<and>
         f64_lt (Fin 0) (cfg_host_cpu_scale_up_ceiling (ct_cfg c)) \<and>
         f64_le (cfg_host_cpu_scale_up_ceiling (ct_cfg c)) (ct_host_cpu_util (refreshed env t c))) \<and>
      inst_client i' = snd (op_set_thread_count (client_of env) tgt (inst_client i)) \<and>
      (st_thread_count (inst_status i') = st_thread_count (inst_status i) \<or>
       st_thread_count (inst_status i') = tgt \<and>
       fst (op_set_thread_count (client_of env) tgt (inst_client i)) = Inr ()))"
proof -
  obtain r c' where tick: "tick env t c = (r, c')"
    by (cases "tick env t c")
  with assms(3) have get: "hm_get (ct_instances c') k = Some i'"
    by simp
  from tick_decided [OF assms(1) tick assms(2) get] show ?thesis
  proof (elim disjE exE conjE)
    fix action
    assume dec: "decision_of env t c k = Some action"
      and adj: "vm_adjusted env t (ct_cfg c) (ct_host_cpu_util (refreshed env t c)) k action i i'"
    from adj show ?thesis
    proof (rule vm_adjusted_count)
      fix tgt
      assume "target action = Some tgt"
        and "guard (ct_cfg c) (ct_host_cpu_util (refreshed env t c)) (tk_guard_now t k) (inst_status i) action tgt = None"
        and count: "st_thread_count (inst_status i') \<noteq> st_thread_count (inst_status i) \<Longrightarrow>
          st_thread_count (inst_status i') = tgt"
          "st_thread_count (inst_status i') \<noteq> st_thread_count (inst_status i) \<Longrightarrow>
          fst (op_set_thread_count (client_of env) tgt (inst_client i)) = Inr ()"
        and client: "inst_client i' = (if cfg_dry_run (ct_cfg c) then inst_client i
          else snd (op_set_thread_count (client_of env) tgt (inst_client i)))"
        and dry: "cfg_dry_run (ct_cfg c) \<Longrightarrow> st_thread_count (inst_status i') = st_thread_count (inst_status i)"
      with dec show ?thesis
        by (cases "cfg_dry_run (ct_cfg c)")
          (auto simp: guard_None scaling_allowed_def split: option.splits)
    qed
  qed simp
qed

text \<open>
  C12: a dry run touches no VM.  With \<open>dry_run\<close> set, a tick leaves the worker count and the
  client of every VM as the refresh left them, whatever the engine asks for.
\<close>

theorem dry_run_never_actuates:
  assumes "controller_ok c" and "cfg_dry_run (ct_cfg c)"
    and "hm_get (ct_instances (snd (tick env t c))) k = Some i'"
  shows "\<exists>i. hm_get (ct_instances (refreshed env t c)) k = Some i \<and> inst_client i' = inst_client i \<and>
    st_thread_count (inst_status i') = st_thread_count (inst_status i)"
proof -
  obtain r c' where tick: "tick env t c = (r, c')"
    by (cases "tick env t c")
  with assms(3) have "hm_get (ct_instances c') k = Some i'"
    by simp
  from tick_effect(3) [OF assms(1) tick this] show ?thesis
    using assms(2) by (auto elim!: vm_adjusted_count)
qed

subsection \<open>How many VMs a tick adjusts\<close>

lemma tick_count:
  assumes ok: "controller_ok c" and "tick env t c = (Inr events, c')"
  shows "\<exists>S n. finite S \<and> n = card S \<and>
    (\<forall>k. k \<notin> S \<longrightarrow> map_option inst_status (hm_get (ct_instances c') k) =
      map_option inst_status (hm_get (ct_instances (refreshed env t c)) k)) \<and>
    (0 < cfg_max_instances_adjusted_per_poll (ct_cfg c) \<longrightarrow>
      int n \<le> uint (cfg_max_instances_adjusted_per_poll (ct_cfg c)))"
  using assms(2)
proof (cases rule: tick_phases)
  case (2 c2 ds e3 plan r')
  note p = persist_classifications [OF refreshed_ok [OF ok] 2(1)]
  have cfg: "ct_cfg (refreshed env t c) = ct_cfg c"
    by (simp add: refreshed_def)
  obtain n where "r' = Inr n"
    using 2(5) by (cases r') auto
  with 2(4) have ap: "apply_plan env t plan 0 (c2\<lparr>ct_engine := e3\<rparr>) = (Inr n, c')"
    by simp
  have dist: "distinct (map plan_id plan)"
    by (simp add: 2(3) plan_distinct)
  from apply_plan_count [OF ap dist] obtain S where "S \<subseteq> set (map plan_id plan)" and "n = 0 + card S"
    and "\<forall>k. k \<notin> S \<longrightarrow> map_option inst_status (hm_get (ct_instances c') k) =
      map_option inst_status (hm_get (ct_instances (refreshed env t c)) k)"
    and "0 < cfg_max_instances_adjusted_per_poll (ct_cfg c) \<longrightarrow>
      int n \<le> uint (cfg_max_instances_adjusted_per_poll (ct_cfg c))"
    by (auto simp: p(1,2) cfg)
  then show ?thesis
    by (intro exI [of _ S] exI [of _ n]) (auto intro: finite_subset)
qed simp

text \<open>
  C9: a tick adjusts at most the configured number of VMs.  When
  \<open>max_instances_adjusted_per_poll\<close> is positive, the VMs whose status a successful tick
  leaves different from what the refresh found are at most that many.
\<close>

theorem adjustments_capped:
  assumes "controller_ok c" and "tick env t c = (Inr events, c')"
    and "0 < cfg_max_instances_adjusted_per_poll (ct_cfg c)"
  shows "int (card {k. map_option inst_status (hm_get (ct_instances c') k) \<noteq>
      map_option inst_status (hm_get (ct_instances (refreshed env t c)) k)})
    \<le> uint (cfg_max_instances_adjusted_per_poll (ct_cfg c))"
proof -
  obtain S where S: "finite S" "\<forall>k. k \<notin> S \<longrightarrow> map_option inst_status (hm_get (ct_instances c') k) =
      map_option inst_status (hm_get (ct_instances (refreshed env t c)) k)"
    "int (card S) \<le> uint (cfg_max_instances_adjusted_per_poll (ct_cfg c))"
    using tick_count [OF assms(1,2)] assms(3) by blast
  then have "{k. map_option inst_status (hm_get (ct_instances c') k) \<noteq>
      map_option inst_status (hm_get (ct_instances (refreshed env t c)) k)} \<subseteq> S"
    by auto
  from card_mono [OF S(1) this] S(3) show ?thesis
    by linarith
qed

subsection \<open>How a tick fails\<close>

text \<open>
  What makes the cooldown of an action overflow: every guard let the action pass, the backend (unless
  this is a dry run) did what it asked for, and the cooldown does not fit the reading of the clock
  that it is added to.
\<close>

definition cooldown_overflow ::
  "('c, 'r, 'e) controller_env \<Rightarrow> tick_env \<Rightarrow> config \<Rightarrow> f64 \<Rightarrow> string \<Rightarrow> scale_action \<Rightarrow>
   ('c, 'r) vm_instance \<Rightarrow> bool"
where
  "cooldown_overflow env t cfg host k action i \<longleftrightarrow>
     (\<exists>tgt. target action = Some tgt \<and> guard cfg host (tk_guard_now t k) (inst_status i) action tgt = None \<and>
        (cfg_dry_run cfg \<or> fst (op_set_thread_count (client_of env) tgt (inst_client i)) = Inr ()) \<and>
        instant_checked_add (if cfg_dry_run cfg then tk_cooldown_now t k else tk_applied_at t k)
          (duration_from_secs (cfg_cooldown_secs cfg)) = None)"

lemma apply_engine_decision_error:
  assumes "apply_engine_decision env t k action c = (Inl e, c')"
  shows "e = CtlPanic ''overflow when adding duration to instant'' \<and>
    (\<exists>i. hm_get (ct_instances c) k = Some i \<and>
      cooldown_overflow env t (ct_cfg c) (ct_host_cpu_util c) k action i)"
  using assms
  by (auto simp: apply_engine_decision_def cooldown_overflow_def Let_def
      split: option.splits if_splits sum.splits prod.splits)

lemma apply_plan_error:
  "apply_plan env t plan n c = (Inl e, c') \<Longrightarrow> distinct (map plan_id plan) \<Longrightarrow>
   e = CtlPanic ''overflow when adding duration to instant'' \<and>
    (\<exists>q\<in>set plan. \<exists>i. hm_get (ct_instances c) (plan_id q) = Some i \<and>
      cooldown_overflow env t (ct_cfg c) (ct_host_cpu_util c) (plan_id q) (plan_action q) i)"
proof (induction plan arbitrary: n c)
  case Nil
  then show ?case by simp
next
  case (Cons p plan)
  obtain up seq k action where p: "p = (up, seq, k, action)"
    by (metis prod_cases4)
  obtain r1 c1 where step: "apply_engine_decision env t k action c = (r1, c1)"
    by (cases "apply_engine_decision env t k action c")
  note frame = apply_engine_decision_frame [OF step]
  have others: "hm_get (ct_instances c1) j = hm_get (ct_instances c) j" if "j \<noteq> k" for j
    using step that by (cases rule: apply_engine_decision_cases) (auto simp: hm_get_insert)
  have dist: "distinct (map plan_id plan)" "k \<notin> plan_id ` set plan"
    using Cons.prems(2) by (auto simp: p)
  show ?case
  proof (cases "0 < cfg_max_instances_adjusted_per_poll (ct_cfg c) \<and>
      uint (cfg_max_instances_adjusted_per_poll (ct_cfg c)) \<le> int n")
    case True
    with Cons.prems have "apply_plan env t plan n c = (Inl e, c')"
      by (simp add: p)
    from Cons.IH [OF this dist(1)] show ?thesis
      by auto
  next
    case False
    show ?thesis
    proof (cases r1)
      case (Inl e1)
      with False Cons.prems step have "apply_engine_decision env t k action c = (Inl e, c')"
        by (auto simp: p Let_def)
      from apply_engine_decision_error [OF this] show ?thesis
        by (simp add: p)
    next
      case (Inr did)
      with False Cons.prems step have "apply_plan env t plan (if did then Suc n else n) c1 = (Inl e, c')"
        by (auto simp: p Let_def)
      from Cons.IH [OF this dist(1)] obtain q i where q: "q \<in> set plan"
          "e = CtlPanic ''overflow when adding duration to instant''"
          "hm_get (ct_instances c1) (plan_id q) = Some i"
          "cooldown_overflow env t (ct_cfg c) (ct_host_cpu_util c) (plan_id q) (plan_action q) i"
        by (auto simp: frame)
      with dist(2) have "plan_id q \<noteq> k"
        by auto
      with q others show ?thesis
        by auto
    qed
  qed
qed

text \<open>
  C13: a tick only fails on the ownership file or on the clock.  The controller never finds a VM whose
  ownership changed after classification.  A tick that ends early does so because a VM was newly
  classified and saving the registry with that classification failed, for a reason outside the daemon
  (creating the directory, writing, renaming, or the serialiser); or because some VM's action, passed
  by every guard and carried out by its backend (or tried in a dry run), has a cooldown that does not
  fit the very reading of the clock it is added to.
\<close>

theorem tick_fails_only_on_save:
  assumes "controller_ok c" and "tick env t c = (Inl e, c')"
  shows "(\<exists>s trace. e = CtlState s \<and> ct_vm_ownership c' \<noteq> ct_vm_ownership c \<and>
      store_save (ce_encode env) (ce_process_id env) (tk_save t) (cfg_vm_state_path (ct_cfg c))
        (ct_vm_ownership c') (ct_files c) = (Inl s, trace) \<and>
      ((\<exists>io. s = StateIo io \<and> (sf_create_dir (tk_save t) = Some io \<or>
          (\<exists>n. sf_write (tk_save t) = Some (n, io)) \<or> sf_rename (tk_save t) = Some io)) \<or>
       (\<exists>msg. s = StateJson msg \<and> ce_encode env (ct_vm_ownership c') = Inl msg))) \<or>
    e = CtlPanic ''overflow when adding duration to instant'' \<and>
    (\<exists>k action i. decision_of env t c k = Some action \<and>
      hm_get (ct_instances (refreshed env t c)) k = Some i \<and>
      cooldown_overflow env t (ct_cfg c) (ct_host_cpu_util (refreshed env t c)) k action i)"
  using assms(2)
proof (cases rule: tick_phases)
  case (1 e')
  note p = persist_classifications [OF refreshed_ok [OF assms(1)] 1(2)]
  have same: "ct_vm_ownership (refreshed env t c) = ct_vm_ownership c" "ct_cfg (refreshed env t c) = ct_cfg c"
      "ct_files (refreshed env t c) = ct_files c"
    by (simp_all add: refreshed_def)
  from p(9) [OF refl] obtain s trace where s: "e' = CtlState s" "ct_vm_ownership c' \<noteq> ct_vm_ownership c"
      "store_save (ce_encode env) (ce_process_id env) (tk_save t) (cfg_vm_state_path (ct_cfg c))
        (ct_vm_ownership c') (ct_files c) = (Inl s, trace)"
    unfolding same by blast
  moreover have "ownership_ok (ct_vm_ownership c')"
    using p(5) by (simp add: controller_ok_def)
  ultimately show ?thesis
    using store_save_fault [OF s(3)] 1(1) by auto
next
  case (2 c2 ds e3 plan r')
  note p = persist_classifications [OF refreshed_ok [OF assms(1)] 2(1)]
  from 2(4,5) have ap: "apply_plan env t plan 0 (c2\<lparr>ct_engine := e3\<rparr>) = (Inl e, c')"
    by (cases r') auto
  have "distinct (map plan_id plan)"
    by (simp add: 2(3) plan_distinct)
  from apply_plan_error [OF ap this] obtain q i where q: "q \<in> set plan"
      "e = CtlPanic ''overflow when adding duration to instant''"
      "hm_get (ct_instances (refreshed env t c)) (plan_id q) = Some i"
      "cooldown_overflow env t (ct_cfg (refreshed env t c)) (ct_host_cpu_util (refreshed env t c))
        (plan_id q) (plan_action q) i"
    by (auto simp: p(1,2,4))
  moreover have "ct_cfg (refreshed env t c) = ct_cfg c"
    by (simp add: refreshed_def)
  ultimately show ?thesis
    using plan_decision [OF assms(1) 2(1,2,3) q(1) refl] by auto
qed

subsection \<open>Persistence\<close>

text \<open>What a daemon started on the files of this one would load.\<close>

definition stored ::
  "(string \<Rightarrow> string + vm_ownership) \<Rightarrow> ('c, 'r, 'e) controller \<Rightarrow> state_error + vm_ownership" where
  "stored dec c = store_load dec None (ct_files c) (cfg_vm_state_path (ct_cfg c))"

lemma record_classifications_unchanged:
  "record_classifications insts changed r = (Inr False, r') \<Longrightarrow> \<not> changed \<and> r' = r"
  by (induction insts changed r rule: record_classifications.induct)
    (auto split: option.splits if_splits sum.splits)

lemma persist_stored:
  assumes run: "persist_new_classifications env faults c = (res, c')"
    and named: "path_file_name (cfg_vm_state_path (ct_cfg c)) \<noteq> None"
    and codec: "\<And>r data. ce_encode env r = Inr data \<Longrightarrow> dec data = Inr r"
    and st: "stored dec c = Inr (ct_vm_ownership c)"
  shows "stored dec c' = (case res of Inl _ \<Rightarrow> Inr (ct_vm_ownership c) | Inr _ \<Rightarrow> Inr (ct_vm_ownership c'))"
proof -
  obtain changed r where rc: "record_classifications (map snd (ct_instances c)) False (ct_vm_ownership c) =
      (changed, r)"
    by (metis surj_pair)
  show ?thesis
  proof (cases "changed = Inr True")
    case False
    show ?thesis
    proof (cases changed)
      case (Inl e)
      with run rc have "c' = c\<lparr>ct_vm_ownership := r\<rparr>" and "res = Inl e"
        by (simp_all add: persist_new_classifications_def)
      with st show ?thesis
        by (simp add: stored_def)
    next
      case (Inr b)
      with False have b: "changed = Inr False"
        by simp
      with run rc have "c' = c\<lparr>ct_vm_ownership := r\<rparr>" and "res = Inr ()"
        by (simp_all add: persist_new_classifications_def Let_def)
      moreover have "r = ct_vm_ownership c"
        using record_classifications_unchanged [OF rc [unfolded b]] by simp
      ultimately show ?thesis
        using st by (simp add: stored_def)
    qed
  next
    case True
    obtain res' trace where save: "store_save (ce_encode env) (ce_process_id env) faults
        (cfg_vm_state_path (ct_cfg c)) r (ct_files c) = (res', trace)"
      by fastforce
    with run rc True have c': "c' = c\<lparr>ct_vm_ownership := r, ct_files := last trace\<rparr>"
        "res = result_map_err CtlState res'"
      by (auto simp: persist_new_classifications_def Let_def)
    show ?thesis
    proof (cases res')
      case (Inl e)
      note same = store_load_cong [where dec = dec and fault = None and fs = "last trace" and
          fs' = "ct_files c" and p = "cfg_vm_state_path (ct_cfg c)",
          OF store_save_failed [OF save [unfolded this] named]]
      from st Inl c' show ?thesis
        by (simp add: stored_def same)
    next
      case (Inr u)
      with save have "store_save (ce_encode env) (ce_process_id env) faults
          (cfg_vm_state_path (ct_cfg c)) r (ct_files c) = (Inr (), trace)"
        by simp
      from store_save_reload [OF this, of dec] codec Inr c' show ?thesis
        by (simp add: stored_def)
    qed
  qed
qed

lemma tick_stored:
  assumes ok: "controller_ok c" and run: "tick env t c = (r, c')"
    and named: "path_file_name (cfg_vm_state_path (ct_cfg c)) \<noteq> None"
    and codec: "\<And>r data. ce_encode env r = Inr data \<Longrightarrow> dec data = Inr r"
    and st: "stored dec c = Inr (ct_vm_ownership c)"
  shows "stored dec c' = Inr (ct_vm_ownership c') \<or>
    (\<exists>s. r = Inl (CtlState s)) \<and> stored dec c' = Inr (ct_vm_ownership c)"
proof -
  have start: "path_file_name (cfg_vm_state_path (ct_cfg (refreshed env t c))) \<noteq> None"
      "stored dec (refreshed env t c) = Inr (ct_vm_ownership (refreshed env t c))"
    using named st by (simp_all add: refreshed_def stored_def)
  from run show ?thesis
  proof (cases rule: tick_phases)
    case (1 e)
    with persist_stored [OF 1(2) start(1) codec start(2)] persist_classifications(7) [OF refreshed_ok [OF ok] 1(2)]
    show ?thesis
      by (auto simp: refreshed_def)
  next
    case (2 c2 ds e3 plan r')
    have dist: "distinct (map plan_id plan)"
      using build_plan_ids [of "ct_instances c2" 0 "[]" ds] by (simp add: 2(3) distinct_sort_plan)
    have "stored dec c2 = Inr (ct_vm_ownership c2)"
      using persist_stored [OF 2(1) start(1) codec start(2)] by simp
    then show ?thesis
      using apply_plan_effect [OF 2(4) dist] by (simp add: stored_def)
  qed
qed

subsection \<open>The threshold engine behind the controller\<close>

text \<open>The verdict of the threshold engine on a VM: on its own record, before the tick.\<close>

definition threshold_verdict ::
  "tick_env \<Rightarrow> ('c, 'r, threshold_engine) controller \<Rightarrow> ('c, 'r, threshold_engine) controller \<Rightarrow>
   string \<Rightarrow> instance_status \<Rightarrow> scale_action"
where
  "threshold_verdict t c c1 k s =
     fst (evaluate_vm (te_cfg (ct_engine c1)) (te_polls (ct_engine c1)) (tick_context_of t (tick_host t c)) s
       (entry_or_new k (te_state (ct_engine c1))))"

lemma threshold_decision:
  assumes ok: "controller_ok c" and eng: "ce_engine env = threshold_ops"
    and dec: "decision_of env t c k = Some action"
    and get: "hm_get (ct_instances (refreshed env t c)) k = Some i"
  shows "action = threshold_verdict t c (refreshed env t c) k (inst_status i)"
proof -
  let ?c1 = "refreshed env t c"
  define fleet where "fleet = map (\<lambda>(_, i). (inst_id i, inst_status i)) (ct_instances ?c1)"
  have ok1: "controller_ok ?c1"
    by (rule refreshed_ok [OF ok])
  have "map fst fleet = map inst_id (map snd (ct_instances ?c1))"
    by (auto simp: fleet_def)
  then have dist: "distinct (map fst fleet)"
    using distinct_ids [OF ok1] by metis
  from dec have "(k, action) \<in> set (map (\<lambda>d. (dec_instance_id d, dec_action d))
      (fst (eng_evaluate_fleet threshold_ops fleet (tick_context_of t (tick_host t c)) (ct_engine ?c1))))"
    unfolding decision_of_def Let_def eng fleet_def by (rule map_of_SomeD)
  then obtain s where mem: "(k, s) \<in> set fleet" and action: "action = fst (threshold_evaluate k s
      (tick_context_of t (tick_host t c)) (ct_engine ?c1))"
    by (auto simp: threshold_ops_def threshold.fleet_decisions [OF dist])
  from mem obtain k' i' where i': "(k', i') \<in> set (ct_instances ?c1)" "k = inst_id i'" "s = inst_status i'"
    by (auto simp: fleet_def)
  then have "hm_get (ct_instances ?c1) k' = Some i'"
    using ok1 by (simp add: controller_ok_def hm_get_mem)
  moreover from this have "k' = k"
    using ok1 i'(2) by (auto simp: controller_ok_def)
  ultimately have "i' = i"
    using get by simp
  with action i' show ?thesis
    by (simp add: threshold_evaluate_fst threshold_verdict_def)
qed

lemma threshold_tick:
  assumes ok: "controller_ok c" and eng: "ce_engine env = threshold_ops"
    and get: "hm_get (ct_instances (refreshed env t c)) k = Some i"
    and after: "hm_get (ct_instances (snd (tick env t c))) k = Some i'"
    and changed: "st_thread_count (inst_status i') \<noteq> st_thread_count (inst_status i)"
  shows "target (threshold_verdict t c (refreshed env t c) k (inst_status i)) =
      Some (st_thread_count (inst_status i')) \<and>
    guard (ct_cfg c) (ct_host_cpu_util (refreshed env t c)) (tk_guard_now t k) (inst_status i)
      (threshold_verdict t c (refreshed env t c) k (inst_status i)) (st_thread_count (inst_status i')) = None"
proof -
  from tick_decided [OF ok prod.collapse [symmetric] get after] changed
  obtain action where dec: "decision_of env t c k = Some action"
    and adj: "vm_adjusted env t (ct_cfg c) (ct_host_cpu_util (refreshed env t c)) k action i i'"
    by auto
  from threshold_decision [OF ok eng dec get] adj changed show ?thesis
    by (auto elim!: vm_adjusted_count)
qed

lemma tick_context_simps [simp]:
  "tc_min_thread_count (tick_context_of t c) = cfg_min_thread_count (ct_cfg c)"
  "tc_max_thread_count (tick_context_of t c) = cfg_max_thread_count (ct_cfg c)"
  by (simp_all add: tick_context_of_def)

text \<open>
  C2: why a pool changes.  With the threshold engine, a tick that changes the worker count of a VM
  found it managed and without manual override.  A pool grows by exactly one worker, only when the
  workers are busier than the threshold, the cgroup was not throttled, no failed scale-up is still
  held back and the host CPU is below its ceiling; it shrinks only within the step limit, after low
  load was sustained; and every other change restores the count recorded with an action whose
  validation is due in this tick and fails in it: the I/O rate measured since the action did not gain
  what a scale-up needs, or fell further than a scale-down may (\<open>validation_failed\<close>).
\<close>

theorem pool_change_is_justified:
  assumes "controller_ok c" and "ce_engine env = threshold_ops"
    and "hm_get (ct_instances (refreshed env t c)) k = Some i"
    and "hm_get (ct_instances (snd (tick env t c))) k = Some i'"
    and "st_thread_count (inst_status i') \<noteq> st_thread_count (inst_status i)"
  defines "s \<equiv> inst_status i" and "n \<equiv> st_thread_count (inst_status i')"
    and "e \<equiv> ct_engine (refreshed env t c)" and "cfg \<equiv> ct_cfg c"
    and "v \<equiv> entry_or_new k (te_state (ct_engine (refreshed env t c)))"
  shows "\<not> st_manual_scaling_sticky s \<and> scaling_allowed s \<and> in_bounds cfg s n \<and>
    (uint n = uint (st_thread_count s) + 1 \<and>
       f64_lt (thc_scale_up_threshold (te_cfg e)) (st_per_thread_util s) \<and> \<not> throttled (te_cfg e) s \<and>
       vs_pending_validation v = None \<and> hold_remaining (te_polls e) v = 0 \<and>
       \<not> (f64_lt (Fin 0) (cfg_host_cpu_scale_up_ceiling cfg) \<and>
          f64_le (cfg_host_cpu_scale_up_ceiling cfg) (ct_host_cpu_util (refreshed env t c))) \<or>
     n < st_thread_count s \<and> vs_pending_validation v = None \<and>
       (thc_max_scale_down_step (te_cfg e) = 0 \<or>
        sat_sub (st_thread_count s) (thc_max_scale_down_step (te_cfg e)) \<le> n) \<and>
       scale_down_sustain_polls (te_polls e) (vs_consecutive_failed_downs v) \<le> vs_low_util_polls v + 1 \<or>
     (\<exists>p. vs_pending_validation v = Some p \<and> pv_polls_remaining p = 0 \<and>
       validation_failed (te_cfg e) (iops_rate (pv_validation_start p)
         (vm_sample (tick_context_of t (tick_host t c)) s)) (st_per_thread_util s) p \<and>
       n = pv_baseline_thread_count p))"
proof -
  define a where "a = threshold_verdict t c (refreshed env t c) k s"
  from threshold_tick [OF assms(1-5)]
  have tgt: "target a = Some n"
    and g: "guard cfg (ct_host_cpu_util (refreshed env t c)) (tk_guard_now t k) s a n = None"
    by (simp_all add: a_def s_def n_def cfg_def)
  have ev: "evaluate_vm (te_cfg e) (te_polls e) (tick_context_of t (tick_host t c)) s v =
      (a, snd (evaluate_vm (te_cfg e) (te_polls e) (tick_context_of t (tick_host t c)) s v))"
    by (simp add: a_def threshold_verdict_def e_def v_def)
  note why = verdict_cases [OF ev]
  show ?thesis
  proof (cases a)
    case (Up m)
    with why tgt have u: "uint n = uint (st_thread_count s) + 1"
      by simp
    then have "st_thread_count s < n"
      by (simp add: word_less_def)
    with Up why tgt g u show ?thesis
      by (auto simp: guard_None)
  qed (use why tgt g in \<open>auto simp: guard_None\<close>)
qed

text \<open>
  C26: a pool far below the minimum is stuck.  When a VM has at least two workers fewer than the
  configured minimum and no action is awaiting validation, the threshold engine's one-worker steps
  all end below the minimum, the controller blocks them, and the tick leaves the count alone, however
  busy the workers are.
\<close>

theorem pool_below_minimum_is_stuck:
  assumes "controller_ok c" and "ce_engine env = threshold_ops"
    and "hm_get (ct_instances (refreshed env t c)) k = Some i"
    and "hm_get (ct_instances (snd (tick env t c))) k = Some i'"
    and "uint (st_thread_count (inst_status i)) + 1 < uint (cfg_min_thread_count (ct_cfg c))"
    and "vs_pending_validation (entry_or_new k (te_state (ct_engine (refreshed env t c)))) = None"
  shows "st_thread_count (inst_status i') = st_thread_count (inst_status i)"
proof (rule ccontr)
  assume changed: "st_thread_count (inst_status i') \<noteq> st_thread_count (inst_status i)"
  define a where "a = threshold_verdict t c (refreshed env t c) k (inst_status i)"
  let ?e = "ct_engine (refreshed env t c)"
  let ?n = "st_thread_count (inst_status i')"
  from threshold_tick [OF assms(1-4) changed]
  have tgt: "target a = Some ?n" and lo: "cfg_min_thread_count (ct_cfg c) \<le> ?n"
    by (auto simp: a_def guard_None in_bounds_def)
  have ev: "evaluate_vm (te_cfg ?e) (te_polls ?e) (tick_context_of t (tick_host t c)) (inst_status i)
      (entry_or_new k (te_state ?e)) = (a, snd (evaluate_vm (te_cfg ?e) (te_polls ?e)
        (tick_context_of t (tick_host t c)) (inst_status i) (entry_or_new k (te_state ?e))))"
    by (simp add: a_def threshold_verdict_def)
  from verdict_cases [OF ev] tgt have "uint ?n \<le> uint (st_thread_count (inst_status i)) + 1"
    using assms(6) by (cases a) (auto simp: word_less_def)
  with lo assms(5) show False
    by (simp add: word_le_def)
qed

subsection \<open>Reconciliation and requests\<close>

lemma sync_effect:
  assumes "controller_ok c" and "sync_instances env discovered c = ((added, removed), cls, c')"
  shows "controller_ok c' \<and>
    {k. hm_get (ct_instances c') k \<noteq> None} = inst_id ` set discovered \<and>
    (\<forall>k i. hm_get (ct_instances c') k = Some i \<longrightarrow>
      (case hm_get (ct_instances c) k of
         Some old \<Rightarrow> i = old
       | None \<Rightarrow> (\<exists>d\<in>set discovered. inst_id d = k \<and> i = classify (ct_vm_ownership c) d))) \<and>
    added = card (inst_id ` set discovered - {k. hm_get (ct_instances c) k \<noteq> None}) \<and>
    removed = card ({k. hm_get (ct_instances c) k \<noteq> None} - inst_id ` set discovered)"
proof -
  note sp = sync_instances_get [OF assms(2)]
  have found: "\<exists>d\<in>set discovered. inst_id d = k \<and>
      map_of (map (\<lambda>i. (inst_id i, i)) discovered) k = Some d" if "k \<in> inst_id ` set discovered" for k
    using that by (induction discovered) auto
  have get: "hm_get (ct_instances c') k = (if k \<notin> inst_id ` set discovered then None
      else case hm_get (ct_instances c) k of
         Some i \<Rightarrow> Some i
       | None \<Rightarrow> map_option (classify (ct_vm_ownership c)) (map_of (map (\<lambda>i. (inst_id i, i)) discovered) k))" for k
    using sp by blast
  have dom: "{k. hm_get (ct_instances c') k \<noteq> None} = inst_id ` set discovered"
  proof (rule set_eqI)
    fix k
    show "k \<in> {k. hm_get (ct_instances c') k \<noteq> None} \<longleftrightarrow> k \<in> inst_id ` set discovered"
    proof (cases "k \<in> inst_id ` set discovered")
      case True
      with found [OF True] get [of k] show ?thesis
        by (auto split: option.splits)
    next
      case False
      with get [of k] show ?thesis
        by simp
    qed
  qed
  have each: "case hm_get (ct_instances c) k of
      Some old \<Rightarrow> i = old
    | None \<Rightarrow> (\<exists>d\<in>set discovered. inst_id d = k \<and> i = classify (ct_vm_ownership c) d)"
    if "hm_get (ct_instances c') k = Some i" for k i
  proof -
    have k: "k \<in> inst_id ` set discovered"
      using that get [of k] by (auto split: if_splits)
    from found [OF k] obtain d where "d \<in> set discovered" "inst_id d = k"
        "map_of (map (\<lambda>i. (inst_id i, i)) discovered) k = Some d"
      by blast
    with that get [of k] k show ?thesis
      by (auto split: option.splits)
  qed
  have ok: "hm_ok (ct_instances c)" "ownership_ok (ct_vm_ownership c)"
      "\<And>k i. hm_get (ct_instances c) k = Some i \<Longrightarrow> inst_id i = k"
      "\<And>k i p. hm_get (ct_instances c) k = Some i \<Longrightarrow> classification (ct_vm_ownership c) k = Some p \<Longrightarrow>
        st_ownership_classification (inst_status i) = Some p"
    using assms(1) by (auto simp: controller_ok_def)
  have own: "ct_vm_ownership c' = ct_vm_ownership c"
    using sp by blast
  have count: "added = card (inst_id ` set discovered - {k. hm_get (ct_instances c) k \<noteq> None})"
      "removed = card ({k. hm_get (ct_instances c) k \<noteq> None} - inst_id ` set discovered)"
    using sp ok(1) by blast+
  have ok': "controller_ok c'"
    unfolding controller_ok_def
  proof (intro conjI allI impI)
    show "hm_ok (ct_instances c')" "ownership_ok (ct_vm_ownership c')"
      using sp ok(1,2) by simp_all
    fix k i p
    assume i: "hm_get (ct_instances c') k = Some i"
    show "inst_id i = k"
      using each [OF i] ok(3) by (auto split: option.splits)
    assume "classification (ct_vm_ownership c') k = Some p"
    then show "st_ownership_classification (inst_status i) = Some p"
      using each [OF i] ok(4) by (auto simp: own split: option.splits)
  qed
  show ?thesis
    by (intro conjI allI impI) (rule ok' dom count | erule each)+
qed

text \<open>
  C14: discovery decides which VMs exist and nothing else.  After a reconciliation the inventory holds
  exactly the discovered identifiers; a VM that was already there keeps its record, a new one
  enters with the record of its first discovery and its persisted classification; and the two
  counts returned are the numbers of VMs that came and went.
\<close>

theorem sync_reconciles:
  assumes "controller_ok c" and "sync_instances env discovered c = ((added, removed), cls, c')"
  shows "controller_ok c' \<and>
    {k. hm_get (ct_instances c') k \<noteq> None} = inst_id ` set discovered \<and>
    (\<forall>k i. hm_get (ct_instances c') k = Some i \<longrightarrow>
      (case hm_get (ct_instances c) k of
         Some old \<Rightarrow> i = old
       | None \<Rightarrow> (\<exists>d\<in>set discovered. inst_id d = k \<and> i = classify (ct_vm_ownership c) d))) \<and>
    added = card (inst_id ` set discovered - {k. hm_get (ct_instances c) k \<noteq> None}) \<and>
    removed = card ({k. hm_get (ct_instances c) k \<noteq> None} - inst_id ` set discovered)"
  by (rule sync_effect [OF assms])

text \<open>
  A fleet-wide request tries every VM once.  It reports as failed exactly the VMs for which the
  request for that VM alone fails, a failure does not stop the others, and every VM ends as the
  request for it alone would leave it.
\<close>

lemma set_all_is_per_vm:
  fixes env :: "('c, 'r, 'e) controller_env" and threads :: u32 and sticky :: bool
  assumes "controller_ok c"
  defines "result \<equiv> handle_set_all_thread_counts env threads sticky c"
    and "failing \<equiv> {k. hm_get (ct_instances c) k \<noteq> None \<and>
      fst (handle_set_thread_count env k threads sticky c) \<noteq> Inr ()}"
  shows "fst (fst result) = sat_of_int (int (card failing)) \<and>
    (\<forall>k. hm_get (ct_instances (snd result)) k = (if hm_get (ct_instances c) k = None then None
      else hm_get (ct_instances (snd (handle_set_thread_count env k threads sticky c))) k))"
proof -
  define ks where "ks = sort (hm_keys (ct_instances c))"
  have ks: "distinct ks" "set ks = {k. hm_get (ct_instances c) k \<noteq> None}"
    using assms(1) by (simp_all add: ks_def controller_ok_def hm_ok_def set_hm_keys)
  obtain n fs c' where loop: "set_all_loop env ks threads sticky c = (n, fs, c')"
    by (metis prod_cases3)
  note sp = set_all_loop_spec [OF loop ks(1)]
  have len: "length (List.map_filter f xs) = length (filter (\<lambda>x. f x \<noteq> None) xs)" for f :: "string \<Rightarrow> string option" and xs
    by (induction xs) (simp_all add: List.map_filter_simps split: option.split)
  have "length fs = length (filter (\<lambda>k. fst (handle_set_thread_count env k threads sticky c) \<noteq> Inr ()) ks)"
    using sp by (auto simp: len intro!: arg_cong [of _ _ length] filter_cong split: sum.splits)
  also have "\<dots> = card failing"
    using ks by (simp add: distinct_length_filter failing_def Int_def conj_commute)
  finally have "length fs = card failing" .
  moreover obtain summary where "result = ((sat_of_int (int (length fs)), summary), c')"
    using loop by (simp add: result_def handle_set_all_thread_counts_def ks_def Let_def)
  moreover have "hm_get (ct_instances c') k = (if hm_get (ct_instances c) k = None then None
      else hm_get (ct_instances (snd (handle_set_thread_count env k threads sticky c))) k)" for k
    using sp ks(2) by (cases "k \<in> set ks") auto
  ultimately show ?thesis
    by simp
qed

text \<open>
  The IOThread verbs of the D-Bus interface cannot work.  Whatever the backend implements, adding
  and deleting an IOThread, and writing and reading a virtqueue mapping, answer with an error and
  leave every VM alone.
\<close>

lemma io_thread_verbs_fail:
  "(\<exists>e. fst (handle_dbus_request env (AddIoThread vm io n) c) = ReplyUnit (Inl e)) \<and>
   (\<exists>e. fst (handle_dbus_request env (DelIoThread vm io) c) = ReplyUnit (Inl e)) \<and>
   (\<exists>e. fst (handle_dbus_request env (SetIoThreadVqMapping vm dev json) c) = ReplyUnit (Inl e)) \<and>
   (\<exists>e. fst (handle_dbus_request env (GetIoThreadVqMapping vm dev) c) = ReplyTextResult (Inl e)) \<and>
   hm_get (ct_instances (snd (handle_dbus_request env (AddIoThread vm io n) c))) k =
     hm_get (ct_instances c) k"
  by (auto simp: handle_dbus_request_def with_client_def client_of_def box_client_def Let_def
      client_defaults_def hm_get_insert split: option.split sum.split)

subsection \<open>A concrete controller\<close>

text \<open>
  One VM with busy workers whose backend does what it is told, under the threshold engine.  The
  codec writes one registry; the clock stands still.
\<close>

definition demo_ops :: "u32 client_ops" where
  "demo_ops = client_defaults (\<lambda>n _. (Inr (), n))
     (\<lambda>n. (Inr \<lparr>tps_thread_count = n, tps_vcpu_count = 8, tps_perf = None,
        tps_per_thread_util = Some (Fin 1)\<rparr>, n)) (\<lambda>n. n)"

definition demo_ownership :: vm_ownership where
  "demo_ownership = \<lparr>managed_vms = {''vm''}, unmanaged_vms = {}\<rparr>"

definition demo_env :: "'e engine_ops \<Rightarrow> (u32, unit, 'e) controller_env" where
  "demo_env engine =
     \<lparr>ce_client = demo_ops, ce_engine = engine, ce_is_match = (\<lambda>_ _. True),
      ce_ticks_per_second = Fin 100, ce_root = [RootDir], ce_process_id = ''1'',
      ce_encode = (\<lambda>r. if r = demo_ownership then Inr ''saved'' else Inl ''not encoded''),
      ce_median = (\<lambda>_. Fin 0), ce_version = ''1'', ce_snapshot_json = (\<lambda>_. ''[]''),
      ce_stats_json = (\<lambda>_ _. ''[]''), ce_mapping_json = (\<lambda>_. Inr ''[]''),
      ce_parse_mapping = (\<lambda>_. Inr [])\<rparr>"

definition demo_readings :: tick_env where
  "demo_readings =
     \<lparr>tk_host_cpu = None, tk_pressure = (None, None, None), tk_now = 0, tk_proc = (\<lambda>_. demo_proc),
      tk_guard_now = (\<lambda>_. 0), tk_cooldown_now = (\<lambda>_. 0), tk_applied_at = (\<lambda>_. 0),
      tk_save = \<lparr>sf_create_dir = None, sf_write = None, sf_rename = None\<rparr>\<rparr>"

definition demo_settings :: config where
  "demo_settings =
     \<lparr>cfg_engine = ''threshold'', cfg_engine_config_dir = [RootDir], cfg_backend_config_dir = [RootDir],
      cfg_vm_state_path = [RootDir, Normal ''vms.json''], cfg_min_thread_count = 2,
      cfg_max_thread_count = 8, cfg_host_cpu_scale_up_ceiling = Fin 0, cfg_cooldown_secs = 20,
      cfg_scale_poll_secs = 10, cfg_round_up_durations = False, cfg_enable_per_vm_status_line = False,
      cfg_enable_per_vm_main_log = False, cfg_enable_aggregate_status_line = False,
      cfg_print_status_header = False, cfg_max_instances_adjusted_per_poll = 1,
      cfg_experimental_psi_monitoring = False, cfg_refresh_cgroup_on_each_read = False,
      cfg_dry_run = False\<rparr>"

definition demo_controller :: "u32 \<Rightarrow> 'e \<Rightarrow> (u32, unit, 'e) controller" where
  "demo_controller n engine =
     \<lparr>ct_cfg = demo_settings, ct_engine = engine, ct_vm_ownership = ownership_default,
      ct_instances = [(''vm'', instance_new ''vm'' [] 1 n)], ct_tick_index = 0, ct_last_host_cpu = None,
      ct_host_cpu_util = Fin 0, ct_psi = psi_default, ct_files = (\<lambda>_. None)\<rparr>"


lemma demo_controller_ok: "controller_ok (demo_controller n e)"
  by (auto simp: controller_ok_def demo_controller_def hm_get_def hm_ok_def hm_keys_def
      instance_new_def classification_def ownership_default_def ownership_ok_def split: if_splits)

definition demo_count ::
  "('c, 'r, 'e) controller \<Rightarrow> u32 option" where
  "demo_count c = map_option (\<lambda>i. st_thread_count (inst_status i)) (hm_get (ct_instances c) ''vm'')"

lemma demo_counts:
  "demo_count (refreshed (demo_env threshold_ops) demo_readings (demo_controller 4 demo_engine)) = Some 4"
  "demo_count (snd (tick (demo_env threshold_ops) demo_readings (demo_controller 4 demo_engine))) = Some 5"
  by code_simp+

lemma demo_count_Some:
  assumes "demo_count c = Some n"
  obtains i where "hm_get (ct_instances c) ''vm'' = Some i" and "st_thread_count (inst_status i) = n"
  using assms by (auto simp: demo_count_def)

lemma tick_respects_guards_witness:
  "\<exists>i i'. hm_get (ct_instances (refreshed (demo_env threshold_ops) demo_readings
      (demo_controller 4 demo_engine))) ''vm'' = Some i \<and>
    hm_get (ct_instances (snd (tick (demo_env threshold_ops) demo_readings
      (demo_controller 4 demo_engine)))) ''vm'' = Some i' \<and> st_thread_count (inst_status i') = 5 \<and>
    st_ownership_classification (inst_status i) = Some True \<and> in_bounds demo_settings (inst_status i) 5"
proof -
  obtain i where i: "hm_get (ct_instances (refreshed (demo_env threshold_ops) demo_readings
      (demo_controller 4 demo_engine))) ''vm'' = Some i" "st_thread_count (inst_status i) = 4"
    using demo_counts(1) by (rule demo_count_Some)
  obtain i' where i': "hm_get (ct_instances (snd (tick (demo_env threshold_ops) demo_readings
      (demo_controller 4 demo_engine)))) ''vm'' = Some i'" "st_thread_count (inst_status i') = 5"
    using demo_counts(2) by (rule demo_count_Some)
  have cfg: "ct_cfg (demo_controller 4 demo_engine) = demo_settings"
    by (simp add: demo_controller_def)
  from tick_respects_guards [OF demo_controller_ok i(1) i'(1)] i(2) i'(2)
  have "st_ownership_classification (inst_status i) = Some True \<and> in_bounds demo_settings (inst_status i) 5"
    unfolding cfg by auto
  with i i' show ?thesis
    by blast
qed

lemma pool_change_is_justified_witness:
  "\<exists>i. hm_get (ct_instances (refreshed (demo_env threshold_ops) demo_readings
      (demo_controller 4 demo_engine))) ''vm'' = Some i \<and> scaling_allowed (inst_status i)"
proof -
  obtain i where i: "hm_get (ct_instances (refreshed (demo_env threshold_ops) demo_readings
      (demo_controller 4 demo_engine))) ''vm'' = Some i" "st_thread_count (inst_status i) = 4"
    using demo_counts(1) by (rule demo_count_Some)
  obtain i' where i': "hm_get (ct_instances (snd (tick (demo_env threshold_ops) demo_readings
      (demo_controller 4 demo_engine)))) ''vm'' = Some i'" "st_thread_count (inst_status i') = 5"
    using demo_counts(2) by (rule demo_count_Some)
  have "ce_engine (demo_env threshold_ops) = threshold_ops"
    by (simp add: demo_env_def)
  from pool_change_is_justified [OF demo_controller_ok this i(1) i'(1)] i i' show ?thesis
    by auto
qed

lemma demo_stuck:
  "demo_count (refreshed (demo_env threshold_ops) demo_readings (demo_controller 0 demo_engine)) = Some 0"
  "demo_count (snd (tick (demo_env threshold_ops) demo_readings (demo_controller 0 demo_engine))) \<noteq> None"
  "vs_pending_validation (entry_or_new ''vm'' (te_state (ct_engine
     (refreshed (demo_env threshold_ops) demo_readings (demo_controller 0 demo_engine))))) = None"
  by code_simp+

lemma pool_below_minimum_is_stuck_witness:
  "\<exists>i'. hm_get (ct_instances (snd (tick (demo_env threshold_ops) demo_readings
      (demo_controller 0 demo_engine)))) ''vm'' = Some i' \<and> st_thread_count (inst_status i') = 0"
proof -
  obtain i where i: "hm_get (ct_instances (refreshed (demo_env threshold_ops) demo_readings
      (demo_controller 0 demo_engine))) ''vm'' = Some i" "st_thread_count (inst_status i) = 0"
    using demo_stuck(1) by (rule demo_count_Some)
  obtain i' where i': "hm_get (ct_instances (snd (tick (demo_env threshold_ops) demo_readings
      (demo_controller 0 demo_engine)))) ''vm'' = Some i'"
    using demo_stuck(2) by (auto simp: demo_count_def)
  have "ce_engine (demo_env threshold_ops) = threshold_ops"
    and "uint (st_thread_count (inst_status i)) + 1 <
      uint (cfg_min_thread_count (ct_cfg (demo_controller 0 demo_engine)))"
    by (simp_all add: demo_env_def i(2) demo_controller_def demo_settings_def)
  from pool_below_minimum_is_stuck [OF demo_controller_ok this(1) i(1) i' this(2) demo_stuck(3)] i i'
  show ?thesis
    by auto
qed

lemma dry_run_never_actuates_witness:
  "\<exists>i'. hm_get (ct_instances (snd (tick (demo_env threshold_ops) demo_readings
      (demo_controller 4 demo_engine\<lparr>ct_cfg := demo_settings\<lparr>cfg_dry_run := True\<rparr>\<rparr>)))) ''vm'' = Some i' \<and>
    (\<exists>i. inst_client i' = inst_client (i :: (u32, unit) vm_instance))"
proof -
  let ?c = "demo_controller 4 demo_engine\<lparr>ct_cfg := demo_settings\<lparr>cfg_dry_run := True\<rparr>\<rparr>"
  have "demo_count (snd (tick (demo_env threshold_ops) demo_readings ?c)) \<noteq> None"
    by code_simp
  then obtain i' where i': "hm_get (ct_instances (snd (tick (demo_env threshold_ops) demo_readings ?c))) ''vm'' = Some i'"
    by (auto simp: demo_count_def)
  have "controller_ok ?c"
    using demo_controller_ok [of 4 demo_engine] by (simp add: controller_ok_def)
  moreover have "cfg_dry_run (ct_cfg ?c)"
    by simp
  ultimately show ?thesis
    using dry_run_never_actuates [OF _ _ i'] i' by blast
qed

lemma adjustments_capped_witness:
  "case tick (demo_env threshold_ops) demo_readings (demo_controller 4 demo_engine) of
     (Inl _, _) \<Rightarrow> False
   | (Inr _, c') \<Rightarrow> int (card {k. map_option inst_status (hm_get (ct_instances c') k) \<noteq>
       map_option inst_status (hm_get (ct_instances (refreshed (demo_env threshold_ops) demo_readings
         (demo_controller 4 demo_engine))) k)}) \<le> 1"
proof -
  obtain r c' where t: "tick (demo_env threshold_ops) demo_readings (demo_controller 4 demo_engine) = (r, c')"
    by fastforce
  have "case fst (tick (demo_env threshold_ops) demo_readings (demo_controller 4 demo_engine)) of
      Inl _ \<Rightarrow> False | Inr _ \<Rightarrow> True"
    by code_simp
  with t obtain events where "r = Inr events"
    by (cases r) auto
  with adjustments_capped [OF demo_controller_ok t [unfolded this]] t show ?thesis
    by (simp add: demo_controller_def demo_settings_def)
qed

text \<open>The registry's directory cannot be created: the tick ends there.\<close>

lemma tick_fails_only_on_save_witness:
  "case tick (demo_env threshold_ops) (demo_readings\<lparr>tk_save := \<lparr>sf_create_dir = Some (IoFault ''denied''),
      sf_write = None, sf_rename = None\<rparr>\<rparr>) (demo_controller 4 demo_engine) of
     (Inl e, _) \<Rightarrow> (\<exists>s. e = CtlState s) | (Inr _, _) \<Rightarrow> False"
proof -
  let ?t = "demo_readings\<lparr>tk_save := \<lparr>sf_create_dir = Some (IoFault ''denied''),
      sf_write = None, sf_rename = None\<rparr>\<rparr>"
  obtain r c' where t: "tick (demo_env threshold_ops) ?t (demo_controller 4 demo_engine) = (r, c')"
    by fastforce
  have "case fst (tick (demo_env threshold_ops) ?t (demo_controller 4 demo_engine)) of
      Inl (CtlState _) \<Rightarrow> True | _ \<Rightarrow> False"
    by code_simp
  with t obtain e where e: "r = Inl e" "e \<noteq> CtlPanic ''overflow when adding duration to instant''"
    by (cases r) (auto split: controller_error.splits)
  from tick_fails_only_on_save [OF demo_controller_ok t [unfolded e(1)]] e t show ?thesis
    by auto
qed

lemma sync_reconciles_witness:
  "case sync_instances (demo_env threshold_ops) [instance_new ''new'' [] 2 1] (demo_controller 4 demo_engine) of
     ((added, removed), _, c') \<Rightarrow> {k. hm_get (ct_instances c') k \<noteq> None} = {''new''} \<and> controller_ok c'"
proof -
  obtain added removed cls c' where "sync_instances (demo_env threshold_ops) [instance_new ''new'' [] 2 1]
      (demo_controller 4 demo_engine) = ((added, removed), cls, c')"
    by (metis surj_pair)
  with sync_reconciles [OF demo_controller_ok this] show ?thesis
    by (simp add: instance_new_def)
qed

lemma set_all_is_per_vm_witness:
  "hm_get (ct_instances (snd (handle_set_all_thread_counts (demo_env threshold_ops) 6 True
      (demo_controller 4 demo_engine)))) ''other'' = None"
  using set_all_is_per_vm [OF demo_controller_ok, of "demo_env threshold_ops" 6 True 4 demo_engine]
  by (simp add: demo_controller_def hm_get_def)

end
