(* ===== verification/Discovery.thy ===== *)
theory Discovery
  imports Instances "HOL-Library.Sublist"
begin

section \<open>Backends and socket discovery (backends/mod.rs)\<close>

text \<open>
  The registry of backends and the walk over \<open>socket_dir/<id>/<socket_name>\<close> with its cache of
  peer processes.  What the walk reads of the system is a record of readings per socket.
\<close>

type_synonym io_failure = "io_kind \<times> string"

subsection \<open>The registry\<close>

record 'b backend_registration =
  reg_name :: string
  reg_build :: "path \<Rightarrow> backend_client_error + 'b"

fun build_backends ::
  "path \<Rightarrow> 'b backend_registration list \<Rightarrow> backend_client_error + 'b list" where
  "build_backends dir [] = Inr []"
| "build_backends dir (r # rs) =
     result_bind (reg_build r dir) (\<lambda>b. result_map (\<lambda>bs. b # bs) (build_backends dir rs))"

text \<open>\<open>registered_backends\<close>: linked-in registrations come in no particular order, so the
  result is sorted by the backends' names.\<close>

definition registered_backends ::
  "('b \<Rightarrow> string) \<Rightarrow> path \<Rightarrow> 'b backend_registration list \<Rightarrow> backend_client_error + 'b list" where
  "registered_backends backend_name dir regs = result_map (sort_key backend_name) (build_backends dir regs)"

text \<open>The provided \<open>run_cli\<close>.\<close>

definition run_cli_default :: "string \<Rightarrow> backend_client_error + unit" where
  "run_cli_default name = Inl (NotSupported (''backend `'' @ name @ ''` has no command-line interface''))"

subsection \<open>The peer of a control socket\<close>

record cached_peer =
  cp_dev :: u64
  cp_ino :: u64
  cp_pid :: i32
  cp_start_time :: u64

type_synonym peer_cache = "path \<Rightarrow> cached_peer option"

text \<open>
  The readings for one socket: its metadata (device and inode), the start times of processes when
  the cached peer is checked, what connecting gives (the peer credentials, which may lack a process
  identifier), and the start times afterwards.
\<close>

record socket_env =
  se_metadata :: "io_failure + u64 \<times> u64"
  se_start_before :: "i32 \<Rightarrow> u64 option"
  se_connect :: "io_failure + (io_failure + i32 option)"
  se_start_after :: "i32 \<Rightarrow> u64 option"

definition control_socket_peer_pid :: "socket_env \<Rightarrow> io_failure + i32" where
  "control_socket_peer_pid env =
     result_bind (se_connect env) (\<lambda>cred.
     result_bind cred (\<lambda>pid.
       case pid of None \<Rightarrow> Inl (InvalidData, ''control-socket peer has no process ID'') | Some p \<Rightarrow> Inr p))"

definition cached_control_socket_peer_pid ::
  "socket_env \<Rightarrow> path \<Rightarrow> peer_cache \<Rightarrow> (io_failure + i32) \<times> peer_cache" where
  "cached_control_socket_peer_pid env p cache =
     (case se_metadata env of
        Inl e \<Rightarrow> (Inl e, cache)
      | Inr (dev, ino) \<Rightarrow>
          let hit = (case cache p of
                None \<Rightarrow> None
              | Some peer \<Rightarrow>
                  if cp_dev peer = dev \<and> cp_ino peer = ino \<and>
                     se_start_before env (cp_pid peer) = Some (cp_start_time peer)
                  then Some (cp_pid peer) else None)
          in case hit of
               Some pid \<Rightarrow> (Inr pid, cache)
             | None \<Rightarrow>
                 (case control_socket_peer_pid env of
                    Inl e \<Rightarrow> (Inl e, cache)
                  | Inr pid \<Rightarrow>
                      (Inr pid,
                       (case se_start_after env pid of
                          None \<Rightarrow> cache
                        | Some t \<Rightarrow> cache(p \<mapsto> \<lparr>cp_dev = dev, cp_ino = ino, cp_pid = pid,
                            cp_start_time = t\<rparr>)))))"

subsection \<open>The walk\<close>

text \<open>A directory entry: its name, if it is valid Unicode, and whether its metadata says it is a
  directory, if they can be read.\<close>

record dir_entry =
  de_name :: "string option"
  de_is_dir :: "bool option"

definition socket_path :: "path \<Rightarrow> path \<Rightarrow> string \<Rightarrow> string \<Rightarrow> path" where
  "socket_path rootp socket_dir socket_name name =
     path_new rootp (path_join socket_dir (path_join (path_join socket_dir [Normal name]) [Normal socket_name]))"

text \<open>
  The loop over the entries, which fails when the next entry cannot be read; the sockets whose peer
  was identified are collected beside the instances.
\<close>

fun discover_entries ::
  "(string \<Rightarrow> path) \<Rightarrow> (path \<Rightarrow> socket_env) \<Rightarrow> (path \<Rightarrow> 'c) \<Rightarrow> (io_failure + dir_entry) list \<Rightarrow> peer_cache \<Rightarrow>
   (io_failure + ('c, 'r) vm_instance list \<times> path set) \<times> peer_cache"
where
  "discover_entries sock env make_client [] cache = (Inr ([], {}), cache)"
| "discover_entries sock env make_client (Inl e # es) cache = (Inl e, cache)"
| "discover_entries sock env make_client (Inr d # es) cache =
     (case (de_is_dir d, de_name d) of
        (Some True, Some name) \<Rightarrow>
          let p = sock name
          in (case cached_control_socket_peer_pid (env p) p cache of
                (Inl _, cache) \<Rightarrow> discover_entries sock env make_client es cache
              | (Inr pid, cache) \<Rightarrow>
                  (case discover_entries sock env make_client es cache of
                     (r, cache) \<Rightarrow>
                       (result_map (\<lambda>(insts, seen).
                          (instance_new name p pid (make_client p) # insts, insert p seen)) r, cache)))
      | _ \<Rightarrow> discover_entries sock env make_client es cache)"

text \<open>\<open>discover_via_control_socket\<close>; a directory that cannot be read has no VMs and leaves
  the cache alone.\<close>

definition discover_via_control_socket ::
  "path \<Rightarrow> path \<Rightarrow> string \<Rightarrow> (path \<Rightarrow> socket_env) \<Rightarrow> (path \<Rightarrow> 'c) \<Rightarrow>
   (io_failure + (io_failure + dir_entry) list) \<Rightarrow> peer_cache \<Rightarrow>
   (io_failure + ('c, 'r) vm_instance list) \<times> peer_cache"
where
  "discover_via_control_socket rootp socket_dir socket_name env make_client read_dir cache =
     (case read_dir of
        Inl _ \<Rightarrow> (Inr [], cache)
      | Inr entries \<Rightarrow>
          (case discover_entries (socket_path rootp socket_dir socket_name) env make_client entries cache of
             (Inl e, cache) \<Rightarrow> (Inl e, cache)
           | (Inr (insts, seen), cache) \<Rightarrow>
               (Inr insts, \<lambda>p. if \<not> prefix socket_dir p \<or> p \<in> seen then cache p else None)))"

subsection \<open>The registry is ordered\<close>

lemma build_backends_Inr:
  "build_backends dir regs = Inr bs \<longleftrightarrow> list_all2 (\<lambda>r b. reg_build r dir = Inr b) regs bs"
proof (induction regs arbitrary: bs)
  case Nil
  then show ?case by auto
next
  case (Cons r regs)
  have "result_map (\<lambda>bs. b # bs) x = Inr bs' \<longleftrightarrow> (\<exists>cs. x = Inr cs \<and> bs' = b # cs)"
    for b bs' and x :: "backend_client_error + 'a list"
    by (cases x) auto
  then show ?case
    by (auto simp: result_bind_Inr Cons.IH list_all2_Cons1)
qed

lemma build_backends_set:
  "build_backends dir regs = Inr bs \<Longrightarrow> set bs = {b. \<exists>r\<in>set regs. reg_build r dir = Inr b}"
  unfolding build_backends_Inr by (induction regs bs rule: list_all2_induct) auto

subsection \<open>One socket\<close>

lemma cached_peer_local:
  "fst (cached_control_socket_peer_pid env p cache) =
     fst (cached_control_socket_peer_pid env p cache')"
  "snd (cached_control_socket_peer_pid env p cache) p =
     snd (cached_control_socket_peer_pid env p cache') p"
  if "cache p = cache' p"
  using that
  by (auto simp: cached_control_socket_peer_pid_def Let_def split: sum.split prod.split option.split)

lemma cached_peer_other:
  "q \<noteq> p \<Longrightarrow> snd (cached_control_socket_peer_pid env p cache) q = cache q"
  by (auto simp: cached_control_socket_peer_pid_def Let_def split: sum.split prod.split option.split)

lemma cached_peer_known:
  assumes "fst (cached_control_socket_peer_pid env p cache) = Inr pid"
    and "se_start_before env pid = Some t" and "se_start_after env pid = Some t"
  obtains dev ino where "se_metadata env = Inr (dev, ino)"
    and "snd (cached_control_socket_peer_pid env p cache) p =
      Some \<lparr>cp_dev = dev, cp_ino = ino, cp_pid = pid, cp_start_time = t\<rparr>"
proof -
  obtain dev ino where meta: "se_metadata env = Inr (dev, ino)"
    using assms(1) by (cases "se_metadata env") (auto simp: cached_control_socket_peer_pid_def)
  show ?thesis
  proof (rule that [OF meta])
    show "snd (cached_control_socket_peer_pid env p cache) p =
        Some \<lparr>cp_dev = dev, cp_ino = ino, cp_pid = pid, cp_start_time = t\<rparr>"
      using assms meta
      by (cases "cache p"; cases "control_socket_peer_pid env")
        (auto simp: cached_control_socket_peer_pid_def Let_def split: if_splits)
  qed
qed

subsection \<open>The walk, entry by entry\<close>

text \<open>What one entry contributes, judged on the cache the pass starts with.\<close>

definition entry_instance ::
  "(string \<Rightarrow> path) \<Rightarrow> (path \<Rightarrow> socket_env) \<Rightarrow> (path \<Rightarrow> 'c) \<Rightarrow> peer_cache \<Rightarrow> dir_entry \<Rightarrow>
   ('c, 'r) vm_instance option"
where
  "entry_instance sock env make_client cache d =
     (case (de_is_dir d, de_name d) of
        (Some True, Some name) \<Rightarrow>
          (case fst (cached_control_socket_peer_pid (env (sock name)) (sock name) cache) of
             Inl _ \<Rightarrow> None
           | Inr pid \<Rightarrow> Some (instance_new name (sock name) pid (make_client (sock name))))
      | _ \<Rightarrow> None)"

definition visited :: "(string \<Rightarrow> path) \<Rightarrow> dir_entry list \<Rightarrow> path set" where
  "visited sock ds = {sock name | name d. d \<in> set ds \<and> de_is_dir d = Some True \<and> de_name d = Some name}"

lemma entry_instance_cong:
  "(\<And>name. de_is_dir d = Some True \<Longrightarrow> de_name d = Some name \<Longrightarrow> cache (sock name) = cache' (sock name)) \<Longrightarrow>
   entry_instance sock env mk cache d = entry_instance sock env mk cache' d"
proof (cases "\<exists>name. de_is_dir d = Some True \<and> de_name d = Some name")
  case True
  assume same: "\<And>name. de_is_dir d = Some True \<Longrightarrow> de_name d = Some name \<Longrightarrow> cache (sock name) = cache' (sock name)"
  from True obtain name where d: "de_is_dir d = Some True" "de_name d = Some name"
    by blast
  note local = cached_peer_local(1) [where cache = cache and cache' = cache' and p = "sock name" and
      env = "env (sock name)", OF same [OF d]]
  with d show ?thesis
    by (simp add: entry_instance_def)
next
  case False
  then show ?thesis
    by (auto simp: entry_instance_def split: option.split bool.split)
qed

lemma entry_instance_Some:
  "entry_instance sock env mk cache d = Some i \<longleftrightarrow>
     (\<exists>name pid. de_is_dir d = Some True \<and> de_name d = Some name \<and>
        fst (cached_control_socket_peer_pid (env (sock name)) (sock name) cache) = Inr pid \<and>
        i = instance_new name (sock name) pid (mk (sock name)))"
  by (auto simp: entry_instance_def split: option.split bool.split sum.split)

lemma map_filter_cong: "(\<And>x. x \<in> set xs \<Longrightarrow> f x = g x) \<Longrightarrow> List.map_filter f xs = List.map_filter g xs"
  by (induction xs) (auto simp: List.map_filter_simps split: option.split)

lemma discover_entries_spec:
  fixes mk :: "path \<Rightarrow> 'c"
  assumes "distinct (List.map_filter de_name ds)" and "inj sock"
  shows "discover_entries sock env mk (map Inr ds) cache =
    (Inr (List.map_filter (entry_instance sock env mk cache) ds :: ('c, 'r) vm_instance list,
          inst_sock_path ` set (List.map_filter (entry_instance sock env mk cache) ds :: ('c, 'r) vm_instance list)),
     (\<lambda>p. if p \<in> visited sock ds then snd (cached_control_socket_peer_pid (env p) p cache) p else cache p))"
  using assms(1)
proof (induction ds arbitrary: cache)
  case Nil
  then show ?case
    by (simp add: List.map_filter_simps visited_def)
next
  case (Cons d ds)
  have dist: "distinct (List.map_filter de_name ds)"
    using Cons.prems by (cases "de_name d") (simp_all add: List.map_filter_simps)
  note IH = Cons.IH [OF dist]
  show ?case
  proof (cases "\<exists>name. de_is_dir d = Some True \<and> de_name d = Some name")
    case False
    then have none: "entry_instance sock env mk cache d = None" and vis: "visited sock (d # ds) = visited sock ds"
      by (auto simp: entry_instance_def visited_def split: option.split bool.split)
    have skip: "discover_entries sock env mk (map Inr (d # ds)) cache =
        discover_entries sock env mk (map Inr ds) cache"
      using False by (auto split: option.split bool.split)
    show ?thesis
      unfolding skip IH by (simp add: List.map_filter_simps none vis)
  next
    case True
    then obtain name where d: "de_is_dir d = Some True" "de_name d = Some name"
      by blast
    let ?p = "sock name"
    obtain r c1 where peer: "cached_control_socket_peer_pid (env ?p) ?p cache = (r, c1)"
      by fastforce
    have fresh: "?p \<notin> visited sock ds"
    proof
      assume "?p \<in> visited sock ds"
      then obtain e where "e \<in> set ds" "de_name e = Some name"
        using injD [OF assms(2)] by (auto simp: visited_def)
      then have "name \<in> set (List.map_filter de_name ds)"
        by (auto simp: set_map_filter_iff)
      with Cons.prems d show False
        by (simp add: List.map_filter_simps)
    qed
    have c1: "c1 q = cache q" if "q \<noteq> ?p" for q
      using cached_peer_other [OF that, of "env ?p" cache] peer by simp
    have rest: "List.map_filter (entry_instance sock env mk c1) ds =
        List.map_filter (entry_instance sock env mk cache) ds"
    proof -
      have "entry_instance sock env mk c1 e = entry_instance sock env mk cache e" if "e \<in> set ds" for e
      proof (rule entry_instance_cong)
        fix n
        assume "de_is_dir e = Some True" and "de_name e = Some n"
        with that fresh have "sock n \<noteq> ?p"
          by (auto simp: visited_def)
        then show "c1 (sock n) = cache (sock n)"
          by (rule c1)
      qed
      then show ?thesis
        by (rule map_filter_cong)
    qed
    have vis: "visited sock (d # ds) = insert ?p (visited sock ds)"
      using d by (auto simp: visited_def)
    have cache: "(\<lambda>q. if q \<in> visited sock ds then snd (cached_control_socket_peer_pid (env q) q c1) q else c1 q) =
        (\<lambda>q. if q \<in> visited sock (d # ds) then snd (cached_control_socket_peer_pid (env q) q cache) q else cache q)"
    proof
      fix q
      show "(if q \<in> visited sock ds then snd (cached_control_socket_peer_pid (env q) q c1) q else c1 q) =
        (if q \<in> visited sock (d # ds) then snd (cached_control_socket_peer_pid (env q) q cache) q else cache q)"
        using fresh peer c1 [of q] cached_peer_local(2) [of c1 q cache "env q"]
        by (cases "q = ?p") (auto simp: vis)
    qed
    have here: "entry_instance sock env mk cache d = (case r of
        Inl _ \<Rightarrow> None | Inr pid \<Rightarrow> Some (instance_new name ?p pid (mk ?p)))"
      using d peer by (simp add: entry_instance_def)
    show ?thesis
      using d peer
      by (cases r) (simp_all add: IH rest cache here List.map_filter_simps instance_new_def Let_def)
  qed
qed

lemma path_join_append: "path_join p (q @ Normal a # s) = path_join p q @ Normal a # s"
  by (cases q) (simp_all add: path_join_def path_is_absolute_def)

lemma socket_path_eq:
  "socket_path rootp dir name x = path_new rootp (path_join dir dir) @ [Normal x, Normal name]"
proof -
  have "path_join (path_join dir [Normal x]) [Normal name] = dir @ [Normal x, Normal name]"
    using path_join_append [of dir "[]" x "[]"] path_join_append [of "path_join dir [Normal x]" "[]" name "[]"]
    by (simp add: path_join_def path_is_absolute_def)
  then have "path_join dir (path_join (path_join dir [Normal x]) [Normal name]) =
      path_join dir dir @ [Normal x, Normal name]"
    using path_join_append [of dir dir x "[Normal name]"] by simp
  then show ?thesis
    using path_join_append [of rootp "tl (path_join dir dir)" x "[Normal name]"]
    by (cases "path_join dir dir") (simp_all add: socket_path_def path_new_def path_is_absolute_def)
qed

lemma socket_path_inj: "inj (socket_path rootp dir name)"
  by (rule injI) (simp add: socket_path_eq)

text \<open>
  Discovery judges every entry on its own.  Over a directory with distinct names, the pass lists,
  in directory order, one VM for each subdirectory whose socket's peer can be identified, with the
  process the single look at that socket gives: no socket that is missing or busy hides another VM
  or ends the pass.
\<close>

lemma discovery_is_per_entry:
  assumes "distinct (List.map_filter de_name ds)"
  shows "fst (discover_via_control_socket rootp dir name env mk (Inr (map Inr ds)) cache) =
    Inr (List.map_filter (entry_instance (socket_path rootp dir name) env mk cache) ds)"
  unfolding discover_via_control_socket_def sum.case discover_entries_spec [OF assms socket_path_inj]
  by simp

lemma instance_new_simps [simp]:
  "inst_id (instance_new i p pid c) = i" "inst_sock_path (instance_new i p pid c) = p"
  "inst_pid (instance_new i p pid c) = pid" "inst_client (instance_new i p pid c) = c"
  by (simp_all add: instance_new_def)

lemma discover_eq:
  fixes mk :: "path \<Rightarrow> 'c"
  assumes "distinct (List.map_filter de_name ds)"
  shows "discover_via_control_socket rootp dir name env mk (Inr (map Inr ds)) cache =
    (Inr (List.map_filter (entry_instance (socket_path rootp dir name) env mk cache) ds :: ('c, 'r) vm_instance list),
     \<lambda>p. if \<not> prefix dir p \<or> p \<in> inst_sock_path ` set (List.map_filter
             (entry_instance (socket_path rootp dir name) env mk cache) ds :: ('c, 'r) vm_instance list)
         then (if p \<in> visited (socket_path rootp dir name) ds
               then snd (cached_control_socket_peer_pid (env p) p cache) p else cache p)
         else None)"
  unfolding discover_via_control_socket_def sum.case discover_entries_spec [OF assms socket_path_inj]
  by simp

text \<open>
  Passes one after the other, each with its own readings of the sockets and of the directory, over one
  cache.
\<close>

fun discover_passes ::
  "path \<Rightarrow> path \<Rightarrow> string \<Rightarrow> (path \<Rightarrow> 'c) \<Rightarrow>
   ((path \<Rightarrow> socket_env) \<times> (io_failure + (io_failure + dir_entry) list)) list \<Rightarrow> peer_cache \<Rightarrow>
   (io_failure + ('c, 'r) vm_instance list) list"
where
  "discover_passes rootp dir name make_client [] cache = []"
| "discover_passes rootp dir name make_client ((env, read_dir) # passes) cache =
     (case discover_via_control_socket rootp dir name env make_client read_dir cache of
        (r, cache) \<Rightarrow> r # discover_passes rootp dir name make_client passes cache)"

text \<open>A peer the cache knows, and readings that agree with it.\<close>

definition still_there :: "socket_env \<Rightarrow> cached_peer \<Rightarrow> bool" where
  "still_there env peer \<longleftrightarrow> se_metadata env = Inr (cp_dev peer, cp_ino peer) \<and>
     se_start_before env (cp_pid peer) = Some (cp_start_time peer)"

lemma still_there_hit:
  "cache p = Some peer \<Longrightarrow> still_there env peer \<Longrightarrow>
   cached_control_socket_peer_pid env p cache = (Inr (cp_pid peer), cache)"
  by (simp add: cached_control_socket_peer_pid_def still_there_def)

definition lists_entry :: "string \<Rightarrow> (io_failure + dir_entry) list \<Rightarrow> bool" where
  "lists_entry n es \<longleftrightarrow> (\<exists>d. Inr d \<in> set es \<and> de_is_dir d = Some True \<and> de_name d = Some n)"

lemma entries_keep_known:
  fixes r :: "io_failure + ('c, 'r) vm_instance list \<times> path set"
  assumes "cache (sock n) = Some peer" and "still_there (env (sock n)) peer"
    and "discover_entries sock env mk es cache = (r, cache')"
  shows "cache' (sock n) = Some peer \<and>
    (\<forall>insts seen. r = Inr (insts, seen) \<longrightarrow> (\<forall>x\<in>set es. \<not> isl x) \<and>
       (lists_entry n es \<longrightarrow> sock n \<in> seen \<and> (\<exists>j\<in>set insts. inst_id j = n \<and> inst_pid j = cp_pid peer)))"
  using assms
proof (induction es arbitrary: cache r cache')
  case Nil
  then show ?case
    by (simp add: lists_entry_def)
next
  case (Cons x es)
  let ?run = "discover_entries sock env mk :: _ \<Rightarrow> _ \<Rightarrow>
    (io_failure + ('c, 'r) vm_instance list \<times> path set) \<times> _"
  show ?case
  proof (cases x)
    case (Inl e)
    with Cons.prems have "r = Inl e" "cache' = cache"
      by simp_all
    with Cons.prems(1) show ?thesis
      by simp
  next
    case x: (Inr d)
    show ?thesis
    proof (cases "\<exists>m. de_is_dir d = Some True \<and> de_name d = Some m")
      case False
      then have "?run (x # es) cache = ?run es cache"
        by (auto simp: x split: option.split bool.split)
      moreover have "lists_entry n (x # es) = lists_entry n es"
        using False by (auto simp: lists_entry_def x)
      ultimately show ?thesis
        using Cons.IH [where cache = cache, OF Cons.prems(1,2)] Cons.prems(3) x by auto
    next
      case True
      then obtain m where m: "de_is_dir d = Some True" "de_name d = Some m"
        by blast
      obtain res c1 where peer: "cached_control_socket_peer_pid (env (sock m)) (sock m) cache = (res, c1)"
        by fastforce
      obtain r2 c2 where rest: "?run es c1 = (r2, c2)"
        by fastforce
      have here: "c1 (sock n) = Some peer \<and> (sock m = sock n \<longrightarrow> res = Inr (cp_pid peer))"
        using still_there_hit [where cache = cache, OF Cons.prems(1,2)] cached_peer_other [of "sock n" "sock m" "env (sock m)" cache]
          Cons.prems(1) peer by (cases "sock m = sock n") auto
      have run: "r = (case res of Inl _ \<Rightarrow> r2 | Inr pid \<Rightarrow> result_map (\<lambda>(insts, seen).
          (instance_new m (sock m) pid (mk (sock m)) # insts, insert (sock m) seen)) r2)" "cache' = c2"
        using Cons.prems(3) m peer rest by (auto simp: x Let_def split: sum.splits)
      have "lists_entry n (x # es) \<longleftrightarrow> m = n \<or> lists_entry n es"
        using m by (auto simp: lists_entry_def x)
      with Cons.IH [where cache = c1, OF conjunct1 [OF here] Cons.prems(2) rest] here m show ?thesis
        by (cases res; cases r2) (auto simp: run x)
    qed
  qed
qed

lemma discover_entries_ok:
  fixes mk :: "path \<Rightarrow> 'c"
  assumes "\<forall>x\<in>set es. \<not> isl x"
  shows "\<not> isl (fst (discover_entries sock env mk es cache ::
    (io_failure + ('c, 'r) vm_instance list \<times> path set) \<times> peer_cache))"
  using assms
proof (induction es arbitrary: cache)
  case (Cons x es)
  let ?run = "discover_entries sock env mk :: _ \<Rightarrow> _ \<Rightarrow>
    (io_failure + ('c, 'r) vm_instance list \<times> path set) \<times> _"
  from Cons obtain d where x: "x = Inr d"
    by (cases x) auto
  have rest: "\<not> isl (fst (?run es cache))" for cache
    using Cons by simp
  show ?case
  proof (cases "\<exists>m. de_is_dir d = Some True \<and> de_name d = Some m")
    case True
    then obtain m where m: "de_is_dir d = Some True" "de_name d = Some m"
      by blast
    obtain res c1 where peer: "cached_control_socket_peer_pid (env (sock m)) (sock m) cache = (res, c1)"
      by fastforce
    obtain out c2 where "?run es c1 = (Inr out, c2)"
      using rest [of c1] by (cases "?run es c1"; cases "fst (?run es c1)") auto
    with m peer show ?thesis
      by (cases res) (simp_all add: x Let_def)
  next
    case False
    with rest show ?thesis
      by (auto simp: x split: option.split bool.split)
  qed
qed simp

text \<open>What a pass finds in the directory, if it gets through it: the subdirectory of a VM.\<close>

fun finds_entry :: "string \<Rightarrow> io_failure + (io_failure + dir_entry) list \<Rightarrow> bool" where
  "finds_entry n (Inl _) \<longleftrightarrow> True"
| "finds_entry n (Inr es) \<longleftrightarrow> lists_entry n es \<or> (\<exists>x\<in>set es. isl x)"

lemma pass_keeps_known:
  fixes mk :: "path \<Rightarrow> 'c" and r :: "io_failure + ('c, 'r) vm_instance list"
  assumes "cache (socket_path rootp dir name n) = Some peer"
    and "still_there (env (socket_path rootp dir name n)) peer" and "finds_entry n rd"
    and "discover_via_control_socket rootp dir name env mk rd cache = (r, cache')"
  shows "cache' (socket_path rootp dir name n) = Some peer"
    and "rd = Inr es \<Longrightarrow> \<forall>x\<in>set es. \<not> isl x \<Longrightarrow>
      \<exists>insts. r = Inr insts \<and> (\<exists>j\<in>set insts. inst_id j = n \<and> inst_pid j = cp_pid peer)"
proof -
  let ?run = "discover_entries (socket_path rootp dir name) env mk :: _ \<Rightarrow> _ \<Rightarrow>
    (io_failure + ('c, 'r) vm_instance list \<times> path set) \<times> _"
  have "cache' (socket_path rootp dir name n) = Some peer \<and> (\<forall>es. rd = Inr es \<longrightarrow> (\<forall>x\<in>set es. \<not> isl x) \<longrightarrow>
      (\<exists>insts. r = Inr insts \<and> (\<exists>j\<in>set insts. inst_id j = n \<and> inst_pid j = cp_pid peer)))"
  proof (cases rd)
    case (Inl e)
    with assms show ?thesis
      by (simp add: discover_via_control_socket_def)
  next
    case (Inr es)
    obtain r2 c2 where run: "?run es cache = (r2, c2)"
      by fastforce
    note kept = entries_keep_known [where cache = cache, OF assms(1,2) run]
    show ?thesis
    proof (cases r2)
      case (Inl e)
      then have "\<exists>x\<in>set es. isl x"
        using discover_entries_ok [of es "socket_path rootp dir name" env mk cache, where 'r = 'r] run by auto
      with kept assms(4) run Inl show ?thesis
        by (auto simp: Inr discover_via_control_socket_def)
    next
      case out: (Inr out)
      with kept assms(3,4) run show ?thesis
        by (cases out) (auto simp: Inr discover_via_control_socket_def)
    qed
  qed
  then show "cache' (socket_path rootp dir name n) = Some peer"
    and "rd = Inr es \<Longrightarrow> \<forall>x\<in>set es. \<not> isl x \<Longrightarrow>
      \<exists>insts. r = Inr insts \<and> (\<exists>j\<in>set insts. inst_id j = n \<and> inst_pid j = cp_pid peer)"
    by auto
qed

lemma passes_keep_known:
  fixes mk :: "path \<Rightarrow> 'c"
  assumes "cache (socket_path rootp dir name n) = Some peer"
    and "\<forall>p\<in>set passes. still_there (fst p (socket_path rootp dir name n)) peer \<and> finds_entry n (snd p)"
    and "k < length passes" and "snd (passes ! k) = Inr es" and "\<forall>x\<in>set es. \<not> isl x"
  shows "\<exists>insts :: ('c, 'r) vm_instance list. discover_passes rootp dir name mk passes cache ! k = Inr insts \<and>
    (\<exists>j\<in>set insts. inst_id j = n \<and> inst_pid j = cp_pid peer)"
  using assms
proof (induction passes arbitrary: cache k)
  case (Cons p passes)
  obtain env rd where p: "p = (env, rd)"
    by fastforce
  obtain r :: "io_failure + ('c, 'r) vm_instance list" and c where pass: "discover_via_control_socket rootp dir name env mk rd cache = (r, c)"
    by fastforce
  have "still_there (env (socket_path rootp dir name n)) peer" and "finds_entry n rd"
    using Cons.prems(2) by (simp_all add: p)
  note here = pass_keeps_known [where cache = cache, OF Cons.prems(1) this pass]
  show ?case
  proof (cases k)
    case 0
    then show ?thesis
      using here(2) [of es] Cons.prems(4,5) pass by (auto simp: p)
  next
    case (Suc j)
    from Cons.IH [where cache = c and k = j, OF here(1)] Cons.prems Suc show ?thesis
      by (simp add: p pass)
  qed
qed simp

text \<open>
  C22: a known VM needs no connection.  Once a pass has identified the peer of a socket, every later
  pass that reads the directory lists the VM again with the same process identifier, whatever a
  connection would answer in it or in a pass before it: a backend too busy to accept one is not taken
  for a VM that went away.  This holds for as long as the socket file and the process stay the same
  and every pass that gets through the directory finds the VM's subdirectory; passes that cannot open
  the directory, or fail on it half-way, do no harm.
\<close>

theorem known_vm_survives_busy_socket:
  fixes mk :: "path \<Rightarrow> 'c" and i :: "('c, 'r) vm_instance"
  assumes "distinct (List.map_filter de_name ds)"
    and "discover_via_control_socket rootp dir name env mk (Inr (map Inr ds)) cache = (Inr insts, cache')"
    and "i \<in> set insts"
    and "se_start_before (env (inst_sock_path i)) (inst_pid i) = Some t"
    and "se_start_after (env (inst_sock_path i)) (inst_pid i) = Some t"
    and same: "\<forall>(env', rd)\<in>set passes.
      se_metadata (env' (inst_sock_path i)) = se_metadata (env (inst_sock_path i)) \<and>
      se_start_before (env' (inst_sock_path i)) (inst_pid i) = Some t \<and> finds_entry (inst_id i) rd"
    and "k < length passes" and "snd (passes ! k) = Inr (map Inr ds')"
  shows "case discover_passes rootp dir name mk passes cache' ! k of
      Inl _ \<Rightarrow> False
    | Inr insts' \<Rightarrow> \<exists>j\<in>set (insts' :: ('c, 'r) vm_instance list). inst_id j = inst_id i \<and> inst_pid j = inst_pid i"
proof -
  let ?sock = "socket_path rootp dir name"
  have insts: "insts = List.map_filter (entry_instance ?sock env mk cache) ds"
    and cache': "cache' = (\<lambda>p. if \<not> prefix dir p \<or> p \<in> inst_sock_path ` set insts
         then (if p \<in> visited ?sock ds then snd (cached_control_socket_peer_pid (env p) p cache) p else cache p)
         else None)"
    using assms(2) discover_eq [OF assms(1), of rootp dir name env mk cache, where 'r = 'r] by auto
  obtain e where e: "e \<in> set ds" "entry_instance ?sock env mk cache e = Some i"
    using assms(3) by (auto simp: insts set_map_filter_iff)
  then obtain n pid where n: "de_is_dir e = Some True" "de_name e = Some n"
      "fst (cached_control_socket_peer_pid (env (?sock n)) (?sock n) cache) = Inr pid"
      "i = instance_new n (?sock n) pid (mk (?sock n))"
    by (auto simp: entry_instance_Some)
  have i: "inst_id i = n" "inst_sock_path i = ?sock n" "inst_pid i = pid"
    by (simp_all add: n(4) instance_new_def)
  have "?sock n \<in> visited ?sock ds"
    using e(1) n(1,2) by (auto simp: visited_def)
  moreover have "?sock n \<in> inst_sock_path ` set insts"
    using assms(3) i(2) by (metis imageI)
  moreover obtain dev ino where meta: "se_metadata (env (?sock n)) = Inr (dev, ino)"
      "snd (cached_control_socket_peer_pid (env (?sock n)) (?sock n) cache) (?sock n) =
        Some \<lparr>cp_dev = dev, cp_ino = ino, cp_pid = pid, cp_start_time = t\<rparr>"
    using cached_peer_known [OF n(3)] assms(4,5) unfolding i by metis
  ultimately have known: "cache' (?sock n) = Some \<lparr>cp_dev = dev, cp_ino = ino, cp_pid = pid, cp_start_time = t\<rparr>"
    by (simp add: cache')
  have there: "\<forall>p\<in>set passes. still_there (fst p (?sock n))
      \<lparr>cp_dev = dev, cp_ino = ino, cp_pid = pid, cp_start_time = t\<rparr> \<and> finds_entry n (snd p)"
    using same meta(1) unfolding i by (auto simp: still_there_def)
  have "\<forall>x\<in>set (map Inr ds'). \<not> isl x"
    by simp
  from passes_keep_known [where cache = cache' and passes = passes and mk = mk and 'r = 'r, OF known there assms(7,8) this]
  show ?thesis
    by (auto simp: i)
qed

text \<open>One VM: the first pass connects, the second one could not.\<close>

definition demo_socket :: "(io_failure + (io_failure + i32 option)) \<Rightarrow> path \<Rightarrow> socket_env" where
  "demo_socket connect p =
     \<lparr>se_metadata = Inr (1, 2), se_start_before = (\<lambda>_. Some 77), se_connect = connect,
      se_start_after = (\<lambda>_. Some 77)\<rparr>"

definition demo_entry :: dir_entry where
  "demo_entry = \<lparr>de_name = Some ''vm'', de_is_dir = Some True\<rparr>"

text \<open>The second pass cannot open the directory, in the third the socket is busy.\<close>

lemma known_vm_survives_busy_socket_witness:
  "case discover_passes [RootDir] [RootDir, Normal ''run''] ''qmp'' (\<lambda>_. ())
      [(demo_socket (Inr (Inr None)), Inl (KindNotFound, ''gone'')),
       (demo_socket (Inl (WouldBlock, ''busy'')), Inr (map Inr [demo_entry]))]
      (snd (discover_via_control_socket [RootDir] [RootDir, Normal ''run''] ''qmp''
        (demo_socket (Inr (Inr (Some 42)))) (\<lambda>_. ()) (Inr (map Inr [demo_entry])) (\<lambda>_. None)
        :: (io_failure + (unit, unit) vm_instance list) \<times> peer_cache)) ! 1 of
     Inl _ \<Rightarrow> False
   | Inr insts \<Rightarrow> \<exists>j\<in>set insts. inst_id j = ''vm'' \<and> inst_pid (j :: (unit, unit) vm_instance) = 42"
proof -
  let ?p = "socket_path [RootDir] [RootDir, Normal ''run''] ''qmp'' ''vm''"
  let ?i = "instance_new ''vm'' ?p 42 () :: (unit, unit) vm_instance"
  let ?passes = "[(demo_socket (Inr (Inr None)), Inl (KindNotFound, ''gone'')),
       (demo_socket (Inl (WouldBlock, ''busy'')), Inr (map Inr [demo_entry]))]"
  have dist: "distinct (List.map_filter de_name [demo_entry])"
    by (simp add: List.map_filter_simps demo_entry_def)
  obtain insts c where first: "(discover_via_control_socket [RootDir] [RootDir, Normal ''run''] ''qmp''
        (demo_socket (Inr (Inr (Some 42)))) (\<lambda>_. ()) (Inr (map Inr [demo_entry])) (\<lambda>_. None)
        :: (io_failure + (unit, unit) vm_instance list) \<times> peer_cache) = (Inr insts, c)" and "insts = [?i]"
    unfolding discover_eq [OF dist]
    by (simp add: List.map_filter_simps entry_instance_def demo_entry_def demo_socket_def
        cached_control_socket_peer_pid_def control_socket_peer_pid_def)
  then have "?i \<in> set insts"
    by simp
  from known_vm_survives_busy_socket [OF dist first this, where t = 77 and passes = ?passes and k = 1 and
      ds' = "[demo_entry]", unfolded instance_new_simps]
  moreover have "finds_entry ''vm'' (Inr (map Inr [demo_entry]))"
    by (auto simp: demo_entry_def lists_entry_def)
  ultimately show ?thesis
    unfolding first snd_conv by (simp add: demo_socket_def)
qed

lemma discovery_is_per_entry_witness:
  "fst (discover_via_control_socket [RootDir] [RootDir, Normal ''run''] ''qmp''
     (demo_socket (Inr (Inr (Some 42)))) (\<lambda>_. ()) (Inr (map Inr [demo_entry])) (\<lambda>_. None)) =
   Inr [instance_new ''vm'' (socket_path [RootDir] [RootDir, Normal ''run''] ''qmp'' ''vm'') 42 ()
     :: (unit, unit) vm_instance]"
  using discovery_is_per_entry [of "[demo_entry]" "[RootDir]" "[RootDir, Normal ''run'']" "''qmp''"
      "demo_socket (Inr (Inr (Some 42)))" "\<lambda>_. ()" "\<lambda>_. None"]
  by (simp add: List.map_filter_simps entry_instance_def demo_entry_def demo_socket_def
      cached_control_socket_peer_pid_def control_socket_peer_pid_def)

end
