(* ===== verification/Per_VM_Logs.thy ===== *)
theory Per_VM_Logs
  imports Paths
begin

section \<open>Per-VM log files (per\_vm\_log.rs)\<close>

text \<open>
  A layer of the logging framework that appends every event with a \<open>vm\<close> field to that VM's
  own file.  A string is the list of its UTF-8 bytes; \<open>chars()\<close> sees one character per byte
  that is no continuation byte.  The filter of the main log is the framework's and is left out.
\<close>

record per_vm_log =
  pl_dir :: "path option"
  pl_warned :: "string set"

definition log_default :: per_vm_log where
  "log_default = \<lparr>pl_dir = None, pl_warned = {}\<rparr>"

definition set_dir :: "path option \<Rightarrow> per_vm_log \<Rightarrow> per_vm_log" where
  "set_dir dir l = l\<lparr>pl_dir := dir\<rparr>"

definition is_safe_char :: "char \<Rightarrow> bool" where
  "is_safe_char c =
     (let n = of_char c :: nat
      in 48 \<le> n \<and> n \<le> 57 \<or> 65 \<le> n \<and> n \<le> 90 \<or> 97 \<le> n \<and> n \<le> 122 \<or> c \<in> {CHR ''-'', CHR ''_'', CHR ''.''})"

definition is_continuation :: "char \<Rightarrow> bool" where
  "is_continuation c = (let n = of_char c :: nat in 128 \<le> n \<and> n < 192)"

definition log_name :: "string \<Rightarrow> string" where
  "log_name vm =
     map (\<lambda>c. if is_safe_char c then c else CHR ''_'') (filter (\<lambda>c. \<not> is_continuation c) vm)"

definition log_path :: "string \<Rightarrow> per_vm_log \<Rightarrow> path option" where
  "log_path vm l = map_option (\<lambda>dir. path_join dir (parse_path (log_name vm @ ''.log''))) (pl_dir l)"

text \<open>
  What the system does to one append: an error of creating the directory or opening the file, or an
  error of the write after some bytes.
\<close>

datatype append_fault = NoFault | BeforeWrite io_error | DuringWrite nat io_error

definition append_file :: "append_fault \<Rightarrow> path \<Rightarrow> string \<Rightarrow> file_system \<Rightarrow> io_error option \<times> file_system" where
  "append_file fault p data fs =
     (let old = (case fs p of None \<Rightarrow> [] | Some s \<Rightarrow> s)
      in case fault of
           NoFault \<Rightarrow> (None, fs(p \<mapsto> old @ data))
         | BeforeWrite e \<Rightarrow> (Some e, fs)
         | DuringWrite n e \<Rightarrow> (Some e, fs(p \<mapsto> old @ take n data)))"

text \<open>\<open>append\<close>: the warning written to standard error, if any, as the VM and the error.\<close>

definition append_log ::
  "string \<Rightarrow> append_fault \<Rightarrow> string \<Rightarrow> string \<Rightarrow> per_vm_log \<Rightarrow> file_system \<Rightarrow>
   (string \<times> io_error) option \<times> per_vm_log \<times> file_system"
where
  "append_log stamp fault vm line l fs =
     (case log_path vm l of
        None \<Rightarrow> (None, l, fs)
      | Some p \<Rightarrow>
          (case append_file fault p (stamp @ '' '' @ line @ ''\<newline>'') fs of
             (None, fs') \<Rightarrow> (None, l, fs')
           | (Some e, fs') \<Rightarrow>
               if vm \<in> pl_warned l then (None, l, fs')
               else (Some (vm, e), l\<lparr>pl_warned := insert vm (pl_warned l)\<rparr>, fs')))"

subsection \<open>Events\<close>

record log_record =
  rec_vm :: "string option"
  rec_message :: "string option"
  rec_fields :: string

definition record_default :: log_record where
  "record_default = \<lparr>rec_vm = None, rec_message = None, rec_fields = []\<rparr>"

definition record_field :: "log_record \<Rightarrow> string \<times> string \<Rightarrow> log_record" where
  "record_field r f = (case f of (name, v) \<Rightarrow>
     if name = ''vm'' then r\<lparr>rec_vm := Some v\<rparr>
     else if name = ''message'' then r\<lparr>rec_message := Some v\<rparr>
     else r\<lparr>rec_fields := rec_fields r @ (if rec_fields r = [] then [] else '' '') @ name @ ''='' @ v\<rparr>)"

definition record_line :: "log_record \<Rightarrow> string" where
  "record_line r =
     (case rec_message r of
        Some m \<Rightarrow> if rec_fields r = [] then m else m @ '' '' @ rec_fields r
      | None \<Rightarrow> rec_fields r)"

text \<open>\<open>on_event\<close>: an event is the list of its fields, rendered.\<close>

definition on_event ::
  "string \<Rightarrow> append_fault \<Rightarrow> (string \<times> string) list \<Rightarrow> per_vm_log \<Rightarrow> file_system \<Rightarrow>
   (string \<times> io_error) option \<times> per_vm_log \<times> file_system"
where
  "on_event stamp fault entries l fs =
     (if pl_dir l = None then (None, l, fs)
      else let r = foldl record_field record_default entries
           in case rec_vm r of
                None \<Rightarrow> (None, l, fs)
              | Some vm \<Rightarrow> append_log stamp fault vm (record_line r) l fs)"

fun on_events ::
  "(string \<times> append_fault \<times> (string \<times> string) list) list \<Rightarrow> per_vm_log \<Rightarrow> file_system \<Rightarrow>
   (string \<times> io_error) list \<times> per_vm_log \<times> file_system"
where
  "on_events [] l fs = ([], l, fs)"
| "on_events ((stamp, fault, entries) # es) l fs =
     (let (w, l, fs) = on_event stamp fault entries l fs;
          (ws, l, fs) = on_events es l fs
      in ((case w of None \<Rightarrow> ws | Some x \<Rightarrow> x # ws), l, fs))"

subsection \<open>File names\<close>

lemma log_name_safe: "c \<in> set (log_name vm) \<Longrightarrow> is_safe_char c"
  by (auto simp: log_name_def is_safe_char_def Let_def split: if_splits)

lemma safe_not_continuation: "is_safe_char c \<Longrightarrow> \<not> is_continuation c"
  by (auto simp: is_safe_char_def is_continuation_def Let_def)

lemma log_name_id: "\<forall>c\<in>set vm. is_safe_char c \<Longrightarrow> log_name vm = vm"
  by (simp add: log_name_def safe_not_continuation map_idI filter_id_conv)

lemma slash_not_safe: "\<not> is_safe_char (CHR ''/'')"
  by (simp add: is_safe_char_def Let_def)

lemma split_on_single: "c \<notin> set s \<Longrightarrow> split_on c s = [s]"
  by (induction s) auto

lemma parse_single:
  assumes "CHR ''/'' \<notin> set s" and "s \<noteq> []" and "s \<noteq> ''.''" and "s \<noteq> ''..''"
  shows "parse_path s = [Normal s]"
proof -
  have "hd s \<noteq> CHR ''/''"
    using assms(1,2) by (cases s) auto
  with assms show ?thesis
    by (simp add: parse_path_def split_on_single Let_def)
qed

lemma log_file_name: "parse_path (log_name vm @ ''.log'') = [Normal (log_name vm @ ''.log'')]"
proof (rule parse_single)
  show "CHR ''/'' \<notin> set (log_name vm @ ''.log'')"
    using log_name_safe slash_not_safe by auto
  show "log_name vm @ ''.log'' \<noteq> ''.''" "log_name vm @ ''.log'' \<noteq> ''..''"
    by (auto simp: append_eq_Cons_conv)
qed simp

lemma log_path_eq: "log_path vm l = map_option (\<lambda>dir. dir @ [Normal (log_name vm @ ''.log'')]) (pl_dir l)"
  by (cases "pl_dir l") (auto simp: log_path_def log_file_name path_join_def path_is_absolute_def)

text \<open>
  C33: a VM's identifier cannot lead its log out of the log directory.  Whatever bytes the identifier
  has, its log file is directly inside the configured directory, under a name without slashes; and
  VMs whose identifiers consist of letters, digits, dashes, underscores and dots have files of their
  own.
\<close>

theorem log_path_confined:
  assumes "pl_dir l = Some dir"
  shows "\<exists>name. log_path vm l = Some (dir @ [Normal name]) \<and> CHR ''/'' \<notin> set name \<and>
    (\<forall>other. (\<forall>c\<in>set vm \<union> set other. is_safe_char c) \<and> log_path other l = log_path vm l \<longrightarrow> other = vm)"
proof -
  have "CHR ''/'' \<notin> set (log_name vm @ ''.log'')"
    using log_name_safe slash_not_safe by auto
  moreover have "other = vm" if "\<forall>c\<in>set vm \<union> set other. is_safe_char c"
      "log_path other l = log_path vm l" for other
    using that assms log_name_id [of vm] log_name_id [of other] by (simp add: log_path_eq)
  ultimately show ?thesis
    using assms by (auto simp: log_path_eq)
qed

lemma log_path_confined_witness:
  "\<exists>name. log_path ''../../etc/passwd'' (set_dir (Some [RootDir, Normal ''var'']) log_default) =
      Some ([RootDir, Normal ''var''] @ [Normal name]) \<and> CHR ''/'' \<notin> set name"
  using log_path_confined [of "set_dir (Some [RootDir, Normal ''var'']) log_default"
      "[RootDir, Normal ''var'']" "''../../etc/passwd''"]
  by (auto simp: set_dir_def)

subsection \<open>Rendering\<close>

definition last_of :: "string \<Rightarrow> (string \<times> string) list \<Rightarrow> string option" where
  "last_of name entries = map_of (rev entries) name"

definition plain_fields :: "(string \<times> string) list \<Rightarrow> string list" where
  "plain_fields entries = map (\<lambda>(n, v). n @ ''='' @ v)
     (filter (\<lambda>(n, _). n \<noteq> ''vm'' \<and> n \<noteq> ''message'') entries)"

lemma join_snoc: "join sep (xs @ [x]) = (if xs = [] then x else join sep xs @ sep @ x)"
  by (induction sep xs rule: join.induct) auto

lemma join_Cons: "join sep (x # xs) = (if xs = [] then x else x @ sep @ join sep xs)"
  by (cases xs) auto

lemma join_Nil_iff: "[] \<notin> set xs \<Longrightarrow> join sep xs = [] \<longleftrightarrow> xs = []"
  by (induction sep xs rule: join.induct) auto

lemma plain_fields_nonempty: "join '' '' (plain_fields entries) = [] \<longleftrightarrow> plain_fields entries = []"
  by (rule join_Nil_iff) (auto simp: plain_fields_def)

lemma plain_fields_snoc:
  "plain_fields (entries @ [(n, v)]) =
     plain_fields entries @ (if n = ''vm'' \<or> n = ''message'' then [] else [n @ ''='' @ v])"
  by (auto simp: plain_fields_def)

lemma record_entries:
  "foldl record_field record_default entries =
     \<lparr>rec_vm = last_of ''vm'' entries, rec_message = last_of ''message'' entries,
      rec_fields = join '' '' (plain_fields entries)\<rparr>"
proof (induction entries rule: rev_induct)
  case Nil
  then show ?case
    by (simp add: record_default_def last_of_def plain_fields_def)
next
  case (snoc e entries)
  obtain n v where e: "e = (n, v)"
    by (cases e)
  have step: "foldl record_field record_default (entries @ [e]) =
      record_field (foldl record_field record_default entries) e"
    by (simp only: foldl_append foldl.simps)
  show ?case
    unfolding step snoc.IH
    by (simp add: e record_field_def last_of_def plain_fields_snoc join_snoc plain_fields_nonempty)
qed

subsection \<open>Warnings\<close>

lemma append_log_warned:
  assumes "append_log stamp fault vm line l fs = (w, l', fs')"
  shows "pl_dir l' = pl_dir l \<and> pl_warned l \<subseteq> pl_warned l' \<and>
    (case w of None \<Rightarrow> pl_warned l' = pl_warned l
     | Some (v, _) \<Rightarrow> v \<notin> pl_warned l \<and> pl_warned l' = insert v (pl_warned l))"
  using assms by (auto simp: append_log_def split: option.splits prod.splits if_splits)

lemma on_event_warned:
  assumes "on_event stamp fault entries l fs = (w, l', fs')"
  shows "pl_dir l' = pl_dir l \<and> pl_warned l \<subseteq> pl_warned l' \<and>
    (case w of None \<Rightarrow> pl_warned l' = pl_warned l
     | Some (v, _) \<Rightarrow> v \<notin> pl_warned l \<and> pl_warned l' = insert v (pl_warned l))"
proof (cases "pl_dir l = None \<or> rec_vm (foldl record_field record_default entries) = None")
  case True
  then have "(w, l', fs') = (None, l, fs)"
    using assms by (cases "pl_dir l = None") (simp_all add: on_event_def Let_def)
  then show ?thesis
    by simp
next
  case False
  with assms obtain vm where "append_log stamp fault vm
      (record_line (foldl record_field record_default entries)) l fs = (w, l', fs')"
    by (auto simp: on_event_def Let_def)
  then show ?thesis
    by (rule append_log_warned)
qed

lemma on_events_warned:
  "on_events es l fs = (ws, l', fs') \<Longrightarrow>
   distinct (map fst ws) \<and> set (map fst ws) \<inter> pl_warned l = {} \<and>
   pl_warned l' = pl_warned l \<union> set (map fst ws) \<and> pl_dir l' = pl_dir l"
proof (induction es arbitrary: l fs ws l' fs')
  case Nil
  then show ?case by simp
next
  case (Cons e es)
  obtain stamp fault entries where e: "e = (stamp, fault, entries)"
    by (metis prod_cases3)
  obtain w l1 fs1 where one: "on_event stamp fault entries l fs = (w, l1, fs1)"
    by (metis prod_cases3)
  obtain ws1 l2 fs2 where rest: "on_events es l1 fs1 = (ws1, l2, fs2)"
    by (metis prod_cases3)
  have "ws = (case w of None \<Rightarrow> ws1 | Some x \<Rightarrow> x # ws1)" "l' = l2"
    using Cons.prems one rest by (simp_all add: e)
  with on_event_warned [OF one] Cons.IH [OF rest] show ?case
    by (cases w) auto
qed

end
