(* ===== verification/Runs.thy ===== *)
theory Runs
  imports Main
begin

section \<open>Runs of step relations\<close>

text \<open>
  The daemon, the dashboard and both together are step relations.  These contracts say what a single
  step has to keep so that every run keeps it; the theories of the components interpret them.
\<close>

subsection \<open>Invariants\<close>

locale kept_invariant =
  fixes step :: "'s \<Rightarrow> 's \<Rightarrow> bool"
    and inv :: "'s \<Rightarrow> bool"
  assumes preserved: "step s t \<Longrightarrow> inv s \<Longrightarrow> inv t"
begin

lemma run: "step\<^sup>*\<^sup>* s t \<Longrightarrow> inv s \<Longrightarrow> inv t"
  by (induction rule: rtranclp_induct) (auto intro: preserved)

end

text \<open>With the states the program starts from.\<close>

locale started_invariant = kept_invariant +
  fixes init :: "'s \<Rightarrow> bool"
  assumes started: "init s \<Longrightarrow> inv s"
begin

lemma reachable: "init s \<Longrightarrow> step\<^sup>*\<^sup>* s t \<Longrightarrow> inv t"
  using run started by blast

end

subsection \<open>Relations between the ends of a run\<close>

locale kept_relation =
  fixes step :: "'s \<Rightarrow> 's \<Rightarrow> bool"
    and rel :: "'s \<Rightarrow> 's \<Rightarrow> bool"
  assumes rel_refl: "rel s s"
    and rel_trans: "rel s t \<Longrightarrow> rel t u \<Longrightarrow> rel s u"
    and rel_step: "step s t \<Longrightarrow> rel s t"

sublocale kept_relation \<subseteq> from_start: kept_invariant step "rel s0" for s0
  by unfold_locales (blast intro: rel_trans rel_step)

context kept_relation
begin

lemma ends: "step\<^sup>*\<^sup>* s t \<Longrightarrow> rel s t"
  by (rule from_start.run [OF _ rel_refl])

end

subsection \<open>Simulations\<close>

text \<open>Every step of the whole is no step or some steps of one of its parts.\<close>

locale part_of_whole =
  fixes step :: "'s \<Rightarrow> 's \<Rightarrow> bool"
    and part_step :: "'p \<Rightarrow> 'p \<Rightarrow> bool"
    and part :: "'s \<Rightarrow> 'p"
  assumes part_moves: "step s t \<Longrightarrow> part_step\<^sup>*\<^sup>* (part s) (part t)"
begin

lemma part_run: "step\<^sup>*\<^sup>* s t \<Longrightarrow> part_step\<^sup>*\<^sup>* (part s) (part t)"
  by (induction rule: rtranclp_induct) (auto intro: rtranclp_trans part_moves)

end

end
