(* ===== verification/Daemon.thy ===== *)
theory Daemon
  imports Controller_Safety Discovery Per_VM_Logs Runs
begin

section \<open>The daemon (daemon.rs, dbus.rs, main.rs)\<close>

text \<open>
  The event loop that drives one controller, the D-Bus service in front of it, and the way from the
  command line to the loop.  One branch of the loop runs at a time, so an event is a function on the
  controller; callers on the bus run beside it, so the whole is a step relation.
\<close>

datatype daemon_error =
    DmController controller_error
  | DmInvalidWatchPath path
  | DmIo io_failure
  | DmZbus string

subsection \<open>Discovery and the watches\<close>

text \<open>The backends are asked concurrently; their answers are put together in their order.\<close>

definition discover_all :: "('c, 'r) vm_instance list list \<Rightarrow> ('c, 'r) vm_instance list" where
  "discover_all inventories = concat inventories"

definition reconcile ::
  "('c, 'r, 'e) controller_env \<Rightarrow> ('c, 'r) vm_instance list list \<Rightarrow> ('c, 'r, 'e) controller \<Rightarrow>
   ('c, 'r, 'e) controller"
where
  "reconcile env inventories c = snd (snd (sync_instances env (discover_all inventories) c))"

text \<open>The paths watched so far, or the first failure.\<close>

fun setup_inotify ::
  "(path \<Rightarrow> bool) \<Rightarrow> (path \<Rightarrow> io_failure option) \<Rightarrow> path list \<Rightarrow> daemon_error + path list"
where
  "setup_inotify is_dir add_fault [] = Inr []"
| "setup_inotify is_dir add_fault (p # ps) =
     (if \<not> is_dir p then Inl (DmInvalidWatchPath p)
      else case add_fault p of
             Some e \<Rightarrow> Inl (DmIo e)
           | None \<Rightarrow> result_map (\<lambda>watched. p # watched) (setup_inotify is_dir add_fault ps))"

subsection \<open>Start\<close>

definition per_vm_destination :: "config \<Rightarrow> string" where
  "per_vm_destination cfg =
     (if cfg_enable_per_vm_status_line cfg then
        (if cfg_enable_per_vm_main_log cfg then ''main log''
         else ''/var/log/io-thread-controller/vms/<vm>.log'')
      else ''disabled'')"

text \<open>
  What the system answers while the daemon starts: an error reading the registry, what the backends
  discover, whether the bus name can be served, which paths are directories and can be watched, and
  whether inotify and the signal handlers can be set up.
\<close>

record ('c, 'r) start_env =
  sv_registry_fault :: "io_error option"
  sv_discovered :: "('c, 'r) vm_instance list list"
  sv_serve :: "string + unit"
  sv_watch_paths :: "path list"
  sv_is_dir :: "path \<Rightarrow> bool"
  sv_add_fault :: "path \<Rightarrow> io_failure option"
  sv_inotify :: "io_failure + unit"
  sv_signals :: "io_failure + unit"

definition daemon_start ::
  "('c, 'r, 'e) controller_env \<Rightarrow> (string \<Rightarrow> string + vm_ownership) \<Rightarrow> ('c, 'r) start_env \<Rightarrow>
   file_system \<Rightarrow> config \<Rightarrow> 'e \<Rightarrow> daemon_error + ('c, 'r, 'e) controller"
where
  "daemon_start env dec sv fs cfg engine =
     result_bind (result_map_err DmController (controller_new dec (sv_registry_fault sv) fs cfg engine)) (\<lambda>c.
       let c = reconcile env (sv_discovered sv) c
       in result_bind (result_map_err DmZbus (sv_serve sv)) (\<lambda>_.
          result_bind (result_map_err DmIo (sv_inotify sv)) (\<lambda>_.
          result_bind (setup_inotify (sv_is_dir sv) (sv_add_fault sv) (sv_watch_paths sv)) (\<lambda>_.
          result_bind (result_map_err DmIo (sv_signals sv)) (\<lambda>_. Inr c)))))"

subsection \<open>The event loop\<close>

text \<open>
  The branches of the \<open>select\<close>, requests apart: the poll timer, a change below a watched path
  (or an error of the event stream), and the two signals.  The result is that of the loop, if the
  event ends it.
\<close>

datatype ('c, 'r) daemon_event =
    PollTick tick_env "('c, 'r) vm_instance list list"
  | PathEvent "io_failure option" "('c, 'r) vm_instance list list"
  | Terminate

fun loop_event ::
  "('c, 'r, 'e) controller_env \<Rightarrow> ('c, 'r) daemon_event \<Rightarrow> ('c, 'r, 'e) controller \<Rightarrow>
   (daemon_error + unit) option \<times> ('c, 'r, 'e) controller"
where
  "loop_event env (PollTick t inventories) c =
     (case tick env t c of
        (Inl e, c) \<Rightarrow> (Some (Inl (DmController e)), c)
      | (Inr _, c) \<Rightarrow> (None, reconcile env inventories c))"
| "loop_event env (PathEvent (Some e) inventories) c = (Some (Inl (DmIo e)), c)"
| "loop_event env (PathEvent None inventories) c = (None, reconcile env inventories c)"
| "loop_event env Terminate c = (Some (Inr ()), c)"

text \<open>
  The daemon among its callers.  The request channel holds one request, a caller waits for its
  answer until it gives up after the timeout, and the loop serves the request in the channel.
  Requests are numbered as they are accepted; \<open>dw_handled\<close>, \<open>dw_answers\<close>,
  \<open>dw_requests\<close> and \<open>dw_gone\<close> are the history of what was carried out, what was answered,
  what was accepted and which callers gave up.
\<close>

record ('c, 'r, 'e) daemon_world =
  dw_controller :: "('c, 'r, 'e) controller"
  dw_stopped :: "(daemon_error + unit) option"
  dw_queue :: "(nat \<times> dbus_request) list"
  dw_accepted :: nat
  dw_waiting :: "nat set"
  dw_handled :: "nat list"
  dw_answers :: "(nat \<times> dbus_reply) list"
  dw_requests :: "dbus_request list"
  dw_gone :: "nat set"

definition daemon_init :: "('c, 'r, 'e) controller \<Rightarrow> ('c, 'r, 'e) daemon_world" where
  "daemon_init c =
     \<lparr>dw_controller = c, dw_stopped = None, dw_queue = [], dw_accepted = 0, dw_waiting = {},
      dw_handled = [], dw_answers = [], dw_requests = [], dw_gone = {}\<rparr>"

definition accept_request ::
  "dbus_request \<Rightarrow> ('c, 'r, 'e) daemon_world \<Rightarrow> ('c, 'r, 'e) daemon_world" where
  "accept_request req w =
     w\<lparr>dw_queue := dw_queue w @ [(dw_accepted w, req)], dw_waiting := insert (dw_accepted w) (dw_waiting w),
       dw_accepted := Suc (dw_accepted w), dw_requests := dw_requests w @ [req]\<rparr>"

text \<open>The answer to a caller that has given up is dropped.\<close>

definition serve_request ::
  "('c, 'r, 'e) controller_env \<Rightarrow> ('c, 'r, 'e) daemon_world \<Rightarrow> ('c, 'r, 'e) daemon_world" where
  "serve_request env w =
     (case dw_queue w of
        [] \<Rightarrow> w
      | (n, req) # queue \<Rightarrow>
          (case handle_dbus_request env req (dw_controller w) of
             (reply, c) \<Rightarrow>
               w\<lparr>dw_controller := c, dw_queue := queue, dw_handled := dw_handled w @ [n],
                 dw_answers := dw_answers w @ (if n \<in> dw_waiting w then [(n, reply)] else []),
                 dw_waiting := dw_waiting w - {n}\<rparr>))"

inductive daemon_next ::
  "('c, 'r, 'e) controller_env \<Rightarrow> ('c, 'r, 'e) daemon_world \<Rightarrow> ('c, 'r, 'e) daemon_world \<Rightarrow> bool"
  for env
where
  caller_sends: "dw_stopped w = None \<Longrightarrow> dw_queue w = [] \<Longrightarrow> daemon_next env w (accept_request req w)"
| caller_gives_up: "n \<in> dw_waiting w \<Longrightarrow>
    daemon_next env w (w\<lparr>dw_waiting := dw_waiting w - {n}, dw_gone := insert n (dw_gone w)\<rparr>)"
| loop_serves: "dw_stopped w = None \<Longrightarrow> dw_queue w \<noteq> [] \<Longrightarrow> daemon_next env w (serve_request env w)"
| loop_handles: "dw_stopped w = None \<Longrightarrow> loop_event env ev (dw_controller w) = (stop, c) \<Longrightarrow>
    daemon_next env w (w\<lparr>dw_controller := c, dw_stopped := stop\<rparr>)"

inductive_cases daemon_nextE [elim!]: "daemon_next env w w'"

subsection \<open>What every step keeps\<close>

text \<open>What one reconciliation, one event and one step may do to the controller.\<close>

definition controller_kept ::
  "('c, 'r, 'e) controller \<Rightarrow> ('c, 'r, 'e) controller \<Rightarrow> bool" where
  "controller_kept c c' \<longleftrightarrow> (controller_ok c \<longrightarrow> controller_ok c' \<and> ct_cfg c' = ct_cfg c \<and>
     (\<forall>vm p. classification (ct_vm_ownership c) vm = Some p \<longrightarrow>
        classification (ct_vm_ownership c') vm = Some p))"

lemma controller_kept_refl [simp]: "controller_kept c c"
  by (simp add: controller_kept_def)

lemma controller_kept_trans: "controller_kept a b \<Longrightarrow> controller_kept b c \<Longrightarrow> controller_kept a c"
  by (auto simp: controller_kept_def)

lemma reconcile_frame [simp]:
  "ct_cfg (reconcile env inventories c) = ct_cfg c"
  "ct_vm_ownership (reconcile env inventories c) = ct_vm_ownership c"
  "ct_files (reconcile env inventories c) = ct_files c"
proof -
  obtain added removed cls c' where s: "sync_instances env (discover_all inventories) c = ((added, removed), cls, c')"
    by (metis surj_pair)
  then have "reconcile env inventories c = c'"
    by (simp add: reconcile_def)
  with sync_instances_get [OF s] show "ct_cfg (reconcile env inventories c) = ct_cfg c"
    "ct_vm_ownership (reconcile env inventories c) = ct_vm_ownership c"
    "ct_files (reconcile env inventories c) = ct_files c"
    by blast+
qed

lemma reconcile_ok:
  assumes "controller_ok c"
  shows "controller_ok (reconcile env inventories c)"
proof -
  obtain added removed cls c' where "sync_instances env (discover_all inventories) c = ((added, removed), cls, c')"
    by (metis surj_pair)
  with sync_effect [OF assms this] show ?thesis
    by (simp add: reconcile_def)
qed

lemma reconcile_kept: "controller_kept c (reconcile env inventories c)"
  by (simp add: controller_kept_def reconcile_ok)

lemma tick_kept: "tick env t c = (r, c') \<Longrightarrow> controller_kept c c'"
  unfolding controller_kept_def using tick_effect(1,2,5) by blast

lemma loop_event_kept:
  assumes "loop_event env ev c = (stop, c')"
  shows "controller_kept c c'"
proof (cases ev)
  case (PollTick t inventories)
  obtain r c1 where t: "tick env t c = (r, c1)"
    by fastforce
  with PollTick assms have "c' = c1 \<or> c' = reconcile env inventories c1"
    by (auto split: sum.splits)
  then show ?thesis
    using tick_kept [OF t] reconcile_kept controller_kept_trans by blast
next
  case (PathEvent fault inventories)
  with assms reconcile_kept show ?thesis
    by (cases fault) auto
qed (use assms in simp)

lemma request_kept: "controller_kept c (snd (handle_dbus_request env req c))"
  using handle_dbus_request_ok by (auto simp: controller_kept_def)

lemma serve_request_controller:
  "dw_controller (serve_request env w) =
     (case dw_queue w of [] \<Rightarrow> dw_controller w
      | (n, req) # q \<Rightarrow> snd (handle_dbus_request env req (dw_controller w)))"
  "dw_stopped (serve_request env w) = dw_stopped w"
  by (simp_all add: serve_request_def split: list.split prod.split)

lemma accept_request_simps [simp]:
  "dw_controller (accept_request req w) = dw_controller w"
  "dw_stopped (accept_request req w) = dw_stopped w"
  by (simp_all add: accept_request_def)

lemma daemon_next_kept:
  assumes "daemon_next env w w'"
  shows "controller_kept (dw_controller w) (dw_controller w')"
  using assms
  by (auto simp: serve_request_controller request_kept loop_event_kept split: list.split)

interpretation daemon_run: kept_relation "daemon_next env"
    "\<lambda>w w'. controller_kept (dw_controller w) (dw_controller w')"
  for env
  by unfold_locales (rule controller_kept_refl, erule (1) controller_kept_trans, erule daemon_next_kept)

subsection \<open>Requests are served in order\<close>

text \<open>What is carried out, waited for and answered.\<close>

definition requests_ordered :: "('c, 'r, 'e) daemon_world \<Rightarrow> bool" where
  "requests_ordered w \<longleftrightarrow>
     dw_handled w @ map fst (dw_queue w) = [0..<dw_accepted w] \<and> length (dw_queue w) \<le> 1 \<and>
     subseq (map fst (dw_answers w)) (dw_handled w) \<and>
     dw_waiting w \<inter> set (dw_handled w) = {} \<and> dw_waiting w \<subseteq> {..<dw_accepted w}"

lemma accept_request_ordered:
  assumes "requests_ordered w" and "dw_queue w = []"
  shows "requests_ordered (accept_request req w)"
proof -
  have "n < dw_accepted w" if "n \<in> set (dw_handled w)" for n
    using assms arg_cong [of _ _ set, OF assms(1) [unfolded requests_ordered_def, THEN conjunct1]] that by auto
  with assms show ?thesis
    by (force simp: requests_ordered_def accept_request_def)
qed

lemma daemon_next_ordered:
  assumes "daemon_next env w w'" and ordered: "requests_ordered w"
  shows "requests_ordered w'"
  using assms(1)
proof cases
  case (caller_sends req)
  with accept_request_ordered [OF ordered] show ?thesis
    by simp
next
  case loop_serves
  then obtain n req where q: "dw_queue w = [(n, req)]"
    using ordered by (cases "dw_queue w"; cases "tl (dw_queue w)") (auto simp: requests_ordered_def)
  obtain reply c' where h: "handle_dbus_request env req (dw_controller w) = (reply, c')"
    by fastforce
  have w': "dw_handled w' = dw_handled w @ [n]" "dw_queue w' = []" "dw_accepted w' = dw_accepted w"
      "dw_answers w' = dw_answers w @ (if n \<in> dw_waiting w then [(n, reply)] else [])"
      "dw_waiting w' = dw_waiting w - {n}"
    by (simp_all add: loop_serves(1) serve_request_def q h)
  have "subseq (map fst (dw_answers w')) (dw_handled w')"
    using ordered by (auto simp: requests_ordered_def w' intro: list_emb_append_mono)
  moreover have "dw_waiting w' \<inter> set (dw_handled w') = {}"
    using ordered by (auto simp: requests_ordered_def w')
  ultimately show ?thesis
    using ordered unfolding requests_ordered_def by (auto simp: w'(2,3,5) q simp flip: w'(1))
qed (use ordered in \<open>auto simp: requests_ordered_def\<close>)

lemma daemon_init_ordered: "requests_ordered (daemon_init c)"
  by (simp add: requests_ordered_def daemon_init_def)

interpretation requests: started_invariant "daemon_next env" requests_ordered "\<lambda>w. \<exists>c. w = daemon_init c"
  for env
  by unfold_locales (erule (1) daemon_next_ordered, erule exE, simp add: daemon_init_ordered)

text \<open>
  The loop without callers: a list of operations, each a request or an event, carried out one after
  the other on the controller.  The result is the answer to each request, the end of the loop if an
  event brought it, and the controller.
\<close>

datatype ('c, 'r) daemon_op = Serve nat dbus_request | Event "('c, 'r) daemon_event"

fun carry_out ::
  "('c, 'r, 'e) controller_env \<Rightarrow> ('c, 'r) daemon_op list \<Rightarrow> ('c, 'r, 'e) controller \<Rightarrow>
   (nat \<times> dbus_reply) list \<times> (daemon_error + unit) option \<times> ('c, 'r, 'e) controller"
where
  "carry_out env [] c = ([], None, c)"
| "carry_out env (Serve n req # ops) c =
     (case handle_dbus_request env req c of
        (reply, c') \<Rightarrow>
          (case carry_out env ops c' of (replies, stop, c'') \<Rightarrow> ((n, reply) # replies, stop, c'')))"
| "carry_out env (Event ev # ops) c =
     (case loop_event env ev c of
        (Some stop, c') \<Rightarrow> ([], Some stop, c')
      | (None, c') \<Rightarrow> carry_out env ops c')"

fun requests_of :: "('c, 'r) daemon_op list \<Rightarrow> (nat \<times> dbus_request) list" where
  "requests_of [] = []"
| "requests_of (Serve n req # ops) = (n, req) # requests_of ops"
| "requests_of (Event ev # ops) = requests_of ops"

lemma requests_of_append: "requests_of (ops @ ops') = requests_of ops @ requests_of ops'"
  by (induction ops rule: requests_of.induct) simp_all

lemma carry_out_append:
  "carry_out env ops c = (replies, None, c') \<Longrightarrow>
   carry_out env (ops @ ops') c = (case carry_out env ops' c' of (replies', r) \<Rightarrow> (replies @ replies', r))"
  by (induction env ops c arbitrary: replies rule: carry_out.induct)
    (auto split: prod.splits option.splits)

lemma carry_out_replies:
  "carry_out env ops c = (replies, None, c') \<Longrightarrow> map fst replies = map fst (requests_of ops)"
  by (induction env ops c arbitrary: replies rule: carry_out.induct)
    (auto split: prod.splits option.splits)

text \<open>
  The loop among its callers does what the loop alone does on some sequence of operations, in which
  the requests are those accepted so far, but for the one in the channel.
\<close>

definition carried_out ::
  "('c, 'r, 'e) controller_env \<Rightarrow> ('c, 'r, 'e) controller \<Rightarrow> ('c, 'r, 'e) daemon_world \<Rightarrow>
   ('c, 'r) daemon_op list \<Rightarrow> (nat \<times> dbus_reply) list \<Rightarrow> bool"
where
  "carried_out env c w ops replies \<longleftrightarrow>
     carry_out env ops c = (replies, dw_stopped w, dw_controller w) \<and>
     requests_of ops @ dw_queue w = enumerate 0 (dw_requests w) \<and>
     dw_answers w = filter (\<lambda>(n, _). n \<notin> dw_gone w) replies \<and>
     map fst replies = map fst (requests_of ops)"

definition callers_ok :: "('c, 'r, 'e) daemon_world \<Rightarrow> bool" where
  "callers_ok w \<longleftrightarrow> requests_ordered w \<and> dw_accepted w = length (dw_requests w) \<and>
     dw_gone w \<subseteq> {..<dw_accepted w} \<and>
     dw_waiting w = {..<dw_accepted w} - set (dw_handled w) - dw_gone w"

lemma daemon_next_callers:
  assumes "daemon_next env w w'" and "callers_ok w"
  shows "callers_ok w'"
proof -
  have handled: "n < dw_accepted w" if "n \<in> set (dw_handled w)" for n
    using assms(2) that arg_cong [of _ _ set, OF assms(2) [unfolded callers_ok_def requests_ordered_def,
        THEN conjunct1, THEN conjunct1]] by auto
  show ?thesis
    using assms(1)
  proof cases
    case (caller_sends req)
    with assms handled daemon_next_ordered [OF assms(1)] show ?thesis
      by (auto simp: callers_ok_def accept_request_def lessThan_Suc)
  next
    case loop_serves
    then obtain n req q where "dw_queue w = (n, req) # q"
      by (cases "dw_queue w") auto
    with assms loop_serves daemon_next_ordered [OF assms(1)] show ?thesis
      by (auto simp: callers_ok_def serve_request_def split: prod.splits)
  qed (use assms daemon_next_ordered [OF assms(1)] in \<open>auto simp: callers_ok_def\<close>)
qed

lemma carried_out_handled:
  assumes "carried_out env c w ops replies" and "callers_ok w"
  shows "dw_handled w = map fst (requests_of ops)"
proof -
  have "map fst (requests_of ops @ dw_queue w) = [0..<length (dw_requests w)]"
    using assms(1) by (simp only: carried_out_def enumerate_eq_zip map_fst_zip) simp
  also have "\<dots> = dw_handled w @ map fst (dw_queue w)"
    using assms(2) by (simp only: callers_ok_def requests_ordered_def)
  finally show ?thesis
    by simp
qed

definition in_order ::
  "('c, 'r, 'e) controller_env \<Rightarrow> ('c, 'r, 'e) controller \<Rightarrow> ('c, 'r, 'e) daemon_world \<Rightarrow> bool" where
  "in_order env c w \<longleftrightarrow> callers_ok w \<and> (\<exists>ops replies. carried_out env c w ops replies)"

lemma daemon_next_in_order:
  assumes "daemon_next env w w'" and "in_order env c w"
  shows "in_order env c w'"
proof -
  from assms(2) obtain ops replies where run: "carried_out env c w ops replies" and ok: "callers_ok w"
    by (auto simp: in_order_def)
  note ok' = daemon_next_callers [OF assms(1) ok]
  note handled = carried_out_handled [OF run ok]
  show ?thesis
    using assms(1)
  proof cases
    case (caller_sends req)
    then have "carried_out env c w' ops replies"
      using run ok by (simp add: carried_out_def accept_request_def callers_ok_def enumerate_append_eq)
    with ok' show ?thesis
      unfolding in_order_def by blast
  next
    case (caller_gives_up n)
    have "n \<notin> set (map fst replies)"
      using run ok caller_gives_up(2) handled by (auto simp: carried_out_def callers_ok_def)
    then have "filter (\<lambda>(m, _). m \<notin> insert n (dw_gone w)) replies = filter (\<lambda>(m, _). m \<notin> dw_gone w) replies"
      by (intro filter_cong) force+
    with run have "carried_out env c w' ops replies"
      by (simp add: carried_out_def caller_gives_up(1))
    with ok' show ?thesis
      unfolding in_order_def by blast
  next
    case loop_serves
    obtain n req q where q: "dw_queue w = (n, req) # q"
      using loop_serves by (cases "dw_queue w") auto
    obtain reply c' where h: "handle_dbus_request env req (dw_controller w) = (reply, c')"
      by fastforce
    have numbers: "dw_handled w @ n # map fst q = [0..<dw_accepted w]"
      using ok unfolding callers_ok_def requests_ordered_def q by (elim conjE) (simp only: list.map fst_conv)
    have "n \<notin> set (dw_handled w)" "n < dw_accepted w"
      using arg_cong [OF numbers, of distinct] arg_cong [OF numbers, of set] by auto
    then have "n \<in> dw_waiting w \<longleftrightarrow> n \<notin> dw_gone w"
      using ok by (auto simp: callers_ok_def)
    then have "carried_out env c w' (ops @ [Serve n req]) (replies @ [(n, reply)])"
      using run loop_serves q h
      by (auto simp: carried_out_def carry_out_append requests_of_append serve_request_def)
    with ok' show ?thesis
      unfolding in_order_def by blast
  next
    case (loop_handles ev stop c')
    then have "carried_out env c w' (ops @ [Event ev]) replies"
      using run by (auto simp: carried_out_def carry_out_append requests_of_append split: option.split)
    with ok' show ?thesis
      unfolding in_order_def by blast
  qed
qed

interpretation in_order: started_invariant "daemon_next env" "in_order env c" "\<lambda>w. w = daemon_init c"
  for env c
proof unfold_locales
  fix w :: "('a, 'b, 'c) daemon_world"
  assume w: "w = daemon_init c"
  have "carried_out env c w [] []" and "callers_ok w"
    using daemon_init_ordered [of c] by (simp_all add: w carried_out_def callers_ok_def daemon_init_def)
  then show "in_order env c w"
    unfolding in_order_def by blast
qed (erule (1) daemon_next_in_order)

text \<open>
  C11: the daemon serves its callers one at a time, in the order of their requests.  However callers
  and events interleave, the controller is where the loop alone would have brought it: there is a
  sequence of requests and events, carried out one after the other on the controller the daemon
  started with, that ends with the daemon's controller.  Its requests, followed by the one in the
  channel, are exactly the accepted requests in the order of their acceptance, each once and whether
  its caller still waits or not; at most one request is in the channel.  The answers given are the
  replies of that sequence to the callers that did not give up, and everyone else still waits.
\<close>

theorem requests_in_order:
  assumes "(daemon_next env)\<^sup>*\<^sup>* (daemon_init c) w"
  shows "\<exists>ops replies. carry_out env ops c = (replies, dw_stopped w, dw_controller w) \<and>
    requests_of ops @ dw_queue w = enumerate 0 (dw_requests w) \<and> length (dw_queue w) \<le> 1 \<and>
    dw_answers w = filter (\<lambda>(n, _). n \<notin> dw_gone w) replies \<and>
    dw_waiting w = {..<length (dw_requests w)} - fst ` set (requests_of ops) - dw_gone w"
proof -
  from in_order.reachable [OF refl assms] obtain ops replies where
      run: "carried_out env c w ops replies" and ok: "callers_ok w"
    by (auto simp: in_order_def)
  from carried_out_handled [OF this] run ok show ?thesis
    by (auto simp: carried_out_def callers_ok_def requests_ordered_def)
qed

subsection \<open>The registry follows the daemon\<close>

lemma with_client_files: "ct_files (snd (with_client vm call c)) = ct_files c"
  by (simp add: with_client_def split: option.split prod.split)

lemma handle_set_thread_count_files:
  "ct_files (snd (handle_set_thread_count env vm threads sticky c)) = ct_files c"
  by (simp add: handle_set_thread_count_def split: option.split prod.split sum.split)

lemma set_all_loop_files: "set_all_loop env ks threads sticky c = (n, fs, c') \<Longrightarrow> ct_files c' = ct_files c"
proof (induction ks arbitrary: c n fs c')
  case (Cons k ks)
  obtain r c1 where k: "handle_set_thread_count env k threads sticky c = (r, c1)"
    by fastforce
  obtain n1 fs1 c2 where rest: "set_all_loop env ks threads sticky c1 = (n1, fs1, c2)"
    by (metis prod_cases3)
  have "c' = c2"
    using Cons.prems k rest by (cases r) auto
  with Cons.IH [OF rest] handle_set_thread_count_files [of env k threads sticky c] k show ?case
    by simp
qed simp

lemma handle_dbus_request_files: "ct_files (snd (handle_dbus_request env req c)) = ct_files c"
proof (cases req)
  case (SetThreadCount vm threads sticky)
  then show ?thesis
    using handle_set_thread_count_files [of env vm threads sticky c]
    by (auto simp: handle_dbus_request_def split: prod.split)
next
  case (SetAllThreadCounts threads sticky)
  then show ?thesis
    using set_all_loop_files [of env "sort (hm_keys (ct_instances c))" threads sticky c]
    by (auto simp: handle_dbus_request_def handle_set_all_thread_counts_def Let_def split: prod.split)
next
  case (AddIoThread vm io n)
  define properties where "properties = (if 0 \<le> sint n
      then Some (io_thread_properties_default\<lparr>ip_poll_max_ns := Some n\<rparr>) else None)"
  have "snd (handle_dbus_request env req c) =
      snd (with_client vm (op_add_io_thread (client_of env) io properties) c)"
    unfolding AddIoThread handle_dbus_request_def properties_def dbus_request.case Let_def
    by (simp only: split_beta snd_conv)
  then show ?thesis
    by (simp add: with_client_files)
next
  case (SetIoThreadVqMapping vm device json)
  then show ?thesis
    by (cases "ce_parse_mapping env json")
      (simp_all add: handle_dbus_request_def split_beta with_client_files)
qed (simp_all add: handle_dbus_request_def split_beta with_client_files)

text \<open>The environment in which the registry's file is meaningful: it has a name, and what is encoded
  is decoded again.\<close>

definition registry_codec ::
  "('c, 'r, 'e) controller_env \<Rightarrow> (string \<Rightarrow> string + vm_ownership) \<Rightarrow> config \<Rightarrow> bool" where
  "registry_codec env dec cfg \<longleftrightarrow> path_file_name (cfg_vm_state_path cfg) \<noteq> None \<and>
     (\<forall>r data. ce_encode env r = Inr data \<longrightarrow> dec data = Inr r)"

definition save_failed :: "(daemon_error + unit) option \<Rightarrow> bool" where
  "save_failed stop \<longleftrightarrow> (\<exists>s. stop = Some (Inl (DmController (CtlState s))))"

text \<open>
  The registry on disk is the one in memory, or an older one whose replacement failed, which ends the
  daemon.
\<close>

definition registry_kept ::
  "(string \<Rightarrow> string + vm_ownership) \<Rightarrow> ('c, 'r, 'e) daemon_world \<Rightarrow> bool" where
  "registry_kept dec w \<longleftrightarrow> (\<exists>r. stored dec (dw_controller w) = Inr r \<and>
     (\<not> save_failed (dw_stopped w) \<longrightarrow> r = ct_vm_ownership (dw_controller w)) \<and>
     (\<forall>vm p. classification r vm = Some p \<longrightarrow>
        classification (ct_vm_ownership (dw_controller w)) vm = Some p))"

lemma stored_cong:
  "ct_files c' = ct_files c \<Longrightarrow> ct_cfg c' = ct_cfg c \<Longrightarrow> stored dec c' = stored dec c"
  by (simp add: stored_def)

lemma loop_event_stored:
  assumes ok: "controller_ok c" and ev: "loop_event env ev c = (stop, c')"
    and "registry_codec env dec (ct_cfg c)" and st: "stored dec c = Inr (ct_vm_ownership c)"
  shows "stored dec c' = Inr (ct_vm_ownership c') \<or> save_failed stop \<and> stored dec c' = Inr (ct_vm_ownership c)"
proof (cases ev)
  case (PollTick t inventories)
  obtain r c1 where t: "tick env t c = (r, c1)"
    by fastforce
  have "stored dec c1 = Inr (ct_vm_ownership c1) \<or>
      (\<exists>s. r = Inl (CtlState s)) \<and> stored dec c1 = Inr (ct_vm_ownership c)"
    using tick_stored [OF ok t _ _ st] assms(3) by (auto simp: registry_codec_def)
  then show ?thesis
    using ev PollTick t stored_cong [of "reconcile env inventories c1" c1 dec]
    by (cases r) (auto simp: save_failed_def)
next
  case (PathEvent fault inventories)
  with ev st stored_cong [of "reconcile env inventories c" c dec] show ?thesis
    by (cases fault) auto
qed (use ev st in simp)

lemma registry_kept_running:
  "dw_stopped w = None \<Longrightarrow> registry_kept dec w \<longleftrightarrow>
     stored dec (dw_controller w) = Inr (ct_vm_ownership (dw_controller w))"
  by (auto simp: registry_kept_def save_failed_def)

lemma daemon_next_registry:
  assumes "daemon_next env w w'" and "registry_kept dec w" and "controller_ok (dw_controller w)"
    and "registry_codec env dec (ct_cfg (dw_controller w))"
  shows "registry_kept dec w'"
  using assms(1)
proof cases
  case (caller_sends req)
  with assms(2) show ?thesis
    by (simp add: registry_kept_def)
next
  case (caller_gives_up n)
  with assms(2) show ?thesis
    by (simp add: registry_kept_def)
next
  case loop_serves
  then obtain n req q where q: "dw_queue w = (n, req) # q"
    by (cases "dw_queue w") auto
  note frame = handle_dbus_request_files [of env req "dw_controller w"]
    handle_dbus_request_ok [OF assms(3), of env req]
  with assms(2) loop_serves stored_cong [of "snd (handle_dbus_request env req (dw_controller w))" "dw_controller w" dec]
  show ?thesis
    by (simp add: registry_kept_running serve_request_controller q)
next
  case (loop_handles ev stop c)
  with assms(2) have "stored dec (dw_controller w) = Inr (ct_vm_ownership (dw_controller w))"
    by (simp add: registry_kept_running)
  from loop_event_stored [OF assms(3) loop_handles(3) assms(4) this] loop_event_kept [OF loop_handles(3)]
    assms(3) show ?thesis
    by (auto simp: loop_handles(1) registry_kept_def controller_kept_def)
qed

lemma controller_new_ok:
  assumes "controller_new dec fault fs cfg engine = Inr c"
  shows "controller_ok c \<and> ct_cfg c = cfg \<and> ct_files c = fs \<and> ct_engine c = engine \<and>
    store_load dec fault fs (cfg_vm_state_path cfg) = Inr (ct_vm_ownership c)"
  using assms store_load_ok
  by (cases "store_load dec fault fs (cfg_vm_state_path cfg)") (auto simp: controller_new_def controller_ok_def)

lemma result_map_err_Inr: "result_map_err f r = Inr a \<longleftrightarrow> r = Inr a"
  by (cases r) simp_all

lemma daemon_start_Inr:
  fixes env :: "('c, 'r, 'e) controller_env"
  assumes "daemon_start env dec sv fs cfg engine = Inr c"
  shows "controller_ok c \<and> ct_cfg c = cfg \<and> ct_files c = fs \<and>
    store_load dec (sv_registry_fault sv) fs (cfg_vm_state_path cfg) = Inr (ct_vm_ownership c)"
proof -
  have "\<exists>c0 :: ('c, 'r, 'e) controller. controller_new dec (sv_registry_fault sv) fs cfg engine = Inr c0"
    using assms by (auto simp: daemon_start_def result_bind_Inr Let_def result_map_err_Inr)
  then obtain c0 :: "('c, 'r, 'e) controller" where c0: "controller_new dec (sv_registry_fault sv) fs cfg engine = Inr c0" ..
  with assms have "c = reconcile env (sv_discovered sv) c0"
    by (auto simp: daemon_start_def Let_def result_bind_Inr)
  with controller_new_ok [OF c0] show ?thesis
    by (simp add: reconcile_ok)
qed

interpretation registry: kept_invariant "daemon_next env"
    "\<lambda>w. registry_kept dec w \<and> controller_ok (dw_controller w) \<and>
       registry_codec env dec (ct_cfg (dw_controller w))"
  for env dec
proof unfold_locales
  fix w w'
  assume step: "daemon_next env w w'" and inv: "registry_kept dec w \<and> controller_ok (dw_controller w) \<and>
       registry_codec env dec (ct_cfg (dw_controller w))"
  have "registry_kept dec w'"
    using daemon_next_registry [OF step] inv by blast
  moreover have "controller_kept (dw_controller w) (dw_controller w')"
    using step by (rule daemon_next_kept)
  ultimately show "registry_kept dec w' \<and> controller_ok (dw_controller w') \<and>
       registry_codec env dec (ct_cfg (dw_controller w'))"
    using inv by (simp add: controller_kept_def)
qed

lemma daemon_lifetime:
  assumes "daemon_start env dec sv fs cfg engine = Inr c" and "sv_registry_fault sv = None"
    and "(daemon_next env)\<^sup>*\<^sup>* (daemon_init c) w" and "registry_codec env dec cfg"
  shows "controller_ok (dw_controller w)" and "ct_cfg (dw_controller w) = cfg"
    and "registry_kept dec w"
    and "classification (ct_vm_ownership c) vm = Some p \<Longrightarrow>
      classification (ct_vm_ownership (dw_controller w)) vm = Some p"
proof -
  note s = daemon_start_Inr [OF assms(1), unfolded assms(2)]
  have "registry_kept dec (daemon_init c)"
    using s by (auto simp: registry_kept_def daemon_init_def stored_def)
  then show "registry_kept dec w"
    using registry.run [OF assms(3)] s assms(4) by (simp add: daemon_init_def)
  show "controller_ok (dw_controller w)" "ct_cfg (dw_controller w) = cfg"
    "classification (ct_vm_ownership c) vm = Some p \<Longrightarrow>
      classification (ct_vm_ownership (dw_controller w)) vm = Some p"
    using daemon_run.ends [OF assms(3)] s by (auto simp: controller_kept_def daemon_init_def)
qed

text \<open>
  C10: the daemon's state stays coherent for as long as it runs.  From a start on any files, through
  any interleaving of polls, path events, requests and impatient callers, every VM is filed under its
  own identifier with the classification of the registry, the configuration is the one it was started
  with, and the registry's file holds the registry in memory; it is behind only when the save that
  failed has ended the daemon, and then it holds an older part of the registry.
\<close>

theorem daemon_invariant:
  assumes "daemon_start env dec sv fs cfg engine = Inr c" and "sv_registry_fault sv = None"
    and "(daemon_next env)\<^sup>*\<^sup>* (daemon_init c) w" and "registry_codec env dec cfg"
  shows "controller_ok (dw_controller w) \<and> ct_cfg (dw_controller w) = cfg \<and> registry_kept dec w"
  using daemon_lifetime(1-3) [OF assms] by blast

text \<open>
  C3: a classification survives restarts.  Once a daemon has classified a VM, and unless it ended
  because the registry could not be saved, every daemon started later on its files has the VM
  classified the same way in all its states, whatever configuration it runs with otherwise, and acts on
  that classification.
\<close>

theorem registry_survives_restart:
  assumes "daemon_start env dec sv fs cfg engine = Inr c" and "sv_registry_fault sv = None"
    and "(daemon_next env)\<^sup>*\<^sup>* (daemon_init c) w" and "registry_codec env dec cfg"
    and "classification (ct_vm_ownership (dw_controller w)) vm = Some p"
    and "\<not> save_failed (dw_stopped w)"
    and "daemon_start env' dec sv' (ct_files (dw_controller w)) cfg' engine' = Inr c'"
    and "sv_registry_fault sv' = None" and "cfg_vm_state_path cfg' = cfg_vm_state_path cfg"
    and "(daemon_next env')\<^sup>*\<^sup>* (daemon_init c') w'"
  shows "classification (ct_vm_ownership (dw_controller w')) vm = Some p \<and>
    (\<forall>i. hm_get (ct_instances (dw_controller w')) vm = Some i \<longrightarrow>
      st_ownership_classification (inst_status i) = Some p)"
proof -
  note life = daemon_lifetime [OF assms(1-4)]
  have "stored dec (dw_controller w) = Inr (ct_vm_ownership (dw_controller w))"
    using life(3) assms(6) by (auto simp: registry_kept_def)
  moreover note s = daemon_start_Inr [OF assms(7), unfolded assms(8,9)]
  ultimately have "ct_vm_ownership c' = ct_vm_ownership (dw_controller w)"
    by (simp add: stored_def life(2))
  with assms(5) daemon_run.ends [OF assms(10)] s
  have "controller_ok (dw_controller w')"
      "classification (ct_vm_ownership (dw_controller w')) vm = Some p"
    by (auto simp: controller_kept_def daemon_init_def)
  then show ?thesis
    by (auto simp: controller_ok_def)
qed

subsection \<open>The watches\<close>

lemma setup_inotify_Inr:
  "setup_inotify is_dir add_fault ps = Inr ws \<longleftrightarrow>
     ws = ps \<and> (\<forall>p\<in>set ps. is_dir p \<and> add_fault p = None)"
proof (induction ps arbitrary: ws)
  case (Cons p ps)
  then show ?case
    by (cases "setup_inotify is_dir add_fault ps") (auto split: option.split)
qed auto

subsection \<open>The bus service\<close>

text \<open>
  What a caller gets while it waits for its answer: the answer, the news that the controller dropped
  the channel, or nothing within the timeout.  The errors are those of the bus, with their text.
\<close>

datatype 'a receipt = Received 'a | Canceled | Elapsed

fun await_with_timeout :: "'a receipt \<Rightarrow> string + 'a" where
  "await_with_timeout (Received v) = Inr v"
| "await_with_timeout Canceled = Inl ''controller reply channel closed''"
| "await_with_timeout Elapsed = Inl ''request timed out after 30s''"

text \<open>Sending the request, which fails when the channel is closed, and awaiting the answer.\<close>

definition send_and_await :: "bool \<Rightarrow> string \<Rightarrow> 'a receipt \<Rightarrow> string + 'a" where
  "send_and_await channel_open closed_error r =
     (if channel_open then await_with_timeout r else Inl closed_error)"

text \<open>The methods: the request each one sends, and its result.\<close>

definition service_set_thread_count ::
  "string \<Rightarrow> u32 \<Rightarrow> bool \<Rightarrow> dbus_request \<times> (bool \<Rightarrow> (string + unit) receipt \<Rightarrow> string + u32 \<times> string)"
where
  "service_set_thread_count vm threads sticky =
     (let summary = ''set thread count on VM '' @ vm @ '' to '' @ show_word threads @
            (if sticky then '' (sticky)'' else '''')
      in (SetThreadCount vm threads sticky, \<lambda>channel_open r.
            result_bind (send_and_await channel_open ''controller channel closed'' r) (\<lambda>reply.
              result_map (\<lambda>_. (0, summary)) reply)))"

definition service_set_all_thread_counts ::
  "u32 \<Rightarrow> bool \<Rightarrow> dbus_request \<times> (bool \<Rightarrow> (u32 \<times> string) receipt \<Rightarrow> string + u32 \<times> string)" where
  "service_set_all_thread_counts threads sticky =
     (SetAllThreadCounts threads sticky, \<lambda>channel_open r.
        send_and_await channel_open ''controller channel closed'' r)"

definition service_get_stats :: "dbus_request \<times> (bool \<Rightarrow> string receipt \<Rightarrow> string + string)" where
  "service_get_stats =
     (GetStats, \<lambda>channel_open r. send_and_await channel_open ''controller channel closed'' r)"

definition service_get_snapshot :: "dbus_request \<times> (bool \<Rightarrow> string receipt \<Rightarrow> string + string)" where
  "service_get_snapshot =
     (GetSnapshot, \<lambda>channel_open r. send_and_await channel_open ''engine channel closed'' r)"

definition service_get_version :: "dbus_request \<times> (bool \<Rightarrow> string receipt \<Rightarrow> string + string)" where
  "service_get_version =
     (GetVersion, \<lambda>channel_open r. send_and_await channel_open ''controller channel closed'' r)"

definition service_get_io_thread_vq_mapping ::
  "string \<Rightarrow> string \<Rightarrow> dbus_request \<times> (bool \<Rightarrow> (string + string) receipt \<Rightarrow> string + string)" where
  "service_get_io_thread_vq_mapping vm device =
     (GetIoThreadVqMapping vm device, \<lambda>channel_open r.
        result_bind (send_and_await channel_open ''controller channel closed'' r) (\<lambda>reply. reply))"

definition service_add_io_thread ::
  "string \<Rightarrow> string \<Rightarrow> i64 \<Rightarrow> dbus_request \<times> (bool \<Rightarrow> (string + unit) receipt \<Rightarrow> string + unit)" where
  "service_add_io_thread vm io poll_max_ns =
     (AddIoThread vm io poll_max_ns, \<lambda>channel_open r.
        result_bind (send_and_await channel_open ''controller channel closed'' r) (\<lambda>reply. reply))"

definition service_del_io_thread ::
  "string \<Rightarrow> string \<Rightarrow> dbus_request \<times> (bool \<Rightarrow> (string + unit) receipt \<Rightarrow> string + unit)" where
  "service_del_io_thread vm io =
     (DelIoThread vm io, \<lambda>channel_open r.
        result_bind (send_and_await channel_open ''controller channel closed'' r) (\<lambda>reply. reply))"

definition service_set_io_thread_vq_mapping ::
  "string \<Rightarrow> string \<Rightarrow> string \<Rightarrow> dbus_request \<times> (bool \<Rightarrow> (string + unit) receipt \<Rightarrow> string + unit)" where
  "service_set_io_thread_vq_mapping vm device mapping_json =
     (SetIoThreadVqMapping vm device mapping_json, \<lambda>channel_open r.
        result_bind (send_and_await channel_open ''controller channel closed'' r) (\<lambda>reply. reply))"

text \<open>
  C15: what the operator is told about a manual resize is what happened.  When the method
  \<open>SetThreadCount\<close> reports success, the VM's recorded pool has the requested size, which is
  positive and at most its vCPU count, and the sticky flag is as requested; when it reports an error
  of the controller, no VM's status has changed.
\<close>

theorem set_thread_count_end_to_end:
  assumes "service_set_thread_count vm threads sticky = (request, result)"
    and "handle_dbus_request env request c = (ReplyUnit r, c')"
  shows "case result True (Received r) of
      Inr (n, summary) \<Rightarrow> n = 0 \<and> (\<exists>i. hm_get (ct_instances c') vm = Some i \<and>
        st_thread_count (inst_status i) = threads \<and> st_manual_scaling_sticky (inst_status i) = sticky \<and>
        0 < threads \<and> threads \<le> st_vcpu_count (inst_status i))
    | Inl e \<Rightarrow> (\<forall>k. map_option inst_status (hm_get (ct_instances c') k) =
        map_option inst_status (hm_get (ct_instances c) k))"
proof -
  have request: "request = SetThreadCount vm threads sticky"
    and result: "result True (Received x) = result_map (\<lambda>_. (0, ''set thread count on VM '' @ vm @ '' to '' @
      show_word threads @ (if sticky then '' (sticky)'' else ''''))) x" for x
    using assms(1) by (auto simp: service_set_thread_count_def send_and_await_def Let_def)
  obtain r0 where h: "handle_set_thread_count env vm threads sticky c = (r0, c')"
    and r: "r = result_map_err show_controller_error r0"
    using assms(2) by (auto simp: request handle_dbus_request_def split: prod.splits)
  from h r show ?thesis
    by (auto simp: result handle_set_thread_count_def hm_get_insert not_less word_neq_0_conv
        split: option.splits if_splits prod.splits sum.splits)
qed

subsection \<open>A concrete daemon\<close>

text \<open>One VM is discovered at the start and again after the first poll.\<close>

definition demo_dec :: "string \<Rightarrow> string + vm_ownership" where
  "demo_dec _ = Inr demo_ownership"

definition demo_start :: "(u32, unit) start_env" where
  "demo_start =
     \<lparr>sv_registry_fault = None, sv_discovered = [[instance_new ''vm'' [] 1 4]], sv_serve = Inr (),
      sv_watch_paths = [], sv_is_dir = (\<lambda>_. False), sv_add_fault = (\<lambda>_. None), sv_inotify = Inr (),
      sv_signals = Inr ()\<rparr>"

definition demo_daemon ::
  "file_system \<Rightarrow> daemon_error + (u32, unit, threshold_engine) controller" where
  "demo_daemon fs = daemon_start (demo_env threshold_ops) demo_dec demo_start fs demo_settings demo_engine"

definition demo_poll ::
  "(u32, unit, threshold_engine) controller \<Rightarrow>
   (daemon_error + unit) option \<times> (u32, unit, threshold_engine) controller" where
  "demo_poll = loop_event (demo_env threshold_ops) (PollTick demo_readings [[instance_new ''vm'' [] 1 4]])"

lemma demo_codec: "registry_codec (demo_env threshold_ops) demo_dec demo_settings"
  by (simp add: registry_codec_def demo_env_def demo_settings_def demo_dec_def path_file_name_def)

lemma demo_life:
  assumes "demo_daemon fs = Inr c"
  shows "(daemon_next (demo_env threshold_ops))\<^sup>*\<^sup>* (daemon_init c)
    ((daemon_init c)\<lparr>dw_controller := snd (demo_poll c), dw_stopped := fst (demo_poll c)\<rparr>)"
  by (rule r_into_rtranclp, rule loop_handles [where ev = "PollTick demo_readings [[instance_new ''vm'' [] 1 4]]"])
    (simp_all add: daemon_init_def demo_poll_def)

lemma demo_daemon_runs:
  "case demo_daemon (\<lambda>_. None) of
     Inl _ \<Rightarrow> False
   | Inr c \<Rightarrow>
       (case demo_poll c of
          (stop, c1) \<Rightarrow>
            stop = None \<and> classification (ct_vm_ownership c1) ''vm'' = Some True \<and>
            (case demo_daemon (ct_files c1) of Inl _ \<Rightarrow> False | Inr _ \<Rightarrow> True))"
  by code_simp

lemma demo_daemon_obtain:
  obtains c c1 c2 where "demo_daemon (\<lambda>_. None) = Inr c" and "demo_poll c = (None, c1)"
    and "classification (ct_vm_ownership c1) ''vm'' = Some True" and "demo_daemon (ct_files c1) = Inr c2"
  using demo_daemon_runs by (auto split: sum.splits prod.splits) (metis obj_sumE)+

lemma daemon_invariant_witness:
  "\<exists>w :: (u32, unit, threshold_engine) daemon_world. dw_stopped w = None \<and>
     classification (ct_vm_ownership (dw_controller w)) ''vm'' = Some True \<and>
     controller_ok (dw_controller w) \<and> registry_kept demo_dec w"
proof (rule demo_daemon_obtain)
  fix c c1 :: "(u32, unit, threshold_engine) controller"
  assume c: "demo_daemon (\<lambda>_. None) = Inr c" and c1: "demo_poll c = (None, c1)"
    and managed: "classification (ct_vm_ownership c1) ''vm'' = Some True"
  from daemon_invariant [OF c [unfolded demo_daemon_def] _ demo_life [OF c] demo_codec] managed c1
  show ?thesis
    by (intro exI [where x = "(daemon_init c)\<lparr>dw_controller := c1, dw_stopped := None\<rparr>"])
      (simp add: demo_start_def)
qed

lemma registry_survives_restart_witness:
  "\<exists>c c1 c2. demo_daemon (\<lambda>_. None) = Inr c \<and> demo_poll c = (None, c1) \<and>
     demo_daemon (ct_files c1) = Inr c2 \<and> classification (ct_vm_ownership c2) ''vm'' = Some True"
proof (rule demo_daemon_obtain)
  fix c c1 c2 :: "(u32, unit, threshold_engine) controller"
  assume c: "demo_daemon (\<lambda>_. None) = Inr c" and c1: "demo_poll c = (None, c1)"
    and managed: "classification (ct_vm_ownership c1) ''vm'' = Some True"
    and c2: "demo_daemon (ct_files c1) = Inr c2"
  have fault: "sv_registry_fault demo_start = None"
    by (simp add: demo_start_def)
  note life = demo_life [OF c, unfolded c1 fst_conv snd_conv]
  from registry_survives_restart [OF c [unfolded demo_daemon_def] fault life demo_codec _ _
      _ fault refl rtranclp.rtrancl_refl, where vm = "''vm''" and p = True and c' = c2] managed c2
  have "classification (ct_vm_ownership c2) ''vm'' = Some True"
    by (auto simp: demo_daemon_def daemon_init_def save_failed_def)
  with c c1 c2 show ?thesis
    by blast
qed

definition demo_world :: "(u32, unit, threshold_engine) daemon_world" where
  "demo_world = accept_request GetVersion (daemon_init (demo_controller 4 demo_engine))"

text \<open>The caller gives up before its request is served: it is carried out and not answered.\<close>

lemma requests_in_order_witness:
  "\<exists>w ops replies. (daemon_next (demo_env threshold_ops))\<^sup>*\<^sup>* (daemon_init (demo_controller 4 demo_engine)) w \<and>
     carry_out (demo_env threshold_ops) ops (demo_controller 4 demo_engine) =
       (replies, None, dw_controller w) \<and>
     requests_of ops = [(0, GetVersion)] \<and> dw_answers w = []"
proof -
  let ?E = "demo_env threshold_ops"
  let ?c = "demo_controller 4 demo_engine"
  let ?w2 = "demo_world\<lparr>dw_waiting := {}, dw_gone := {0}\<rparr>"
  let ?w3 = "serve_request ?E ?w2"
  have w: "dw_queue demo_world = [(0, GetVersion)]" "dw_waiting demo_world = {0}" "dw_stopped demo_world = None"
      "dw_requests demo_world = [GetVersion]" "dw_gone demo_world = {}" "dw_answers demo_world = []"
    by (simp_all add: demo_world_def accept_request_def daemon_init_def)
  have "daemon_next ?E (daemon_init ?c) demo_world"
    unfolding demo_world_def by (rule caller_sends) (simp_all add: daemon_init_def)
  then have "(daemon_next ?E)\<^sup>*\<^sup>* (daemon_init ?c) demo_world"
    by (rule r_into_rtranclp)
  moreover have "daemon_next ?E demo_world ?w2"
    using caller_gives_up [of 0 demo_world ?E] by (simp add: w)
  ultimately have "(daemon_next ?E)\<^sup>*\<^sup>* (daemon_init ?c) ?w2"
    by (rule rtranclp.rtrancl_into_rtrancl)
  moreover have "daemon_next ?E ?w2 ?w3"
    by (rule loop_serves) (simp_all add: w)
  ultimately have run: "(daemon_next ?E)\<^sup>*\<^sup>* (daemon_init ?c) ?w3"
    by (rule rtranclp.rtrancl_into_rtrancl)
  have w3: "dw_queue ?w3 = []" "dw_requests ?w3 = [GetVersion]" "dw_stopped ?w3 = None" "dw_answers ?w3 = []"
    by (simp_all add: serve_request_def handle_dbus_request_def w)
  from requests_in_order [OF run] obtain ops replies where
      "carry_out ?E ops ?c = (replies, None, dw_controller ?w3)" "requests_of ops = [(0, GetVersion)]"
    by (auto simp: w3)
  with run w3(4) show ?thesis
    by blast
qed

definition demo_vm :: "(u32, unit) vm_instance" where
  "demo_vm = (let i = instance_new ''vm'' [] 1 4 in i\<lparr>inst_status := (inst_status i)\<lparr>st_vcpu_count := 8\<rparr>\<rparr>)"

lemma set_thread_count_end_to_end_witness:
  "let c = (demo_controller 4 demo_engine)\<lparr>ct_instances := [(''vm'', demo_vm)]\<rparr>
   in \<exists>i'. hm_get (ct_instances (snd (handle_dbus_request (demo_env threshold_ops)
        (fst (service_set_thread_count ''vm'' 1 True)) c))) ''vm'' = Some i' \<and>
      st_thread_count (inst_status i') = 1"
proof -
  let ?c = "(demo_controller 4 demo_engine)\<lparr>ct_instances := [(''vm'', demo_vm)]\<rparr>"
  obtain result where m: "service_set_thread_count ''vm'' 1 True = (SetThreadCount ''vm'' 1 True, result)"
    by (simp add: service_set_thread_count_def Let_def)
  then have result: "result True (Received (Inr ())) =
      Inr (0, ''set thread count on VM vm to '' @ show_word (1 :: u32) @ '' (sticky)'')"
    by (auto simp: service_set_thread_count_def send_and_await_def Let_def)
  have vm: "st_vcpu_count (inst_status demo_vm) = 8" "inst_client demo_vm = 4"
    by (simp_all add: demo_vm_def Let_def instance_new_simps)
  obtain c' where h: "handle_dbus_request (demo_env threshold_ops) (SetThreadCount ''vm'' 1 True) ?c =
      (ReplyUnit (Inr ()), c')"
    by (simp add: handle_dbus_request_def handle_set_thread_count_def hm_get_def vm
        client_of_def box_client_def client_defaults_def demo_env_def demo_ops_def)
  from set_thread_count_end_to_end [OF m h] result show ?thesis
    by (auto simp: m h Let_def)
qed

end
