(* ===== verification/Startup.thy ===== *)
theory Startup
  imports Daemon
begin

section \<open>From the command line to the loop (main.rs)\<close>

text \<open>
  The command line is parsed by clap; what it yields is an argument.  Installing the logging framework
  and printing are left out, except for the style that is chosen.
\<close>

datatype main_error =
    MainClap string
  | MainConfig config_error
  | MainBackendClient backend_client_error
  | MainDaemon daemon_error
  | MainEngine engine_error
  | NoSuchBackend string

datatype log_style = StyleAuto | StyleHuman | StyleSystemd | StyleJson

record cli =
  cli_config :: path
  cli_dump_config :: bool
  cli_log_level :: string
  cli_log_style :: log_style
  cli_print_status_header :: bool
  cli_dry_run :: bool
  cli_round_up_durations :: bool

text \<open>\<open>journal\<close>: whether the daemon was launched by systemd.\<close>

definition effective_style :: "bool \<Rightarrow> log_style \<Rightarrow> log_style" where
  "effective_style journal style =
     (case style of
        StyleAuto \<Rightarrow> if journal then StyleSystemd else StyleHuman
      | _ \<Rightarrow> style)"

text \<open>
  \<open>load_daemon_config\<close>: the defaults for an absent file only.  \<open>opening\<close> is the error
  of opening the file, if any; \<open>load\<close> reads the document.
\<close>

definition load_daemon_config ::
  "path \<Rightarrow> io_error option \<Rightarrow> config_error + config \<Rightarrow> config_error + config" where
  "load_daemon_config rootp opening load =
     (case opening of
        None \<Rightarrow> load
      | Some NotFound \<Rightarrow> Inr (config_default rootp)
      | Some e \<Rightarrow> Inl (ConfigIo e))"

text \<open>The switches of the command line only ever turn a setting on.\<close>

definition apply_cli :: "cli \<Rightarrow> config \<Rightarrow> config" where
  "apply_cli cli cfg =
     (let cfg = (if cli_print_status_header cli then cfg\<lparr>cfg_print_status_header := True\<rparr> else cfg);
          cfg = (if cli_dry_run cli then cfg\<lparr>cfg_dry_run := True\<rparr> else cfg)
      in if cli_round_up_durations cli then cfg\<lparr>cfg_round_up_durations := True\<rparr> else cfg)"

definition per_vm_log_dir :: "path \<Rightarrow> config \<Rightarrow> path option" where
  "per_vm_log_dir rootp cfg =
     (if cfg_enable_per_vm_status_line cfg \<and> \<not> cfg_enable_per_vm_main_log cfg
      then Some (path_new rootp (parse_path ''/var/log/io-thread-controller/vms'')) else None)"

text \<open>
  Everything between the command line and the backends: the configuration, its validation, the engine,
  which adds its own durations to the converter, and the verdict on all durations at once.
\<close>

definition prepare ::
  "path \<Rightarrow> cli \<Rightarrow> config_error + config \<Rightarrow>
   (string \<times> (path \<Rightarrow> poll_converter \<Rightarrow> engine_error + 'e \<times> poll_converter)) list \<Rightarrow>
   main_error + config \<times> 'e \<times> path option"
where
  "prepare rootp cli loaded engines =
     result_bind (result_map_err MainConfig loaded) (\<lambda>cfg.
     result_bind (result_map_err MainConfig (validate_config (apply_cli cli cfg))) (\<lambda>(cfg, durations).
     result_bind (result_map_err MainEngine
       (load_registered_engine engines (cfg_engine_config_dir cfg) (cfg_engine cfg) durations))
       (\<lambda>(engine, durations).
     result_bind (result_map_err MainConfig (converter_finish durations)) (\<lambda>_.
     Inr (cfg, engine, per_vm_log_dir rootp cfg)))))"

text \<open>A backend's command-line interface: the subcommand it offers, if any, and what running it
  yields.\<close>

fun run_subcommand ::
  "string \<Rightarrow> (string option \<times> (backend_client_error + unit)) list \<Rightarrow> main_error + unit" where
  "run_subcommand name [] = Inl (NoSuchBackend name)"
| "run_subcommand name ((subcommand, outcome) # backends) =
     (if subcommand = Some name then result_map_err MainBackendClient outcome
      else run_subcommand name backends)"

text \<open>
  \<open>run_daemon\<close>.  \<open>bootstrap\<close> are the backends built from the default configuration,
  \<open>parsed\<close> is the command line with its subcommand, \<open>backends\<close> builds the backends of
  the loaded configuration and \<open>run\<close> is the daemon.
\<close>

definition run_daemon ::
  "path \<Rightarrow> backend_client_error + (string option \<times> (backend_client_error + unit)) list \<Rightarrow>
   string + cli \<times> string option \<Rightarrow> (path \<Rightarrow> config_error + config) \<Rightarrow>
   (string \<times> (path \<Rightarrow> poll_converter \<Rightarrow> engine_error + 'e \<times> poll_converter)) list \<Rightarrow>
   (config \<Rightarrow> backend_client_error + 'b) \<Rightarrow>
   (config \<Rightarrow> 'e \<Rightarrow> 'b \<Rightarrow> path option \<Rightarrow> daemon_error + unit) \<Rightarrow> main_error + unit"
where
  "run_daemon rootp bootstrap parsed load engines backends run =
     result_bind (result_map_err MainBackendClient bootstrap) (\<lambda>bootstrap_backends.
     result_bind (result_map_err MainClap parsed) (\<lambda>(cli, subcommand).
       if cli_dump_config cli then Inr ()
       else case subcommand of
              Some name \<Rightarrow> run_subcommand name bootstrap_backends
            | None \<Rightarrow>
                result_bind (prepare rootp cli (load (cli_config cli)) engines) (\<lambda>(cfg, engine, dir).
                result_bind (result_map_err MainBackendClient (backends cfg)) (\<lambda>bs.
                result_map_err MainDaemon (run cfg engine bs dir)))))"

subsection \<open>What a daemon that starts was given\<close>

lemma apply_cli_simps [simp]:
  "cfg_scale_poll_secs (apply_cli cli cfg) = cfg_scale_poll_secs cfg"
  "cfg_cooldown_secs (apply_cli cli cfg) = cfg_cooldown_secs cfg"
  "cfg_engine (apply_cli cli cfg) = cfg_engine cfg"
  "cfg_engine_config_dir (apply_cli cli cfg) = cfg_engine_config_dir cfg"
  "cfg_min_thread_count (apply_cli cli cfg) = cfg_min_thread_count cfg"
  "cfg_max_thread_count (apply_cli cli cfg) = cfg_max_thread_count cfg"
  "cfg_host_cpu_scale_up_ceiling (apply_cli cli cfg) = cfg_host_cpu_scale_up_ceiling cfg"
  "cfg_dry_run (apply_cli cli cfg) \<longleftrightarrow> cfg_dry_run cfg \<or> cli_dry_run cli"
  "cfg_round_up_durations (apply_cli cli cfg) \<longleftrightarrow> cfg_round_up_durations cfg \<or> cli_round_up_durations cli"
  by (simp_all add: apply_cli_def Let_def)

lemma converter_finish_Inr: "converter_finish c = Inr () \<longleftrightarrow> pc_errors c = []"
  by (simp add: converter_finish_def)

lemma polls_kept:
  "polls name secs c = (n, secs', c') \<Longrightarrow> pc_errors c' = pc_errors c \<Longrightarrow> pp_round_up (pc_poll c) \<or> secs' = secs"
  by (auto simp: polls_def push_error_def Let_def split: if_splits option.splits)

text \<open>An engine that only adds to the errors of the converter it is given.\<close>

definition converter_grows :: "poll_converter \<Rightarrow> poll_converter \<Rightarrow> bool" where
  "converter_grows c c' \<longleftrightarrow> pc_poll c' = pc_poll c \<and> (\<exists>es. pc_errors c' = pc_errors c @ es)"

lemma converter_grows_trans: "converter_grows a b \<Longrightarrow> converter_grows b c \<Longrightarrow> converter_grows a c"
  by (auto simp: converter_grows_def)

lemma polls_grows: "polls name secs c = (n, secs', c') \<Longrightarrow> converter_grows c c'"
  unfolding converter_grows_def by (rule polls_errors_grow)

lemma threshold_new_grows:
  assumes "threshold_new cfg c = Inr (e, c')"
  shows "converter_grows c c'"
proof -
  have step: "converter_grows c (snd (snd (polls name secs c)))" for name secs c
    by (cases "polls name secs c") (auto intro: polls_grows)
  have "converter_grows c (snd (snd (resolve_polls cfg c)))"
    unfolding resolve_polls_def Let_def split_beta snd_conv
    by (intro converter_grows_trans [OF _ step] step)
  then show ?thesis
    using assms by (auto simp: threshold_new_def result_bind_Inr split_beta Let_def)
qed

lemma threshold_registered:
  assumes "load_registered_engine [(engine_name, threshold_from_config_dir path_exists load rootp)] dir name c =
    Inr (e, c')"
  obtains tcfg where "name = engine_name" and "threshold_new tcfg c = Inr (e, c')"
    and "tcfg = threshold_config_default \<or> (\<exists>p. load p = Inr tcfg)"
  using assms
  by (auto simp: threshold_from_config_dir_def result_map_err_Inr result_bind_Inr Let_def split: if_splits)

lemma prepare_Inr:
  assumes "prepare rootp cli loaded engines = Inr (cfg, e, dir)"
  obtains cfg0 c c' where "loaded = Inr cfg0" and "validate_config (apply_cli cli cfg0) = Inr (cfg, c)"
    and "load_registered_engine engines (cfg_engine_config_dir cfg) (cfg_engine cfg) c = Inr (e, c')"
    and "pc_errors c' = []" and "dir = per_vm_log_dir rootp cfg"
  using assms
  by (auto simp: prepare_def result_bind_Inr result_map_err_Inr converter_finish_Inr split_beta)

text \<open>
  C21: a daemon only starts on coherent settings.  Whatever file, switches and engine settings it is
  given, when the start gets past the configuration the poll period is positive, the thread bounds are
  positive and ordered, the ceiling is a fraction, the cooldown in effect is the configured one (rounded
  up to whole polls, and only if rounding was asked for), the threshold engine is selected and counts
  each of its seven durations in the same poll period, and per-VM files are written exactly when status lines
  are on and not sent to the main log.
\<close>

theorem startup_settings:
  assumes "prepare rootp cli loaded [(engine_name, threshold_from_config_dir path_exists load rootp)] =
    Inr (cfg, e, dir)"
  defines "period \<equiv> cfg_scale_poll_secs cfg"
  shows "\<exists>cfg0 tcfg. loaded = Inr cfg0 \<and> (tcfg = threshold_config_default \<or> (\<exists>p. load p = Inr tcfg)) \<and>
    0 < period \<and> 0 < cfg_min_thread_count cfg \<and> cfg_min_thread_count cfg \<le> cfg_max_thread_count cfg \<and>
    f64_in (cfg_host_cpu_scale_up_ceiling cfg) 0 1 \<and> cfg_engine cfg = engine_name \<and>
    uint (cfg_cooldown_secs cfg) =
      min (polls_of period (cfg_cooldown_secs cfg0) * uint period) (2 ^ 64 - 1) \<and>
    (cfg_round_up_durations cfg \<or> cfg_cooldown_secs cfg = cfg_cooldown_secs cfg0) \<and>
    cfg_dry_run cfg = (cfg_dry_run cfg0 \<or> cli_dry_run cli) \<and>
    te_poll_period e = duration_from_secs period \<and> te_state e = [] \<and>
    uint (tp_scale_down_sustain (te_polls e)) = polls_of period (thc_scale_down_sustain_secs tcfg) \<and>
    uint (tp_scale_validation_delay (te_polls e)) = polls_of period (thc_scale_validation_delay_secs tcfg) \<and>
    uint (tp_scale_validation_delay_per_thread (te_polls e)) =
      polls_of period (thc_scale_validation_delay_per_thread_secs tcfg) \<and>
    uint (tp_post_revert_up_grace (te_polls e)) = polls_of period (thc_post_revert_up_grace_secs tcfg) \<and>
    uint (tp_post_revert_up_recovery (te_polls e)) =
      polls_of period (thc_post_revert_up_recovery_secs tcfg) \<and>
    uint (tp_post_revert_up_backoff_max (te_polls e)) =
      polls_of period (thc_post_revert_up_backoff_max_secs tcfg) \<and>
    uint (tp_scale_down_backoff_max (te_polls e)) =
      polls_of period (thc_scale_down_backoff_max_secs tcfg) \<and>
    (dir = None \<longleftrightarrow> \<not> cfg_enable_per_vm_status_line cfg \<or> cfg_enable_per_vm_main_log cfg)"
proof -
  obtain cfg0 c c' where loaded: "loaded = Inr cfg0"
    and valid: "validate_config (apply_cli cli cfg0) = Inr (cfg, c)"
    and engine: "load_registered_engine [(engine_name, threshold_from_config_dir path_exists load rootp)]
      (cfg_engine_config_dir cfg) (cfg_engine cfg) c = Inr (e, c')"
    and fine: "pc_errors c' = []" and dir: "dir = per_vm_log_dir rootp cfg"
    using assms(1) by (rule prepare_Inr)
  obtain tcfg where name: "cfg_engine cfg = engine_name" and new: "threshold_new tcfg c = Inr (e, c')"
    and tcfg: "tcfg = threshold_config_default \<or> (\<exists>p. load p = Inr tcfg)"
    using engine by (rule threshold_registered)
  let ?start = "\<lparr>pc_poll = \<lparr>pp_secs = cfg_scale_poll_secs cfg0,
    pp_round_up = cfg_round_up_durations (apply_cli cli cfg0)\<rparr>, pc_errors = []\<rparr>"
  obtain n secs where cooldown: "polls ''cooldown_secs'' (cfg_cooldown_secs cfg0) ?start = (n, secs, c)"
    and cfg: "cfg = (apply_cli cli cfg0)\<lparr>cfg_cooldown_secs := secs\<rparr>"
    and bounds: "0 < cfg_scale_poll_secs cfg0" "0 < cfg_min_thread_count cfg0"
      "cfg_min_thread_count cfg0 \<le> cfg_max_thread_count cfg0"
      "f64_in (cfg_host_cpu_scale_up_ceiling cfg0) 0 1"
    using valid by (auto simp: validate_config_Inr)
  have grows: "converter_grows ?start c" "converter_grows c c'"
    using polls_grows [OF cooldown] threshold_new_grows [OF new] by simp_all
  then have errors: "pc_errors c = []" "pc_errors c' = pc_errors c" and poll: "pc_poll c = pc_poll ?start"
    using fine by (auto simp: converter_grows_def)
  have period: "period = cfg_scale_poll_secs cfg0" "pp_secs (pc_poll c) = period"
    by (simp_all add: period_def cfg poll)
  note counts = threshold_new_counts [OF new errors(2)]
  note exact = polls_no_error [OF cooldown] polls_kept [OF cooldown]
  show ?thesis
    using counts exact bounds name tcfg loaded
    by (auto simp: period errors cfg dir per_vm_log_dir_def polls_of_def)
qed

definition demo_cli :: cli where
  "demo_cli =
     \<lparr>cli_config = [RootDir, Normal ''c.json''], cli_dump_config = False, cli_log_level = ''info'',
      cli_log_style = StyleAuto, cli_print_status_header = False, cli_dry_run = True,
      cli_round_up_durations = False\<rparr>"

lemma startup_settings_witness:
  "case prepare [RootDir] demo_cli (Inr demo_settings)
      [(engine_name, threshold_from_config_dir (\<lambda>_. True) (\<lambda>_. Inr demo_config) [RootDir])] of
     Inl _ \<Rightarrow> False
   | Inr (cfg, e, dir) \<Rightarrow> cfg_dry_run cfg \<and> te_state e = [] \<and>
       cfg_min_thread_count cfg \<le> cfg_max_thread_count cfg \<and> cfg_cooldown_secs cfg = 20"
proof -
  let ?p = "prepare [RootDir] demo_cli (Inr demo_settings)
      [(engine_name, threshold_from_config_dir (\<lambda>_. True) (\<lambda>_. Inr demo_config) [RootDir])]"
  have "case ?p of Inl _ \<Rightarrow> False | Inr (cfg, _) \<Rightarrow> \<not> cfg_round_up_durations cfg"
    by code_simp
  then obtain cfg e dir where p: "?p = Inr (cfg, e, dir)" and strict: "\<not> cfg_round_up_durations cfg"
    by (auto split: sum.splits)
  have "cfg_cooldown_secs demo_settings = 20"
    by (simp add: demo_settings_def)
  moreover have "cli_dry_run demo_cli"
    by (simp add: demo_cli_def)
  ultimately show ?thesis
    unfolding p using startup_settings [OF p] strict by auto
qed

end
