(* ===== verification/Dashboard.thy ===== *)
theory Dashboard
  imports Controller
begin

section \<open>What the dashboard keeps (bin/iothread-tui.rs)\<close>

text \<open>
  The dashboard polls \<open>GetSnapshot\<close> and keeps a roster of VMs with their history.  This theory
  holds the data, the reconciliation of the roster with a reply and one turn of the sampler.  A clock
  reading is an argument, a reply of the daemon a sum with the text of the error on the left.
\<close>

record plot_sample =
  ps_t :: f64
  ps_iops :: f64
  ps_bw_mb :: f64
  ps_lat_r :: "(u64 \<times> u64 \<times> u64) option"
  ps_lat_w :: "(u64 \<times> u64 \<times> u64) option"
  ps_lat_r_avg :: "u64 option"
  ps_lat_w_avg :: "u64 option"
  ps_cpu_pct :: f64
  ps_qd :: f64
  ps_thread_count :: u32
  ps_cpu_us_per_iop :: f64

record scale_annot =
  an_t :: f64
  an_y_value :: f64
  an_old_n :: u32
  an_new_n :: u32

record latest_status =
  ls_thread_count :: u32
  ls_iops_r :: f64
  ls_iops_w :: f64
  ls_iops_o :: f64
  ls_bw_r_mb :: f64
  ls_bw_w_mb :: f64
  ls_lat_r_us :: "(u64 \<times> u64 \<times> u64) option"
  ls_lat_w_us :: "(u64 \<times> u64 \<times> u64) option"
  ls_lat_r_avg_us :: "u64 option"
  ls_lat_w_avg_us :: "u64 option"
  ls_qd_total :: "u64 option"
  ls_qd_avg :: "f64 option"
  ls_qd_median :: "u64 option"
  ls_num_queues :: "u32 option"
  ls_cpu_pct :: f64
  ls_cpu_pct_avg :: "u64 option"
  ls_cpu_pct_median :: "u64 option"
  ls_cpu_pct_total :: "u64 option"
  ls_cpu_us_per_iop :: f64
  ls_sticky :: bool
  ls_alive :: bool

definition latest_status_default :: latest_status where
  "latest_status_default =
     \<lparr>ls_thread_count = 0, ls_iops_r = Fin 0, ls_iops_w = Fin 0, ls_iops_o = Fin 0, ls_bw_r_mb = Fin 0,
      ls_bw_w_mb = Fin 0, ls_lat_r_us = None, ls_lat_w_us = None, ls_lat_r_avg_us = None,
      ls_lat_w_avg_us = None, ls_qd_total = None, ls_qd_avg = None, ls_qd_median = None,
      ls_num_queues = None, ls_cpu_pct = Fin 0, ls_cpu_pct_avg = None, ls_cpu_pct_median = None,
      ls_cpu_pct_total = None, ls_cpu_us_per_iop = Fin 0, ls_sticky = False, ls_alive = False\<rparr>"

record vm_view =
  vv_id :: string
  vv_color_idx :: nat
  vv_vcpu_count :: "u32 option"
  vv_samples :: "plot_sample list"
  vv_annots :: "scale_annot list"
  vv_status :: latest_status
  vv_last_thread_count :: "u32 option"
  vv_last_snapshot_at :: instant

definition vm_view_new :: "instant \<Rightarrow> string \<Rightarrow> nat \<Rightarrow> vm_view" where
  "vm_view_new now vm color_idx =
     \<lparr>vv_id = vm, vv_color_idx = color_idx, vv_vcpu_count = None, vv_samples = [], vv_annots = [],
      vv_status = latest_status_default, vv_last_thread_count = None, vv_last_snapshot_at = now\<rparr>"

definition max_history :: nat where
  "max_history = 4096"

definition missing_streak_drop :: u32 where
  "missing_streak_drop = 3"

definition daemon_lost_streak :: u32 where
  "daemon_lost_streak = 3"

text \<open>The state shared by the sampler and the user interface; the proxy to the daemon is left out, as
  calls to it are arguments or results.\<close>

record dash_shared =
  sh_started :: instant
  sh_vms :: "vm_view list"
  sh_aggregate :: "plot_sample list"
  sh_paused :: bool
  sh_refresh_ns :: u64
  sh_failed_streak :: u32
  sh_last_error :: "string option"

definition dash_shared_new :: "instant \<Rightarrow> u64 \<Rightarrow> dash_shared" where
  "dash_shared_new now refresh_ns =
     \<lparr>sh_started = now, sh_vms = [], sh_aggregate = [], sh_paused = False, sh_refresh_ns = refresh_ns,
      sh_failed_streak = 0, sh_last_error = None\<rparr>"

definition push_history :: "'a \<Rightarrow> 'a list \<Rightarrow> 'a list" where
  "push_history x xs = drop (length (xs @ [x]) - max_history) (xs @ [x])"

lemma length_push_history: "length (push_history x xs) \<le> max_history"
  by (simp add: push_history_def)

subsection \<open>Reconciliation\<close>

definition selected :: "string list \<Rightarrow> string \<Rightarrow> bool" where
  "selected select vm = (select = [] \<or> list_ex (\<lambda>pat. contains_str pat vm) select)"

definition wanted_ids :: "string list \<Rightarrow> snapshot_vm list \<Rightarrow> string list" where
  "wanted_ids select payload = filter (selected select) (map sv_id payload)"

text \<open>Phase 2: VMs not tracked yet are appended, coloured by the size of the roster at that moment,
  and the roster is sorted again.\<close>

fun append_new :: "instant \<Rightarrow> string list \<Rightarrow> vm_view list \<Rightarrow> vm_view list" where
  "append_new now [] roster = roster"
| "append_new now (vm # vms) roster = append_new now vms (roster @ [vm_view_new now vm (length roster)])"

definition add_missing :: "instant \<Rightarrow> string list \<Rightarrow> vm_view list \<Rightarrow> vm_view list" where
  "add_missing now wanted roster =
     (let existing = map vv_id roster; fresh = filter (\<lambda>vm. vm \<notin> set existing) wanted
      in if fresh = [] then roster else sort_key vv_id (append_new now fresh roster))"

text \<open>Phase 3: the streaks of the VMs tracked before, in any order.\<close>

fun count_missing :: "string list \<Rightarrow> string list \<Rightarrow> u32 hash_map \<Rightarrow> u32 hash_map" where
  "count_missing wanted [] streak = streak"
| "count_missing wanted (vm # existing) streak =
     count_missing wanted existing
       (if vm \<in> set wanted then hm_remove vm streak
        else hm_insert vm (sat_add (case hm_get streak vm of None \<Rightarrow> 0 | Some c \<Rightarrow> c) 1) streak)"

definition reconcile_with_snapshot ::
  "string list \<Rightarrow> instant \<Rightarrow> snapshot_vm list \<Rightarrow> vm_view list \<times> u32 hash_map \<Rightarrow> vm_view list \<times> u32 hash_map"
where
  "reconcile_with_snapshot select now payload st =
     (case st of (roster, streak) \<Rightarrow>
        let wanted = wanted_ids select payload;
            existing = remdups (map vv_id roster);
            roster = add_missing now wanted roster;
            streak = count_missing wanted existing streak;
            to_drop = map fst (filter (\<lambda>(_, c). missing_streak_drop < c) streak)
        in (filter (\<lambda>v. vv_id v \<notin> set to_drop) roster, foldl (\<lambda>m vm. hm_remove vm m) streak to_drop))"

subsection \<open>Samples\<close>

definition lat_triple :: "snapshot_latency option \<Rightarrow> (u64 \<times> u64 \<times> u64) option" where
  "lat_triple l = map_option (\<lambda>l. (lat_p50 l, lat_p95 l, lat_p99 l)) l"

definition total_iops :: "snapshot_vm \<Rightarrow> f64" where
  "total_iops d = f64_of_word (sat_add (sat_add (sv_read_iops d) (sv_write_iops d)) (sv_other_iops d))"

definition total_cpu_pct :: "snapshot_vm \<Rightarrow> f64" where
  "total_cpu_pct d =
     f64_mul (f64_mul (f64_clamp (sv_per_thread_util d) (Fin 0) (Fin 1)) (f64_of_word (sv_thread_count d)))
       (f64_lit 100)"

definition us_per_iop :: "f64 \<Rightarrow> f64 \<Rightarrow> f64" where
  "us_per_iop cpu_pct iops =
     (if f64_lt (Fin 0) iops
      then f64_div (f64_mul (f64_div cpu_pct (f64_lit 100)) (f64_lit 1000000)) iops else NaN)"

definition snapshot_to_sample :: "snapshot_vm \<Rightarrow> f64 \<Rightarrow> plot_sample" where
  "snapshot_to_sample d t =
     \<lparr>ps_t = t, ps_iops = total_iops d,
      ps_bw_mb = f64_div (f64_of_word (sat_add (sv_read_bw_bps d) (sv_write_bw_bps d))) (f64_lit 1000000),
      ps_lat_r = lat_triple (sv_read_latency_us d), ps_lat_w = lat_triple (sv_write_latency_us d),
      ps_lat_r_avg = map_option lat_avg (sv_read_latency_us d),
      ps_lat_w_avg = map_option lat_avg (sv_write_latency_us d),
      ps_cpu_pct = total_cpu_pct d,
      ps_qd = f64_of_word (case sv_qd_total d of None \<Rightarrow> 0 | Some n \<Rightarrow> n),
      ps_thread_count = sv_thread_count d, ps_cpu_us_per_iop = us_per_iop (total_cpu_pct d) (total_iops d)\<rparr>"

definition snapshot_to_status :: "snapshot_vm \<Rightarrow> latest_status" where
  "snapshot_to_status d =
     \<lparr>ls_thread_count = sv_thread_count d, ls_iops_r = f64_of_word (sv_read_iops d),
      ls_iops_w = f64_of_word (sv_write_iops d), ls_iops_o = f64_of_word (sv_other_iops d),
      ls_bw_r_mb = f64_div (f64_of_word (sv_read_bw_bps d)) (f64_lit 1000000),
      ls_bw_w_mb = f64_div (f64_of_word (sv_write_bw_bps d)) (f64_lit 1000000),
      ls_lat_r_us = lat_triple (sv_read_latency_us d), ls_lat_w_us = lat_triple (sv_write_latency_us d),
      ls_lat_r_avg_us = map_option lat_avg (sv_read_latency_us d),
      ls_lat_w_avg_us = map_option lat_avg (sv_write_latency_us d),
      ls_qd_total = sv_qd_total d,
      ls_qd_avg = map_option (\<lambda>n. f64_div (f64_of_word n) (f64_lit 100)) (sv_qd_avg_x100 d),
      ls_qd_median = sv_qd_median d, ls_num_queues = sv_num_queues d,
      ls_cpu_pct = total_cpu_pct d, ls_cpu_pct_avg = sv_cpu_pct_avg d,
      ls_cpu_pct_median = sv_cpu_pct_median d, ls_cpu_pct_total = sv_cpu_pct_total d,
      ls_cpu_us_per_iop = us_per_iop (total_cpu_pct d) (total_iops d),
      ls_sticky = sv_manual_scaling_sticky d, ls_alive = sv_alive d\<rparr>"

definition refresh_period :: "dash_shared \<Rightarrow> duration" where
  "refresh_period sh = max (uint (sh_refresh_ns sh)) 50000000"

subsection \<open>One turn of the sampler\<close>

text \<open>
  The pause is looked at before the daemon is called and the clock read; what comes back is worked in
  even when the operator has paused the display meanwhile.
\<close>

text \<open>What a VM gains from its entry of the reply, marking a change of its thread count.\<close>

definition sample_view :: "instant \<Rightarrow> f64 \<Rightarrow> snapshot_vm \<Rightarrow> vm_view \<Rightarrow> vm_view" where
  "sample_view now t d v =
     (let sample = snapshot_to_sample d t;
          annot = Option.bind (vv_last_thread_count v) (\<lambda>prev.
            if prev \<noteq> sv_thread_count d
            then Some \<lparr>an_t = t, an_y_value = f64_max (ps_iops sample) (ps_bw_mb sample), an_old_n = prev,
                       an_new_n = sv_thread_count d\<rparr>
            else None)
      in v\<lparr>vv_vcpu_count := Some (sv_vcpu_count d), vv_last_thread_count := Some (sv_thread_count d),
           vv_last_snapshot_at := now, vv_samples := push_history sample (vv_samples v),
           vv_annots := (case annot of None \<Rightarrow> vv_annots v | Some a \<Rightarrow> push_history a (vv_annots v)),
           vv_status := snapshot_to_status d\<rparr>)"

definition aggregate_start :: "f64 \<Rightarrow> plot_sample" where
  "aggregate_start t =
     \<lparr>ps_t = t, ps_iops = Fin 0, ps_bw_mb = Fin 0, ps_lat_r = None, ps_lat_w = None, ps_lat_r_avg = None,
      ps_lat_w_avg = None, ps_cpu_pct = Fin 0, ps_qd = Fin 0, ps_thread_count = 0, ps_cpu_us_per_iop = NaN\<rparr>"

definition aggregate_add :: "plot_sample \<Rightarrow> plot_sample \<Rightarrow> plot_sample" where
  "aggregate_add agg s =
     agg\<lparr>ps_iops := f64_add (ps_iops agg) (ps_iops s), ps_bw_mb := f64_add (ps_bw_mb agg) (ps_bw_mb s),
         ps_cpu_pct := f64_add (ps_cpu_pct agg) (ps_cpu_pct s), ps_qd := f64_add (ps_qd agg) (ps_qd s),
         ps_thread_count := sat_add (ps_thread_count agg) (ps_thread_count s)\<rparr>"

text \<open>The pass over the roster; VMs without an entry in the reply keep what they have.\<close>

definition sample_roster :: "instant \<Rightarrow> f64 \<Rightarrow> snapshot_vm list \<Rightarrow> dash_shared \<Rightarrow> dash_shared" where
  "sample_roster now t payload sh =
     (let by_id = map_of (rev (map (\<lambda>d. (sv_id d, d)) payload));
          live = List.map_filter (\<lambda>v. by_id (vv_id v)) (sh_vms sh);
          agg = foldl aggregate_add (aggregate_start t) (map (\<lambda>d. snapshot_to_sample d t) live);
          agg = agg\<lparr>ps_cpu_us_per_iop := us_per_iop (ps_cpu_pct agg) (ps_iops agg)\<rparr>
      in sh\<lparr>sh_vms := map (\<lambda>v. case by_id (vv_id v) of None \<Rightarrow> v | Some d \<Rightarrow> sample_view now t d v) (sh_vms sh),
            sh_aggregate := (if 2 \<le> length live then push_history agg (sh_aggregate sh) else sh_aggregate sh)\<rparr>)"

definition sampler_reply ::
  "string list \<Rightarrow> instant \<Rightarrow> string + snapshot_vm list \<Rightarrow> dash_shared \<times> u32 hash_map \<Rightarrow>
   dash_shared \<times> u32 hash_map"
where
  "sampler_reply select now reply st =
     (case st of (sh, streak) \<Rightarrow>
        let t = as_secs_f64 (max 0 (now - sh_started sh))
        in case reply of
             Inl e \<Rightarrow>
               (sh\<lparr>sh_failed_streak := sh_failed_streak sh + 1, sh_last_error := Some e\<rparr>, streak)
           | Inr payload \<Rightarrow>
               let sh = (if 0 < sh_failed_streak sh then sh\<lparr>sh_last_error := None\<rparr> else sh)
                          \<lparr>sh_failed_streak := 0\<rparr>;
                   (vms, streak) = reconcile_with_snapshot select now payload (sh_vms sh, streak)
               in (sample_roster now t payload (sh\<lparr>sh_vms := vms\<rparr>), streak))"

text \<open>A turn whose call is answered before anything else happens.\<close>

definition sampler_turn ::
  "string list \<Rightarrow> instant \<Rightarrow> string + snapshot_vm list \<Rightarrow> dash_shared \<times> u32 hash_map \<Rightarrow>
   dash_shared \<times> u32 hash_map"
where
  "sampler_turn select now reply st =
     (if sh_paused (fst st) then st else sampler_reply select now reply st)"

text \<open>The error the overlay shows, from \<open>snapshot_shared\<close>.\<close>

definition daemon_error :: "dash_shared \<Rightarrow> string option" where
  "daemon_error sh = (if daemon_lost_streak \<le> sh_failed_streak sh then sh_last_error sh else None)"

definition reset_autoscale :: "dash_shared \<Rightarrow> dash_shared" where
  "reset_autoscale sh =
     sh\<lparr>sh_vms := map (\<lambda>v. v\<lparr>vv_samples := [], vv_annots := []\<rparr>) (sh_vms sh), sh_aggregate := []\<rparr>"


subsection \<open>Reconciliation, seen from one VM\<close>

lemma append_new_spec:
  "map vv_id (append_new now vms roster) = map vv_id roster @ vms \<and> set roster \<subseteq> set (append_new now vms roster)"
  by (induction now vms roster rule: append_new.induct) (auto simp: vm_view_new_def)

lemma add_missing_spec:
  assumes "sorted_wrt (<) (map vv_id roster)" and "distinct wanted"
  shows "sorted_wrt (<) (map vv_id (add_missing now wanted roster))"
    and "set (map vv_id (add_missing now wanted roster)) = set (map vv_id roster) \<union> set wanted"
    and "set roster \<subseteq> set (add_missing now wanted roster)"
proof -
  let ?fresh = "filter (\<lambda>vm. vm \<notin> set (map vv_id roster)) wanted"
  have new: "map vv_id (append_new now ?fresh roster) = map vv_id roster @ ?fresh"
      "set roster \<subseteq> set (append_new now ?fresh roster)"
    using append_new_spec by blast+
  have "distinct (map vv_id roster)"
    using assms(1) by (simp add: strict_sorted_iff)
  then have "distinct (map vv_id (append_new now ?fresh roster))"
    using assms(2) unfolding new(1) by auto
  then have "distinct (map vv_id (sort_key vv_id (append_new now ?fresh roster)))"
    by (simp add: distinct_map)
  then show "sorted_wrt (<) (map vv_id (add_missing now wanted roster))"
    using assms(1) by (simp add: add_missing_def Let_def strict_sorted_iff)
  show "set roster \<subseteq> set (add_missing now wanted roster)"
    using new(2) by (simp add: add_missing_def Let_def)
  have "set (map vv_id (append_new now ?fresh roster)) = set (map vv_id roster) \<union> set wanted"
    unfolding new(1) by auto
  moreover have "set (map vv_id roster) = set (map vv_id roster) \<union> set wanted" if "?fresh = []"
    using that by (auto simp: filter_empty_conv)
  ultimately show "set (map vv_id (add_missing now wanted roster)) = set (map vv_id roster) \<union> set wanted"
    by (simp add: add_missing_def Let_def)
qed

lemma count_missing_spec:
  assumes "distinct existing"
  shows "hm_get (count_missing wanted existing streak) vm =
      (if vm \<in> set existing
       then (if vm \<in> set wanted then None
             else Some (sat_add (case hm_get streak vm of None \<Rightarrow> 0 | Some c \<Rightarrow> c) 1))
       else hm_get streak vm)"
    and "hm_ok streak \<Longrightarrow> hm_ok (count_missing wanted existing streak)"
  using assms
  by (induction wanted existing streak rule: count_missing.induct) (auto simp: hm_get_insert hm_get_remove)

lemma sorted_wrt_map_filter:
  "sorted_wrt (<) (map f xs) \<Longrightarrow> sorted_wrt (<) (map f (filter P xs))"
  by (induction xs) auto

lemma ids_filter: "set (map f (filter (\<lambda>x. f x \<notin> D) xs)) = set (map f xs) - D"
  by auto

lemma reconcile_spec:
  assumes "reconcile_with_snapshot select now payload (roster, streak) = (roster', streak')"
    and "sorted_wrt (<) (map vv_id roster)" and "hm_ok streak" and "distinct (map sv_id payload)"
  defines "wanted \<equiv> set (wanted_ids select payload)" and "known \<equiv> set (map vv_id roster)"
  defines "count \<equiv> \<lambda>vm. if vm \<in> known
      then (if vm \<in> wanted then None
            else Some (sat_add (case hm_get streak vm of None \<Rightarrow> 0 | Some c \<Rightarrow> c) 1))
      else hm_get streak vm"
  defines "dropped \<equiv> {vm. \<exists>c. count vm = Some c \<and> missing_streak_drop < c}"
  shows "sorted_wrt (<) (map vv_id roster')" and "hm_ok streak'"
    and "set (map vv_id roster') = known \<union> wanted - dropped"
    and "hm_get streak' vm = (if vm \<in> dropped then None else count vm)"
    and "v \<in> set roster \<Longrightarrow> vv_id v \<in> set (map vv_id roster') \<Longrightarrow> v \<in> set roster'"
proof -
  let ?roster = "add_missing now (wanted_ids select payload) roster"
  let ?streak = "count_missing (wanted_ids select payload) (remdups (map vv_id roster)) streak"
  let ?drop = "map fst (filter (\<lambda>(_, c). missing_streak_drop < c) ?streak)"
  have dist: "distinct (wanted_ids select payload)"
    using assms(4) by (simp add: wanted_ids_def)
  note added = add_missing_spec [OF assms(2) dist, of now]
  have get: "hm_get ?streak k = count k" for k
    by (auto simp: count_missing_spec(1) count_def known_def wanted_def)
  have ok: "hm_ok ?streak"
    using assms(3) by (simp add: count_missing_spec(2))
  have drop: "set ?drop = dropped"
    using hm_get_mem [OF ok] by (force simp: dropped_def get)
  have eq: "roster' = filter (\<lambda>v. vv_id v \<notin> set ?drop) ?roster"
    "streak' = foldl (\<lambda>m k. hm_remove k m) ?streak ?drop"
    using assms(1) unfolding reconcile_with_snapshot_def Let_def by (auto simp del: map_map)
  show "sorted_wrt (<) (map vv_id roster')"
    unfolding eq by (rule sorted_wrt_map_filter [OF added(1)])
  show "hm_ok streak'"
    unfolding eq using ok by (rule hash.ok_del_all)
  show "set (map vv_id roster') = known \<union> wanted - dropped"
    unfolding eq drop ids_filter added(2) known_def wanted_def ..
  show "hm_get streak' vm = (if vm \<in> dropped then None else count vm)"
    unfolding eq hash.get_del_all [OF ok] drop get ..
  show "v \<in> set roster \<Longrightarrow> vv_id v \<in> set (map vv_id roster') \<Longrightarrow> v \<in> set roster'"
    using added(3) unfolding eq ids_filter drop by auto
qed

text \<open>Replies in the order they came, and how many of the last ones did not name the VM.\<close>

definition tracked ::
  "string list \<Rightarrow> (instant \<times> snapshot_vm list) list \<Rightarrow> vm_view list \<times> u32 hash_map" where
  "tracked select replies =
     foldl (\<lambda>st (now, payload). reconcile_with_snapshot select now payload st) ([], []) replies"

definition misses :: "string list \<Rightarrow> string \<Rightarrow> (instant \<times> snapshot_vm list) list \<Rightarrow> nat" where
  "misses select vm replies =
     length (takeWhile (\<lambda>(_, payload). vm \<notin> set (wanted_ids select payload)) (rev replies))"

lemma misses_snoc:
  "misses select vm (replies @ [(now, payload)]) =
     (if vm \<in> set (wanted_ids select payload) then 0 else Suc (misses select vm replies))"
  by (simp add: misses_def)

lemma misses_le: "misses select vm replies \<le> length replies"
  unfolding misses_def by (metis length_takeWhile_le length_rev)

lemma small_counts:
  "sat_add (0 :: u32) 1 = 1" "sat_add (1 :: u32) 1 = 2" "sat_add (2 :: u32) 1 = 3" "sat_add (3 :: u32) 1 = 4"
  by (simp_all add: sat_add_def sat_of_int_def word_top_def)

lemma tracked_state:
  assumes "\<forall>(now, payload)\<in>set replies. distinct (map sv_id payload)"
  shows "sorted_wrt (<) (map vv_id (fst (tracked select replies))) \<and> hm_ok (snd (tracked select replies)) \<and>
    (\<forall>vm. (vm \<in> set (map vv_id (fst (tracked select replies))) \<longleftrightarrow>
        misses select vm replies < length replies \<and> misses select vm replies \<le> 3) \<and>
      hm_get (snd (tracked select replies)) vm =
        (if vm \<in> set (map vv_id (fst (tracked select replies))) \<and> 0 < misses select vm replies
         then Some (of_nat (misses select vm replies)) else None))"
  using assms
proof (induction replies rule: rev_induct)
  case Nil
  then show ?case
    by (simp add: tracked_def misses_def)
next
  case (snoc r replies)
  obtain now payload where r: "r = (now, payload)"
    by (cases r)
  obtain roster streak where before: "tracked select replies = (roster, streak)"
    by fastforce
  obtain roster' streak' where step: "reconcile_with_snapshot select now payload (roster, streak) = (roster', streak')"
    by fastforce
  have after: "tracked select (replies @ [r]) = (roster', streak')"
    using before step by (simp add: tracked_def r)
  have ih: "sorted_wrt (<) (map vv_id roster)" "hm_ok streak"
    and known: "\<And>vm. vm \<in> set (map vv_id roster) \<longleftrightarrow>
        misses select vm replies < length replies \<and> misses select vm replies \<le> 3"
    and get: "\<And>vm. hm_get streak vm = (if vm \<in> set (map vv_id roster) \<and> 0 < misses select vm replies
        then Some (of_nat (misses select vm replies)) else None)"
    using snoc before by auto
  have dist: "distinct (map sv_id payload)"
    using snoc(2) by (simp add: r)
  note spec = reconcile_spec [OF step ih dist]
  have one: "(vm \<in> set (map vv_id roster') \<longleftrightarrow>
        misses select vm (replies @ [r]) < length (replies @ [r]) \<and> misses select vm (replies @ [r]) \<le> 3) \<and>
      hm_get streak' vm = (if vm \<in> set (map vv_id roster') \<and> 0 < misses select vm (replies @ [r])
         then Some (of_nat (misses select vm (replies @ [r]))) else None)" for vm
  proof -
    have cases: "misses select vm replies \<in> {0, 1, 2, 3} \<or> 3 < misses select vm replies"
      by auto
    show ?thesis
      using cases misses_le [of select vm replies] spec(3) spec(4) [of vm] known [of vm] get [of vm]
      by (auto simp: r misses_snoc missing_streak_drop_def small_counts)
  qed
  with after spec(1,2) show ?case
    by simp
qed

lemma take_takeWhile:
  "(\<exists>r\<in>set (take k xs). \<not> P r) \<longleftrightarrow> length (takeWhile P xs) < length xs \<and> length (takeWhile P xs) < k"
proof (induction xs arbitrary: k)
  case (Cons x xs)
  then show ?case
    by (cases k) auto
qed simp

lemma take_four_takeWhile:
  "(\<exists>r\<in>set (take 4 xs). \<not> P r) \<longleftrightarrow> length (takeWhile P xs) < length xs \<and> length (takeWhile P xs) \<le> 3"
  unfolding take_takeWhile by auto

text \<open>
  C37: the roster is the fleet of the last four replies.  Whatever replies came, and provided none named
  a VM twice, the dashboard lists every VM once, in the order of the identifiers, and it lists exactly
  the selected VMs that one of the last four replies named; a VM that stays listed keeps its history.
\<close>

theorem roster_is_recent_fleet:
  assumes "\<forall>(now, payload)\<in>set (replies @ [(now, payload)]). distinct (map sv_id payload)"
    and "tracked select replies = (roster, streak)"
    and "tracked select (replies @ [(now, payload)]) = (roster', streak')"
  shows "sorted_wrt (<) (map vv_id roster') \<and>
    (vm \<in> set (map vv_id roster') \<longleftrightarrow>
      (\<exists>(_, p)\<in>set (take 4 (rev (replies @ [(now, payload)]))). vm \<in> set (wanted_ids select p))) \<and>
    (\<forall>v\<in>set roster. vv_id v \<in> set (map vv_id roster') \<longrightarrow> v \<in> set roster')"
proof -
  let ?all = "replies @ [(now, payload)]"
  have "misses select vm ?all < length ?all \<and> misses select vm ?all \<le> 3 \<longleftrightarrow>
      (\<exists>(_, p)\<in>set (take 4 (rev ?all)). vm \<in> set (wanted_ids select p))"
    using take_four_takeWhile [of "rev ?all" "\<lambda>(_, p). vm \<notin> set (wanted_ids select p)"]
    by (auto simp: misses_def simp del: rev_append)
  moreover have "reconcile_with_snapshot select now payload (roster, streak) = (roster', streak')"
    using assms(2,3) by (simp add: tracked_def)
  moreover have "sorted_wrt (<) (map vv_id roster)" "hm_ok streak" "distinct (map sv_id payload)"
    using tracked_state [of replies select] assms(1,2) by auto
  ultimately show ?thesis
    using tracked_state [OF assms(1), of select] assms(3)
      reconcile_spec(5) [of select now payload roster streak roster' streak']
    by auto
qed

subsection \<open>Outages\<close>

text \<open>The sampler over a sequence of turns.\<close>

definition sampler_run ::
  "string list \<Rightarrow> (instant \<times> (string + snapshot_vm list)) list \<Rightarrow> dash_shared \<times> u32 hash_map \<Rightarrow>
   dash_shared \<times> u32 hash_map"
where
  "sampler_run select turns st = foldl (\<lambda>st (now, reply). sampler_turn select now reply st) st turns"

text \<open>
  C38: while the daemon does not answer, nothing is lost and the operator is told.  However many polls
  fail, the VMs, their history and their streaks stay as they are; from the third failure in a row on
  the overlay shows the latest error, and before that it shows none.
\<close>

theorem outage_keeps_roster:
  assumes "\<not> sh_paused sh" and "sh_failed_streak sh = 0" and "length errors < 2 ^ 32" and "errors \<noteq> []"
  shows "case sampler_run select (map (\<lambda>(now, e). (now, Inl e)) errors) (sh, streak) of (sh', streak') \<Rightarrow>
    sh_vms sh' = sh_vms sh \<and> sh_aggregate sh' = sh_aggregate sh \<and> streak' = streak \<and>
    daemon_error sh' = (if 3 \<le> length errors then Some (snd (last errors)) else None)"
proof -
  have "sampler_run select (map (\<lambda>(now, e). (now, Inl e)) es) (sh, streak) =
      (sh\<lparr>sh_failed_streak := of_nat (length es),
          sh_last_error := (if es = [] then sh_last_error sh else Some (snd (last es)))\<rparr>, streak)" for es
    using assms(1,2)
    by (induction es rule: rev_induct) (auto simp: sampler_run_def sampler_turn_def sampler_reply_def Let_def ac_simps)
  moreover have "daemon_lost_streak \<le> (of_nat (length errors) :: u32) \<longleftrightarrow> 3 \<le> length errors"
    using assms(3) by (simp add: daemon_lost_streak_def word_le_nat_alt unat_of_nat)
  ultimately show ?thesis
    using assms(4) by (simp add: daemon_error_def)
qed

subsection \<open>A concrete fleet\<close>

definition demo_entry :: "string \<Rightarrow> u32 \<Rightarrow> snapshot_vm" where
  "demo_entry vm n =
     \<lparr>sv_id = vm, sv_vcpu_count = 8, sv_pid = 1, sv_thread_count = n, sv_alive = True,
      sv_perf_available = False, sv_per_thread_util = Fin (1 / 2), sv_manual_scaling_sticky = False,
      sv_read_iops = 0, sv_write_iops = 0, sv_other_iops = 0, sv_read_bw_bps = 0, sv_write_bw_bps = 0,
      sv_read_latency_us = None, sv_write_latency_us = None, sv_num_queues = None, sv_per_vq_depth = None,
      sv_qd_total = None, sv_qd_avg_x100 = None, sv_qd_median = None, sv_cpu_pct_avg = None,
      sv_cpu_pct_median = None, sv_cpu_pct_total = None\<rparr>"

theorem roster_is_recent_fleet_witness:
  "let vm = demo_entry ''vm'' 1
   in ''vm'' \<in> set (map vv_id (fst (tracked [] [(0, [vm]), (1, []), (2, []), (3, [])]))) \<and>
      ''vm'' \<notin> set (map vv_id (fst (tracked [] [(0, [vm]), (1, []), (2, []), (3, []), (4, [])])))"
proof -
  let ?first = "(0, [demo_entry ''vm'' 1]) :: instant \<times> snapshot_vm list"
  have wanted: "wanted_ids [] [demo_entry ''vm'' 1] = [''vm'']" "wanted_ids [] [] = []"
    by (simp_all add: wanted_ids_def selected_def demo_entry_def)
  have d: "\<forall>(now, payload)\<in>set ([?first, (1, []), (2, [])] @ [(3, [])]). distinct (map sv_id payload)"
    "\<forall>(now, payload)\<in>set ([?first, (1, []), (2, []), (3, [])] @ [(4, [])]). distinct (map sv_id payload)"
    by simp_all
  from roster_is_recent_fleet [OF d(1) prod.collapse [symmetric] prod.collapse [symmetric], of "[]" "''vm''"]
    roster_is_recent_fleet [OF d(2) prod.collapse [symmetric] prod.collapse [symmetric], of "[]" "''vm''"]
  show ?thesis
    by (simp add: wanted)
qed

theorem outage_keeps_roster_witness:
  "daemon_error (fst (sampler_run [] [(1, Inl ''gone''), (2, Inl ''gone''), (3, Inl ''no reply'')]
     (dash_shared_new 0 50000000, []))) = Some ''no reply''"
  using outage_keeps_roster [of "dash_shared_new 0 50000000"
      "[(1, ''gone''), (2, ''gone''), (3, ''no reply'')]" "[]" "[]"]
  by (simp add: dash_shared_new_def split: prod.splits)

end
