(* ===== verification/Dashboard_Keys.thy ===== *)
theory Dashboard_Keys
  imports Dashboard Runs
begin

section \<open>The dashboard's keyboard (bin/iothread-tui.rs)\<close>

text \<open>
  The state of the user interface and what every key does to it, to the state shared with the sampler
  and to the daemon: the calls of \<open>SetThreadCount\<close> a key causes are returned as a list.  How a
  float prints with all its digits is the argument \<open>shown\<close>.
\<close>

datatype plot_kind = PlotPerf | PlotLatency | PlotCpu | PlotQueueDepth | PlotCpuPerIop
datatype perf_metric = MetricIops | MetricBandwidth
datatype focus = FocusVm string | FocusTotal

datatype prompt_kind =
    RefreshSecs
  | YMax plot_kind
  | SetThreadsOf string u32 bool

datatype dash_column =
    ColId | ColThreads | ColIops | ColBandwidth | ColCpu | ColUsPerIop | ColLatRead | ColLatWrite
  | ColQueueDepth | ColNumQueues

definition all_columns :: "dash_column list" where
  "all_columns = [ColId, ColThreads, ColIops, ColBandwidth, ColCpu, ColUsPerIop, ColLatRead, ColLatWrite,
     ColQueueDepth, ColNumQueues]"

definition column_required :: "dash_column \<Rightarrow> bool" where
  "column_required c = (c = ColId)"

record ui_state =
  ui_active_plots :: "plot_kind list"
  ui_perf_metric :: perf_metric
  ui_focused :: "focus option"
  ui_paused :: bool
  ui_paused_t_frozen :: "f64 option"
  ui_sticky_mode :: bool
  ui_show_help :: bool
  ui_show_aggregate :: bool
  ui_input_prompt :: "(prompt_kind \<times> string) option"
  ui_theme_idx :: nat
  ui_columns :: "dash_column set"
  ui_column_picker :: "nat option"
  ui_log_y_scale :: bool
  ui_y_max_override :: "plot_kind \<Rightarrow> f64 option"
  ui_wall_clock_x :: bool
  ui_started_unix_s :: u64

definition ui_state_new :: "perf_metric \<Rightarrow> u64 \<Rightarrow> ui_state" where
  "ui_state_new metric started =
     \<lparr>ui_active_plots = [PlotPerf], ui_perf_metric = metric, ui_focused = None, ui_paused = False,
      ui_paused_t_frozen = None, ui_sticky_mode = False, ui_show_help = False, ui_show_aggregate = False,
      ui_input_prompt = None, ui_theme_idx = 1,
      ui_columns = {ColId, ColThreads, ColIops, ColBandwidth, ColCpu, ColUsPerIop, ColQueueDepth, ColNumQueues},
      ui_column_picker = None, ui_log_y_scale = False, ui_y_max_override = (\<lambda>_. None),
      ui_wall_clock_x = False, ui_started_unix_s = started\<rparr>"

definition visible_columns :: "ui_state \<Rightarrow> dash_column list" where
  "visible_columns ui = filter (\<lambda>c. c \<in> ui_columns ui) all_columns"

text \<open>The number of themes.\<close>

definition theme_count :: nat where
  "theme_count = 2"

definition metric_toggle :: "perf_metric \<Rightarrow> perf_metric" where
  "metric_toggle m = (case m of MetricIops \<Rightarrow> MetricBandwidth | MetricBandwidth \<Rightarrow> MetricIops)"

definition plots_aggregate :: "ui_state \<Rightarrow> nat \<Rightarrow> bool" where
  "plots_aggregate ui vm_count = (ui_show_aggregate ui \<and> 2 \<le> vm_count)"

definition toggle_aggregate :: "ui_state \<Rightarrow> ui_state" where
  "toggle_aggregate ui =
     (let ui = ui\<lparr>ui_show_aggregate := \<not> ui_show_aggregate ui\<rparr>
      in if \<not> ui_show_aggregate ui \<and> ui_focused ui = Some FocusTotal then ui\<lparr>ui_focused := None\<rparr> else ui)"

definition toggle_plot :: "plot_kind \<Rightarrow> ui_state \<Rightarrow> ui_state" where
  "toggle_plot k ui =
     (if k \<in> set (ui_active_plots ui)
      then if 1 < length (ui_active_plots ui) then ui\<lparr>ui_active_plots := remove1 k (ui_active_plots ui)\<rparr> else ui
      else ui\<lparr>ui_active_plots := ui_active_plots ui @ [k]\<rparr>)"

definition cycle_theme :: "ui_state \<Rightarrow> ui_state" where
  "cycle_theme ui = ui\<lparr>ui_theme_idx := (ui_theme_idx ui + 1) mod theme_count\<rparr>"

subsection \<open>Keys\<close>

text \<open>Characters outside ASCII are \<open>KOther\<close>: no binding and no prompt takes one.\<close>

datatype key = KChar char | KEsc | KEnter | KBackspace | KTab | KUp | KDown | KOther

text \<open>\<open>read_key_event\<close>: Ctrl-C arrives as Esc.\<close>

definition pressed_key :: "bool \<Rightarrow> key \<Rightarrow> key" where
  "pressed_key ctrl k = (if k = KChar CHR ''c'' \<and> ctrl then KEsc else k)"

definition handle_column_picker_key :: "key \<Rightarrow> ui_state \<Rightarrow> ui_state" where
  "handle_column_picker_key k ui =
     (case ui_column_picker ui of
        None \<Rightarrow> ui
      | Some cursor \<Rightarrow>
          let total = length all_columns
          in if k \<in> {KEsc, KChar CHR ''q'', KChar CHR ''c''} then ui\<lparr>ui_column_picker := None\<rparr>
             else if k \<in> {KDown, KChar CHR ''j''} then ui\<lparr>ui_column_picker := Some ((cursor + 1) mod total)\<rparr>
             else if k \<in> {KUp, KChar CHR ''k''}
             then ui\<lparr>ui_column_picker := Some ((cursor + total - 1) mod total)\<rparr>
             else if k \<in> {KChar CHR '' '', KEnter} then
               (let col = all_columns ! cursor
                in if column_required col then ui
                   else if col \<in> ui_columns ui then ui\<lparr>ui_columns := ui_columns ui - {col}\<rparr>
                   else ui\<lparr>ui_columns := insert col (ui_columns ui)\<rparr>)
             else ui)"

subsection \<open>Prompts\<close>

type_synonym thread_request = "string \<times> u32 \<times> bool"

definition parse_u32 :: "string \<Rightarrow> u32 option" where
  "parse_u32 s = map_option word_of_int (parse_uint (2 ^ 32 - 1) s)"

definition close_prompt :: "ui_state \<Rightarrow> ui_state" where
  "close_prompt ui = ui\<lparr>ui_input_prompt := None\<rparr>"

definition commit_input_prompt ::
  "ui_state \<Rightarrow> dash_shared \<Rightarrow> ui_state \<times> dash_shared \<times> thread_request list" where
  "commit_input_prompt ui sh =
     (case ui_input_prompt ui of
        None \<Rightarrow> (ui, sh, [])
      | Some (RefreshSecs, buffer) \<Rightarrow>
          (case parse_f64 (trim buffer) of
             None \<Rightarrow> (ui, sh, [])
           | Some v \<Rightarrow>
               if \<not> f64_is_finite v \<or> f64_lt v (f64_lit (5 / 100)) then (ui, sh, [])
               else (close_prompt ui,
                     sh\<lparr>sh_refresh_ns := f64_as_word (f64_mul v (f64_lit 1000000000))\<rparr>, []))
      | Some (YMax kind, buffer) \<Rightarrow>
          let trimmed = trim buffer
          in if trimmed = [] \<or> trimmed = ''0''
             then (close_prompt (ui\<lparr>ui_y_max_override := (ui_y_max_override ui)(kind := None)\<rparr>), sh, [])
             else (case parse_f64 trimmed of
                     None \<Rightarrow> (ui, sh, [])
                   | Some v \<Rightarrow>
                       if \<not> f64_is_finite v \<or> f64_le v (Fin 0) then (ui, sh, [])
                       else (close_prompt (ui\<lparr>ui_y_max_override := (ui_y_max_override ui)(kind := Some v)\<rparr>), sh, []))
      | Some (SetThreadsOf vm current sticky, buffer) \<Rightarrow>
          (case parse_u32 (trim buffer) of
             None \<Rightarrow> (ui, sh, [])
           | Some v \<Rightarrow> if v = 0 then (ui, sh, []) else (close_prompt ui, sh, [(vm, v, sticky)])))"

text \<open>What a character adds to the buffer.\<close>

definition type_char :: "prompt_kind \<Rightarrow> string \<Rightarrow> char \<Rightarrow> string" where
  "type_char kind buffer c =
     (let dot_ok = (case kind of SetThreadsOf _ _ _ \<Rightarrow> False | _ \<Rightarrow> True) \<and> c = CHR ''.'' \<and> CHR ''.'' \<notin> set buffer
      in if (is_digit c \<or> dot_ok) \<and> length buffer < 12 then buffer @ [c] else buffer)"

definition handle_input_prompt_key ::
  "key \<Rightarrow> ui_state \<Rightarrow> dash_shared \<Rightarrow> ui_state \<times> dash_shared \<times> thread_request list" where
  "handle_input_prompt_key k ui sh =
     (case ui_input_prompt ui of
        None \<Rightarrow> (ui, sh, [])
      | Some (kind, buffer) \<Rightarrow>
          if k = KEsc then (close_prompt ui, sh, [])
          else if k = KEnter then commit_input_prompt ui sh
          else if k = KBackspace then (ui\<lparr>ui_input_prompt := Some (kind, butlast buffer)\<rparr>, sh, [])
          else if k = KTab \<or> k = KChar CHR '' '' then
            (case kind of
               SetThreadsOf vm current sticky \<Rightarrow>
                 (ui\<lparr>ui_input_prompt := Some (SetThreadsOf vm current (\<not> sticky), buffer)\<rparr>, sh, [])
             | _ \<Rightarrow> (ui, sh, []))
          else (case k of
                  KChar c \<Rightarrow> (ui\<lparr>ui_input_prompt := Some (kind, type_char kind buffer c)\<rparr>, sh, [])
                | _ \<Rightarrow> (ui, sh, [])))"

text \<open>The float formats \<open>{:.0}\<close> and the one of the refresh prompt.\<close>

definition fmt_whole :: "f64 \<Rightarrow> string" where
  "fmt_whole v =
     (case v of
        NaN \<Rightarrow> ''NaN''
      | PosInf \<Rightarrow> ''inf''
      | NegInf \<Rightarrow> ''-inf''
      | Fin r \<Rightarrow> if r < 0 then ''-'' @ show_int (round_half_even (- r)) else show_int (round_half_even r))"

definition f64_fract :: "f64 \<Rightarrow> f64" where
  "f64_fract v = (case v of Fin r \<Rightarrow> Fin (if 0 \<le> r then r - of_int \<lfloor>r\<rfloor> else r - of_int \<lceil>r\<rceil>) | _ \<Rightarrow> NaN)"

definition f64_abs :: "f64 \<Rightarrow> f64" where
  "f64_abs v = (case v of NaN \<Rightarrow> NaN | Fin r \<Rightarrow> Fin \<bar>r\<bar> | _ \<Rightarrow> PosInf)"

definition fmt_prompt_secs :: "(f64 \<Rightarrow> string) \<Rightarrow> f64 \<Rightarrow> string" where
  "fmt_prompt_secs shown s =
     (if \<not> f64_is_finite s \<or> f64_le s (Fin 0) then []
      else if f64_lt (f64_abs (f64_fract s)) (f64_lit (1 / 1000000))
      then show_word (f64_as_word (f64_round s) :: u64)
      else let t = shown s
           in if CHR ''.'' \<in> set t
              then let t = rev (dropWhile ((=) CHR ''0'') (rev t))
                   in if t \<noteq> [] \<and> last t = CHR ''.'' then butlast t else t
              else t)"

definition open_refresh_prompt :: "(f64 \<Rightarrow> string) \<Rightarrow> dash_shared \<Rightarrow> ui_state \<Rightarrow> ui_state" where
  "open_refresh_prompt shown sh ui =
     ui\<lparr>ui_input_prompt := Some (RefreshSecs, fmt_prompt_secs shown (as_secs_f64 (refresh_period sh)))\<rparr>"

definition open_ymax_prompt :: "ui_state \<Rightarrow> ui_state" where
  "open_ymax_prompt ui =
     (case ui_active_plots ui of
        [] \<Rightarrow> ui
      | plot # _ \<Rightarrow>
          ui\<lparr>ui_input_prompt := Some (YMax plot,
               case ui_y_max_override ui plot of None \<Rightarrow> [] | Some v \<Rightarrow> fmt_whole v)\<rparr>)"

definition find_vm :: "dash_shared \<Rightarrow> string \<Rightarrow> vm_view option" where
  "find_vm sh vm = find (\<lambda>v. vv_id v = vm) (sh_vms sh)"

definition focused_view :: "ui_state \<Rightarrow> dash_shared \<Rightarrow> vm_view option" where
  "focused_view ui sh = (case ui_focused ui of Some (FocusVm vm) \<Rightarrow> find_vm sh vm | _ \<Rightarrow> None)"

definition open_set_threads_prompt :: "dash_shared \<Rightarrow> ui_state \<Rightarrow> ui_state" where
  "open_set_threads_prompt sh ui =
     (case focused_view ui sh of
        None \<Rightarrow> ui
      | Some v \<Rightarrow>
          let cur = ls_thread_count (vv_status v)
          in ui\<lparr>ui_input_prompt := Some (SetThreadsOf (vv_id v) cur (ui_sticky_mode ui), show_word cur)\<rparr>)"

subsection \<open>The other keys\<close>

definition toggle_pause :: "instant \<Rightarrow> ui_state \<Rightarrow> dash_shared \<Rightarrow> ui_state \<times> dash_shared" where
  "toggle_pause now ui sh =
     (let paused = \<not> ui_paused ui
      in (ui\<lparr>ui_paused := paused,
             ui_paused_t_frozen := (if paused then Some (as_secs_f64 (max 0 (now - sh_started sh))) else None)\<rparr>,
          sh\<lparr>sh_paused := paused\<rparr>))"

definition position_or_0 :: "string \<Rightarrow> string list \<Rightarrow> nat" where
  "position_or_0 vm ids = (if vm \<in> set ids then length (takeWhile (\<lambda>i. i \<noteq> vm) ids) else 0)"

definition move_focus :: "int \<Rightarrow> dash_shared \<Rightarrow> ui_state \<Rightarrow> ui_state" where
  "move_focus delta sh ui =
     (let ids = map vv_id (sh_vms sh); n = length ids
      in if n = 0 then ui\<lparr>ui_focused := None\<rparr>
         else let total_slot = plots_aggregate ui n;
                  slots = int (if total_slot then n + 1 else n);
                  cur = int (case ui_focused ui of
                      Some (FocusVm vm) \<Rightarrow> position_or_0 vm ids
                    | Some FocusTotal \<Rightarrow> n
                    | None \<Rightarrow> 0);
                  next = nat ((cur + delta) mod slots)
              in ui\<lparr>ui_focused := Some (if total_slot \<and> next = n then FocusTotal else FocusVm (ids ! next))\<rparr>)"

text \<open>The count is taken as a signed number; a change below one is not sent.\<close>

definition nudge_thread_count :: "int \<Rightarrow> bool \<Rightarrow> ui_state \<Rightarrow> dash_shared \<Rightarrow> thread_request list" where
  "nudge_thread_count delta sticky ui sh =
     (case focused_view ui sh of
        None \<Rightarrow> []
      | Some v \<Rightarrow>
          let new = ls_thread_count (vv_status v) + word_of_int delta
          in if sint new < 1 then [] else [(vv_id v, new, sticky)])"

text \<open>The bindings of characters, and \<open>handle_key\<close>: whether to quit, the states and the
  calls.\<close>

definition char_key ::
  "(f64 \<Rightarrow> string) \<Rightarrow> instant \<Rightarrow> char \<Rightarrow> ui_state \<Rightarrow> dash_shared \<Rightarrow>
   bool \<times> ui_state \<times> dash_shared \<times> thread_request list"
where
  "char_key shown now c ui sh =
     (if c = CHR ''q'' then (True, ui, sh, [])
     else if c \<in> {CHR ''h'', CHR ''?''} then (False, ui\<lparr>ui_show_help := True\<rparr>, sh, [])
     else if c = CHR ''m'' then (False, ui\<lparr>ui_perf_metric := metric_toggle (ui_perf_metric ui)\<rparr>, sh, [])
     else if c \<in> {CHR ''p'', CHR '' ''}
     then (case toggle_pause now ui sh of (ui, sh) \<Rightarrow> (False, ui, sh, []))
     else if c = CHR ''r'' then (False, open_refresh_prompt shown sh ui, sh, [])
     else if c = CHR ''c'' then (False, ui\<lparr>ui_column_picker := Some 0\<rparr>, sh, [])
     else if c = CHR ''t'' then (False, cycle_theme ui, sh, [])
     else if c = CHR ''a'' then (False, toggle_aggregate ui, sh, [])
     else if c = CHR ''s'' then (False, ui\<lparr>ui_sticky_mode := \<not> ui_sticky_mode ui\<rparr>, sh, [])
     else if c = CHR ''1'' then (False, toggle_plot PlotPerf ui, sh, [])
     else if c = CHR ''2'' then (False, toggle_plot PlotLatency ui, sh, [])
     else if c = CHR ''3'' then (False, toggle_plot PlotCpu ui, sh, [])
     else if c = CHR ''4'' then (False, toggle_plot PlotQueueDepth ui, sh, [])
     else if c = CHR ''5'' then (False, toggle_plot PlotCpuPerIop ui, sh, [])
     else if c = CHR ''j'' then (False, move_focus 1 sh ui, sh, [])
     else if c = CHR ''k'' then (False, move_focus (- 1) sh ui, sh, [])
     else if c \<in> {CHR ''+'', CHR ''=''}
     then (False, ui, sh, nudge_thread_count 1 (ui_sticky_mode ui) ui sh)
     else if c \<in> {CHR ''-'', CHR ''_''}
     then (False, ui, sh, nudge_thread_count (- 1) (ui_sticky_mode ui) ui sh)
     else if c = CHR ''l'' then (False, ui\<lparr>ui_log_y_scale := \<not> ui_log_y_scale ui\<rparr>, sh, [])
     else if c = CHR ''z'' then (False, ui, reset_autoscale sh, [])
     else if c = CHR ''y'' then (False, open_ymax_prompt ui, sh, [])
     else if c = CHR ''x'' then (False, ui\<lparr>ui_wall_clock_x := \<not> ui_wall_clock_x ui\<rparr>, sh, [])
     else if c = CHR ''n'' then (False, open_set_threads_prompt sh ui, sh, [])
     else (False, ui, sh, []))"

definition handle_key ::
  "(f64 \<Rightarrow> string) \<Rightarrow> instant \<Rightarrow> key \<Rightarrow> ui_state \<Rightarrow> dash_shared \<Rightarrow>
   bool \<times> ui_state \<times> dash_shared \<times> thread_request list"
where
  "handle_key shown now k ui sh =
     (if ui_show_help ui then (False, ui\<lparr>ui_show_help := False\<rparr>, sh, [])
      else if ui_input_prompt ui \<noteq> None then (False, handle_input_prompt_key k ui sh)
      else if ui_column_picker ui \<noteq> None then (False, handle_column_picker_key k ui, sh, [])
      else case k of
             KEsc \<Rightarrow>
               if ui_focused ui \<noteq> None then (False, ui\<lparr>ui_focused := None\<rparr>, sh, [])
               else if ui_sticky_mode ui then (False, ui\<lparr>ui_sticky_mode := False\<rparr>, sh, [])
               else (True, ui, sh, [])
           | KDown \<Rightarrow> (False, move_focus 1 sh ui, sh, [])
           | KUp \<Rightarrow> (False, move_focus (- 1) sh ui, sh, [])
           | KChar c \<Rightarrow> char_key shown now c ui sh
           | _ \<Rightarrow> (False, ui, sh, []))"

text \<open>A property of every branch of a chain of conditions.\<close>

lemma if_chain: "(c \<Longrightarrow> P x) \<Longrightarrow> (\<not> c \<Longrightarrow> P y) \<Longrightarrow> P (if c then x else y)"
  by simp

subsection \<open>The dashboard as a whole\<close>

text \<open>
  Keys and turns of the sampler in any order, until the operator quits.  A turn waits for the daemon
  in between, and keys are handled meanwhile: \<open>dh_polling\<close> is the time at which the call under
  way was made.  \<open>dh_sent\<close> are the calls of \<open>SetThreadCount\<close> made so far.
\<close>

record dash_world =
  dh_ui :: ui_state
  dh_shared :: dash_shared
  dh_streak :: "u32 hash_map"
  dh_polling :: "instant option"
  dh_sent :: "thread_request list"
  dh_quit :: bool

inductive dash_next :: "(f64 \<Rightarrow> string) \<Rightarrow> string list \<Rightarrow> dash_world \<Rightarrow> dash_world \<Rightarrow> bool"
  for shown select
where
  key_pressed: "\<not> dh_quit w \<Longrightarrow>
    handle_key shown now (pressed_key ctrl k) (dh_ui w) (dh_shared w) = (quit, ui, sh, requests) \<Longrightarrow>
    dash_next shown select w
      (w\<lparr>dh_ui := ui, dh_shared := sh, dh_sent := dh_sent w @ requests, dh_quit := quit\<rparr>)"
| poll_begins: "\<not> dh_quit w \<Longrightarrow> dh_polling w = None \<Longrightarrow> \<not> sh_paused (dh_shared w) \<Longrightarrow>
    dash_next shown select w (w\<lparr>dh_polling := Some now\<rparr>)"
| sampled: "\<not> dh_quit w \<Longrightarrow> dh_polling w = Some now \<Longrightarrow>
    sampler_reply select now reply (dh_shared w, dh_streak w) = (sh, streak) \<Longrightarrow>
    dash_next shown select w (w\<lparr>dh_shared := sh, dh_streak := streak, dh_polling := None\<rparr>)"

inductive_cases dash_nextE [elim!]: "dash_next shown select w w'"

text \<open>\<open>main\<close>, once the daemon has answered; \<open>refresh_secs\<close> is the option of the command line.\<close>

definition dash_init :: "perf_metric \<Rightarrow> u64 \<Rightarrow> instant \<Rightarrow> f64 \<Rightarrow> dash_world" where
  "dash_init metric started now refresh_secs =
     \<lparr>dh_ui = ui_state_new metric started,
      dh_shared = dash_shared_new now
        (f64_as_word (f64_mul (f64_max refresh_secs (f64_lit (5 / 100))) (f64_lit 1000000000))),
      dh_streak = [], dh_polling = None, dh_sent = [], dh_quit = False\<rparr>"

subsection \<open>What a key can send\<close>

definition nudged :: "char \<Rightarrow> ui_state \<Rightarrow> dash_shared \<Rightarrow> bool \<times> ui_state \<times> dash_shared \<times> thread_request list \<Rightarrow> bool" where
  "nudged c ui sh r = (case r of (quit, ui', sh', requests) \<Rightarrow> requests \<noteq> [] \<longrightarrow>
     (\<exists>delta. (delta = 1 \<and> c \<in> {CHR ''+'', CHR ''=''} \<or> delta = - 1 \<and> c \<in> {CHR ''-'', CHR ''_''}) \<and>
        requests = nudge_thread_count delta (ui_sticky_mode ui) ui sh \<and> \<not> quit \<and> sh' = sh))"

lemma nudged_none: "nudged c ui sh (quit, ui', sh', [])"
  by (simp add: nudged_def)

lemma nudged_up: "c \<in> {CHR ''+'', CHR ''=''} \<Longrightarrow> nudged c ui sh (False, ui', sh, nudge_thread_count 1 (ui_sticky_mode ui) ui sh)"
  unfolding nudged_def by blast

lemma nudged_down:
  "c \<in> {CHR ''-'', CHR ''_''} \<Longrightarrow> nudged c ui sh (False, ui', sh, nudge_thread_count (- 1) (ui_sticky_mode ui) ui sh)"
  unfolding nudged_def by blast

lemma char_key_nudged: "nudged c ui sh (char_key shown now c ui sh)"
  unfolding char_key_def toggle_pause_def Let_def prod.case
  by (intro if_chain [where P = "nudged c ui sh"] nudged_none nudged_up nudged_down; assumption)

lemma requests_cases:
  assumes "handle_key shown now k ui sh = (quit, ui', sh', requests)" and "requests \<noteq> []"
  shows "\<exists>vm n sticky. requests = [(vm, n, sticky)] \<and> 0 < n \<and> \<not> quit \<and> \<not> ui_show_help ui \<and> sh' = sh \<and>
    ((\<exists>v. ui_input_prompt ui = None \<and> ui_column_picker ui = None \<and> ui_focused ui = Some (FocusVm vm) \<and>
        v \<in> set (sh_vms sh) \<and> vv_id v = vm \<and> sticky = ui_sticky_mode ui \<and>
        (k \<in> {KChar CHR ''+'', KChar CHR ''=''} \<and> n = ls_thread_count (vv_status v) + 1 \<or>
         k \<in> {KChar CHR ''-'', KChar CHR ''_''} \<and> n = ls_thread_count (vv_status v) - 1)) \<or>
     (\<exists>cur buffer. k = KEnter \<and> ui_input_prompt ui = Some (SetThreadsOf vm cur sticky, buffer) \<and>
        parse_u32 (trim buffer) = Some n \<and> ui_input_prompt ui' = None))"
proof -
  have nohelp: "\<not> ui_show_help ui"
    using assms by (auto simp: handle_key_def)
  show ?thesis
  proof (cases "ui_input_prompt ui")
    case (Some p)
    then have "handle_input_prompt_key k ui sh = (ui', sh', requests)" "\<not> quit"
      using assms(1) nohelp by (simp_all add: handle_key_def)
    with Some assms(2) nohelp show ?thesis
      by (cases p; cases "fst p")
        (auto simp: handle_input_prompt_key_def commit_input_prompt_def close_prompt_def Let_def word_neq_0_conv
          split: if_splits option.splits key.splits prompt_kind.splits)
  next
    case None
    have picker: "ui_column_picker ui = None"
      using assms None nohelp by (cases "ui_column_picker ui") (simp_all add: handle_key_def)
    have pos: "0 < n" if "\<not> sint n < 1" for n :: u32
      using that by (auto simp: word_neq_0_conv [symmetric])
    show ?thesis
    proof (cases k)
      case (KChar c)
      with assms None nohelp picker
      have "char_key shown now c ui sh = (quit, ui', sh', requests)"
        by (simp add: handle_key_def)
      then have "nudged c ui sh (quit, ui', sh', requests)"
        using char_key_nudged [of c ui sh shown now] by simp
      then obtain delta where
        d: "delta = 1 \<and> c \<in> {CHR ''+'', CHR ''=''} \<or> delta = - 1 \<and> c \<in> {CHR ''-'', CHR ''_''}"
        and req: "requests = nudge_thread_count delta (ui_sticky_mode ui) ui sh" and rest: "\<not> quit" "sh' = sh"
        using assms(2) unfolding nudged_def prod.case by blast
      then obtain v where v: "focused_view ui sh = Some v"
          "requests = [(vv_id v, ls_thread_count (vv_status v) + word_of_int delta, ui_sticky_mode ui)]"
          "\<not> sint (ls_thread_count (vv_status v) + word_of_int delta) < 1"
        using assms(2) by (auto simp: nudge_thread_count_def Let_def split: option.splits if_splits)
      have "ui_focused ui = Some (FocusVm (vv_id v))" "v \<in> set (sh_vms sh)"
        using v(1) by (auto simp: focused_view_def find_vm_def find_Some_iff split: option.splits focus.splits)
      moreover have "word_of_int (- 1) = (- 1 :: u32)"
        by simp
      ultimately show ?thesis
        using d v(2) pos [OF v(3)] rest None nohelp picker KChar by auto
    qed (use assms None nohelp picker in \<open>auto simp: handle_key_def split: if_splits\<close>)
  qed
qed

subsection \<open>What always holds of the dashboard\<close>

definition ui_ok :: "ui_state \<Rightarrow> bool" where
  "ui_ok ui \<longleftrightarrow>
     ui_active_plots ui \<noteq> [] \<and> distinct (ui_active_plots ui) \<and> ColId \<in> ui_columns ui \<and>
     ui_theme_idx ui < theme_count \<and> (\<forall>c. ui_column_picker ui = Some c \<longrightarrow> c < length all_columns) \<and>
     (ui_focused ui = Some FocusTotal \<longrightarrow> ui_show_aggregate ui) \<and>
     (\<forall>k v. ui_y_max_override ui k = Some v \<longrightarrow> f64_is_finite v \<and> f64_lt (Fin 0) v) \<and>
     (ui_input_prompt ui \<noteq> None \<longrightarrow> ui_column_picker ui = None) \<and>
     (ui_show_help ui \<longrightarrow> ui_input_prompt ui = None \<and> ui_column_picker ui = None) \<and>
     (ui_paused ui \<longleftrightarrow> ui_paused_t_frozen ui \<noteq> None)"

definition views_bounded :: "dash_shared \<Rightarrow> bool" where
  "views_bounded sh \<longleftrightarrow> length (sh_aggregate sh) \<le> max_history \<and>
     (\<forall>v\<in>set (sh_vms sh). length (vv_samples v) \<le> max_history \<and> length (vv_annots v) \<le> max_history)"

lemma length_all_columns [simp]: "length all_columns = 10"
  by (simp add: all_columns_def)

lemma picker_ok:
  assumes "ui_ok ui"
  shows "ui_ok (handle_column_picker_key k ui)"
proof (cases "ui_column_picker ui")
  case None
  with assms show ?thesis
    by (simp add: handle_column_picker_key_def)
next
  case (Some cursor)
  have set: "ui_ok (ui\<lparr>ui_column_picker := c\<rparr>)" if "\<And>i. c = Some i \<Longrightarrow> i < 10" for c
    using assms Some that by (cases c) (simp_all add: ui_ok_def)
  have "ui_ok (ui\<lparr>ui_columns := ui_columns ui - {col}\<rparr>)" if "\<not> column_required col" for col
    using assms that by (simp add: ui_ok_def column_required_def)
  moreover have "ui_ok (ui\<lparr>ui_columns := insert col (ui_columns ui)\<rparr>)" for col
    using assms by (simp add: ui_ok_def)
  moreover have "(cursor + 1) mod 10 < 10" "(cursor + 10 - 1) mod 10 < (10 :: nat)"
    by simp_all
  ultimately show ?thesis
    unfolding handle_column_picker_key_def Let_def option.case Some length_all_columns
    by (intro if_chain [where P = ui_ok] assms set) simp_all
qed

lemma f64_finite_pos: "f64_is_finite v \<Longrightarrow> \<not> f64_le v (Fin 0) \<Longrightarrow> f64_lt (Fin 0) v"
  by (cases v) auto

text \<open>What keys keep: the state is well formed and only the pause key touches the pause.\<close>

definition key_keeps :: "ui_state \<Rightarrow> dash_shared \<Rightarrow> ui_state \<Rightarrow> dash_shared \<Rightarrow> bool" where
  "key_keeps ui sh ui' sh' \<longleftrightarrow> ui_ok ui' \<and> ui_paused ui' = ui_paused ui \<and> sh_paused sh' = sh_paused sh \<and>
     sh_vms sh' = sh_vms sh \<and> sh_aggregate sh' = sh_aggregate sh"

lemma close_prompt_keeps: "ui_ok ui \<Longrightarrow> key_keeps ui sh (close_prompt ui) sh"
  by (simp add: key_keeps_def close_prompt_def ui_ok_def)

lemma close_override_keeps:
  "ui_ok ui \<Longrightarrow> (\<And>v. m = Some v \<Longrightarrow> f64_is_finite v \<and> f64_lt (Fin 0) v) \<Longrightarrow>
     key_keeps ui sh (close_prompt (ui\<lparr>ui_y_max_override := (ui_y_max_override ui)(k := m)\<rparr>)) sh"
  by (cases m) (simp_all add: key_keeps_def close_prompt_def ui_ok_def)

lemma commit_ok:
  assumes "ui_ok ui" and "commit_input_prompt ui sh = (ui', sh', requests)"
  shows "key_keeps ui sh ui' sh'"
proof (cases "ui_input_prompt ui")
  case None
  with assms show ?thesis
    by (simp add: commit_input_prompt_def key_keeps_def)
next
  case (Some p)
  obtain kind buffer where p: "p = (kind, buffer)"
    by fastforce
  have same: "key_keeps ui sh ui sh" and closed: "key_keeps ui sh (close_prompt ui) sh"
    using assms(1) by (simp add: key_keeps_def, intro close_prompt_keeps)
  have refresh: "key_keeps ui sh (close_prompt ui) (sh\<lparr>sh_refresh_ns := n\<rparr>)" for n
    using closed by (simp add: key_keeps_def)
  show ?thesis
  proof (cases kind)
    case RefreshSecs
    with assms(2) Some p same refresh show ?thesis
      by (auto simp: commit_input_prompt_def split: option.splits if_splits)
  next
    case (YMax k)
    with assms(2) Some p same close_override_keeps [OF assms(1), of None] show ?thesis
      by (auto simp: commit_input_prompt_def Let_def f64_finite_pos
          intro: close_override_keeps [OF assms(1)] split: option.splits if_splits)
  next
    case (SetThreadsOf vm cur sticky)
    with assms(2) Some p same closed show ?thesis
      by (auto simp: commit_input_prompt_def split: option.splits if_splits)
  qed
qed

lemma prompt_ok:
  assumes "ui_ok ui" and "handle_input_prompt_key k ui sh = (ui', sh', requests)"
  shows "key_keeps ui sh ui' sh'"
proof (cases "ui_input_prompt ui")
  case None
  with assms show ?thesis
    by (simp add: handle_input_prompt_key_def key_keeps_def)
next
  case (Some p)
  obtain kind buffer where p: "p = (kind, buffer)"
    by fastforce
  have set: "key_keeps ui sh (ui\<lparr>ui_input_prompt := Some q\<rparr>) sh" for q
    using assms(1) Some by (simp add: key_keeps_def ui_ok_def)
  have same: "key_keeps ui sh ui sh"
    using assms(1) by (simp add: key_keeps_def)
  have "case handle_input_prompt_key k ui sh of (ui', sh', requests) \<Rightarrow> key_keeps ui sh ui' sh'"
    unfolding handle_input_prompt_key_def Some p option.case prod.case
    by (intro if_chain [where P = "\<lambda>r. case r of (ui', sh', requests) \<Rightarrow> key_keeps ui sh ui' sh'"])
      (simp_all add: close_prompt_keeps [OF assms(1)] commit_ok [OF assms(1)] set same
        split: prompt_kind.split key.split prod.split)
  with assms(2) show ?thesis
    by simp
qed

text \<open>The state of the interface together with what the sampler shares with it.\<close>

definition dash_ok :: "ui_state \<Rightarrow> dash_shared \<Rightarrow> bool" where
  "dash_ok ui sh \<longleftrightarrow> ui_ok ui \<and> views_bounded sh \<and> (sh_paused sh \<longleftrightarrow> ui_paused ui)"

lemma key_keeps_dash: "key_keeps ui sh ui' sh' \<Longrightarrow> dash_ok ui sh \<Longrightarrow> dash_ok ui' sh'"
  by (simp add: key_keeps_def dash_ok_def views_bounded_def)

lemma toggle_plot_ok: "ui_ok ui \<Longrightarrow> ui_ok (toggle_plot k ui)"
  by (auto simp: toggle_plot_def ui_ok_def) (metis One_nat_def length_0_conv length_remove1 diff_is_0_eq not_less)+

lemma toggle_aggregate_ok: "ui_ok ui \<Longrightarrow> ui_ok (toggle_aggregate ui)"
  by (auto simp: toggle_aggregate_def ui_ok_def Let_def)

lemma move_focus_ok: "ui_ok ui \<Longrightarrow> ui_ok (move_focus delta sh ui)"
  by (auto simp: move_focus_def ui_ok_def Let_def plots_aggregate_def)

lemma cycle_theme_ok: "ui_ok ui \<Longrightarrow> ui_ok (cycle_theme ui)"
  by (simp add: cycle_theme_def ui_ok_def theme_count_def)

lemma other_fields_paused [simp]:
  "ui_paused (toggle_plot k ui) = ui_paused ui" "ui_paused (toggle_aggregate ui) = ui_paused ui"
  "ui_paused (move_focus delta sh ui) = ui_paused ui" "ui_paused (cycle_theme ui) = ui_paused ui"
  by (simp_all add: toggle_plot_def toggle_aggregate_def move_focus_def cycle_theme_def Let_def)

definition char_kept :: "bool \<times> ui_state \<times> dash_shared \<times> thread_request list \<Rightarrow> bool" where
  "char_kept r = (case r of (quit, ui', sh', requests) \<Rightarrow> dash_ok ui' sh')"

lemma char_key_ok:
  assumes "dash_ok ui sh" and "ui_input_prompt ui = None" and "ui_column_picker ui = None" and "\<not> ui_show_help ui"
  shows "char_kept (char_key shown now c ui sh)"
proof -
  have ui: "ui_ok ui" and bounded: "views_bounded sh" and paused: "sh_paused sh \<longleftrightarrow> ui_paused ui"
    using assms(1) by (simp_all add: dash_ok_def)
  have same: "char_kept (q, ui, sh, rs)" for q rs
    using assms(1) by (simp add: char_kept_def)
  have change: "char_kept (q, ui', sh, rs)" if "ui_ok ui'" "ui_paused ui' = ui_paused ui" for q ui' rs
    using that bounded paused by (simp add: char_kept_def dash_ok_def)
  have prompt: "ui_ok (ui\<lparr>ui_input_prompt := p\<rparr>)" for p
    using ui assms(2-4) by (simp add: ui_ok_def)
  have reset: "char_kept (q, ui, reset_autoscale sh, rs)" for q rs
    using ui paused by (simp add: char_kept_def dash_ok_def reset_autoscale_def views_bounded_def)
  have pause: "char_kept (case toggle_pause now ui sh of (ui, sh) \<Rightarrow> (False, ui, sh, []))"
    using ui bounded by (simp add: char_kept_def dash_ok_def toggle_pause_def Let_def ui_ok_def views_bounded_def)
  show ?thesis
    unfolding char_key_def
    by (intro if_chain [where P = char_kept] same change reset pause prompt toggle_plot_ok toggle_aggregate_ok
        move_focus_ok cycle_theme_ok ui)
      (simp_all add: prompt open_refresh_prompt_def open_ymax_prompt_def open_set_threads_prompt_def ui Let_def
        split: list.split option.split,
       (insert ui assms(2-4), simp_all add: ui_ok_def))
qed

lemma set_append_new:
  "v \<in> set (append_new now vms roster) \<Longrightarrow> v \<in> set roster \<or> vv_samples v = [] \<and> vv_annots v = []"
  by (induction now vms roster rule: append_new.induct) (auto simp: vm_view_new_def)

lemma reconcile_views:
  assumes "reconcile_with_snapshot select now payload (roster, streak) = (roster', streak')"
    and "\<forall>v\<in>set roster. length (vv_samples v) \<le> max_history \<and> length (vv_annots v) \<le> max_history"
  shows "\<forall>v\<in>set roster'. length (vv_samples v) \<le> max_history \<and> length (vv_annots v) \<le> max_history"
proof
  fix v assume "v \<in> set roster'"
  then have "v \<in> set (add_missing now (wanted_ids select payload) roster)"
    using assms(1) unfolding reconcile_with_snapshot_def Let_def by auto
  with assms(2) show "length (vv_samples v) \<le> max_history \<and> length (vv_annots v) \<le> max_history"
    by (auto simp: add_missing_def Let_def split: if_splits dest: set_append_new)
qed

lemma sample_view_bounded:
  "length (vv_annots v) \<le> max_history \<Longrightarrow>
     length (vv_samples (sample_view now t d v)) \<le> max_history \<and> length (vv_annots (sample_view now t d v)) \<le> max_history"
  by (simp add: sample_view_def Let_def length_push_history split: option.split)

lemma sample_roster_ok:
  assumes "views_bounded sh"
  shows "views_bounded (sample_roster now t payload sh)"
    and "sh_paused (sample_roster now t payload sh) = sh_paused sh"
  using assms
  by (auto simp: views_bounded_def sample_roster_def Let_def length_push_history sample_view_bounded
      split: option.split)

lemma sampler_keeps:
  assumes "dash_ok ui sh" and "sampler_reply select now reply (sh, streak) = (sh', streak')"
  shows "dash_ok ui sh'"
proof (cases reply)
  case (Inl e)
  with assms show ?thesis
    by (auto simp: sampler_reply_def dash_ok_def views_bounded_def)
next
  case reply: (Inr payload)
  obtain roster streak1 where rec: "reconcile_with_snapshot select now payload (sh_vms sh, streak) = (roster, streak1)"
    by fastforce
  have before: "views_bounded sh"
    using assms(1) by (simp add: dash_ok_def)
  then have "views_bounded (sh\<lparr>sh_last_error := e, sh_failed_streak := n, sh_vms := roster\<rparr>)" for e n
    using reconcile_views [OF rec before [unfolded views_bounded_def, THEN conjunct2]]
    by (simp add: views_bounded_def)
  note bounded = sample_roster_ok [OF this]
  have "sh' = sample_roster now (as_secs_f64 (max 0 (now - sh_started sh))) payload
      (sh\<lparr>sh_last_error := if 0 < sh_failed_streak sh then None else sh_last_error sh, sh_failed_streak := 0,
        sh_vms := roster\<rparr>)"
    using assms(2) reply rec by (simp add: sampler_reply_def Let_def split: if_splits)
  with bounded assms(1) show ?thesis
    by (simp add: dash_ok_def)
qed

lemma key_keeps_world:
  assumes "dash_ok ui sh" and "handle_key shown now k ui sh = (quit, ui', sh', requests)"
  shows "dash_ok ui' sh'"
proof -
  have ui: "ui_ok ui"
    using assms(1) by (simp add: dash_ok_def)
  consider "ui_show_help ui" | "\<not> ui_show_help ui" "ui_input_prompt ui \<noteq> None"
    | "\<not> ui_show_help ui" "ui_input_prompt ui = None" "ui_column_picker ui \<noteq> None"
    | "\<not> ui_show_help ui" "ui_input_prompt ui = None" "ui_column_picker ui = None"
    by blast
  then show ?thesis
  proof cases
    case 1
    with assms show ?thesis
      by (auto simp: handle_key_def dash_ok_def ui_ok_def)
  next
    case 2
    with assms(2) have "handle_input_prompt_key k ui sh = (ui', sh', requests)"
      by (auto simp: handle_key_def)
    from key_keeps_dash [OF prompt_ok [OF ui this] assms(1)] show ?thesis .
  next
    case 3
    then have "ui' = handle_column_picker_key k ui" "sh' = sh"
      using assms(2) by (auto simp: handle_key_def)
    moreover have "ui_paused (handle_column_picker_key k ui) = ui_paused ui"
      by (simp add: handle_column_picker_key_def Let_def split: option.split)
    ultimately show ?thesis
      using assms(1) picker_ok [OF ui] by (simp add: dash_ok_def)
  next
    case 4
    note plain = char_key_ok [OF assms(1) 4(2,3,1), of shown now]
    have "char_kept (handle_key shown now k ui sh)"
      using 4 plain assms(1) move_focus_ok [OF ui]
      by (cases k) (simp_all add: handle_key_def char_kept_def dash_ok_def ui_ok_def)
    with assms(2) show ?thesis
      by (simp add: char_kept_def)
  qed
qed

definition dash_inv :: "dash_world \<Rightarrow> bool" where
  "dash_inv w \<longleftrightarrow> dash_ok (dh_ui w) (dh_shared w) \<and> (\<forall>(vm, n, sticky)\<in>set (dh_sent w). 0 < n)"

lemma dash_next_inv:
  assumes "dash_next shown select w w'" and "dash_inv w"
  shows "dash_inv w'"
  using assms(1)
proof (cases rule: dash_next.cases)
  case (key_pressed now ctrl k quit ui sh requests)
  have "\<forall>(vm, n, sticky)\<in>set requests. 0 < n"
    using requests_cases [OF key_pressed(3)] by (cases "requests = []") auto
  with key_pressed assms(2) key_keeps_world [OF _ key_pressed(3)] show ?thesis
    by (auto simp: dash_inv_def)
next
  case (sampled now reply sh streak)
  with assms(2) sampler_keeps [OF _ sampled(4)] show ?thesis
    by (auto simp: dash_inv_def)
qed (use assms(2) in \<open>simp add: dash_inv_def\<close>)

definition dash_started :: "dash_world \<Rightarrow> bool" where
  "dash_started w \<longleftrightarrow> (\<exists>metric started now refresh_secs. w = dash_init metric started now refresh_secs)"

lemma dash_started_init [simp]: "dash_started (dash_init metric started now refresh_secs)"
  unfolding dash_started_def by blast

lemma dash_started_inv: "dash_started w \<Longrightarrow> dash_inv w"
  by (auto simp: dash_started_def dash_inv_def dash_init_def ui_state_new_def dash_shared_new_def dash_ok_def
      ui_ok_def views_bounded_def theme_count_def)

interpretation dash: started_invariant "dash_next shown select" dash_inv dash_started
  for shown select
  by unfold_locales (erule (1) dash_next_inv, erule dash_started_inv)

text \<open>
  C34: the dashboard resizes a pool only when told to.  From any state of the running dashboard, a step
  that sends anything is a key, outside the help and the column picker, and sends one request for one
  VM and a positive number of threads: a nudge (\<open>+\<close>, \<open>=\<close>, \<open>-\<close>, \<open>_\<close>) of the
  focused VM, by one from the count last seen and with the sticky mode shown, or the Enter of the prompt
  for that VM with the number that was typed.  Replies of the daemon, the focus on the total and every
  other key send nothing; in particular no key resizes the whole inventory, as the README says of
  \<open>A\<close>.
\<close>

theorem requests_are_deliberate:
  assumes "(dash_next shown select)\<^sup>*\<^sup>* (dash_init metric started start refresh_secs) w"
    and "dash_next shown select w w'" and "dh_sent w' \<noteq> dh_sent w"
  defines "ui \<equiv> dh_ui w"
  shows "\<exists>now k vm n sticky. dh_sent w' = dh_sent w @ [(vm, n, sticky)] \<and> 0 < n \<and>
    handle_key shown now k ui (dh_shared w) = (False, dh_ui w', dh_shared w, [(vm, n, sticky)]) \<and>
    \<not> dh_quit w' \<and> dh_shared w' = dh_shared w \<and> \<not> ui_show_help ui \<and> ui_column_picker ui = None \<and>
    ((\<exists>v. ui_input_prompt ui = None \<and> ui_focused ui = Some (FocusVm vm) \<and>
        v \<in> set (sh_vms (dh_shared w)) \<and> vv_id v = vm \<and> sticky = ui_sticky_mode ui \<and>
        (k \<in> {KChar CHR ''+'', KChar CHR ''=''} \<and> n = ls_thread_count (vv_status v) + 1 \<or>
         k \<in> {KChar CHR ''-'', KChar CHR ''_''} \<and> n = ls_thread_count (vv_status v) - 1)) \<or>
     (\<exists>cur buffer. k = KEnter \<and> ui_input_prompt ui = Some (SetThreadsOf vm cur sticky, buffer) \<and>
        parse_u32 (trim buffer) = Some n \<and> ui_input_prompt (dh_ui w') = None))"
proof -
  have "ui_ok ui"
    using dash.reachable [OF dash_started_init assms(1)] by (simp add: dash_inv_def dash_ok_def ui_def)
  then have picker: "ui_input_prompt ui \<noteq> None \<Longrightarrow> ui_column_picker ui = None"
    by (simp add: ui_ok_def)
  show ?thesis
    using assms(2)
  proof (cases rule: dash_next.cases)
    case (key_pressed now ctrl k quit ui' sh requests)
    then have "requests \<noteq> []"
      using assms(3) by auto
    from requests_cases [OF key_pressed(3) this] obtain vm n sticky where r: "requests = [(vm, n, sticky)]"
        "0 < n" "\<not> quit" "\<not> ui_show_help ui" "sh = dh_shared w"
      and how: "(\<exists>v. ui_input_prompt ui = None \<and> ui_column_picker ui = None \<and> ui_focused ui = Some (FocusVm vm) \<and>
        v \<in> set (sh_vms (dh_shared w)) \<and> vv_id v = vm \<and> sticky = ui_sticky_mode ui \<and>
        (pressed_key ctrl k \<in> {KChar CHR ''+'', KChar CHR ''=''} \<and> n = ls_thread_count (vv_status v) + 1 \<or>
         pressed_key ctrl k \<in> {KChar CHR ''-'', KChar CHR ''_''} \<and> n = ls_thread_count (vv_status v) - 1)) \<or>
     (\<exists>cur buffer. pressed_key ctrl k = KEnter \<and> ui_input_prompt ui = Some (SetThreadsOf vm cur sticky, buffer) \<and>
        parse_u32 (trim buffer) = Some n \<and> ui_input_prompt ui' = None)"
      unfolding ui_def by blast
    have picked: "ui_column_picker ui = None"
      using how picker by auto
    have run: "handle_key shown now (pressed_key ctrl k) ui (dh_shared w) = (False, ui', dh_shared w, [(vm, n, sticky)])"
      using key_pressed(3) r by (simp add: ui_def)
    show ?thesis
      by (intro exI [of _ now] exI [of _ "pressed_key ctrl k"] exI [of _ vm] exI [of _ n] exI [of _ sticky])
        (use r how picked run key_pressed(1) in auto)
  qed (use assms(3) in auto)
qed

text \<open>
  C35: what holds of the dashboard whatever is typed and whatever the daemon answers.  At least one plot
  is shown and none twice, the column of identifiers is visible, cursors and theme are in range, at
  most one dialog is open, the total is in focus only while the aggregate is on, a manual maximum is a positive
  number, the sampler is paused exactly when the display is, every history has at most 4096 entries,
  and no request ever sent asks for zero threads.
\<close>

theorem dashboard_invariant:
  assumes "(dash_next shown select)\<^sup>*\<^sup>* (dash_init metric started now refresh_secs) w"
  shows "ui_ok (dh_ui w) \<and> views_bounded (dh_shared w) \<and> (sh_paused (dh_shared w) \<longleftrightarrow> ui_paused (dh_ui w)) \<and>
    (\<forall>(vm, n, sticky)\<in>set (dh_sent w). 0 < n)"
  using dash.reachable [OF dash_started_init assms] by (simp add: dash_inv_def dash_ok_def)

subsection \<open>A concrete dashboard\<close>

definition demo_ui :: ui_state where
  "demo_ui = (ui_state_new MetricIops 0)\<lparr>ui_focused := Some (FocusVm ''vm''), ui_sticky_mode := True\<rparr>"

definition demo_shared :: dash_shared where
  "demo_shared = (dash_shared_new 0 50000000)
     \<lparr>sh_vms := [sample_view 1 (Fin 1) (demo_entry ''vm'' 3) (vm_view_new 0 ''vm'' 0)]\<rparr>"

text \<open>A poll shows a VM with three threads; \<open>Down\<close> puts it in focus and \<open>+\<close> asks for four.\<close>

definition demo_polled :: dash_world where
  "demo_polled = (dash_init MetricIops 0 0 (Fin 1))\<lparr>dh_polling := Some 0\<rparr>"

definition demo_sampled :: dash_world where
  "demo_sampled =
     (case sampler_reply [] 0 (Inr [demo_entry ''vm'' 3]) (dh_shared demo_polled, dh_streak demo_polled) of
        (sh, streak) \<Rightarrow> demo_polled\<lparr>dh_shared := sh, dh_streak := streak, dh_polling := None\<rparr>)"

definition demo_press :: "key \<Rightarrow> dash_world \<Rightarrow> dash_world" where
  "demo_press k w =
     (case handle_key (\<lambda>_. []) 0 (pressed_key False k) (dh_ui w) (dh_shared w) of
        (quit, ui, sh, requests) \<Rightarrow>
          w\<lparr>dh_ui := ui, dh_shared := sh, dh_sent := dh_sent w @ requests, dh_quit := quit\<rparr>)"

lemma demo_press_step: "\<not> dh_quit w \<Longrightarrow> dash_next (\<lambda>_. []) [] w (demo_press k w)"
  unfolding demo_press_def by (simp split: prod.split add: dash_next.key_pressed)

lemma demo_sampled_run:
  "(dash_next (\<lambda>_. []) [])\<^sup>*\<^sup>* (dash_init MetricIops 0 0 (Fin 1)) (demo_press KDown demo_sampled)"
  "\<not> dh_quit (demo_press KDown demo_sampled)"
proof -
  have "dash_next (\<lambda>_. []) [] (dash_init MetricIops 0 0 (Fin 1)) demo_polled"
    unfolding demo_polled_def by (rule poll_begins) (simp_all add: dash_init_def dash_shared_new_def)
  moreover have go: "\<not> dh_quit demo_polled" "dh_polling demo_polled = Some 0"
    by (simp_all add: demo_polled_def dash_init_def)
  then have "dash_next (\<lambda>_. []) [] demo_polled demo_sampled"
    unfolding demo_sampled_def by (simp split: prod.split add: sampled)
  moreover have "\<not> dh_quit demo_sampled"
    using go by (simp add: demo_sampled_def split: prod.split)
  then have "dash_next (\<lambda>_. []) [] demo_sampled (demo_press KDown demo_sampled)"
    by (rule demo_press_step)
  ultimately show "(dash_next (\<lambda>_. []) [])\<^sup>*\<^sup>* (dash_init MetricIops 0 0 (Fin 1)) (demo_press KDown demo_sampled)"
    by (meson converse_rtranclp_into_rtranclp rtranclp.rtrancl_refl)
  show "\<not> dh_quit (demo_press KDown demo_sampled)"
    by code_simp
qed

theorem requests_are_deliberate_witness:
  "\<exists>v. v \<in> set (sh_vms (dh_shared (demo_press KDown demo_sampled))) \<and> vv_id v = ''vm'' \<and>
     (4 = ls_thread_count (vv_status v) + 1 \<or> 4 = ls_thread_count (vv_status v) - 1) \<and>
     ui_focused (dh_ui (demo_press KDown demo_sampled)) = Some (FocusVm ''vm'') \<and>
     dh_sent (demo_press (KChar CHR ''+'') (demo_press KDown demo_sampled)) = [(''vm'', 4, False)]"
proof -
  let ?w = "demo_press KDown demo_sampled"
  have sent: "dh_sent ?w = []" "dh_sent (demo_press (KChar CHR ''+'') ?w) = [(''vm'', 4, False)]"
    and prompt: "ui_input_prompt (dh_ui ?w) = None"
    by code_simp+
  then have "dh_sent (demo_press (KChar CHR ''+'') ?w) \<noteq> dh_sent ?w"
    by simp
  from requests_are_deliberate [OF demo_sampled_run(1) demo_press_step [OF demo_sampled_run(2)] this]
  show ?thesis
    unfolding sent prompt by auto
qed

theorem dashboard_invariant_witness:
  "\<exists>w. (dash_next (\<lambda>_. []) [])\<^sup>*\<^sup>* (dash_init MetricIops 0 0 (Fin 1)) w \<and> dh_quit w \<and> ui_ok (dh_ui w)"
proof -
  let ?w = "dash_init MetricIops 0 0 (Fin 1)"
  have "handle_key (\<lambda>_. []) 0 (pressed_key False (KChar CHR ''q'')) (dh_ui ?w) (dh_shared ?w) =
      (True, dh_ui ?w, dh_shared ?w, [])"
    by (simp add: handle_key_def char_key_def pressed_key_def dash_init_def ui_state_new_def)
  then have step: "dash_next (\<lambda>_. []) [] ?w (?w\<lparr>dh_ui := dh_ui ?w, dh_shared := dh_shared ?w,
      dh_sent := dh_sent ?w @ [], dh_quit := True\<rparr>)"
    by (intro dash_next.key_pressed) (simp add: dash_init_def)
  then have "(dash_next (\<lambda>_. []) [])\<^sup>*\<^sup>* ?w (?w\<lparr>dh_ui := dh_ui ?w, dh_shared := dh_shared ?w,
      dh_sent := dh_sent ?w @ [], dh_quit := True\<rparr>)"
    by (rule r_into_rtranclp)
  from dashboard_invariant [OF this] this show ?thesis
    by (metis (no_types, lifting) dash_world.select_convs(6) dash_world.surjective dash_world.update_convs(6))
qed

end
