(* ===== verification/Dashboard_Fleet.thy ===== *)
theory Dashboard_Fleet
  imports Dashboard_Keys Daemon
begin

section \<open>The dashboard and the daemon together (bin/iothread-tui.rs, dbus.rs, controller.rs)\<close>

text \<open>
  A poll of the dashboard answered by the controller, and a resize the operator asks for on the way
  back.  The decoder of the reply is an argument; what is relied on is that it reads what the encoder
  of the controller wrote, up to the last digit of a utilisation.
\<close>

subsection \<open>A poll\<close>

text \<open>The error kept for the overlay is the context only, not what went wrong on the bus.\<close>

definition poll_daemon :: "(string \<Rightarrow> string + snapshot_vm list) \<Rightarrow> string + string \<Rightarrow> string + snapshot_vm list" where
  "poll_daemon parse call =
     (case call of
        Inl e \<Rightarrow> Inl ''D-Bus GetSnapshot''
      | Inr json \<Rightarrow>
          (case parse json of
             Inl e \<Rightarrow> Inl ''parse SnapshotPayload from daemon''
           | Inr payload \<Rightarrow> Inr payload))"

definition poll_controller ::
  "(string \<Rightarrow> string + snapshot_vm list) \<Rightarrow> ('c, 'r, 'e) controller_env \<Rightarrow> ('c, 'r, 'e) controller \<Rightarrow>
   string + snapshot_vm list"
where
  "poll_controller parse env c =
     (case service_get_snapshot of (request, result) \<Rightarrow>
        (case handle_dbus_request env request c of
           (ReplyText json, _) \<Rightarrow> poll_daemon parse (result True (Received json))
         | _ \<Rightarrow> poll_daemon parse (result True Canceled)))"

definition fleet_entries :: "('c, 'r, 'e) controller_env \<Rightarrow> ('c, 'r, 'e) controller \<Rightarrow> snapshot_vm list" where
  "fleet_entries env c = map (\<lambda>(k, i). snapshot_of (ce_median env) k i) (ct_instances c)"

definition same_but_util :: "snapshot_vm \<Rightarrow> snapshot_vm \<Rightarrow> bool" where
  "same_but_util a b \<longleftrightarrow> a\<lparr>sv_per_thread_util := Fin 0\<rparr> = b\<lparr>sv_per_thread_util := Fin 0\<rparr>"

definition reply_readable ::
  "(string \<Rightarrow> string + snapshot_vm list) \<Rightarrow> ('c, 'r, 'e) controller_env \<Rightarrow> ('c, 'r, 'e) controller \<Rightarrow> bool"
where
  "reply_readable parse env c \<longleftrightarrow>
     (\<exists>payload. parse (ce_snapshot_json env (fleet_entries env c)) = Inr payload \<and>
        list_all2 same_but_util payload (fleet_entries env c))"

lemma same_but_util_fields:
  assumes "same_but_util a b"
  shows "sv_id a = sv_id b" and "sv_thread_count a = sv_thread_count b" and "sv_vcpu_count a = sv_vcpu_count b"
    and "sv_alive a = sv_alive b" and "sv_manual_scaling_sticky a = sv_manual_scaling_sticky b"
  using assms by (cases a; cases b; simp add: same_but_util_def)+

lemma poll_controller_reads:
  assumes "reply_readable parse env c"
  obtains payload where "poll_controller parse env c = Inr payload"
    and "list_all2 same_but_util payload (fleet_entries env c)"
  using assms
  by (auto simp: reply_readable_def poll_controller_def poll_daemon_def service_get_snapshot_def
      send_and_await_def handle_dbus_request_def handle_get_snapshot_def fleet_entries_def)

subsection \<open>What a poll leaves in the roster\<close>

text \<open>No VM is forgotten with its streak still counted.\<close>

definition streak_ok :: "u32 hash_map \<Rightarrow> bool" where
  "streak_ok streak \<longleftrightarrow> hm_ok streak \<and> (\<forall>vm n. hm_get streak vm = Some n \<longrightarrow> n \<le> missing_streak_drop)"

lemma to_drop:
  "hm_ok m \<Longrightarrow> vm \<in> set (map fst (filter (\<lambda>(_, n). missing_streak_drop < n) m)) \<longleftrightarrow>
     (\<exists>n. hm_get m vm = Some n \<and> missing_streak_drop < n)"
  using hm_get_mem by (force simp: image_iff)

lemma add_missing_lists: "set wanted \<subseteq> set (map vv_id (add_missing now wanted roster))"
proof -
  have "set (map vv_id (append_new now vms roster)) = set (map vv_id roster) \<union> set vms" for vms
    using append_new_spec [of now vms roster] by (metis set_append)
  then show ?thesis
    by (auto simp: add_missing_def Let_def filter_empty_conv)
qed

lemma reconcile_keeps:
  assumes "reconcile_with_snapshot select now payload (roster, streak) = (roster', streak')" and "streak_ok streak"
  shows "streak_ok streak'"
    and "vm \<in> set (wanted_ids select payload) \<Longrightarrow> vm \<in> set (map vv_id roster')"
proof -
  let ?wanted = "wanted_ids select payload" and ?existing = "remdups (map vv_id roster)"
  let ?streak = "count_missing ?wanted ?existing streak"
  let ?drop = "map fst (filter (\<lambda>(_, n). missing_streak_drop < n) ?streak)"
  have ok: "hm_ok ?streak"
    using assms(2) by (simp add: count_missing_spec(2) streak_ok_def)
  have eq: "roster' = filter (\<lambda>v. vv_id v \<notin> set ?drop) (add_missing now ?wanted roster)"
    "streak' = foldl (\<lambda>m k. hm_remove k m) ?streak ?drop"
    using assms(1) unfolding reconcile_with_snapshot_def Let_def by (auto simp del: map_map)
  show "streak_ok streak'"
    unfolding eq streak_ok_def hash.get_del_all [OF ok] to_drop [OF ok] using hash.ok_del_all [OF ok] by (auto simp: not_less)
  assume wanted: "vm \<in> set ?wanted"
  then have "vm \<notin> set ?drop"
    using assms(2) unfolding to_drop [OF ok]
    by (auto simp: count_missing_spec(1) streak_ok_def not_less split: if_splits)
  moreover have "vm \<in> set (map vv_id (add_missing now ?wanted roster))"
    using add_missing_lists wanted by blast
  ultimately show "vm \<in> set (map vv_id roster')"
    unfolding eq ids_filter by blast
qed

lemma find_vm_listed: "\<exists>v\<in>set (sh_vms sh). vv_id v = vm \<Longrightarrow>
    \<exists>v. find_vm sh vm = Some v \<and> v \<in> set (sh_vms sh) \<and> vv_id v = vm"
  unfolding find_vm_def
  by (cases "find (\<lambda>v. vv_id v = vm) (sh_vms sh)") (auto simp: find_None_iff find_Some_iff)

lemma turn_shows:
  assumes "sampler_reply select now (Inr payload) (sh, streak) = (sh', streak')" and "streak_ok streak"
  shows "streak_ok streak'" and "sh_paused sh' = sh_paused sh"
    and "distinct (map sv_id payload) \<Longrightarrow> d \<in> set payload \<Longrightarrow> selected select (sv_id d) \<Longrightarrow>
      \<exists>v. find_vm sh' (sv_id d) = Some v \<and> vv_id v = sv_id d \<and> vv_status v = snapshot_to_status d \<and>
        vv_vcpu_count v = Some (sv_vcpu_count d)"
proof -
  obtain roster streak1 where rec: "reconcile_with_snapshot select now payload (sh_vms sh, streak) = (roster, streak1)"
    by fastforce
  let ?t = "as_secs_f64 (max 0 (now - sh_started sh))"
  have sh': "sh' = sample_roster now ?t payload
      (sh\<lparr>sh_last_error := if 0 < sh_failed_streak sh then None else sh_last_error sh, sh_failed_streak := 0,
        sh_vms := roster\<rparr>)"
    and streak': "streak' = streak1"
    using assms(1) rec by (simp_all add: sampler_reply_def Let_def split: if_splits)
  note keeps = reconcile_keeps [OF rec assms(2)]
  show "streak_ok streak'"
    unfolding streak' by (rule keeps(1))
  show "sh_paused sh' = sh_paused sh"
    by (simp add: sh' sample_roster_def Let_def)
  assume d: "distinct (map sv_id payload)" "d \<in> set payload" "selected select (sv_id d)"
  have "map_of (rev (map (\<lambda>d. (sv_id d, d)) payload)) (sv_id d) = Some d"
    using d(1,2) by (intro map_of_is_SomeI) (auto simp: rev_map [symmetric] comp_def distinct_rev)
  then have vms: "sh_vms sh' = map (\<lambda>v. case map_of (rev (map (\<lambda>d. (sv_id d, d)) payload)) (vv_id v) of
      None \<Rightarrow> v | Some d \<Rightarrow> sample_view now ?t d v) roster"
    by (simp add: sh' sample_roster_def Let_def)
  have id: "vv_id (sample_view n t d v) = vv_id v" for n t d v
    by (simp add: sample_view_def Let_def)
  have "sv_id d \<in> set (wanted_ids select payload)"
    using d(2,3) by (simp add: wanted_ids_def)
  then obtain u where "u \<in> set roster" "vv_id u = sv_id d"
    using keeps(2) by fastforce
  then have "\<exists>v\<in>set (sh_vms sh'). vv_id v = sv_id d"
    unfolding vms by (force simp: id split: option.split)
  then obtain v where v: "find_vm sh' (sv_id d) = Some v" "v \<in> set (sh_vms sh')" "vv_id v = sv_id d"
    using find_vm_listed by blast
  then obtain u where "u \<in> set roster" "vv_id u = sv_id d" "v = sample_view now ?t d u"
    using \<open>map_of _ _ = Some d\<close> unfolding vms by (auto simp: id split: option.splits)
  with v show "\<exists>v. find_vm sh' (sv_id d) = Some v \<and> vv_id v = sv_id d \<and> vv_status v = snapshot_to_status d \<and>
        vv_vcpu_count v = Some (sv_vcpu_count d)"
    by (auto simp: sample_view_def Let_def)
qed

lemma poll_shows:
  assumes "controller_ok c" and "reply_readable parse env c" and "streak_ok streak"
    and "sampler_reply select now (poll_controller parse env c) (sh, streak) = (sh', streak')"
    and "hm_get (ct_instances c) vm = Some i" and "selected select vm"
  shows "streak_ok streak'" and "sh_paused sh' = sh_paused sh"
    and "\<exists>v. find_vm sh' vm = Some v \<and> vv_id v = vm \<and>
      ls_thread_count (vv_status v) = st_thread_count (inst_status i) \<and>
      ls_sticky (vv_status v) = st_manual_scaling_sticky (inst_status i) \<and>
      ls_alive (vv_status v) = st_alive (inst_status i) \<and> vv_vcpu_count v = Some (st_vcpu_count (inst_status i))"
proof -
  obtain payload where payload: "poll_controller parse env c = Inr payload"
    and same: "list_all2 same_but_util payload (fleet_entries env c)"
    using poll_controller_reads [OF assms(2)] .
  note turn = turn_shows [OF assms(4) [unfolded payload] assms(3)]
  show "streak_ok streak'" "sh_paused sh' = sh_paused sh"
    by (rule turn(1), rule turn(2))
  have ok: "hm_ok (ct_instances c)"
    using assms(1) by (simp add: controller_ok_def)
  have entry: "sv_id (snapshot_of m k j) = k" "sv_thread_count (snapshot_of m k j) = st_thread_count (inst_status j)"
    "sv_manual_scaling_sticky (snapshot_of m k j) = st_manual_scaling_sticky (inst_status j)"
    "sv_alive (snapshot_of m k j) = st_alive (inst_status j)"
    "sv_vcpu_count (snapshot_of m k j) = st_vcpu_count (inst_status j)"
    for m k and j :: "('a, 'b) vm_instance"
    by (simp_all add: snapshot_of_def Let_def split: prod.split)
  have "map sv_id payload = map sv_id (fleet_entries env c)"
    using same by (induction rule: list_all2_induct) (simp_all add: same_but_util_fields)
  then have "distinct (map sv_id payload)"
    using ok by (simp add: fleet_entries_def entry comp_def split_beta hm_ok_def hm_keys_def)
  moreover have "(vm, i) \<in> set (ct_instances c)"
    using assms(5) ok by (simp add: hm_get_mem)
  then have "snapshot_of (ce_median env) vm i \<in> set (fleet_entries env c)"
    by (force simp: fleet_entries_def)
  then obtain d where "d \<in> set payload" and d: "same_but_util d (snapshot_of (ce_median env) vm i)"
    using same by (auto simp: list_all2_conv_all_nth in_set_conv_nth) metis
  ultimately show "\<exists>v. find_vm sh' vm = Some v \<and> vv_id v = vm \<and>
      ls_thread_count (vv_status v) = st_thread_count (inst_status i) \<and>
      ls_sticky (vv_status v) = st_manual_scaling_sticky (inst_status i) \<and>
      ls_alive (vv_status v) = st_alive (inst_status i) \<and> vv_vcpu_count v = Some (st_vcpu_count (inst_status i))"
    using turn(3) [of d] assms(6) same_but_util_fields [OF d]
    by (auto simp: entry snapshot_to_status_def)
qed

lemma sampler_reply_streak:
  assumes "sampler_reply select now reply (sh, streak) = (sh', streak')" and "streak_ok streak"
  shows "streak_ok streak'"
proof (cases reply)
  case (Inl e)
  with assms show ?thesis
    by (simp add: sampler_reply_def Let_def)
next
  case (Inr payload)
  with turn_shows(1) [OF assms(1) [unfolded Inr] assms(2)] show ?thesis
    by simp
qed

lemma dash_next_streak: "dash_next shown select w w' \<Longrightarrow> streak_ok (dh_streak w) \<Longrightarrow> streak_ok (dh_streak w')"
  by (elim dash_nextE) (simp_all add: sampler_reply_streak)

interpretation streaks: started_invariant "dash_next shown select" "\<lambda>w. streak_ok (dh_streak w)" dash_started
  for shown select
  by unfold_locales (erule (1) dash_next_streak, auto simp: dash_started_def dash_init_def streak_ok_def)

subsection \<open>A resize, from the key to the table\<close>

lemma sint_small: "uint n < 2 ^ 31 \<Longrightarrow> sint (n :: u32) = uint n"
  by (simp add: sint_uint signed_take_bit_int_eq_self order_trans [OF _ uint_ge_0])

lemma plus_key:
  assumes "find_vm sh vm = Some v" and "vv_id v = vm" and "ui_focused ui = Some (FocusVm vm)"
    and "\<not> ui_show_help ui" and "ui_input_prompt ui = None" and "ui_column_picker ui = None"
    and "uint (ls_thread_count (vv_status v)) < 2 ^ 31 - 1"
  shows "handle_key shown now (KChar CHR ''+'') ui sh =
    (False, ui, sh, [(vm, ls_thread_count (vv_status v) + 1, ui_sticky_mode ui)])"
proof -
  have "uint (ls_thread_count (vv_status v) + 1) = uint (ls_thread_count (vv_status v)) + 1"
    using assms(7) by (simp add: uint_plus_if')
  then have "\<not> sint (ls_thread_count (vv_status v) + 1) < 1"
    using assms(7) by (simp add: sint_small)
  with assms show ?thesis
    by (simp add: handle_key_def char_key_def nudge_thread_count_def focused_view_def Let_def)
qed

text \<open>
  C20: what the operator sees and does is what the controller has and gets.  After a poll, a VM the
  controller knows and the operator selected is listed with its pool size, its sticky flag and its vCPU
  count; pressing \<open>+\<close> on it sends one request for one thread more with the sticky mode of the
  title bar; and if the controller carries the request out, the next poll shows the new size and flag.
\<close>

theorem nudge_takes_effect:
  assumes "(dash_next shown select)\<^sup>*\<^sup>* (dash_init metric started now0 refresh_secs) w"
    and "\<not> sh_paused (dh_shared w)"
    and "controller_ok c" and "reply_readable parse env c"
    and "hm_get (ct_instances c) vm = Some i" and "selected select vm"
    and "uint (st_thread_count (inst_status i)) < 2 ^ 31 - 1"
    and "sampler_turn select now1 (poll_controller parse env c) (dh_shared w, dh_streak w) = (sh1, streak1)"
    and "ui_focused ui = Some (FocusVm vm)" and "\<not> ui_show_help ui" and "ui_input_prompt ui = None"
    and "ui_column_picker ui = None"
  shows "(\<exists>v. find_vm sh1 vm = Some v \<and> ls_thread_count (vv_status v) = st_thread_count (inst_status i) \<and>
      ls_sticky (vv_status v) = st_manual_scaling_sticky (inst_status i) \<and>
      vv_vcpu_count v = Some (st_vcpu_count (inst_status i))) \<and>
    handle_key shown now2 (KChar CHR ''+'') ui sh1 =
      (False, ui, sh1, [(vm, st_thread_count (inst_status i) + 1, ui_sticky_mode ui)]) \<and>
    (\<forall>c' sh2 streak2.
      handle_dbus_request env
          (fst (service_set_thread_count vm (st_thread_count (inst_status i) + 1) (ui_sticky_mode ui))) c =
        (ReplyUnit (Inr ()), c') \<longrightarrow>
      reply_readable parse env c' \<longrightarrow>
      sampler_turn select now3 (poll_controller parse env c') (sh1, streak1) = (sh2, streak2) \<longrightarrow>
      (\<exists>v. find_vm sh2 vm = Some v \<and> ls_thread_count (vv_status v) = st_thread_count (inst_status i) + 1 \<and>
        ls_sticky (vv_status v) = ui_sticky_mode ui))"
proof -
  have turn: "sampler_reply select now1 (poll_controller parse env c) (dh_shared w, dh_streak w) = (sh1, streak1)"
    using assms(2,8) by (simp add: sampler_turn_def)
  note first = poll_shows [OF assms(3,4) streaks.reachable [OF dash_started_init assms(1)] turn assms(5,6)]
  from first(3) obtain v where v: "find_vm sh1 vm = Some v" "vv_id v = vm"
    "ls_thread_count (vv_status v) = st_thread_count (inst_status i)"
    "ls_sticky (vv_status v) = st_manual_scaling_sticky (inst_status i)"
    "vv_vcpu_count v = Some (st_vcpu_count (inst_status i))"
    by blast
  have again: "\<exists>v. find_vm sh2 vm = Some v \<and> ls_thread_count (vv_status v) = st_thread_count (inst_status i) + 1 \<and>
      ls_sticky (vv_status v) = ui_sticky_mode ui"
    if run: "handle_dbus_request env
        (fst (service_set_thread_count vm (st_thread_count (inst_status i) + 1) (ui_sticky_mode ui))) c =
      (ReplyUnit (Inr ()), c')"
    and "reply_readable parse env c'"
    and "sampler_turn select now3 (poll_controller parse env c') (sh1, streak1) = (sh2, streak2)"
    for c' sh2 streak2
  proof -
    have "controller_ok c'"
      using request_kept [of c env] run assms(3) by (metis controller_kept_def snd_conv)
    moreover obtain i' where "hm_get (ct_instances c') vm = Some i'"
      "st_thread_count (inst_status i') = st_thread_count (inst_status i) + 1"
      "st_manual_scaling_sticky (inst_status i') = ui_sticky_mode ui"
      using run assms(5)
      by (auto simp: service_set_thread_count_def handle_dbus_request_def handle_set_thread_count_def Let_def
          hm_get_insert split: if_splits prod.splits sum.splits)
    ultimately show ?thesis
      using poll_shows(3) [OF _ that(2) first(1) _ _ assms(6)] that(3) first(2) assms(2)
      by (fastforce simp: sampler_turn_def)
  qed
  show ?thesis
    using v plus_key [OF v(1,2) assms(9-12), of shown now2] assms(7) again by auto
qed

subsection \<open>A concrete resize\<close>

text \<open>One VM with four threads and eight vCPUs; the encoding of a fleet is its thread counts.\<close>

definition demo_fleet :: "(u32, unit, threshold_engine) controller" where
  "demo_fleet = (demo_controller 4 demo_engine)
     \<lparr>ct_instances := [(''vm'', (instance_new ''vm'' [] 1 4)\<lparr>inst_status := status_default
        \<lparr>st_thread_count := 4, st_vcpu_count := 8\<rparr>\<rparr>)]\<rparr>"

definition demo_wire :: "(u32, unit, threshold_engine) controller_env" where
  "demo_wire = (demo_env threshold_ops)\<lparr>ce_snapshot_json := \<lambda>vms. concat (map (\<lambda>d. show_word (sv_thread_count d)) vms)\<rparr>"

definition demo_resize :: "dbus_reply \<times> (u32, unit, threshold_engine) controller" where
  "demo_resize = handle_dbus_request demo_wire (fst (service_set_thread_count ''vm'' 5 True)) demo_fleet"

definition demo_parse :: "string \<Rightarrow> string + snapshot_vm list" where
  "demo_parse s = Inr (fleet_entries demo_wire (if s = ''4'' then demo_fleet else snd demo_resize))"

lemma demo_fleet_facts:
  "controller_ok demo_fleet"
  "map_option (\<lambda>i. st_thread_count (inst_status i)) (hm_get (ct_instances demo_fleet) ''vm'') = Some 4"
  "demo_resize = (ReplyUnit (Inr ()), snd demo_resize)"
  "ce_snapshot_json demo_wire (fleet_entries demo_wire demo_fleet) = ''4''"
  "ce_snapshot_json demo_wire (fleet_entries demo_wire (snd demo_resize)) = ''5''"
proof -
  show "controller_ok demo_fleet"
    using demo_controller_ok [of 4 demo_engine]
    by (auto simp: controller_ok_def demo_fleet_def demo_controller_def hm_get_def hm_ok_def hm_keys_def
        instance_new_def classification_def ownership_default_def split: if_splits)
  show "map_option (\<lambda>i. st_thread_count (inst_status i)) (hm_get (ct_instances demo_fleet) ''vm'') = Some 4"
    by (simp add: demo_fleet_def hm_get_def)
  have "fst demo_resize = ReplyUnit (Inr ())"
    by code_simp
  then show "demo_resize = (ReplyUnit (Inr ()), snd demo_resize)"
    by (metis prod.collapse)
  show "ce_snapshot_json demo_wire (fleet_entries demo_wire demo_fleet) = ''4''"
    by code_simp
  show "ce_snapshot_json demo_wire (fleet_entries demo_wire (snd demo_resize)) = ''5''"
    by code_simp
qed

lemma demo_readable:
  "reply_readable demo_parse demo_wire demo_fleet" "reply_readable demo_parse demo_wire (snd demo_resize)"
  by (simp_all add: reply_readable_def demo_parse_def demo_fleet_facts(4,5) list_all2_refl same_but_util_def)

theorem nudge_takes_effect_witness:
  "\<exists>sh1 sh2 ui v. handle_key (\<lambda>_. []) 1 (KChar CHR ''+'') ui sh1 = (False, ui, sh1, [(''vm'', 5, True)]) \<and>
     find_vm sh2 ''vm'' = Some v \<and> ls_thread_count (vv_status v) = 5 \<and> ls_sticky (vv_status v)"
proof -
  let ?w = "dash_init MetricIops 0 0 (Fin 1)"
  obtain i where i: "hm_get (ct_instances demo_fleet) ''vm'' = Some i" "st_thread_count (inst_status i) = 4"
    using demo_fleet_facts(2) by auto
  obtain sh1 streak1 where one: "sampler_turn [] 0 (poll_controller demo_parse demo_wire demo_fleet)
      (dh_shared ?w, dh_streak ?w) = (sh1, streak1)"
    by fastforce
  obtain sh2 streak2 where two: "sampler_turn [] 2 (poll_controller demo_parse demo_wire (snd demo_resize))
      (sh1, streak1) = (sh2, streak2)"
    by fastforce
  have "\<not> sh_paused (dh_shared ?w)" "selected [] ''vm''" "uint (st_thread_count (inst_status i)) < 2 ^ 31 - 1"
    by (simp_all add: dash_init_def dash_shared_new_def selected_def i(2))
  moreover have "ui_focused demo_ui = Some (FocusVm ''vm'')" "\<not> ui_show_help demo_ui" "ui_input_prompt demo_ui = None"
    "ui_column_picker demo_ui = None" "ui_sticky_mode demo_ui"
    by (simp_all add: demo_ui_def ui_state_new_def)
  moreover note one two i demo_readable demo_fleet_facts(1)
  moreover have "handle_dbus_request demo_wire (fst (service_set_thread_count ''vm'' 5 True)) demo_fleet =
      (ReplyUnit (Inr ()), snd demo_resize)"
    using demo_fleet_facts(3) by (simp add: demo_resize_def)
  ultimately show ?thesis
    using nudge_takes_effect [OF rtranclp.rtrancl_refl, of MetricIops 0 0 "Fin 1" demo_fleet demo_parse demo_wire
        "''vm''" i "[]" 0 sh1 streak1 demo_ui "\<lambda>_. []" 1 2]
    by fastforce
qed

end
