(* ===== verification/Fleet_System.thy ===== *)
theory Fleet_System
  imports Dashboard_Fleet
begin

section \<open>The daemon and its dashboard, interleaved (daemon.rs, dbus.rs, bin/iothread-tui.rs)\<close>

text \<open>
  The whole system: the daemon with any other callers, a dashboard whose polls and calls go through
  the daemon's channel like everybody's, and restarts of the daemon in between.  Nothing is atomic
  that the programs do not do in one piece: while a poll is under way the operator types, the daemon
  scales and other callers are served.  \<open>sys_past\<close> is the history of the controller's states,
  one after every step of the daemon.
\<close>

subsection \<open>States and steps\<close>

text \<open>
  \<open>sys_asked\<close>: the number under which the daemon accepted the poll under way, with the length
  of the history at that moment; \<open>sys_calls\<close>: the resizes the dashboard has spawned and the
  daemon has not yet accepted.
\<close>

record ('c, 'r, 'e) system =
  sys_daemon :: "('c, 'r, 'e) daemon_world"
  sys_dash :: dash_world
  sys_asked :: "(nat \<times> nat) option"
  sys_calls :: "thread_request list"
  sys_past :: "('c, 'r, 'e) controller list"

definition system_init :: "('c, 'r, 'e) controller \<Rightarrow> dash_world \<Rightarrow> ('c, 'r, 'e) system" where
  "system_init c w =
     \<lparr>sys_daemon = daemon_init c, sys_dash = w, sys_asked = None, sys_calls = [], sys_past = [c]\<rparr>"

text \<open>The dashboard after the answer to its poll, whatever the answer.\<close>

definition poll_result ::
  "string list \<Rightarrow> (string \<Rightarrow> string + snapshot_vm list) \<Rightarrow> instant \<Rightarrow> string + string \<Rightarrow> dash_world \<Rightarrow> dash_world"
where
  "poll_result select parse now call w =
     (case sampler_reply select now (poll_daemon parse call) (dh_shared w, dh_streak w) of
        (sh, streak) \<Rightarrow> w\<lparr>dh_shared := sh, dh_streak := streak, dh_polling := None\<rparr>)"

text \<open>What a spawned call asks of the daemon; its reply is only logged.\<close>

definition request_set_thread_count :: "thread_request \<Rightarrow> dbus_request" where
  "request_set_thread_count call =
     (case call of (vm, n, sticky) \<Rightarrow> fst (service_set_thread_count vm n sticky))"

inductive system_next ::
  "(string \<Rightarrow> string + snapshot_vm list) \<Rightarrow> ('c, 'r, 'e) controller_env \<Rightarrow> (string \<Rightarrow> string + vm_ownership) \<Rightarrow>
   (f64 \<Rightarrow> string) \<Rightarrow> string list \<Rightarrow> ('c, 'r, 'e) system \<Rightarrow> ('c, 'r, 'e) system \<Rightarrow> bool"
  for parse env dec shown select
where
  daemon_moves: "daemon_next env (sys_daemon s) d \<Longrightarrow>
    system_next parse env dec shown select s
      (s\<lparr>sys_daemon := d, sys_past := sys_past s @ [dw_controller d]\<rparr>)"
| daemon_restarts: "dw_stopped (sys_daemon s) \<noteq> None \<Longrightarrow>
    daemon_start env dec sv (ct_files (dw_controller (sys_daemon s))) cfg engine = Inr c \<Longrightarrow>
    system_next parse env dec shown select s
      (s\<lparr>sys_daemon := daemon_init c, sys_asked := None, sys_past := sys_past s @ [c]\<rparr>)"
| operator_types: "\<not> dh_quit (sys_dash s) \<Longrightarrow>
    handle_key shown now (pressed_key ctrl k) (dh_ui (sys_dash s)) (dh_shared (sys_dash s)) = (quit, ui, sh, requests) \<Longrightarrow>
    system_next parse env dec shown select s
      (s\<lparr>sys_dash := (sys_dash s)\<lparr>dh_ui := ui, dh_shared := sh, dh_sent := dh_sent (sys_dash s) @ requests,
          dh_quit := quit\<rparr>,
        sys_calls := sys_calls s @ requests\<rparr>)"
| polling: "\<not> dh_quit (sys_dash s) \<Longrightarrow> dh_polling (sys_dash s) = None \<Longrightarrow> \<not> sh_paused (dh_shared (sys_dash s)) \<Longrightarrow>
    system_next parse env dec shown select s (s\<lparr>sys_dash := (sys_dash s)\<lparr>dh_polling := Some now\<rparr>\<rparr>)"
| poll_accepted: "dh_polling (sys_dash s) \<noteq> None \<Longrightarrow> sys_asked s = None \<Longrightarrow>
    dw_stopped (sys_daemon s) = None \<Longrightarrow> dw_queue (sys_daemon s) = [] \<Longrightarrow>
    system_next parse env dec shown select s
      (s\<lparr>sys_daemon := accept_request (fst service_get_snapshot) (sys_daemon s),
         sys_asked := Some (dw_accepted (sys_daemon s), length (sys_past s))\<rparr>)"
| poll_answered: "\<not> dh_quit (sys_dash s) \<Longrightarrow> dh_polling (sys_dash s) = Some now \<Longrightarrow> sys_asked s = Some (n, k) \<Longrightarrow>
    (n, ReplyText json) \<in> set (dw_answers (sys_daemon s)) \<Longrightarrow>
    system_next parse env dec shown select s
      (s\<lparr>sys_dash := poll_result select parse now (snd service_get_snapshot True (Received json)) (sys_dash s),
         sys_asked := None\<rparr>)"
| poll_fails: "\<not> dh_quit (sys_dash s) \<Longrightarrow> dh_polling (sys_dash s) = Some now \<Longrightarrow>
    system_next parse env dec shown select s
      (s\<lparr>sys_dash := poll_result select parse now (Inl e) (sys_dash s), sys_asked := None\<rparr>)"
| call_accepted: "sys_calls s = before @ call # after \<Longrightarrow>
    dw_stopped (sys_daemon s) = None \<Longrightarrow> dw_queue (sys_daemon s) = [] \<Longrightarrow>
    system_next parse env dec shown select s
      (s\<lparr>sys_daemon := accept_request (request_set_thread_count call) (sys_daemon s),
         sys_calls := before @ after\<rparr>)"
| call_fails: "sys_calls s = before @ call # after \<Longrightarrow>
    system_next parse env dec shown select s (s\<lparr>sys_calls := before @ after\<rparr>)"

subsection \<open>Its parts\<close>

text \<open>The dashboard runs as it runs alone, and the daemon as it runs alone between its restarts.\<close>

lemma poll_result_next:
  assumes "\<not> dh_quit w" and "dh_polling w = Some now"
  shows "dash_next shown select w (poll_result select parse now call w)"
proof -
  obtain sh streak where
    "sampler_reply select now (poll_daemon parse call) (dh_shared w, dh_streak w) = (sh, streak)"
    by fastforce
  with sampled [OF assms this] show ?thesis
    by (simp add: poll_result_def)
qed

lemma system_dash_part:
  assumes "system_next parse env dec shown select s t"
  shows "(dash_next shown select)\<^sup>*\<^sup>* (sys_dash s) (sys_dash t)"
  using assms
proof (cases rule: system_next.cases)
  case (operator_types now ctrl k quit ui sh requests)
  with key_pressed [OF operator_types(2,3), of select] show ?thesis
    by auto
next
  case (polling now)
  with poll_begins [of "sys_dash s" shown select now] show ?thesis
    by auto
next
  case (poll_answered now n k json)
  with poll_result_next [OF poll_answered(2,3)] show ?thesis
    by auto
next
  case (poll_fails now e)
  with poll_result_next [OF poll_fails(2,3)] show ?thesis
    by auto
qed simp_all

interpretation dash_part: part_of_whole "system_next parse env dec shown select" "dash_next shown select" sys_dash
  for parse env dec shown select
  by unfold_locales (rule system_dash_part)

inductive daemon_life ::
  "('c, 'r, 'e) controller_env \<Rightarrow> (string \<Rightarrow> string + vm_ownership) \<Rightarrow> ('c, 'r, 'e) daemon_world \<Rightarrow>
   ('c, 'r, 'e) daemon_world \<Rightarrow> bool"
  for env dec
where
  life_goes_on: "daemon_next env d d' \<Longrightarrow> daemon_life env dec d d'"
| life_starts_over: "daemon_start env dec sv (ct_files (dw_controller d)) cfg engine = Inr c \<Longrightarrow>
    daemon_life env dec d (daemon_init c)"

lemma system_daemon_part:
  assumes "system_next parse env dec shown select s t"
  shows "(daemon_life env dec)\<^sup>*\<^sup>* (sys_daemon s) (sys_daemon t)"
  using assms
proof (cases rule: system_next.cases)
  case (daemon_moves d)
  with life_goes_on [OF daemon_moves(2), of dec] show ?thesis
    by auto
next
  case (daemon_restarts sv cfg engine c)
  with life_starts_over [OF daemon_restarts(3)] show ?thesis
    by auto
next
  case poll_accepted
  with life_goes_on [OF caller_sends [of "sys_daemon s" env "fst service_get_snapshot"], of dec] show ?thesis
    by auto
next
  case (call_accepted before call after)
  with life_goes_on [OF caller_sends [of "sys_daemon s" env "request_set_thread_count call"], of dec]
  show ?thesis
    by auto
qed simp_all

interpretation daemon_part: part_of_whole "system_next parse env dec shown select" "daemon_life env dec" sys_daemon
  for parse env dec shown select
  by unfold_locales (rule system_daemon_part)

lemma daemon_life_ok:
  assumes "daemon_life env dec d d'" and "controller_ok (dw_controller d) \<and> requests_ordered d"
  shows "controller_ok (dw_controller d') \<and> requests_ordered d'"
  using assms(1)
proof cases
  case life_goes_on
  with daemon_next_kept [OF life_goes_on] daemon_next_ordered [OF life_goes_on] assms(2) show ?thesis
    by (simp add: controller_kept_def)
next
  case (life_starts_over sv cfg engine c)
  with daemon_start_Inr [OF life_starts_over(2)] daemon_init_ordered show ?thesis
    by (simp add: daemon_init_def)
qed

interpretation lives: kept_invariant "daemon_life env dec"
    "\<lambda>d. controller_ok (dw_controller d) \<and> requests_ordered d"
  for env dec
  by unfold_locales (rule daemon_life_ok)

subsection \<open>A poll reads one state of the controller\<close>

text \<open>
  The poll under way is in the channel, or served, and then its answer is the snapshot of a state the
  controller has had since the poll was accepted.
\<close>

definition asked_ok :: "('c, 'r, 'e) controller_env \<Rightarrow> ('c, 'r, 'e) system \<Rightarrow> bool" where
  "asked_ok env s \<longleftrightarrow> (\<forall>n k. sys_asked s = Some (n, k) \<longrightarrow>
     n < dw_accepted (sys_daemon s) \<and> k \<le> length (sys_past s) \<and>
     (\<forall>req. (n, req) \<in> set (dw_queue (sys_daemon s)) \<longrightarrow> req = GetSnapshot) \<and>
     (\<forall>reply. (n, reply) \<in> set (dw_answers (sys_daemon s)) \<longrightarrow>
        (\<exists>c\<in>set (drop k (sys_past s)). reply = ReplyText (handle_get_snapshot env c))))"

lemma ordered_fresh:
  assumes "requests_ordered d"
  shows "(dw_accepted d, reply) \<notin> set (dw_answers d)"
proof
  have handled: "set (dw_handled d @ map fst (dw_queue d)) = set [0..<dw_accepted d]"
    using assms by (simp only: requests_ordered_def)
  have answers: "subseq (map fst (dw_answers d)) (dw_handled d)"
    using assms by (simp add: requests_ordered_def)
  assume "(dw_accepted d, reply) \<in> set (dw_answers d)"
  then have "dw_accepted d \<in> set (map fst (dw_answers d))"
    by force
  from list_emb_set [OF answers this] have "dw_accepted d \<in> set (dw_handled d)"
    by auto
  then have "dw_accepted d \<in> set [0..<dw_accepted d]"
    unfolding handled [symmetric] by simp
  then show False
    by simp
qed

lemma drop_snoc_mem: "k \<le> length xs \<Longrightarrow> set (drop k (xs @ [x])) = insert x (set (drop k xs))"
  by simp

lemma serve_request_asked:
  assumes "dw_queue d = (m, req) # q"
  shows "dw_queue (serve_request env d) = q" "dw_accepted (serve_request env d) = dw_accepted d"
    and "(n, reply) \<in> set (dw_answers (serve_request env d)) \<Longrightarrow>
      (n, reply) \<in> set (dw_answers d) \<or>
      n = m \<and> reply = fst (handle_dbus_request env req (dw_controller d))"
  using assms by (auto simp: serve_request_def split: prod.splits if_splits)

lemma daemon_next_asked:
  assumes step: "daemon_next env (sys_daemon s) d" and ok: "asked_ok env s"
  shows "asked_ok env (s\<lparr>sys_daemon := d, sys_past := sys_past s @ [dw_controller d]\<rparr>)"
  using step
proof cases
  case (caller_sends req)
  with ok show ?thesis
    by (fastforce simp: asked_ok_def accept_request_def)
next
  case loop_serves
  then obtain m req q where q: "dw_queue (sys_daemon s) = (m, req) # q"
    by (cases "dw_queue (sys_daemon s)") auto
  note served = serve_request_asked(1,2) [OF q, of env] serve_request_asked(3) [OF q]
  have "fst (handle_dbus_request env GetSnapshot c) = ReplyText (handle_get_snapshot env c)"
      "snd (handle_dbus_request env GetSnapshot c) = c" for c
    by (simp_all add: handle_dbus_request_def)
  with ok show ?thesis
    unfolding asked_ok_def loop_serves(1)
    by (cases "req = GetSnapshot") (auto simp: served(1,2) q serve_request_controller drop_snoc_mem dest!: served(3))
qed (use ok in \<open>auto simp: asked_ok_def drop_snoc_mem\<close>)

lemma system_next_asked:
  assumes "system_next parse env dec shown select s t" and "asked_ok env s" and "requests_ordered (sys_daemon s)"
  shows "asked_ok env t"
  using assms(1)
proof (cases rule: system_next.cases)
  case (daemon_moves d)
  with daemon_next_asked [OF _ assms(2)] show ?thesis
    by simp
next
  case poll_accepted
  with ordered_fresh [OF assms(3)] show ?thesis
    by (auto simp: asked_ok_def accept_request_def service_get_snapshot_def)
next
  case (call_accepted before call after)
  with assms(2) show ?thesis
    by (fastforce simp: asked_ok_def accept_request_def)
qed (use assms(2) in \<open>simp_all add: asked_ok_def\<close>)

subsection \<open>What the dashboard shows was so\<close>

text \<open>Some controller of \<open>P\<close> had the VM with a pool of \<open>n\<close> threads.\<close>

definition had :: "('c, 'r, 'e) controller set \<Rightarrow> string \<Rightarrow> u32 \<Rightarrow> bool" where
  "had P vm n \<longleftrightarrow> (\<exists>c\<in>P. \<exists>i. hm_get (ct_instances c) vm = Some i \<and> st_thread_count (inst_status i) = n)"

text \<open>A line of the table: pool, sticky flag, liveness and vCPU count were so at the same time.\<close>

definition row_was :: "('c, 'r, 'e) controller set \<Rightarrow> vm_view \<Rightarrow> bool" where
  "row_was P v \<longleftrightarrow> (\<exists>c\<in>P. \<exists>i. hm_get (ct_instances c) (vv_id v) = Some i \<and>
     ls_thread_count (vv_status v) = st_thread_count (inst_status i) \<and>
     ls_sticky (vv_status v) = st_manual_scaling_sticky (inst_status i) \<and>
     ls_alive (vv_status v) = st_alive (inst_status i) \<and> vv_vcpu_count v = Some (st_vcpu_count (inst_status i)))"

definition history_was :: "('c, 'r, 'e) controller set \<Rightarrow> vm_view \<Rightarrow> bool" where
  "history_was P v \<longleftrightarrow>
     (\<forall>n. vv_last_thread_count v = Some n \<longrightarrow> had P (vv_id v) n) \<and>
     (\<forall>s\<in>set (vv_samples v). had P (vv_id v) (ps_thread_count s)) \<and>
     (\<forall>a\<in>set (vv_annots v). had P (vv_id v) (an_old_n a) \<and> had P (vv_id v) (an_new_n a) \<and> an_old_n a \<noteq> an_new_n a)"

lemma had_mono: "had P vm n \<Longrightarrow> P \<subseteq> Q \<Longrightarrow> had Q vm n"
  unfolding had_def by blast

lemma row_was_mono: "row_was P v \<Longrightarrow> P \<subseteq> Q \<Longrightarrow> row_was Q v"
  unfolding row_was_def by blast

lemma history_was_mono: "history_was P v \<Longrightarrow> P \<subseteq> Q \<Longrightarrow> history_was Q v"
  unfolding history_was_def using had_mono by metis

lemma row_was_had: "row_was P v \<Longrightarrow> had P (vv_id v) (ls_thread_count (vv_status v))"
  unfolding row_was_def had_def by metis

text \<open>An entry of a reply about the fleet of \<open>c\<close>.\<close>

definition entry_of :: "('c, 'r, 'e) controller \<Rightarrow> snapshot_vm \<Rightarrow> bool" where
  "entry_of c d \<longleftrightarrow> (\<exists>i. hm_get (ct_instances c) (sv_id d) = Some i \<and>
     sv_thread_count d = st_thread_count (inst_status i) \<and>
     sv_manual_scaling_sticky d = st_manual_scaling_sticky (inst_status i) \<and>
     sv_alive d = st_alive (inst_status i) \<and> sv_vcpu_count d = st_vcpu_count (inst_status i))"

lemma fleet_entry_of:
  assumes "controller_ok c" and "list_all2 same_but_util payload (fleet_entries env c)" and "d \<in> set payload"
  shows "entry_of c d"
proof -
  obtain e where e: "e \<in> set (fleet_entries env c)" and same: "same_but_util d e"
    using assms(2,3) by (auto simp: list_all2_conv_all_nth in_set_conv_nth) metis
  then obtain k i where ki: "(k, i) \<in> set (ct_instances c)" "e = snapshot_of (ce_median env) k i"
    by (auto simp: fleet_entries_def)
  have "hm_get (ct_instances c) k = Some i"
    using ki(1) assms(1) by (simp add: controller_ok_def hm_get_mem)
  with same_but_util_fields [OF same] show ?thesis
    by (simp add: entry_of_def ki(2) snapshot_of_def Let_def split: prod.split)
qed

lemma set_push_history: "set (push_history x xs) \<subseteq> insert x (set xs)"
  unfolding push_history_def using set_drop_subset [of _ "xs @ [x]"] by fastforce

lemma sample_view_was:
  assumes "entry_of c d" and "sv_id d = vv_id v" and "c \<in> P" and "history_was P v"
  shows "row_was P (sample_view now t d v)" and "history_was P (sample_view now t d v)"
proof -
  have id: "vv_id (sample_view now t d v) = vv_id v"
    by (simp add: sample_view_def Let_def)
  have new: "had P (vv_id v) (sv_thread_count d)"
    using assms(1-3) unfolding had_def entry_of_def by metis
  show "row_was P (sample_view now t d v)"
    using assms(1-3) unfolding row_was_def id entry_of_def
    by (simp add: sample_view_def snapshot_to_status_def Let_def) metis
  have count: "ps_thread_count (snapshot_to_sample d t) = sv_thread_count d"
    by (simp add: snapshot_to_sample_def)
  have "set (vv_samples (sample_view now t d v)) \<subseteq> insert (snapshot_to_sample d t) (set (vv_samples v))"
    using set_push_history by (simp add: sample_view_def Let_def)
  moreover have "\<forall>a\<in>set (vv_annots (sample_view now t d v)). a \<in> set (vv_annots v) \<or>
      vv_last_thread_count v = Some (an_old_n a) \<and> an_new_n a = sv_thread_count d \<and> an_old_n a \<noteq> an_new_n a"
    using set_push_history by (fastforce simp: sample_view_def Let_def split: option.splits bind_splits if_splits)
  moreover have "vv_last_thread_count (sample_view now t d v) = Some (sv_thread_count d)"
    by (simp add: sample_view_def Let_def)
  ultimately show "history_was P (sample_view now t d v)"
    using assms(4) new unfolding history_was_def id by (force simp: count)
qed

lemma append_new_fresh:
  "v \<in> set (append_new now vms roster) \<Longrightarrow>
     v \<in> set roster \<or> vv_id v \<in> set vms \<and> vv_samples v = [] \<and> vv_annots v = [] \<and> vv_last_thread_count v = None"
  by (induction now vms roster rule: append_new.induct) (auto simp: vm_view_new_def)

lemma reconcile_fresh:
  assumes "reconcile_with_snapshot select now payload (roster, streak) = (roster', streak')" and "v \<in> set roster'"
  shows "v \<in> set roster \<or> vv_id v \<in> sv_id ` set payload \<and> history_was P v"
proof -
  have "v \<in> set (add_missing now (wanted_ids select payload) roster)"
    using assms unfolding reconcile_with_snapshot_def Let_def by (auto simp del: map_map)
  then have "v \<in> set roster \<or> vv_id v \<in> set (wanted_ids select payload) \<and> history_was P v"
    by (auto simp: add_missing_def Let_def history_was_def split: if_splits dest!: append_new_fresh)
  then show ?thesis
    by (auto simp: wanted_ids_def)
qed

lemma sampler_reply_was:
  assumes "sampler_reply select now (Inr payload) (sh, streak) = (sh', streak')"
    and "\<forall>d\<in>set payload. entry_of c d" and "c \<in> P"
    and "\<forall>v\<in>set (sh_vms sh). row_was P v \<and> history_was P v"
  shows "\<forall>v\<in>set (sh_vms sh'). row_was P v \<and> history_was P v"
proof
  fix v assume v: "v \<in> set (sh_vms sh')"
  obtain roster streak1 where rec: "reconcile_with_snapshot select now payload (sh_vms sh, streak) = (roster, streak1)"
    by fastforce
  let ?t = "as_secs_f64 (max 0 (now - sh_started sh))"
  define by_id where "by_id = map_of (rev (map (\<lambda>d. (sv_id d, d)) payload))"
  have sh': "sh_vms sh' = map (\<lambda>v. case by_id (vv_id v) of None \<Rightarrow> v | Some d \<Rightarrow> sample_view now ?t d v) roster"
    using assms(1) rec by (auto simp: sampler_reply_def sample_roster_def by_id_def Let_def split: if_splits)
  then obtain u where u: "u \<in> set roster" "v = (case by_id (vv_id u) of None \<Rightarrow> u | Some d \<Rightarrow> sample_view now ?t d u)"
    using v by auto
  note fresh = reconcile_fresh [OF rec u(1), of P]
  have hist: "history_was P u"
    using fresh assms(4) by blast
  show "row_was P v \<and> history_was P v"
  proof (cases "by_id (vv_id u)")
    case None
    then have "vv_id u \<notin> sv_id ` set payload"
      by (force simp: by_id_def map_of_eq_None_iff)
    with fresh assms(4) None u(2) show ?thesis
      by auto
  next
    case (Some d)
    then have "d \<in> set payload" "sv_id d = vv_id u"
      by (auto simp: by_id_def dest!: map_of_SomeD)
    with assms(2) sample_view_was [OF _ _ assms(3) hist] Some u(2) show ?thesis
      by simp
  qed
qed

text \<open>What keys do to the roster and to the VM a prompt is about.\<close>

definition prompt_vm :: "ui_state \<Rightarrow> string option" where
  "prompt_vm ui = (case ui_input_prompt ui of Some (SetThreadsOf vm _ _, _) \<Rightarrow> Some vm | _ \<Rightarrow> None)"

definition key_grounded ::
  "ui_state \<Rightarrow> dash_shared \<Rightarrow> bool \<times> ui_state \<times> dash_shared \<times> thread_request list \<Rightarrow> bool" where
  "key_grounded ui sh r = (case r of (quit, ui', sh', requests) \<Rightarrow>
     (sh_vms sh' = sh_vms sh \<or> sh' = reset_autoscale sh) \<and>
     (\<forall>vm. prompt_vm ui' = Some vm \<longrightarrow> prompt_vm ui = Some vm \<or> (\<exists>v\<in>set (sh_vms sh). vv_id v = vm)))"

lemma key_grounded_same [simp]:
  "key_grounded ui sh (q, ui', sh, rs) \<longleftrightarrow>
     (\<forall>vm. prompt_vm ui' = Some vm \<longrightarrow> prompt_vm ui = Some vm \<or> (\<exists>v\<in>set (sh_vms sh). vv_id v = vm))"
  by (simp add: key_grounded_def)

lemma prompt_vm_update [simp]:
  "prompt_vm (ui\<lparr>ui_show_help := a\<rparr>) = prompt_vm ui" "prompt_vm (ui\<lparr>ui_perf_metric := b\<rparr>) = prompt_vm ui"
  "prompt_vm (ui\<lparr>ui_column_picker := c\<rparr>) = prompt_vm ui" "prompt_vm (ui\<lparr>ui_sticky_mode := d\<rparr>) = prompt_vm ui"
  "prompt_vm (ui\<lparr>ui_log_y_scale := e\<rparr>) = prompt_vm ui" "prompt_vm (ui\<lparr>ui_wall_clock_x := f\<rparr>) = prompt_vm ui"
  "prompt_vm (ui\<lparr>ui_focused := g\<rparr>) = prompt_vm ui" "prompt_vm (ui\<lparr>ui_columns := h\<rparr>) = prompt_vm ui"
  "prompt_vm (ui\<lparr>ui_paused := i, ui_paused_t_frozen := j\<rparr>) = prompt_vm ui"
  "prompt_vm (ui\<lparr>ui_active_plots := k\<rparr>) = prompt_vm ui" "prompt_vm (ui\<lparr>ui_show_aggregate := l\<rparr>) = prompt_vm ui"
  "prompt_vm (ui\<lparr>ui_theme_idx := m\<rparr>) = prompt_vm ui"
  by (simp_all add: prompt_vm_def)

lemma picker_prompt [simp]: "prompt_vm (handle_column_picker_key key ui) = prompt_vm ui"
proof (cases "ui_column_picker ui")
  case (Some cursor)
  show ?thesis
    unfolding handle_column_picker_key_def Some option.case Let_def
    by (intro if_chain [where P = "\<lambda>u. prompt_vm u = prompt_vm ui"]) simp_all
qed (simp add: handle_column_picker_key_def)

lemma other_fields_prompt [simp]:
  "prompt_vm (toggle_plot k ui) = prompt_vm ui" "prompt_vm (toggle_aggregate ui) = prompt_vm ui"
  "prompt_vm (move_focus delta sh ui) = prompt_vm ui" "prompt_vm (cycle_theme ui) = prompt_vm ui"
  "prompt_vm (close_prompt ui) = None"
  by (simp_all add: toggle_plot_def toggle_aggregate_def move_focus_def cycle_theme_def Let_def)
    (simp add: prompt_vm_def close_prompt_def)

lemma opened_prompts:
  "prompt_vm (open_refresh_prompt shown sh ui) = None"
  "prompt_vm (open_ymax_prompt ui) = Some vm \<Longrightarrow> prompt_vm ui = Some vm"
  "prompt_vm (open_set_threads_prompt sh ui) = Some vm \<Longrightarrow>
     prompt_vm ui = Some vm \<or> (\<exists>v\<in>set (sh_vms sh). vv_id v = vm)"
proof -
  show "prompt_vm (open_refresh_prompt shown sh ui) = None"
    by (simp add: prompt_vm_def open_refresh_prompt_def)
  show "prompt_vm (open_ymax_prompt ui) = Some vm \<Longrightarrow> prompt_vm ui = Some vm"
    by (simp add: prompt_vm_def open_ymax_prompt_def split: list.splits)
  have "v \<in> set (sh_vms sh)" if "focused_view ui sh = Some v" for v
    using that by (auto simp: focused_view_def find_vm_def find_Some_iff split: option.splits focus.splits)
  then show "prompt_vm (open_set_threads_prompt sh ui) = Some vm \<Longrightarrow>
     prompt_vm ui = Some vm \<or> (\<exists>v\<in>set (sh_vms sh). vv_id v = vm)"
    by (auto simp: prompt_vm_def open_set_threads_prompt_def Let_def split: option.splits)
qed

lemma char_key_grounded: "key_grounded ui sh (char_key shown now c ui sh)"
  unfolding char_key_def
  by (intro if_chain [where P = "key_grounded ui sh"])
    (auto simp: opened_prompts(1) toggle_pause_def Let_def key_grounded_def dest: opened_prompts(2,3))

lemma commit_prompt_vm:
  assumes "commit_input_prompt ui sh = (ui', sh', rs)" and "prompt_vm ui' = Some vm"
  shows "prompt_vm ui = Some vm"
proof -
  have closed: "prompt_vm (close_prompt u) = None" for u
    by simp
  show ?thesis
    using assms closed unfolding commit_input_prompt_def
    by (auto simp: Let_def split: option.splits prod.splits prompt_kind.splits if_splits)
qed

lemma prompt_key_vm:
  assumes "handle_input_prompt_key k ui sh = (ui', sh', rs)" and "prompt_vm ui' = Some vm"
  shows "prompt_vm ui = Some vm"
proof (cases "ui_input_prompt ui")
  case (Some p)
  obtain kind buffer where p: "p = (kind, buffer)"
    by fastforce
  let ?P = "\<lambda>r. prompt_vm (fst r) = Some vm \<longrightarrow> prompt_vm ui = Some vm"
  have set: "prompt_vm (ui\<lparr>ui_input_prompt := Some (kind, b)\<rparr>) = prompt_vm ui" for b
    using Some p by (simp add: prompt_vm_def)
  have toggled: "kind = SetThreadsOf w cur s \<Longrightarrow>
      prompt_vm (ui\<lparr>ui_input_prompt := Some (SetThreadsOf w cur s', b)\<rparr>) = prompt_vm ui" for w cur s s' b
    using Some p by (simp add: prompt_vm_def)
  have commit: "?P (commit_input_prompt ui sh)"
    using commit_prompt_vm [of ui sh] by (metis prod.collapse)
  have "?P (handle_input_prompt_key k ui sh)"
    unfolding handle_input_prompt_key_def Some p option.case prod.case
    by (intro if_chain [where P = ?P])
      (simp_all add: set toggled commit split: prompt_kind.split key.split)
  with assms show ?thesis
    by simp
qed (use assms in \<open>simp add: handle_input_prompt_key_def\<close>)

lemma key_grounds:
  assumes "dash_ok ui sh"
  shows "key_grounded ui sh (handle_key shown now k ui sh)"
proof -
  have prompt: "key_grounded ui sh (False, handle_input_prompt_key k ui sh)"
  proof -
    obtain ui' sh' rs where r: "handle_input_prompt_key k ui sh = (ui', sh', rs)"
      by (metis prod_cases3)
    have "ui_ok ui"
      using assms by (simp add: dash_ok_def)
    from prompt_ok [OF this r] prompt_key_vm [OF r] show ?thesis
      by (simp add: r key_grounded_def key_keeps_def)
  qed
  show ?thesis
    unfolding handle_key_def
    by (intro if_chain [where P = "key_grounded ui sh"])
      (simp_all add: prompt char_key_grounded split: key.split)
qed

subsection \<open>The invariant of the system\<close>

text \<open>Everything the dashboard shows, or has asked for, goes back to controllers of \<open>P\<close>.\<close>

definition dash_was :: "('c, 'r, 'e) controller set \<Rightarrow> dash_world \<Rightarrow> bool" where
  "dash_was P w \<longleftrightarrow> (\<forall>v\<in>set (sh_vms (dh_shared w)). row_was P v \<and> history_was P v) \<and>
     (\<forall>vm. prompt_vm (dh_ui w) = Some vm \<longrightarrow> (\<exists>m. had P vm m)) \<and>
     (\<forall>(vm, n, sticky)\<in>set (dh_sent w). \<exists>m. had P vm m)"

lemma dash_was_mono:
  assumes "dash_was P w" and "P \<subseteq> Q"
  shows "dash_was Q w"
proof -
  have "had Q vm m" if "had P vm m" for vm m
    using that assms(2) by (rule had_mono)
  with assms(1) row_was_mono [OF _ assms(2)] history_was_mono [OF _ assms(2)] show ?thesis
    by (fastforce simp: dash_was_def)
qed

lemma reset_was [simp]:
  "row_was P (v\<lparr>vv_samples := [], vv_annots := []\<rparr>) \<longleftrightarrow> row_was P v"
  "history_was P v \<Longrightarrow> history_was P (v\<lparr>vv_samples := [], vv_annots := []\<rparr>)"
  by (simp_all add: row_was_def history_was_def)

lemma typed_was:
  assumes was: "dash_was P w" and ok: "dash_ok (dh_ui w) (dh_shared w)"
    and key: "handle_key shown now k (dh_ui w) (dh_shared w) = (quit, ui, sh, requests)"
  shows "dash_was P (w\<lparr>dh_ui := ui, dh_shared := sh, dh_sent := dh_sent w @ requests, dh_quit := quit\<rparr>)"
proof -
  note grounds = key_grounds [OF ok, of shown now k, unfolded key key_grounded_def prod.case]
  have views: "\<forall>v\<in>set (sh_vms sh). row_was P v \<and> history_was P v"
    using was grounds by (auto simp: dash_was_def reset_autoscale_def)
  have known: "\<exists>m. had P (vv_id v) m" if "v \<in> set (sh_vms (dh_shared w))" for v
    using was that row_was_had unfolding dash_was_def by blast
  have "\<exists>m. had P vm m" if "(vm, n, sticky) \<in> set requests" for vm n sticky
    using requests_cases [OF key] that known was unfolding dash_was_def
    by (cases "requests = []") (auto simp: prompt_vm_def)
  moreover have "\<exists>m. had P vm m" if "prompt_vm ui = Some vm" for vm
    using grounds that known was unfolding dash_was_def by blast
  ultimately show ?thesis
    using was views by (auto simp: dash_was_def)
qed

text \<open>What is relied on: the decoder reads no fleet but the one that was encoded.\<close>

definition faithful_wire ::
  "(string \<Rightarrow> string + snapshot_vm list) \<Rightarrow> ('c, 'r, 'e) controller_env \<Rightarrow> bool" where
  "faithful_wire parse env \<longleftrightarrow>
     (\<forall>vms payload. parse (ce_snapshot_json env vms) = Inr payload \<longrightarrow> list_all2 same_but_util payload vms)"

lemma failed_was: "dash_was P w \<Longrightarrow> dash_was P (poll_result select parse now (Inl e) w)"
  by (simp add: poll_result_def poll_daemon_def sampler_reply_def dash_was_def Let_def)

lemma poll_result_parsed:
  assumes "parse json = Inr payload"
    and "sampler_reply select now (Inr payload) (dh_shared w, dh_streak w) = (sh, streak)"
  shows "poll_result select parse now (Inr json) w = w\<lparr>dh_shared := sh, dh_streak := streak, dh_polling := None\<rparr>"
  using assms by (simp add: poll_result_def poll_daemon_def)

lemma poll_result_garbled:
  assumes "parse json = Inl e"
  shows "dash_was P (poll_result select parse now (Inr json) w) \<longleftrightarrow> dash_was P w"
  using assms by (simp add: poll_result_def poll_daemon_def sampler_reply_def dash_was_def Let_def)

lemma polled_was:
  assumes was: "dash_was P w" and c: "c \<in> P" "controller_ok c" and wire: "faithful_wire parse env"
  shows "dash_was P (poll_result select parse now (Inr (handle_get_snapshot env c)) w)"
proof (cases "parse (handle_get_snapshot env c)")
  case (Inl e)
  with was show ?thesis
    by (simp add: poll_result_garbled)
next
  case parsed: (Inr payload)
  then have "list_all2 same_but_util payload (fleet_entries env c)"
    using wire unfolding faithful_wire_def handle_get_snapshot_def fleet_entries_def by blast
  then have entries: "\<forall>d\<in>set payload. entry_of c d"
    by (intro ballI) (rule fleet_entry_of [OF c(2)])
  obtain sh streak where r: "sampler_reply select now (Inr payload) (dh_shared w, dh_streak w) = (sh, streak)"
    by (rule prod.exhaust)
  have "\<forall>v\<in>set (sh_vms sh). row_was P v \<and> history_was P v"
    by (rule sampler_reply_was [OF r entries c(1)]) (use was in \<open>simp add: dash_was_def\<close>)
  then show ?thesis
    using was by (subst poll_result_parsed [of parse, OF parsed r]) (simp add: dash_was_def)
qed

text \<open>First what holds whatever the decoder does.\<close>

definition reads_inv :: "('c, 'r, 'e) controller_env \<Rightarrow> ('c, 'r, 'e) system \<Rightarrow> bool" where
  "reads_inv env s \<longleftrightarrow>
     (controller_ok (dw_controller (sys_daemon s)) \<and> requests_ordered (sys_daemon s)) \<and> asked_ok env s \<and>
     (\<forall>c\<in>set (sys_past s). controller_ok c) \<and> dash_inv (sys_dash s) \<and> streak_ok (dh_streak (sys_dash s))"

lemma system_next_past:
  assumes "system_next parse env dec shown select s t"
  shows "set (sys_past t) = set (sys_past s) \<or> set (sys_past t) = insert (dw_controller (sys_daemon t)) (set (sys_past s))"
  using assms by (cases rule: system_next.cases) (auto simp: daemon_init_def)

lemma system_next_reads:
  assumes step: "system_next parse env dec shown select s t" and inv: "reads_inv env s"
  shows "reads_inv env t"
proof -
  have "controller_ok (dw_controller (sys_daemon t)) \<and> requests_ordered (sys_daemon t)"
    using lives.run [OF system_daemon_part [OF step]] inv by (simp add: reads_inv_def)
  moreover have "dash_inv (sys_dash t)" "streak_ok (dh_streak (sys_dash t))"
    using dash.run [OF system_dash_part [OF step]] streaks.run [OF system_dash_part [OF step]] inv
    by (simp_all add: reads_inv_def)
  moreover have "asked_ok env t"
    using system_next_asked [OF step] inv by (simp add: reads_inv_def)
  ultimately show ?thesis
    using system_next_past [OF step] inv by (auto simp: reads_inv_def)
qed

definition system_started :: "('c, 'r, 'e) system \<Rightarrow> bool" where
  "system_started s \<longleftrightarrow> (\<exists>c w. s = system_init c w \<and> controller_ok c \<and> dash_started w)"

lemma system_started_init [simp]:
  "controller_ok c \<Longrightarrow> system_started (system_init c (dash_init metric started now refresh_secs))"
  unfolding system_started_def using dash_started_init by blast

lemma system_started_reads: "system_started s \<Longrightarrow> reads_inv env s"
proof -
  assume "system_started s"
  then obtain c w where s: "s = system_init c w" and c: "controller_ok c" and w: "dash_started w"
    by (auto simp: system_started_def)
  have "requests_ordered (daemon_init c)"
    by (rule daemon_init_ordered)
  moreover have "streak_ok (dh_streak w)"
    using w by (rule streaks.started)
  ultimately show ?thesis
    using c dash_started_inv [OF w] by (simp add: s reads_inv_def system_init_def asked_ok_def daemon_init_def)
qed

interpretation reads: started_invariant "system_next parse env dec shown select" "reads_inv env" system_started
  for parse env dec shown select
  by unfold_locales (erule (1) system_next_reads, erule system_started_reads)

text \<open>And with a decoder that is faithful.\<close>

definition system_inv :: "('c, 'r, 'e) controller_env \<Rightarrow> ('c, 'r, 'e) system \<Rightarrow> bool" where
  "system_inv env s \<longleftrightarrow> reads_inv env s \<and> dash_was (set (sys_past s)) (sys_dash s)"

lemma system_next_was:
  assumes "system_next parse env dec shown select s t" and inv: "system_inv env s" and wire: "faithful_wire parse env"
  shows "dash_was (set (sys_past t)) (sys_dash t)"
proof -
  let ?P = "set (sys_past s)"
  have was: "dash_was ?P (sys_dash s)" and reads: "reads_inv env s"
    using inv by (simp_all add: system_inv_def)
  from assms(1) show ?thesis
  proof (cases rule: system_next.cases)
    case (daemon_moves d)
    with dash_was_mono [OF was] show ?thesis
      by (simp add: subset_insertI)
  next
    case (daemon_restarts sv cfg engine c)
    with dash_was_mono [OF was] show ?thesis
      by (simp add: subset_insertI)
  next
    case (operator_types now ctrl k quit ui sh requests)
    with typed_was [OF was _ operator_types(3)] reads show ?thesis
      by (simp add: reads_inv_def dash_inv_def)
  next
    case (polling now)
    with was show ?thesis
      by (simp add: dash_was_def)
  next
    case (poll_answered now n k json)
    then obtain c where "c \<in> set (drop k (sys_past s))" "json = handle_get_snapshot env c"
      using reads by (auto simp: reads_inv_def asked_ok_def)
    moreover from this(1) have "c \<in> ?P"
      by (rule in_set_dropD)
    ultimately show ?thesis
      using polled_was [OF was _ _ wire, of c] reads poll_answered
      by (simp add: reads_inv_def service_get_snapshot_def send_and_await_def)
  next
    case (poll_fails now e)
    with failed_was [OF was] show ?thesis
      by simp
  qed (use was in simp_all)
qed

lemma system_started_was: "system_started s \<Longrightarrow> dash_was (set (sys_past s)) (sys_dash s)"
  by (auto simp: system_started_def system_init_def dash_started_def dash_init_def dash_was_def dash_shared_new_def
      ui_state_new_def prompt_vm_def)

interpretation whole: started_invariant "system_next parse env dec shown select"
    "\<lambda>s. faithful_wire parse env \<longrightarrow> system_inv env s" system_started
  for parse env dec shown select
  by unfold_locales
    (simp add: system_inv_def system_next_was system_next_reads, simp add: system_inv_def system_started_reads system_started_was)

subsection \<open>What the dashboard shows and reads\<close>

text \<open>Whatever the interleaving, nothing is shown or asked for that was not.\<close>

lemma dashboard_was:
  assumes "controller_ok c" and "faithful_wire parse env"
    and "(system_next parse env dec shown select)\<^sup>*\<^sup>*
      (system_init c (dash_init metric started now refresh_secs)) s"
  shows "(\<forall>v\<in>set (sh_vms (dh_shared (sys_dash s))).
      row_was (set (sys_past s)) v \<and> history_was (set (sys_past s)) v) \<and>
    (\<forall>(vm, n, sticky)\<in>set (dh_sent (sys_dash s)). 0 < n \<and> (\<exists>m. had (set (sys_past s)) vm m))"
proof -
  have "system_inv env s"
    using whole.reachable [OF system_started_init [OF assms(1)] assms(3)] assms(2) by blast
  then show ?thesis
    by (fastforce simp: system_inv_def reads_inv_def dash_inv_def dash_was_def)
qed

lemma poll_controller_json: "poll_controller parse env c = poll_daemon parse (Inr (handle_get_snapshot env c))"
  by (simp add: poll_controller_def service_get_snapshot_def handle_dbus_request_def send_and_await_def)

text \<open>An answered poll and the state it is a snapshot of.\<close>

lemma poll_reads_state:
  assumes "controller_ok c"
    and "(system_next parse env dec shown select)\<^sup>*\<^sup>*
      (system_init c (dash_init metric started now refresh_secs)) s"
    and "sys_asked s = Some (n, k)" and "(n, reply) \<in> set (dw_answers (sys_daemon s))"
  shows "\<exists>c\<in>set (drop k (sys_past s)). \<exists>json. reply = ReplyText json \<and> json = handle_get_snapshot env c \<and>
    (reply_readable parse env c \<longrightarrow> (\<forall>vm i. hm_get (ct_instances c) vm = Some i \<longrightarrow> selected select vm \<longrightarrow>
      (\<exists>v. find_vm (dh_shared (poll_result select parse t (Inr json) (sys_dash s))) vm = Some v \<and>
        ls_thread_count (vv_status v) = st_thread_count (inst_status i) \<and>
        ls_sticky (vv_status v) = st_manual_scaling_sticky (inst_status i) \<and>
        vv_vcpu_count v = Some (st_vcpu_count (inst_status i)))))"
proof -
  have inv: "reads_inv env s"
    using reads.reachable [OF system_started_init [OF assms(1)] assms(2)] .
  then obtain c where c: "c \<in> set (drop k (sys_past s))" "reply = ReplyText (handle_get_snapshot env c)"
    using assms(3,4) unfolding reads_inv_def asked_ok_def by blast
  have ok: "controller_ok c" and streak: "streak_ok (dh_streak (sys_dash s))"
    using inv in_set_dropD [OF c(1)] by (simp_all add: reads_inv_def)
  obtain sh streak where r: "sampler_reply select t (poll_controller parse env c)
      (dh_shared (sys_dash s), dh_streak (sys_dash s)) = (sh, streak)"
    by (rule prod.exhaust)
  have "dh_shared (poll_result select parse t (Inr (handle_get_snapshot env c)) (sys_dash s)) = sh"
    using r by (simp add: poll_result_def poll_controller_json)
  with poll_shows(3) [OF ok _ streak r] c show ?thesis
    by blast
qed

end
