(* ===== verification/Qemu_Helpers.thy ===== *)
theory Qemu_Helpers
  imports Instances "HOL-Library.Sublist"
begin

section \<open>QEMU helpers (backends/qemu/helpers.rs)\<close>

text \<open>
  Errors of the QEMU transport, the topology a VM reports in its metrics, CPU samples of its
  IOThreads, and the assignment of virtqueues.  The four regular expressions are written out as the
  scans they describe.
\<close>

datatype qemu_error =
    QemuBroken
  | QemuIo "io_kind \<times> string"
  | QemuQmp string string string
  | QemuParse string

fun client_error_of :: "qemu_error \<Rightarrow> backend_client_error" where
  "client_error_of QemuBroken = Transport ''qemu client broken''"
| "client_error_of (QemuIo e) = from_transport_io ''io'' e"
| "client_error_of (QemuQmp cmd cls desc) = QmpError cmd cls desc"
| "client_error_of (QemuParse s) = Protocol s"

subsection \<open>Ordered maps\<close>

text \<open>A \<open>BTreeMap\<close> is the list of its entries in the order of the keys.\<close>

fun bt_insert :: "'k::linorder \<Rightarrow> 'v \<Rightarrow> ('k \<times> 'v) list \<Rightarrow> ('k \<times> 'v) list" where
  "bt_insert k v [] = [(k, v)]"
| "bt_insert k v ((k', v') # m) =
     (if k < k' then (k, v) # (k', v') # m
      else if k = k' then (k, v) # m
      else (k', v') # bt_insert k v m)"

definition bt_ok :: "('k::linorder \<times> 'v) list \<Rightarrow> bool" where
  "bt_ok m = sorted_wrt (<) (map fst m)"

lemma bt_ok_Nil [simp]: "bt_ok []"
  by (simp add: bt_ok_def)

lemma bt_keys_insert: "set (map fst (bt_insert k v m)) = insert k (set (map fst m))"
  by (induction k v m rule: bt_insert.induct) (simp_all add: insert_commute)

lemma bt_ok_insert [simp]: "bt_ok m \<Longrightarrow> bt_ok (bt_insert k v m)"
proof (induction m)
  case (Cons e m)
  obtain k' v' where e: "e = (k', v')"
    by (cases e)
  have "\<forall>x\<in>set (map fst m). k' < x" and "bt_ok m"
    using Cons.prems by (auto simp: bt_ok_def e)
  then show ?case
    using Cons.IH bt_keys_insert [of k v m] by (auto simp: bt_ok_def e simp del: set_map)
qed (simp add: bt_ok_def)

lemma map_of_bt_insert [simp]:
  "bt_ok m \<Longrightarrow> map_of (bt_insert k v m) k' = (if k' = k then Some v else map_of m k')"
  by (induction m) (auto simp: bt_ok_def)

interpretation btree: map_contract map_of bt_insert bt_ok
  by unfold_locales simp_all

lemma bt_ok_distinct: "bt_ok m \<Longrightarrow> distinct (map fst m)"
  using strict_sorted_iff bt_ok_def by blast

lemma bt_ok_sorted: "bt_ok m \<Longrightarrow> sorted (map fst m)"
  using strict_sorted_iff bt_ok_def by blast

subsection \<open>Metrics\<close>

text \<open>\<open>^name\{([^}]*)\}\s+([0-9.eE+\-]+)\<close>: the two captures.\<close>

definition is_number_char :: "char \<Rightarrow> bool" where
  "is_number_char c = (is_digit c \<or> c \<in> {CHR ''.'', CHR ''e'', CHR ''E'', CHR ''+'', CHR ''-''})"

definition metric_captures :: "string \<Rightarrow> string \<Rightarrow> (string \<times> string) option" where
  "metric_captures name line =
     (let head = name @ ''{''; rest = drop (length head) line;
          labels = takeWhile (\<lambda>c. c \<noteq> CHR ''}'') rest;
          tail = drop (length labels + 1) rest;
          number = takeWhile is_number_char (dropWhile is_space tail)
      in if starts_with head line \<and> length labels < length rest \<and> tail \<noteq> [] \<and> is_space (hd tail) \<and>
            number \<noteq> []
         then Some (labels, number) else None)"

text \<open>\<open>^iot[0-9]+$\<close>\<close>

definition is_managed_id :: "string \<Rightarrow> bool" where
  "is_managed_id s = (starts_with ''iot'' s \<and> drop 3 s \<noteq> [] \<and> list_all is_digit (drop 3 s))"

definition parse_label :: "string \<Rightarrow> (string \<times> string) option" where
  "parse_label kv =
     (let kv = trim kv; k = takeWhile (\<lambda>c. c \<noteq> CHR ''='') kv
      in if length k < length kv
         then Some (trim k, trim_matches (CHR 0x22) (trim (drop (length k + 1) kv))) else None)"

definition parse_qemu_labels :: "string \<Rightarrow> string hash_map" where
  "parse_qemu_labels labels =
     foldl (\<lambda>m kv. case parse_label kv of None \<Rightarrow> m | Some (k, v) \<Rightarrow> hm_insert k v m) []
       (split_on (CHR '','') labels)"

text \<open>Of several labels of one name the last counts.\<close>

lemma parse_qemu_labels_get:
  "hm_get (parse_qemu_labels labels) k =
     map_of (rev (List.map_filter parse_label (split_on (CHR '','') labels))) k"
  by (simp add: parse_qemu_labels_def hash.get_ins_found split: option.split)

record qemu_topology =
  qt_iothreads :: "string list"
  qt_iothread_tids :: "(string \<times> i32) list"
  qt_device_path :: string
  qt_vq_count :: u16
  qt_vq_inflight :: "u64 list"

definition topology_default :: qemu_topology where
  "topology_default =
     \<lparr>qt_iothreads = [], qt_iothread_tids = [], qt_device_path = [], qt_vq_count = 0, qt_vq_inflight = []\<rparr>"

text \<open>
  One line of the body, over the topology and the depths buffered per device.  \<open>usize\<close> is 64
  bits wide.
\<close>

definition inflight_line ::
  "string hash_map \<Rightarrow> string \<Rightarrow> (u64 \<times> u64) list hash_map \<Rightarrow> (u64 \<times> u64) list hash_map" where
  "inflight_line lbls value inflight =
     (case (hm_get lbls ''device'', Option.bind (hm_get lbls ''vq'') parse_u64, parse_f64 value) of
        (Some device, Some vq, Some depth) \<Rightarrow>
          let per_vq = (case hm_get inflight device of None \<Rightarrow> [] | Some m \<Rightarrow> m)
          in hm_insert device (bt_insert vq (f64_as_word (f64_max depth (Fin 0))) per_vq) inflight
      | _ \<Rightarrow> inflight)"

definition iothread_line :: "string hash_map \<Rightarrow> qemu_topology \<Rightarrow> qemu_topology" where
  "iothread_line lbls topo =
     (case hm_get lbls ''id'' of
        None \<Rightarrow> topo
      | Some i \<Rightarrow>
          if i = [] \<or> \<not> is_managed_id i then topo
          else let tid_str = (case hm_get lbls ''tid'' of Some s \<Rightarrow> s
                 | None \<Rightarrow> (case hm_get lbls ''thread_id'' of Some s \<Rightarrow> s | None \<Rightarrow> []))
               in case parse_i32 tid_str of
                    None \<Rightarrow> topo
                  | Some tid \<Rightarrow> topo\<lparr>qt_iothread_tids := bt_insert i tid (qt_iothread_tids topo)\<rparr>)"

definition num_queues_line :: "string hash_map \<Rightarrow> string \<Rightarrow> qemu_topology \<Rightarrow> qemu_topology" where
  "num_queues_line lbls value topo =
     (let p = (case hm_get lbls ''device'' of Some s \<Rightarrow> s
         | None \<Rightarrow> (case hm_get lbls ''path'' of Some s \<Rightarrow> s | None \<Rightarrow> []))
      in if p = [] then topo
         else case parse_f64 value of
                None \<Rightarrow> topo
              | Some v \<Rightarrow> topo\<lparr>qt_device_path := p, qt_vq_count := f64_as_word v\<rparr>)"

definition topology_line ::
  "qemu_topology \<times> (u64 \<times> u64) list hash_map \<Rightarrow> string \<Rightarrow> qemu_topology \<times> (u64 \<times> u64) list hash_map"
where
  "topology_line st line =
     (case st of (topo, inflight) \<Rightarrow>
        if starts_with ''#'' line then (topo, inflight)
        else case metric_captures ''qemu_virtio_scsi_vq_inflight'' line of
               Some (labels, value) \<Rightarrow>
                 (topo, inflight_line (parse_qemu_labels labels) value inflight)
             | None \<Rightarrow>
        (case metric_captures ''qemu_iothread_info'' line of
           Some (labels, _) \<Rightarrow> (iothread_line (parse_qemu_labels labels) topo, inflight)
         | None \<Rightarrow>
             if qt_device_path topo \<noteq> [] then (topo, inflight)
             else case metric_captures ''qemu_virtio_scsi_num_queues'' line of
                    Some (labels, value) \<Rightarrow>
                      (num_queues_line (parse_qemu_labels labels) value topo, inflight)
                  | None \<Rightarrow> (topo, inflight)))"

definition topology_new :: "string \<Rightarrow> qemu_topology" where
  "topology_new body =
     (let (topo, inflight) = foldl topology_line (topology_default, []) (lines body);
          topo = (if qt_iothread_tids topo \<noteq> []
                  then topo\<lparr>qt_iothreads := sort (map fst (qt_iothread_tids topo))\<rparr> else topo)
      in case hm_get inflight (qt_device_path topo) of
           None \<Rightarrow> topo
         | Some per_vq \<Rightarrow> topo\<lparr>qt_vq_inflight := map snd per_vq\<rparr>)"

subsection \<open>CPU samples\<close>

record iothread_sample =
  is_jiffies :: "(i32 \<times> u64) list"
  is_wall :: instant

text \<open>
  \<open>CpuSample::new\<close>: the process must exist, and each task's user and system time must be
  readable.  The sum wraps as the release build does.
\<close>

fun sample_iothread_tasks ::
  "(i32 \<Rightarrow> backend_client_error + u64 \<times> u64) \<Rightarrow> i32 list \<Rightarrow> (i32 \<times> u64) list \<Rightarrow>
   backend_client_error + (i32 \<times> u64) list"
where
  "sample_iothread_tasks stat [] jiffies = Inr jiffies"
| "sample_iothread_tasks stat (tid # tids) jiffies =
     (case stat tid of
        Inl e \<Rightarrow> Inl e
      | Inr (utime, stime) \<Rightarrow> sample_iothread_tasks stat tids (AList.update tid (utime + stime) jiffies))"

definition iothread_sample_new ::
  "instant \<Rightarrow> backend_client_error + unit \<Rightarrow> (i32 \<Rightarrow> backend_client_error + u64 \<times> u64) \<Rightarrow>
   (string \<times> i32) list \<Rightarrow> backend_client_error + iothread_sample"
where
  "iothread_sample_new now process stat tids =
     result_bind process (\<lambda>_.
     result_map (\<lambda>jiffies. \<lparr>is_jiffies = jiffies, is_wall = now\<rparr>) (sample_iothread_tasks stat (map snd tids) []))"

text \<open>The share of one task, if it was sampled before and its counter did not run backwards.\<close>

definition task_fraction ::
  "f64 \<Rightarrow> f64 \<Rightarrow> iothread_sample \<Rightarrow> i32 \<times> u64 \<Rightarrow> f64 option" where
  "task_fraction hz elapsed prev task =
     (case task of (tid, after) \<Rightarrow>
        (case map_of (is_jiffies prev) tid of
           None \<Rightarrow> None
         | Some before \<Rightarrow>
             if after < before then None
             else Some (f64_clamp (f64_div (f64_div (f64_of_word (after - before)) hz) elapsed)
               (Fin 0) (Fin 1))))"

definition diff_jiffies_sample :: "f64 \<Rightarrow> iothread_sample \<Rightarrow> iothread_sample \<Rightarrow> f64" where
  "diff_jiffies_sample hz prev cur =
     (case checked_duration_since (is_wall cur) (is_wall prev) of
        None \<Rightarrow> Fin 0
      | Some d \<Rightarrow>
          let elapsed = as_secs_f64 d
          in if f64_le elapsed (Fin 0) then Fin 0
             else let fractions = List.map_filter (task_fraction hz elapsed prev) (is_jiffies cur)
                  in if fractions = [] then Fin 0
                     else f64_div (f64_sum fractions) (f64_of_int (int (length fractions))))"

subsection \<open>Virtqueues and identifiers\<close>

definition round_robin_vq_mapping :: "string list \<Rightarrow> u16 \<Rightarrow> vq_mapping list" where
  "round_robin_vq_mapping iothread_ids vq_count =
     (if iothread_ids = [] \<or> vq_count = 0 then []
      else foldl (\<lambda>mapping vq.
               let idx = vq mod length iothread_ids
               in mapping[idx := (mapping ! idx)\<lparr>vm_vqs := vm_vqs (mapping ! idx) @ [of_nat vq]\<rparr>])
             (map (\<lambda>i. \<lparr>vm_iothread = i, vm_vqs = []\<rparr>) iothread_ids) [0..<unat vq_count])"

text \<open>The lowest free identifier; past 1024 a process-wide counter \<open>extra\<close> names them.\<close>

definition iothread_id :: "nat \<Rightarrow> string" where
  "iothread_id n = ''iot'' @ show_int (int n)"

definition next_qemu_iothread_id :: "string list \<Rightarrow> u64 \<Rightarrow> string \<times> u64" where
  "next_qemu_iothread_id existing extra =
     (case find (\<lambda>n. iothread_id n \<notin> set existing) [0..<1024] of
        Some n \<Rightarrow> (iothread_id n, extra)
      | None \<Rightarrow> (''iot-extra-'' @ show_word extra, extra + 1))"

subsection \<open>The mapping is total, disjoint and balanced\<close>

lemma round_robin_fold:
  fixes ids :: "string list"
  assumes "ids \<noteq> []"
  defines "step \<equiv> \<lambda>mapping vq. let idx = vq mod length ids
      in mapping[idx := (mapping ! idx)\<lparr>vm_vqs := vm_vqs (mapping ! idx) @ [of_nat vq]\<rparr>]"
  shows "foldl step (map (\<lambda>i. \<lparr>vm_iothread = i, vm_vqs = []\<rparr>) ids) [0..<n] =
    map (\<lambda>i. \<lparr>vm_iothread = ids ! i, vm_vqs = map of_nat (filter (\<lambda>q. q mod length ids = i) [0..<n])\<rparr>)
      [0..<length ids]"
proof (induction n)
  case 0
  show ?case
    by (rule nth_equalityI) simp_all
next
  case (Suc n)
  let ?m = "\<lambda>n. map (\<lambda>i. \<lparr>vm_iothread = ids ! i,
      vm_vqs = map of_nat (filter (\<lambda>q. q mod length ids = i) [0..<n]) :: u16 list\<rparr>) [0..<length ids]"
  have bound: "n mod length ids < length ids"
    using assms(1) by simp
  have "step (?m n) n = ?m (Suc n)"
  proof (rule nth_equalityI)
    fix i
    assume "i < length (step (?m n) n)"
    then have i: "i < length ids"
      by (simp add: step_def Let_def)
    then show "step (?m n) n ! i = ?m (Suc n) ! i"
      using bound by (cases "i = n mod length ids") (simp_all add: step_def Let_def nth_list_update)
  qed (simp add: step_def Let_def)
  then show ?case
    by (simp add: Suc.IH)
qed

lemma round_robin_eq:
  assumes "ids \<noteq> []" and "vq_count \<noteq> 0"
  shows "round_robin_vq_mapping ids vq_count =
    map (\<lambda>i. \<lparr>vm_iothread = ids ! i,
        vm_vqs = map of_nat (filter (\<lambda>q. q mod length ids = i) [0..<unat vq_count])\<rparr>) [0..<length ids]"
  using assms by (simp add: round_robin_vq_mapping_def round_robin_fold)

lemma round_robin_empty: "round_robin_vq_mapping ids vq_count = [] \<longleftrightarrow> ids = [] \<or> vq_count = 0"
  using round_robin_eq [of ids vq_count] by (auto simp: round_robin_vq_mapping_def)

lemma count_residues:
  assumes "i < k"
  shows "length (filter (\<lambda>q. q mod k = i) [0..<n]) = n div k + (if i < n mod k then 1 else 0)"
proof (induction n)
  case (Suc n)
  show ?case
  proof (cases "Suc n mod k = 0")
    case True
    then have "Suc (n mod k) = k" and "Suc n div k = Suc (n div k)"
      using assms by (auto simp: mod_Suc div_Suc split: if_splits)
    with Suc assms True show ?thesis
      by auto
  next
    case False
    then have "Suc n mod k = Suc (n mod k)" and "Suc n div k = n div k"
      by (auto simp: mod_Suc div_Suc split: if_splits)
    with Suc show ?thesis
      by auto
  qed
qed simp

lemma round_robin_vqs:
  "i < length ids \<Longrightarrow> vq_count \<noteq> 0 \<Longrightarrow> vm_vqs (round_robin_vq_mapping ids vq_count ! i) =
     map of_nat (filter (\<lambda>q. q mod length ids = i) [0..<unat vq_count])"
  by (subst round_robin_eq) auto

lemma u16_index: "q < unat (n :: u16) \<Longrightarrow> unat (of_nat q :: u16) = q"
  using unsigned_less [of n, where 'a = nat] by (simp add: unat_of_nat)

lemma round_robin_mem:
  assumes "i < length ids" and "vq_count \<noteq> 0"
  shows "q \<in> set (vm_vqs (round_robin_vq_mapping ids vq_count ! i)) \<longleftrightarrow>
    q < vq_count \<and> unat q mod length ids = i"
proof
  assume "q \<in> set (vm_vqs (round_robin_vq_mapping ids vq_count ! i))"
  then obtain k where "k < unat vq_count" "k mod length ids = i" "q = of_nat k"
    by (auto simp: round_robin_vqs [OF assms])
  then show "q < vq_count \<and> unat q mod length ids = i"
    using u16_index [of k vq_count] by (simp add: word_less_nat_alt)
next
  assume "q < vq_count \<and> unat q mod length ids = i"
  then show "q \<in> set (vm_vqs (round_robin_vq_mapping ids vq_count ! i))"
    by (auto simp: round_robin_vqs [OF assms] word_less_nat_alt intro!: image_eqI [where x = "unat q"])
qed

lemma round_robin_distinct:
  assumes "i < length ids" and "vq_count \<noteq> 0"
  shows "distinct (vm_vqs (round_robin_vq_mapping ids vq_count ! i))"
  unfolding round_robin_vqs [OF assms] distinct_map
proof (intro conjI inj_onI)
  fix x y
  assume "x \<in> set (filter (\<lambda>q. q mod length ids = i) [0..<unat vq_count])"
    and "y \<in> set (filter (\<lambda>q. q mod length ids = i) [0..<unat vq_count])"
    and eq: "(of_nat x :: u16) = of_nat y"
  then have "x < unat vq_count" and "y < unat vq_count"
    by simp_all
  from this [THEN u16_index] have "unat (of_nat x :: u16) = x" and "unat (of_nat y :: u16) = y" .
  with eq show "x = y"
    by metis
qed simp

text \<open>
  C24: virtqueues are spread over the IOThreads without loss.  With at least one thread and one queue,
  the mapping names the threads in their order, gives every queue to exactly one of them and no other
  queue to any, and no thread gets more than one queue more than another.
\<close>

theorem round_robin_balanced:
  assumes "ids \<noteq> []" and "vq_count \<noteq> 0"
  defines "m \<equiv> round_robin_vq_mapping ids vq_count"
  shows "map vm_iothread m = ids \<and>
    (\<forall>q<vq_count. \<exists>!i. i < length ids \<and> q \<in> set (vm_vqs (m ! i))) \<and>
    (\<forall>i<length ids. set (vm_vqs (m ! i)) \<subseteq> {..<vq_count} \<and> distinct (vm_vqs (m ! i)) \<and>
      length (vm_vqs (m ! i)) \<in> {unat vq_count div length ids, unat vq_count div length ids + 1})"
proof -
  have "map vm_iothread m = ids"
    using assms(1,2) by (simp add: m_def round_robin_eq comp_def map_nth)
  moreover have "\<exists>!i. i < length ids \<and> q \<in> set (vm_vqs (m ! i))" if "q < vq_count" for q
    using assms(1,2) that round_robin_mem [of _ ids vq_count q]
    by (intro ex1I [where a = "unat q mod length ids"]) (auto simp: m_def)
  moreover have "length (vm_vqs (m ! i)) \<in> {unat vq_count div length ids, unat vq_count div length ids + 1}"
    if "i < length ids" for i
    using that assms(2) by (auto simp: m_def round_robin_vqs count_residues)
  ultimately show ?thesis
    using assms(2) round_robin_mem round_robin_distinct by (auto simp: m_def)
qed

lemma round_robin_balanced_witness:
  "map vm_iothread (round_robin_vq_mapping [''iot0'', ''iot1'', ''iot2''] 7) = [''iot0'', ''iot1'', ''iot2''] \<and>
   length (vm_vqs (round_robin_vq_mapping [''iot0'', ''iot1'', ''iot2''] 7 ! 1)) \<in> {2, 3}"
  using round_robin_balanced [of "[''iot0'', ''iot1'', ''iot2'']" 7] by simp

subsection \<open>New identifiers\<close>

lemma iothread_id_inject: "iothread_id m = iothread_id n \<longleftrightarrow> m = n"
proof
  assume "iothread_id m = iothread_id n"
  then have "parse_uint (max (int m) (int n)) (show_int (int m)) = parse_uint (max (int m) (int n)) (show_int (int n))"
    by (simp add: iothread_id_def)
  then show "m = n"
    by (simp add: parse_uint_show)
qed simp

lemma parse_digits_is_digit: "parse_digits acc s = Some n \<Longrightarrow> list_all is_digit s"
  by (induction s arbitrary: acc) (auto simp: is_digit_def split: option.splits)

lemma show_int_digits: "0 \<le> n \<Longrightarrow> list_all is_digit (show_int n) \<and> show_int n \<noteq> []"
  using parse_digits_is_digit [OF parse_dec_digits] by (simp add: show_int_def)

lemma iothread_id_managed: "is_managed_id (iothread_id n)"
  using show_int_digits [of "int n"] by (simp add: is_managed_id_def iothread_id_def)

lemma find_append:
  "find P (xs @ ys) = (case find P xs of None \<Rightarrow> find P ys | Some x \<Rightarrow> Some x)"
  by (induction xs) simp_all

lemma find_upt:
  "find P [0..<k] = (if \<exists>n<k. P n then Some (LEAST n. P n) else None)"
proof (cases "\<exists>n<k. P n")
  case True
  then obtain n where n: "n < k" "P n"
    by blast
  then have least: "P (LEAST n. P n)" "(LEAST n. P n) < k"
    using LeastI [of P n] Least_le [of P n] by auto
  have "find P ([0..<(LEAST n. P n)] @ [(LEAST n. P n)..<k]) = Some (LEAST n. P n)"
  proof -
    have "find P [0..<(LEAST n. P n)] = None"
      using not_less_Least by (auto simp: find_None_iff)
    then show ?thesis
      using least by (simp add: find_append upt_conv_Cons)
  qed
  with True least show ?thesis
    using upt_add_eq_append [of 0 "LEAST n. P n" "k - (LEAST n. P n)"] by simp
next
  case False
  then show ?thesis
    by (auto simp: find_None_iff)
qed

text \<open>
  A new IOThread gets the lowest free identifier.  With fewer than 1024 threads, the identifier is
  not in use, every lower one is, it is one the topology parser recognises, and the fallback counter
  stays as it is.
\<close>

lemma next_id_lowest_free:
  assumes "length existing < 1024" and "next_qemu_iothread_id existing extra = (new, extra')"
  shows "new \<notin> set existing \<and> extra' = extra \<and> is_managed_id new \<and>
    (\<exists>n<1024. new = iothread_id n \<and> (\<forall>m<n. iothread_id m \<in> set existing))"
proof -
  let ?P = "\<lambda>n. iothread_id n \<notin> set existing"
  have "\<exists>n<1024. ?P n"
  proof (rule ccontr)
    assume "\<not> ?thesis"
    then have "iothread_id ` {..<1024} \<subseteq> set existing"
      by auto
    then have "card (iothread_id ` {..<1024}) \<le> length existing"
      by (meson card_length card_mono finite_set order_trans)
    moreover have "card (iothread_id ` {..<1024}) = 1024"
      by (simp add: card_image inj_on_def iothread_id_inject)
    ultimately show False
      using assms(1) by simp
  qed
  then obtain n where n: "n < 1024" "?P n"
    by blast
  have new: "new = iothread_id (LEAST n. ?P n)" and extra: "extra' = extra"
    using assms(2) n find_upt [of ?P 1024]
    by (auto simp: next_qemu_iothread_id_def split: if_splits)
  have "?P (LEAST n. ?P n)" "(LEAST n. ?P n) < 1024" "\<forall>m<(LEAST n. ?P n). \<not> ?P m"
    using LeastI [of ?P, OF n(2)] Least_le [of ?P, OF n(2)] n(1) not_less_Least by (auto dest: not_less_Least)
  then show ?thesis
    using new extra iothread_id_managed by blast
qed

lemma next_id_lowest_free_witness:
  "case next_qemu_iothread_id [''iot0'', ''iot2''] 0 of (new, _) \<Rightarrow> new \<notin> {''iot0'', ''iot2''}"
proof (cases "next_qemu_iothread_id [''iot0'', ''iot2''] 0")
  case (Pair new extra')
  from next_id_lowest_free [OF _ Pair] show ?thesis
    by (simp add: Pair)
qed

subsection \<open>Utilisation is a fraction\<close>

lemma as_secs_not_NaN: "0 \<le> d \<Longrightarrow> as_secs_f64 d \<noteq> NaN"
proof -
  assume "0 \<le> d"
  have "\<exists>x. f64_of_int (d mod nanos_per_sec) = Fin x \<and> 0 \<le> x"
    by (intro exI conjI, rule f64_of_int_small) (simp_all add: nanos_per_sec_def)
  moreover have "f64_of_int nanos_per_sec = Fin 1000000000"
    by (simp add: nanos_per_sec_def f64_of_int_small)
  moreover have "f64_of_int (d div nanos_per_sec) \<notin> {NaN, NegInf}"
    using f64_of_int_nonneg [of "d div nanos_per_sec"] \<open>0 \<le> d\<close>
    by (cases "f64_of_int (d div nanos_per_sec)") (auto simp: nanos_per_sec_def pos_imp_zdiv_nonneg_iff)
  moreover have "round_f64 (x / 1000000000) \<noteq> NegInf" if "0 \<le> x" for x
    using round_f64_mono [of 0 "x / 1000000000"] that by (cases "round_f64 (x / 1000000000)") auto
  ultimately show ?thesis
    by (cases "f64_of_int (d div nanos_per_sec)"; cases "f64_div (f64_of_int (d mod nanos_per_sec)) (f64_of_int nanos_per_sec)")
      (auto simp: as_secs_f64_def)
qed

lemma f64_of_word_range: "f64_in (f64_of_word (n :: u64)) 0 (2 ^ 64)"
proof -
  have "f64_in (round_f64 (of_int (uint n))) 0 (2 ^ 64)"
  proof -
    have "round_f64 (2 ^ 64) = Fin (2 ^ 64)"
      by code_simp
    moreover have "rat_of_int (uint n) \<le> 2 ^ 64"
    proof -
      have "uint n \<le> 2 ^ 64"
        using uint_lt2p [of n] by simp
      then have "rat_of_int (uint n) \<le> of_int (2 ^ 64)"
        by (simp only: of_int_le_iff)
      then show ?thesis
        by simp
    qed
    ultimately show ?thesis
      using round_f64_mono [of 0 "of_int (uint n)", unfolded of_int_0_le_iff, OF uint_ge_0] round_f64_mono [of "of_int (uint n)" "2 ^ 64"] by simp
  qed
  then show ?thesis
    by (simp add: f64_of_word_def f64_of_int_def)
qed

lemma ticks_quotient_finite:
  assumes "0 < (hz :: u64)"
  shows "\<exists>q. f64_div (f64_of_word (n :: u64)) (f64_of_word hz) = Fin q"
proof -
  obtain a where a: "f64_of_word n = Fin a" "0 \<le> a" "a \<le> 2 ^ 64"
    using f64_of_word_range f64_in_Fin by blast
  have "f64_le (Fin 1) (f64_of_word hz)"
    using f64_of_int_mono [of 1 "uint hz"] assms
    by (simp add: f64_of_word_def f64_of_int_small word_less_def)
  then obtain h where h: "f64_of_word hz = Fin h" "1 \<le> h"
    using f64_of_word_range [of hz] f64_in_Fin by fastforce
  have "a / h \<le> a"
    using a h by (simp add: divide_le_eq mult_le_cancel_left1)
  then have "f64_le (round_f64 (a / h)) (round_f64 a)"
    by (rule round_f64_mono)
  moreover have "round_f64 a = Fin a"
    using a(1) unfolding f64_of_word_def by (rule f64_of_int_fixed)
  moreover have "f64_le (Fin 0) (round_f64 (a / h))"
    using round_f64_mono [of 0 "a / h"] a h by simp
  ultimately show ?thesis
    using a h f64_in_Fin [of 0 "round_f64 (a / h)" a] by auto
qed

text \<open>
  the utilisation the backend reports is a fraction.  For any two samples and any positive tick rate
  of the host, whatever the counters did in between, it lies within [0, 1]; a clock that did not
  advance, no task in common or only counters that ran backwards give zero.
\<close>

lemma iothread_util_fraction:
  assumes "0 < (hz :: u64)" and "length (is_jiffies cur) \<le> 2 ^ 53"
  shows "f64_in (diff_jiffies_sample (f64_of_word hz) prev cur) 0 1"
proof (cases "checked_duration_since (is_wall cur) (is_wall prev)")
  case None
  then show ?thesis
    by (simp add: diff_jiffies_sample_def)
next
  case (Some d)
  then have "as_secs_f64 d \<noteq> NaN"
    by (intro as_secs_not_NaN) (simp add: checked_duration_since_Some)
  let ?fs = "List.map_filter (task_fraction (f64_of_word hz) (as_secs_f64 d) prev) (is_jiffies cur)"
  have "f64_in x 0 1" if pos: "\<not> f64_le (as_secs_f64 d) (Fin 0)" and x: "x \<in> set ?fs" for x
  proof -
    obtain n where "x = f64_clamp (f64_div (f64_div (f64_of_word (n :: u64)) (f64_of_word hz)) (as_secs_f64 d))
        (Fin 0) (Fin 1)"
      using x by (auto simp: set_map_filter_iff task_fraction_def split: option.splits if_splits)
    moreover obtain q where "f64_div (f64_of_word n) (f64_of_word hz) = Fin q"
      using ticks_quotient_finite [OF assms(1)] by blast
    moreover have "f64_div (Fin q) (as_secs_f64 d) \<noteq> NaN"
      using pos \<open>as_secs_f64 d \<noteq> NaN\<close> by (cases "as_secs_f64 d") auto
    ultimately show ?thesis
      using f64_clamp_in [of _ 0 1] by simp
  qed
  moreover have "length ?fs \<le> 2 ^ 53"
    using length_map_filter_le assms(2) by (rule order_trans)
  ultimately show ?thesis
    using Some f64_mean_in [of ?fs] by (simp add: diff_jiffies_sample_def Let_def)
qed

subsection \<open>What the parser returns\<close>

definition topology_ok :: "qemu_topology \<Rightarrow> bool" where
  "topology_ok t \<longleftrightarrow> bt_ok (qt_iothread_tids t) \<and> (\<forall>i\<in>set (map fst (qt_iothread_tids t)). is_managed_id i) \<and>
     (qt_device_path t = [] \<longrightarrow> qt_vq_count t = 0)"

lemma iothread_line_ok:
  "topology_ok t \<Longrightarrow> topology_ok (iothread_line lbls t) \<and>
     qt_iothreads (iothread_line lbls t) = qt_iothreads t \<and>
     qt_vq_inflight (iothread_line lbls t) = qt_vq_inflight t"
  by (simp add: iothread_line_def Let_def topology_ok_def bt_keys_insert del: set_map split: option.split)

lemma num_queues_line_ok:
  "topology_ok t \<Longrightarrow> topology_ok (num_queues_line lbls value t) \<and>
     qt_iothreads (num_queues_line lbls value t) = qt_iothreads t \<and>
     qt_vq_inflight (num_queues_line lbls value t) = qt_vq_inflight t"
  by (simp add: num_queues_line_def Let_def topology_ok_def del: set_map split: option.split)

lemma topology_line_cases:
  obtains (same) "fst (topology_line (t, inflight) line) = t"
    | (iothread) lbls where "fst (topology_line (t, inflight) line) = iothread_line lbls t"
    | (num_queues) lbls v where "fst (topology_line (t, inflight) line) = num_queues_line lbls v t"
  by (cases "starts_with ''#'' line"; cases "metric_captures ''qemu_virtio_scsi_vq_inflight'' line";
      cases "metric_captures ''qemu_iothread_info'' line"; cases "qt_device_path t = []";
      cases "metric_captures ''qemu_virtio_scsi_num_queues'' line")
    (auto simp: topology_line_def)

lemma topology_line_ok:
  assumes "topology_ok (fst st)"
  shows "topology_ok (fst (topology_line st line)) \<and>
    qt_iothreads (fst (topology_line st line)) = qt_iothreads (fst st) \<and>
    qt_vq_inflight (fst (topology_line st line)) = qt_vq_inflight (fst st)"
proof -
  obtain t inflight where st: "st = (t, inflight)"
    by (cases st)
  show ?thesis
    unfolding st using assms iothread_line_ok num_queues_line_ok
    by (cases rule: topology_line_cases [of t inflight line]) (simp_all add: st)
qed

lemma topology_lines_ok:
  "topology_ok (fst st) \<Longrightarrow> topology_ok (fst (foldl topology_line st ls)) \<and>
    qt_iothreads (fst (foldl topology_line st ls)) = qt_iothreads (fst st) \<and>
    qt_vq_inflight (fst (foldl topology_line st ls)) = qt_vq_inflight (fst st)"
  by (induction ls arbitrary: st) (auto simp: topology_line_ok)

text \<open>
  Whatever a VM reports, the topology is coherent: the IOThreads are exactly the managed
  identifiers with a task, each once and in order, and a queue count comes with a device.
\<close>

lemma topology_shape:
  "sorted (qt_iothreads (topology_new body)) \<and> distinct (qt_iothreads (topology_new body)) \<and>
   qt_iothreads (topology_new body) = map fst (qt_iothread_tids (topology_new body)) \<and>
   (\<forall>i\<in>set (qt_iothreads (topology_new body)). is_managed_id i) \<and>
   (qt_device_path (topology_new body) = [] \<longrightarrow> qt_vq_count (topology_new body) = 0)"
proof -
  obtain topo inflight where run: "foldl topology_line (topology_default, []) (lines body) = (topo, inflight)"
    by fastforce
  then have ok: "topology_ok topo" "qt_iothreads topo = []"
    using topology_lines_ok [of "(topology_default, [])" "lines body"]
    by (auto simp: topology_default_def topology_ok_def)
  have tids: "qt_iothread_tids (topology_new body) = qt_iothread_tids topo"
    and dev: "qt_device_path (topology_new body) = qt_device_path topo"
    and vqs: "qt_vq_count (topology_new body) = qt_vq_count topo"
    and ids: "qt_iothreads (topology_new body) = sort (map fst (qt_iothread_tids topo))"
    using ok(2) by (auto simp: topology_new_def run Let_def split: option.split)
  have "sort (map fst (qt_iothread_tids topo)) = map fst (qt_iothread_tids topo)"
    using ok(1) bt_ok_sorted by (intro sorted_sort_id) (auto simp: topology_ok_def)
  then show ?thesis
    using ok(1) bt_ok_sorted bt_ok_distinct unfolding tids dev vqs ids
    by (auto simp: topology_ok_def simp del: set_map)
qed

definition two_threads :: string where
  "two_threads = ''qemu_iothread_info{id=iot1,tid=8} 1'' @ [CHR 0x0A] @
     ''qemu_iothread_info{id=mon0,tid=9} 1'' @ [CHR 0x0A] @
     ''qemu_iothread_info{id=iot0,tid=7} 1'' @ [CHR 0x0A] @
     ''qemu_virtio_scsi_num_queues{device=scsi0} 4''"

lemma topology_shape_witness:
  "qt_iothreads (topology_new two_threads) = [''iot0'', ''iot1''] \<and> is_managed_id ''iot1'' \<and>
   map fst (qt_iothread_tids (topology_new two_threads)) = [''iot0'', ''iot1'']"
proof -
  have "qt_iothreads (topology_new two_threads) = [''iot0'', ''iot1'']"
    by code_simp
  with topology_shape [of two_threads] show ?thesis
    by simp
qed

end
