(* ===== verification/Json.thy ===== *)
theory Json
  imports F64_Eval Texts
begin

section \<open>JSON values and serde\<close>

text \<open>
  Values as in \<open>serde\_json::Value\<close>, and how serde's derived code reads and writes the
  program's structures from and to them; the structures themselves, with the names, defaults and
  attributes of their fields, are in the theories that define them.  Between a value and its text stands
  serde\_json, which is an argument wherever texts occur.  Where a document has several faults, the one
  that is reported is the first in the order of the fields.  Of a key that an object has twice the first
  value is taken, where the derived code reports an error; no property is about such a document.
\<close>

datatype json =
    JNull
  | JBool bool
  | JNumber int
  | JFloat f64
  | JString string
  | JArray "json list"
  | JObject "(string \<times> json) list"

fun json_field :: "string \<Rightarrow> json \<Rightarrow> json" where
  "json_field k (JObject fs) = (case map_of fs k of None \<Rightarrow> JNull | Some v \<Rightarrow> v)"
| "json_field k _ = JNull"

datatype document_error =
    InvalidType string
  | InvalidValue string
  | InvalidLength
  | MissingField string
  | UnknownField string

subsection \<open>Writing\<close>

definition word_json :: "'a::len word \<Rightarrow> json" where
  "word_json n = JNumber (uint n)"

definition signed_json :: "'a::len word \<Rightarrow> json" where
  "signed_json n = JNumber (sint n)"

text \<open>JSON has no infinities and no NaN; serde\_json writes \<open>null\<close>.\<close>

definition float_json :: "f64 \<Rightarrow> json" where
  "float_json v = (case v of Fin r \<Rightarrow> JFloat (Fin r) | _ \<Rightarrow> JNull)"

definition option_json :: "('a \<Rightarrow> json) \<Rightarrow> 'a option \<Rightarrow> json" where
  "option_json write v = (case v of None \<Rightarrow> JNull | Some x \<Rightarrow> write x)"

definition list_json :: "('a \<Rightarrow> json) \<Rightarrow> 'a list \<Rightarrow> json" where
  "list_json write xs = JArray (map write xs)"

subsection \<open>Reading\<close>

definition json_bool :: "json \<Rightarrow> document_error + bool" where
  "json_bool j = (case j of JBool b \<Rightarrow> Inr b | _ \<Rightarrow> Inl (InvalidType ''a boolean''))"

definition json_string :: "json \<Rightarrow> document_error + string" where
  "json_string j = (case j of JString s \<Rightarrow> Inr s | _ \<Rightarrow> Inl (InvalidType ''a string''))"

definition json_uint :: "string \<Rightarrow> json \<Rightarrow> document_error + 'a::len word" where
  "json_uint name j =
     (case j of
        JNumber n \<Rightarrow>
          if 0 \<le> n \<and> n \<le> word_top TYPE('a) then Inr (word_of_int n) else Inl (InvalidValue name)
      | _ \<Rightarrow> Inl (InvalidType name))"

definition json_u16 :: "json \<Rightarrow> document_error + u16" where
  "json_u16 = json_uint ''u16''"

definition json_u32 :: "json \<Rightarrow> document_error + u32" where
  "json_u32 = json_uint ''u32''"

definition json_u64 :: "json \<Rightarrow> document_error + u64" where
  "json_u64 = json_uint ''u64''"

definition json_i32 :: "json \<Rightarrow> document_error + i32" where
  "json_i32 j =
     (case j of
        JNumber n \<Rightarrow>
          if - (2 ^ 31) \<le> n \<and> n < 2 ^ 31 then Inr (word_of_int n) else Inl (InvalidValue ''i32'')
      | _ \<Rightarrow> Inl (InvalidType ''i32''))"

definition json_f64 :: "json \<Rightarrow> document_error + f64" where
  "json_f64 j =
     (case j of
        JNumber n \<Rightarrow> Inr (f64_of_int n)
      | JFloat v \<Rightarrow> Inr v
      | _ \<Rightarrow> Inl (InvalidType ''f64''))"

definition json_option :: "(json \<Rightarrow> document_error + 'a) \<Rightarrow> json \<Rightarrow> document_error + 'a option" where
  "json_option read j = (if j = JNull then Inr None else result_map Some (read j))"

fun read_all :: "(json \<Rightarrow> document_error + 'a) \<Rightarrow> json list \<Rightarrow> document_error + 'a list" where
  "read_all read [] = Inr []"
| "read_all read (j # js) = result_bind (read j) (\<lambda>x. result_map ((#) x) (read_all read js))"

definition json_list :: "(json \<Rightarrow> document_error + 'a) \<Rightarrow> json \<Rightarrow> document_error + 'a list" where
  "json_list read j = (case j of JArray js \<Rightarrow> read_all read js | _ \<Rightarrow> Inl (InvalidType ''a sequence''))"

text \<open>
  The fields of a structure: an object, whose unknown keys are an error with
  \<open>deny\_unknown\_fields\<close> and ignored otherwise, or the array of the fields.
\<close>

definition struct_fields :: "bool \<Rightarrow> string list \<Rightarrow> json \<Rightarrow> document_error + (string \<times> json) list" where
  "struct_fields deny_unknown names j =
     (case j of
        JObject obj \<Rightarrow>
          (case filter (\<lambda>k. k \<notin> set names) (map fst obj) of
             [] \<Rightarrow> Inr obj
           | k # _ \<Rightarrow> if deny_unknown then Inl (UnknownField k) else Inr obj)
      | JArray xs \<Rightarrow> if length xs \<le> length names then Inr (zip names xs) else Inl InvalidLength
      | _ \<Rightarrow> Inl (InvalidType ''struct''))"

definition field :: "(json \<Rightarrow> document_error + 'a) \<Rightarrow> string \<Rightarrow> (string \<times> json) list \<Rightarrow> document_error + 'a" where
  "field read name obj = (case map_of obj name of None \<Rightarrow> Inl (MissingField name) | Some j \<Rightarrow> read j)"

definition field_or ::
  "(json \<Rightarrow> document_error + 'a) \<Rightarrow> 'a \<Rightarrow> string \<Rightarrow> (string \<times> json) list \<Rightarrow> document_error + 'a" where
  "field_or read v name obj = (case map_of obj name of None \<Rightarrow> Inr v | Some j \<Rightarrow> read j)"

subsection \<open>What is written can be read\<close>

named_theorems reread \<open>reading back what was written\<close>

lemma json_uint_word [reread]: "json_uint name (word_json n) = Inr n"
  by (simp add: json_uint_def word_json_def)

lemma json_words [reread]:
  "json_u16 (word_json a) = Inr a" "json_u32 (word_json b) = Inr b" "json_u64 (word_json c) = Inr c"
  by (simp_all add: json_u16_def json_u32_def json_u64_def reread)

lemma json_signed [reread]: "json_i32 (signed_json n) = Inr n"
proof -
  have "- (2 ^ 31) \<le> sint n \<and> sint n < 2 ^ 31"
    using sint_ge [of n] sint_less [of n] by simp
  then show ?thesis
    by (simp add: json_i32_def signed_json_def)
qed

lemma json_plain [reread]: "json_bool (JBool b) = Inr b" "json_string (JString s) = Inr s"
  by (simp_all add: json_bool_def json_string_def)

lemma read_all_map: "(\<And>x. x \<in> set xs \<Longrightarrow> read (write x) = Inr x) \<Longrightarrow> read_all read (map write xs) = Inr xs"
  by (induction xs) simp_all

lemma json_list_list [reread]:
  "(\<And>x. x \<in> set xs \<Longrightarrow> read (write x) = Inr x) \<Longrightarrow> json_list read (list_json write xs) = Inr xs"
  by (simp add: json_list_def list_json_def read_all_map)

lemma json_option_option [reread]:
  "(\<And>x. read (write x) = Inr x) \<Longrightarrow> (\<And>x. write x \<noteq> JNull) \<Longrightarrow> json_option read (option_json write v) = Inr v"
  by (cases v) (simp_all add: json_option_def option_json_def)

lemma not_null [simp]: "word_json n \<noteq> JNull" "list_json write xs \<noteq> JNull"
  by (simp_all add: word_json_def list_json_def)

lemma struct_fields_known [reread]:
  assumes "list_all (\<lambda>(k, _). k \<in> set names) obj"
  shows "struct_fields deny names (JObject obj) = Inr obj"
proof -
  have "filter (\<lambda>k. k \<notin> set names) (map fst obj) = []"
    using assms by (auto simp: filter_empty_conv list_all_iff)
  then show ?thesis
    by (simp add: struct_fields_def)
qed

subsection \<open>Values up to their fractions\<close>

text \<open>serde\_json may read a fraction as a neighbour of the one it wrote.\<close>

primrec zero_floats :: "json \<Rightarrow> json" where
  "zero_floats JNull = JNull"
| "zero_floats (JBool b) = JBool b"
| "zero_floats (JNumber n) = JNumber n"
| "zero_floats (JFloat v) = JFloat (Fin 0)"
| "zero_floats (JString s) = JString s"
| "zero_floats (JArray js) = JArray (map zero_floats js)"
| "zero_floats (JObject fs) = JObject (map (map_prod id zero_floats) fs)"

text \<open>What is relied on: a text that was printed is read as no value but the one it was printed from.\<close>

definition reads_what_it_wrote :: "(json \<Rightarrow> string) \<Rightarrow> (string \<Rightarrow> string + json) \<Rightarrow> bool" where
  "reads_what_it_wrote print parse \<longleftrightarrow>
     (\<forall>j j'. parse (print j) = Inr j' \<longrightarrow> zero_floats j' = zero_floats j)"

end
