(* ===== verification/Libvirt.thy ===== *)
theory Libvirt
  imports Qemu_Helpers Json
begin

section \<open>QMP over libvirt (backends/qemu/libvirt.rs)\<close>

text \<open>
  The connection, the listing of VMs and the QMP commands.  libvirt and the QEMU processes behind it
  are a state \<open>'q\<close> with a record of calls; a request is the JSON value that is printed into the
  call.  Reading a reply (serde\_json) is a record of decoders.
\<close>

text \<open>The derived serialisations of the argument types.\<close>

definition vq_mapping_json :: "vq_mapping \<Rightarrow> json" where
  "vq_mapping_json m = JObject ((''iothread'', JString (vm_iothread m)) #
     (if vm_vqs m = [] then [] else [(''vqs'', JArray (map (\<lambda>q. JNumber (uint q)) (vm_vqs m)))]))"

definition io_thread_properties_json :: "io_thread_properties \<Rightarrow> (string \<times> json) list" where
  "io_thread_properties_json p =
     List.map_filter (\<lambda>(k, v). map_option (\<lambda>n. (k, JNumber (sint n))) v)
       [(''poll-max-ns'', ip_poll_max_ns p), (''poll-grow'', ip_poll_grow p),
        (''poll-shrink'', ip_poll_shrink p), (''aio-max-batch'', ip_aio_max_batch p),
        (''thread-pool-min'', ip_thread_pool_min p), (''thread-pool-max'', ip_thread_pool_max p)]"

subsection \<open>The connection\<close>

text \<open>
  The calls into libvirt, with the text of their errors.  A call runs on a thread of its own, which may
  fail to be joined.  A domain is named by its UUID, rendered; the order of rendered UUIDs is the order
  of UUIDs.
\<close>

record 'q libvirt =
  lv_join_error :: "'q \<Rightarrow> string option"
  lv_open :: "string \<Rightarrow> 'q \<Rightarrow> string option"
  lv_active :: "'q \<Rightarrow> string + ((string + string) \<times> (string + string)) list"
  lv_lookup :: "string \<Rightarrow> 'q \<Rightarrow> string option"
  lv_max_vcpus :: "string \<Rightarrow> 'q \<Rightarrow> string + u64"
  lv_name :: "string \<Rightarrow> 'q \<Rightarrow> string + string"
  lv_monitor :: "string \<Rightarrow> json \<Rightarrow> 'q \<Rightarrow> (string + string) \<times> 'q"

definition io_other :: "string \<Rightarrow> qemu_error" where
  "io_other text = QemuIo (OtherKind, text)"

definition joined :: "'q libvirt \<Rightarrow> string \<Rightarrow> 'q \<Rightarrow> qemu_error + 'a \<Rightarrow> qemu_error + 'a" where
  "joined lv ctxt q r =
     (case lv_join_error lv q of Some e \<Rightarrow> Inl (QemuParse (ctxt @ '': '' @ e)) | None \<Rightarrow> r)"

text \<open>\<open>LibvirtConn::open\<close>; a connection is known by its URI.\<close>

definition conn_open :: "'q libvirt \<Rightarrow> string \<Rightarrow> 'q \<Rightarrow> qemu_error + string" where
  "conn_open lv uri q =
     joined lv ''spawn_blocking connect'' q
       (case lv_open lv uri q of
          Some e \<Rightarrow> Inl (io_other (''libvirt open('' @ uri @ ''): '' @ e))
        | None \<Rightarrow> Inr uri)"

definition xml_has_virtio_scsi :: "string \<Rightarrow> bool" where
  "xml_has_virtio_scsi xml =
     list_ex (\<lambda>line. let t = trim_start line in
         starts_with ''<controller'' t \<and>
         (contains_str (''type='' @ [CHR 0x27] @ ''scsi'' @ [CHR 0x27]) t \<or>
          contains_str (''type='' @ [CHR 0x22] @ ''scsi'' @ [CHR 0x22]) t) \<and>
         (contains_str (''model='' @ [CHR 0x27] @ ''virtio-scsi'' @ [CHR 0x27]) t \<or>
          contains_str (''model='' @ [CHR 0x22] @ ''virtio-scsi'' @ [CHR 0x22]) t))
       (lines xml)"

text \<open>VMs whose UUID or XML cannot be read are skipped.\<close>

definition list_qemu_vms :: "'q libvirt \<Rightarrow> 'q \<Rightarrow> qemu_error + string list" where
  "list_qemu_vms lv q =
     joined lv ''spawn_blocking list'' q
       (case lv_active lv q of
          Inl e \<Rightarrow> Inl (io_other (''list_all_domains: '' @ e))
        | Inr vms \<Rightarrow> Inr (sort (List.map_filter (\<lambda>(uuid, xml).
            case (uuid, xml) of
              (Inr u, Inr x) \<Rightarrow> if xml_has_virtio_scsi x then Some u else None
            | _ \<Rightarrow> None) vms)))"

definition lookup_vm :: "'q libvirt \<Rightarrow> string \<Rightarrow> 'q \<Rightarrow> qemu_error + unit" where
  "lookup_vm lv uuid q =
     (case lv_lookup lv uuid q of
        Some e \<Rightarrow> Inl (io_other (''lookup_vm('' @ uuid @ ''): '' @ e))
      | None \<Rightarrow> Inr ())"

definition qemu_max_vcpus :: "'q libvirt \<Rightarrow> string \<Rightarrow> 'q \<Rightarrow> qemu_error + u32" where
  "qemu_max_vcpus lv uuid q =
     joined lv ''spawn_blocking max_vcpus'' q
       (result_bind (lookup_vm lv uuid q) (\<lambda>_.
          case lv_max_vcpus lv uuid q of
            Inl e \<Rightarrow> Inl (io_other (''get_max_vcpus('' @ uuid @ ''): '' @ e))
          | Inr n \<Rightarrow> Inr (ucast n)))"

text \<open>The first of the two PID files that holds a positive number, or zero; \<open>read\<close> is the
  content of a file that can be read.\<close>

fun first_pid :: "(string \<Rightarrow> string option) \<Rightarrow> string list \<Rightarrow> i32" where
  "first_pid read [] = 0"
| "first_pid read (p # ps) =
     (case Option.bind (read p) (\<lambda>s. parse_i32 (trim s)) of
        None \<Rightarrow> first_pid read ps
      | Some pid \<Rightarrow> if 0 < sint pid then pid else first_pid read ps)"

definition qemu_host_pid ::
  "'q libvirt \<Rightarrow> (string \<Rightarrow> string option) \<Rightarrow> string \<Rightarrow> 'q \<Rightarrow> qemu_error + i32" where
  "qemu_host_pid lv read uuid q =
     joined lv ''spawn_blocking pid'' q
       (result_bind (lookup_vm lv uuid q) (\<lambda>_.
          case lv_name lv uuid q of
            Inl e \<Rightarrow> Inl (io_other (''vm name('' @ uuid @ ''): '' @ e))
          | Inr name \<Rightarrow> Inr (first_pid read
              [''/run/libvirt/qemu/'' @ name @ ''.pid'', ''/var/run/libvirt/qemu/'' @ name @ ''.pid''])))"

subsection \<open>Replies\<close>

record block_stats =
  bs_rd_bytes :: u64
  bs_wr_bytes :: u64
  bs_rd_operations :: u64
  bs_wr_operations :: u64
  bs_flush_operations :: u64
  bs_unmap_operations :: u64

text \<open>
  The decoders: of the envelope (the raw return value, if any, and the class and description of an
  error, if any), of the metrics text, of the block statistics and of a mapping.
\<close>

record qmp_codec =
  qc_envelope :: "string \<Rightarrow> string + string option \<times> (string \<times> string) option"
  qc_metrics :: "string \<Rightarrow> string + string"
  qc_stats :: "string \<Rightarrow> string + block_stats list"
  qc_mapping :: "string \<Rightarrow> string + vq_mapping list"

definition parse_qmp_envelope :: "qmp_codec \<Rightarrow> string \<Rightarrow> string \<Rightarrow> qemu_error + string" where
  "parse_qmp_envelope codec cmd body =
     (case qc_envelope codec body of
        Inl e \<Rightarrow> Inl (QemuParse (''decode '' @ cmd @ '' response: '' @ e @ '' (body='' @ body @ '')''))
      | Inr (_, Some (cls, desc)) \<Rightarrow> Inl (QemuQmp cmd cls desc)
      | Inr (None, None) \<Rightarrow> Inl (QemuParse (''qmp '' @ cmd @ '' response missing return/error: '' @ body))
      | Inr (Some ret, None) \<Rightarrow> Inr ret)"

definition perf_default :: perf_sample where
  "perf_default =
     \<lparr>perf_read_io_count = 0, perf_write_io_count = 0, perf_other_io_count = 0,
      perf_read_bytes_total = 0, perf_write_bytes_total = 0, perf_read_seq_ops = 0,
      perf_read_rand_ops = 0, perf_write_seq_ops = 0, perf_write_rand_ops = 0, perf_small_ops = 0,
      perf_large_ops = 0, perf_read_latency_us = None, perf_write_latency_us = None,
      perf_per_vq_depth = None\<rparr>"

definition add_block_stats :: "perf_sample \<Rightarrow> block_stats \<Rightarrow> perf_sample" where
  "add_block_stats perf e =
     perf\<lparr>perf_read_io_count := sat_add (perf_read_io_count perf) (bs_rd_operations e),
          perf_write_io_count := sat_add (perf_write_io_count perf) (bs_wr_operations e),
          perf_other_io_count := sat_add (perf_other_io_count perf)
            (sat_add (bs_flush_operations e) (bs_unmap_operations e)),
          perf_read_bytes_total := sat_add (perf_read_bytes_total perf) (bs_rd_bytes e),
          perf_write_bytes_total := sat_add (perf_write_bytes_total perf) (bs_wr_bytes e)\<rparr>"

definition parse_blockstats :: "qmp_codec \<Rightarrow> string \<Rightarrow> qemu_error + perf_sample option" where
  "parse_blockstats codec body =
     (case qc_stats codec body of
        Inl e \<Rightarrow> Inl (QemuParse (''decode query-blockstats: '' @ e))
      | Inr entries \<Rightarrow>
          Inr (if entries = [] then None else Some (foldl add_block_stats perf_default entries)))"

subsection \<open>Commands\<close>

definition execute ::
  "'q libvirt \<Rightarrow> qmp_codec \<Rightarrow> string \<Rightarrow> string \<Rightarrow> json option \<Rightarrow> 'q \<Rightarrow> (qemu_error + string) \<times> 'q"
where
  "execute lv codec uuid cmd args q =
     (let req = JObject ((''execute'', JString cmd) #
            (case args of None \<Rightarrow> [] | Some a \<Rightarrow> [(''arguments'', a)]))
      in case lv_join_error lv q of
           Some e \<Rightarrow> (Inl (QemuParse (''spawn_blocking qmp: '' @ e)), q)
         | None \<Rightarrow>
             (case lookup_vm lv uuid q of
                Inl e \<Rightarrow> (Inl e, q)
              | Inr _ \<Rightarrow>
                  (case lv_monitor lv uuid req q of
                     (Inl e, q) \<Rightarrow> (Inl (io_other (''qemu_monitor_command('' @ cmd @ ''): '' @ e)), q)
                   | (Inr raw, q) \<Rightarrow> (parse_qmp_envelope codec cmd raw, q))))"

definition qmp_add_io_thread ::
  "'q libvirt \<Rightarrow> qmp_codec \<Rightarrow> string \<Rightarrow> string \<Rightarrow> io_thread_properties option \<Rightarrow> 'q \<Rightarrow>
   (qemu_error + unit) \<times> 'q"
where
  "qmp_add_io_thread lv codec uuid io props q =
     (if trim io = [] then (Inl (QemuParse ''iothread id must be non-empty''), q)
      else let args = [(''qom-type'', JString ''iothread''), (''id'', JString io)];
               args = (case props of
                   None \<Rightarrow> args
                 | Some p \<Rightarrow> foldl (\<lambda>m (k, v). AList.update k v m) args (io_thread_properties_json p))
           in case execute lv codec uuid ''object-add'' (Some (JObject args)) q of
                (r, q) \<Rightarrow> (result_map (\<lambda>_. ()) r, q))"

definition qmp_del_io_thread ::
  "'q libvirt \<Rightarrow> qmp_codec \<Rightarrow> string \<Rightarrow> string \<Rightarrow> 'q \<Rightarrow> (qemu_error + unit) \<times> 'q" where
  "qmp_del_io_thread lv codec uuid io q =
     (if trim io = [] then (Inl (QemuParse ''iothread id must be non-empty''), q)
      else case execute lv codec uuid ''object-del'' (Some (JObject [(''id'', JString io)])) q of
             (r, q) \<Rightarrow> (result_map (\<lambda>_. ()) r, q))"

definition qmp_query_prometheus_metrics ::
  "'q libvirt \<Rightarrow> qmp_codec \<Rightarrow> string \<Rightarrow> 'q \<Rightarrow> (qemu_error + string) \<times> 'q" where
  "qmp_query_prometheus_metrics lv codec uuid q =
     (case execute lv codec uuid ''x-query-prometheus-metrics'' None q of
        (r, q) \<Rightarrow> (result_bind r (\<lambda>raw. result_map_err (\<lambda>e.
           QemuParse (''decode x-query-prometheus-metrics: '' @ e)) (qc_metrics codec raw)), q))"

definition qmp_set_vq_mapping ::
  "'q libvirt \<Rightarrow> qmp_codec \<Rightarrow> string \<Rightarrow> string \<Rightarrow> vq_mapping list \<Rightarrow> 'q \<Rightarrow> (qemu_error + unit) \<times> 'q"
where
  "qmp_set_vq_mapping lv codec uuid device mapping q =
     (if trim device = [] then (Inl (QemuParse ''device path must be non-empty''), q)
      else if mapping = []
      then (Inl (QemuParse ''iothread-vq-mapping must contain at least one entry''), q)
      else case execute lv codec uuid ''x-virtio-scsi-set-iothread-vq-mapping''
             (Some (JObject [(''path'', JString device),
                (''iothread-vq-mapping'', JArray (map vq_mapping_json mapping))])) q of
             (r, q) \<Rightarrow> (result_map (\<lambda>_. ()) r, q))"

definition qmp_query_blockstats ::
  "'q libvirt \<Rightarrow> qmp_codec \<Rightarrow> string \<Rightarrow> 'q \<Rightarrow> (qemu_error + perf_sample option) \<times> 'q" where
  "qmp_query_blockstats lv codec uuid q =
     (case execute lv codec uuid ''query-blockstats'' None q of
        (r, q) \<Rightarrow> (result_bind r (parse_blockstats codec), q))"

definition qmp_query_vq_mapping ::
  "'q libvirt \<Rightarrow> qmp_codec \<Rightarrow> string \<Rightarrow> string \<Rightarrow> 'q \<Rightarrow> (qemu_error + vq_mapping list) \<times> 'q" where
  "qmp_query_vq_mapping lv codec uuid device q =
     (if trim device = [] then (Inl (QemuParse ''device path must be non-empty''), q)
      else case execute lv codec uuid ''qom-get''
             (Some (JObject [(''path'', JString device), (''property'', JString ''iothread-vq-mapping'')])) q of
             (r, q) \<Rightarrow> (result_bind r (\<lambda>s.
                if s = [] \<or> s = ''null'' then Inr []
                else result_map_err (\<lambda>e. QemuParse (''parse qom-get iothread-vq-mapping: '' @ e))
                  (qc_mapping codec s)), q))"

end
