(* ===== verification/Qemu_Client.thy ===== *)
theory Qemu_Client
  imports Libvirt
begin

section \<open>The client of one QEMU VM (backends/qemu/client.rs)\<close>

text \<open>
  The cached topology of a VM and the operations that resize its pool of IOThreads.  The client's
  state contains the hypervisor state \<open>qi_host\<close> its commands act on.  One call runs at a time, so
  the mutex leaves no trace.  \<open>qi_extra\<close> is the counter of spare identifiers, a static of
  the process that all clients share; here each client carries its own reading of it, on whose value no
  property depends.
\<close>

record 'q qemu_client =
  qi_uuid :: string
  qi_vcpu_count :: u32
  qi_host :: 'q
  qi_pid :: i32
  qi_iothreads :: "string list"
  qi_iothread_tids :: "(string \<times> i32) list"
  qi_device_path :: string
  qi_vq_count :: u16
  qi_last_sample :: "iothread_sample option"
  qi_warned_unsupported_metrics :: bool
  qi_extra :: u64

definition qemu_client_new :: "string \<Rightarrow> u32 \<Rightarrow> 'q \<Rightarrow> u64 \<Rightarrow> 'q qemu_client" where
  "qemu_client_new uuid vcpu_count q extra =
     \<lparr>qi_uuid = uuid, qi_vcpu_count = vcpu_count, qi_host = q, qi_pid = 0, qi_iothreads = [],
      qi_iothread_tids = [], qi_device_path = [], qi_vq_count = 0, qi_last_sample = None,
      qi_warned_unsupported_metrics = False, qi_extra = extra\<rparr>"

record 'q qemu_env =
  qe_libvirt :: "'q libvirt"
  qe_codec :: qmp_codec

text \<open>The commands on the client's host.\<close>

definition on_host ::
  "('q \<Rightarrow> (qemu_error + 'a) \<times> 'q) \<Rightarrow> 'q qemu_client \<Rightarrow> (qemu_error + 'a) \<times> 'q qemu_client" where
  "on_host f c = (case f (qi_host c) of (r, q) \<Rightarrow> (r, c\<lparr>qi_host := q\<rparr>))"

definition cl_add_io_thread ::
  "'q qemu_env \<Rightarrow> string \<Rightarrow> io_thread_properties option \<Rightarrow> 'q qemu_client \<Rightarrow>
   (qemu_error + unit) \<times> 'q qemu_client" where
  "cl_add_io_thread env io props c =
     on_host (qmp_add_io_thread (qe_libvirt env) (qe_codec env) (qi_uuid c) io props) c"

definition cl_del_io_thread ::
  "'q qemu_env \<Rightarrow> string \<Rightarrow> 'q qemu_client \<Rightarrow> (qemu_error + unit) \<times> 'q qemu_client" where
  "cl_del_io_thread env io c =
     on_host (qmp_del_io_thread (qe_libvirt env) (qe_codec env) (qi_uuid c) io) c"

definition cl_set_vq_mapping ::
  "'q qemu_env \<Rightarrow> string \<Rightarrow> vq_mapping list \<Rightarrow> 'q qemu_client \<Rightarrow> (qemu_error + unit) \<times> 'q qemu_client"
where
  "cl_set_vq_mapping env device mapping c =
     on_host (qmp_set_vq_mapping (qe_libvirt env) (qe_codec env) (qi_uuid c) device mapping) c"

subsection \<open>One step up, one step down\<close>

text \<open>A mapping that cannot be installed removes the new IOThread again, if it can.\<close>

definition scale_up :: "'q qemu_env \<Rightarrow> 'q qemu_client \<Rightarrow> (qemu_error + u32) \<times> 'q qemu_client" where
  "scale_up env c =
     (case next_qemu_iothread_id (qi_iothreads c) (qi_extra c) of
        (new_id, extra) \<Rightarrow>
          (case cl_add_io_thread env new_id None (c\<lparr>qi_extra := extra\<rparr>) of
             (Inl e, c) \<Rightarrow> (Inl e, c)
           | (Inr _, c) \<Rightarrow>
               let new_set = sort (qi_iothreads c @ [new_id]);
                   mapping = round_robin_vq_mapping new_set (qi_vq_count c)
               in (case cl_set_vq_mapping env (qi_device_path c) mapping c of
                     (Inl e, c) \<Rightarrow> (Inl e, snd (cl_del_io_thread env new_id c))
                   | (Inr _, c) \<Rightarrow> (Inr (of_nat (length new_set)), c\<lparr>qi_iothreads := new_set\<rparr>))))"

definition scale_down :: "'q qemu_env \<Rightarrow> 'q qemu_client \<Rightarrow> (qemu_error + u32) \<times> 'q qemu_client" where
  "scale_down env c =
     (if length (qi_iothreads c) \<le> 1
      then (Inl (QemuParse (''refusing to scale below one iothread (have '' @
              show_int (int (length (qi_iothreads c))) @ '')'')), c)
      else let doomed = last (qi_iothreads c); remaining = butlast (qi_iothreads c);
               mapping = round_robin_vq_mapping remaining (qi_vq_count c)
           in (case cl_set_vq_mapping env (qi_device_path c) mapping c of
                 (Inl e, c) \<Rightarrow> (Inl e, c)
               | (Inr _, c) \<Rightarrow>
                   (case cl_del_io_thread env doomed c of
                      (Inl e, c) \<Rightarrow> (Inl e, c)
                    | (Inr _, c) \<Rightarrow> (Inr (of_nat (length remaining)), c\<lparr>qi_iothreads := remaining\<rparr>))))"

lemma on_host_frame [simp]:
  "qi_iothreads (snd (on_host f c)) = qi_iothreads c"
  "qi_vq_count (snd (on_host f c)) = qi_vq_count c"
  "qi_device_path (snd (on_host f c)) = qi_device_path c"
  "qi_uuid (snd (on_host f c)) = qi_uuid c"
  by (simp_all add: on_host_def split: prod.split)

lemma cl_frame [simp]:
  "qi_iothreads (snd (cl_add_io_thread env io props c)) = qi_iothreads c"
  "qi_iothreads (snd (cl_del_io_thread env io c)) = qi_iothreads c"
  "qi_iothreads (snd (cl_set_vq_mapping env device mapping c)) = qi_iothreads c"
  by (simp_all add: cl_add_io_thread_def cl_del_io_thread_def cl_set_vq_mapping_def)

lemma scale_up_Inr:
  assumes "scale_up env c = (Inr n, c')"
  shows "length (qi_iothreads c') = Suc (length (qi_iothreads c))"
proof -
  obtain new_id extra where new: "next_qemu_iothread_id (qi_iothreads c) (qi_extra c) = (new_id, extra)"
    by fastforce
  obtain r1 c1 where add: "cl_add_io_thread env new_id None (c\<lparr>qi_extra := extra\<rparr>) = (r1, c1)"
    by fastforce
  have "qi_iothreads c1 = qi_iothreads c"
    using cl_frame(1) [of env new_id None "c\<lparr>qi_extra := extra\<rparr>"] by (simp add: add)
  with assms new add show ?thesis
    by (auto simp: scale_up_def Let_def split: sum.splits prod.splits)
qed

lemma scale_down_Inr:
  assumes "scale_down env c = (Inr n, c')"
  shows "length (qi_iothreads c) \<ge> 2 \<and> length (qi_iothreads c') = length (qi_iothreads c) - 1 \<and>
    qi_iothreads c' = butlast (qi_iothreads c)"
  using assms by (auto simp: scale_down_def Let_def split: sum.splits prod.splits if_splits)

subsection \<open>The loops\<close>

definition thread_count :: "'q qemu_client \<Rightarrow> u32" where
  "thread_count c = of_nat (length (qi_iothreads c))"

text \<open>
  The counts are 32 bit; a step that leaves the count where it was ends the loop, which cannot happen
  but is what the program tests.
\<close>

function scale_up_loop ::
  "'q qemu_env \<Rightarrow> u32 \<Rightarrow> 'q qemu_client \<Rightarrow> (qemu_error + unit) \<times> 'q qemu_client" where
  "scale_up_loop env tgt c =
     (if tgt \<le> thread_count c then (Inr (), c)
      else case scale_up env c of
             (Inl e, c') \<Rightarrow> (Inl e, c')
           | (Inr new, c') \<Rightarrow> if new = thread_count c then (Inr (), c') else scale_up_loop env tgt c')"
  by pat_completeness auto

lemma unat_word_plus_one: "a < (b :: u32) \<Longrightarrow> unat (a + 1) = Suc (unat a)"
  by unat_arith

lemma scale_up_progress:
  assumes "scale_up env c = (Inr new, c')" and "\<not> tgt \<le> thread_count c"
  shows "unat tgt - unat (thread_count c') < unat tgt - unat (thread_count c)"
proof -
  have "thread_count c' = thread_count c + 1"
    using scale_up_Inr [OF assms(1)] by (simp add: thread_count_def)
  moreover have "unat (thread_count c + 1) = unat (thread_count c) + 1"
    using unat_word_plus_one [of "thread_count c" tgt] assms(2) by simp
  moreover have "unat (thread_count c) < unat tgt"
    using assms(2) by (simp add: word_less_nat_alt not_le)
  ultimately show ?thesis
    by simp
qed

termination scale_up_loop
  by (relation "measure (\<lambda>(env, tgt, c). unat tgt - unat (thread_count c))")
    (auto simp del: not_le intro: scale_up_progress [OF sym])


lemma scale_down_progress:
  assumes "scale_down env c = (Inr new, c')" and "\<not> thread_count c \<le> tgt"
  shows "unat (thread_count c') < unat (thread_count c)"
proof -
  have n: "2 \<le> length (qi_iothreads c)" "length (qi_iothreads c') = length (qi_iothreads c) - 1"
    using scale_down_Inr [OF assms(1)] by simp_all
  then have "thread_count c' + 1 = thread_count c"
    by (simp add: thread_count_def of_nat_diff)
  moreover have "thread_count c \<noteq> 0"
    using assms(2) by auto
  ultimately have "unat (thread_count c) = Suc (unat (thread_count c'))"
    using unatSuc [of "thread_count c'"] by (simp add: add.commute)
  then show ?thesis
    by simp
qed

function scale_down_loop ::
  "'q qemu_env \<Rightarrow> u32 \<Rightarrow> 'q qemu_client \<Rightarrow> (qemu_error + unit) \<times> 'q qemu_client" where
  "scale_down_loop env tgt c =
     (if thread_count c \<le> tgt then (Inr (), c)
      else case scale_down env c of
             (Inl e, c') \<Rightarrow> (Inl e, c')
           | (Inr new, c') \<Rightarrow> if new = thread_count c then (Inr (), c') else scale_down_loop env tgt c')"
  by pat_completeness auto

termination scale_down_loop
  by (relation "measure (\<lambda>(env, tgt, c). unat (thread_count c))")
    (auto simp del: not_le intro: scale_down_progress [OF sym])

declare scale_up_loop.simps [simp del] scale_down_loop.simps [simp del]

definition set_thread_count ::
  "'q qemu_env \<Rightarrow> u32 \<Rightarrow> 'q qemu_client \<Rightarrow> (backend_client_error + unit) \<times> 'q qemu_client" where
  "set_thread_count env tgt c =
     (case scale_up_loop env tgt c of
        (Inl e, c) \<Rightarrow> (Inl (client_error_of e), c)
      | (Inr _, c) \<Rightarrow>
          (case scale_down_loop env tgt c of
             (r, c) \<Rightarrow> (result_map_err client_error_of r, c)))"

subsection \<open>The snapshot\<close>

text \<open>
  The readings of a snapshot: whether a process exists, its thread group or the error of reading its
  status, the user and system times of a task, the clock and the host's tick rate.
\<close>

record pool_env =
  qp_now :: instant
  qp_hz :: u64
  qp_process :: "i32 \<Rightarrow> bool"
  qp_tgid :: "i32 \<Rightarrow> string + i32"
  qp_task_stat :: "i32 \<Rightarrow> (u64 \<times> u64) option"

definition query_blockstats ::
  "'q qemu_env \<Rightarrow> 'q qemu_client \<Rightarrow> perf_sample option \<times> 'q qemu_client" where
  "query_blockstats env c =
     (case on_host (qmp_query_blockstats (qe_libvirt env) (qe_codec env) (qi_uuid c)) c of
        (Inl _, c) \<Rightarrow> (None, c)
      | (Inr p, c) \<Rightarrow> (p, c))"

definition snapshot_from_cached_topology ::
  "'q qemu_env \<Rightarrow> 'q qemu_client \<Rightarrow> (backend_client_error + thread_pool_snapshot) \<times> 'q qemu_client" where
  "snapshot_from_cached_topology env c =
     (let n = max (thread_count c) 1
      in case query_blockstats env c of
           (perf, c) \<Rightarrow>
             (Inr \<lparr>tps_thread_count = n, tps_vcpu_count = qi_vcpu_count c, tps_perf = perf,
                tps_per_thread_util = None\<rparr>, c))"

text \<open>What the metrics, once parsed, must be good for: an IOThread with a live task whose process is
  known, and a sample of every task.\<close>

definition sample_topology ::
  "pool_env \<Rightarrow> qemu_topology \<Rightarrow> backend_client_error + i32 \<times> iothread_sample" where
  "sample_topology pe topo =
     (if qt_iothreads topo = [] \<or> qt_device_path topo = []
      then Inl (InvalidState (''qemu topology incomplete: iothreads='' @
             show_int (int (length (qt_iothreads topo))) @ '' device='' @ qt_device_path topo))
      else let first_tid = (case map snd (qt_iothread_tids topo) of [] \<Rightarrow> 0 | t # _ \<Rightarrow> t)
           in if first_tid = 0 then Inl (InvalidState ''qemu topology reported no iothread TIDs'')
              else if \<not> qp_process pe first_tid then Inl ClientProcfs
              else case qp_tgid pe first_tid of
                     Inl e \<Rightarrow> Inl (InvalidState (''pid resolution: '' @ e))
                   | Inr pid \<Rightarrow>
                       if sint pid \<le> 0
                       then Inl (InvalidState (''invalid pid '' @ show_int (sint pid) @ '' from tid '' @
                              show_int (sint first_tid)))
                       else result_bind (iothread_sample_new (qp_now pe)
                              (if qp_process pe pid then Inr () else Inl ClientProcfs)
                              (\<lambda>tid. case qp_task_stat pe tid of None \<Rightarrow> Inl ClientProcfs | Some s \<Rightarrow> Inr s)
                              (qt_iothread_tids topo)) (\<lambda>sample.
                            if is_jiffies sample = []
                            then Inl (InvalidState ''qemu per-thread sample empty'')
                            else Inr (pid, sample)))"

definition get_thread_pool_snapshot ::
  "'q qemu_env \<Rightarrow> pool_env \<Rightarrow> 'q qemu_client \<Rightarrow>
   (backend_client_error + thread_pool_snapshot) \<times> 'q qemu_client"
where
  "get_thread_pool_snapshot env pe c =
     (case on_host (qmp_query_prometheus_metrics (qe_libvirt env) (qe_codec env) (qi_uuid c)) c of
        (Inl e, c) \<Rightarrow>
          (case e of
             QemuQmp cmd cls _ \<Rightarrow>
               if cmd = ''x-query-prometheus-metrics'' \<and> cls = ''CommandNotFound''
               then snapshot_from_cached_topology env (c\<lparr>qi_warned_unsupported_metrics := True\<rparr>)
               else (Inl (client_error_of e), c)
           | _ \<Rightarrow> (Inl (client_error_of e), c))
      | (Inr body, c) \<Rightarrow>
          (let topo = topology_new body
           in case sample_topology pe topo of
                Inl e \<Rightarrow> (Inl e, c)
              | Inr (pid, sample) \<Rightarrow>
                  let util = map_option (\<lambda>prev.
                        diff_jiffies_sample (f64_of_word (qp_hz pe)) prev sample) (qi_last_sample c);
                      c = c\<lparr>qi_pid := pid, qi_iothreads := qt_iothreads topo,
                            qi_iothread_tids := qt_iothread_tids topo,
                            qi_device_path := qt_device_path topo, qi_vq_count := qt_vq_count topo,
                            qi_last_sample := Some sample\<rparr>
                  in (case query_blockstats env c of
                        (perf, c) \<Rightarrow>
                          (Inr \<lparr>tps_thread_count = of_nat (length (qt_iothreads topo)),
                             tps_vcpu_count = qi_vcpu_count c,
                             tps_perf = (if qt_vq_inflight topo = [] then perf
                               else map_option (\<lambda>p. p\<lparr>perf_per_vq_depth := Some (qt_vq_inflight topo)\<rparr>) perf),
                             tps_per_thread_util = util\<rparr>, c))))"

text \<open>The client behind the trait; the readings are those of the next snapshot.\<close>

definition qemu_client_ops :: "'q qemu_env \<Rightarrow> pool_env \<Rightarrow> 'q qemu_client client_ops" where
  "qemu_client_ops env pe =
     (client_defaults (set_thread_count env) (get_thread_pool_snapshot env pe) (\<lambda>c. c))
     \<lparr>op_add_io_thread := (\<lambda>io props c.
        case cl_add_io_thread env io props c of (r, c) \<Rightarrow> (result_map_err client_error_of r, c)),
      op_del_io_thread := (\<lambda>io c.
        case cl_del_io_thread env io c of (r, c) \<Rightarrow> (result_map_err client_error_of r, c)),
      op_set_io_thread_vq_mapping := (\<lambda>device mapping c.
        case cl_set_vq_mapping env device mapping c of (r, c) \<Rightarrow> (result_map_err client_error_of r, c)),
      op_get_io_thread_vq_mapping := (\<lambda>device c.
        case on_host (qmp_query_vq_mapping (qe_libvirt env) (qe_codec env) (qi_uuid c) device) c of
          (r, c) \<Rightarrow> (result_map_err client_error_of r, c))\<rparr>"

subsection \<open>The loops reach their target\<close>

lemma scale_up_iothreads:
  assumes "scale_up env c = (Inr n, c')"
  shows "n = thread_count c' \<and> qi_vq_count c' = qi_vq_count c \<and> qi_uuid c' = qi_uuid c \<and>
    (\<exists>i. qi_iothreads c' = sort (qi_iothreads c @ [i]))"
proof -
  obtain new_id extra where new: "next_qemu_iothread_id (qi_iothreads c) (qi_extra c) = (new_id, extra)"
    by fastforce
  obtain r1 c1 where add: "cl_add_io_thread env new_id None (c\<lparr>qi_extra := extra\<rparr>) = (r1, c1)"
    by fastforce
  obtain r2 c2 where map: "cl_set_vq_mapping env (qi_device_path c1)
      (round_robin_vq_mapping (sort (qi_iothreads c1 @ [new_id])) (qi_vq_count c1)) c1 = (r2, c2)"
    by fastforce
  have "qi_iothreads c1 = qi_iothreads c" "qi_vq_count c1 = qi_vq_count c" "qi_uuid c1 = qi_uuid c"
      "qi_vq_count c2 = qi_vq_count c1" "qi_uuid c2 = qi_uuid c1"
    using add map by (auto simp: cl_add_io_thread_def cl_set_vq_mapping_def on_host_def split: prod.splits)
  with assms new add map show ?thesis
    by (auto simp: scale_up_def Let_def thread_count_def split: sum.splits prod.splits)
qed

lemma scale_down_iothreads:
  assumes "scale_down env c = (Inr n, c')"
  shows "n = thread_count c' \<and> qi_vq_count c' = qi_vq_count c \<and> qi_uuid c' = qi_uuid c"
  using assms
  by (auto simp: scale_down_def Let_def thread_count_def cl_set_vq_mapping_def cl_del_io_thread_def on_host_def
      split: sum.splits prod.splits if_splits)

lemma thread_count_unat: "length (qi_iothreads c) < 2 ^ 32 \<Longrightarrow> unat (thread_count c) = length (qi_iothreads c)"
  by (simp add: thread_count_def unat_of_nat)

lemma scale_up_loop_Inr:
  assumes "scale_up_loop env tgt c = (Inr (), c')" and "length (qi_iothreads c) < 2 ^ 32"
  shows "length (qi_iothreads c') = max (length (qi_iothreads c)) (unat tgt) \<and>
    set (qi_iothreads c) \<subseteq> set (qi_iothreads c')"
  using assms
proof (induction env tgt c rule: scale_up_loop.induct)
  case (1 env tgt c)
  note n = thread_count_unat [OF 1(3)]
  show ?case
  proof (cases "tgt \<le> thread_count c")
    case True
    with 1(2) n show ?thesis
      by (simp add: scale_up_loop.simps [of env tgt c] word_le_nat_alt max_absorb1)
  next
    case False
    then obtain new c1 where up: "scale_up env c = (Inr new, c1)"
      using 1(2) by (auto simp: scale_up_loop.simps [of env tgt c] split: sum.splits prod.splits)
    have len: "length (qi_iothreads c1) = Suc (length (qi_iothreads c))"
      using up by (rule scale_up_Inr)
    have sub: "set (qi_iothreads c) \<subseteq> set (qi_iothreads c1)"
      using scale_up_iothreads [OF up] by auto
    have less: "length (qi_iothreads c) < unat tgt"
      using False n by (simp add: word_le_nat_alt)
    have new: "new \<noteq> thread_count c"
      using scale_up_iothreads [OF up] len by (simp add: thread_count_def)
    have "length (qi_iothreads c1) < 2 ^ 32"
      using len less unsigned_less [of tgt, where 'a = nat] by simp
    then have "length (qi_iothreads c') = max (length (qi_iothreads c1)) (unat tgt) \<and>
        set (qi_iothreads c1) \<subseteq> set (qi_iothreads c')"
      using 1(1) [OF False up [symmetric] refl new] 1(2) up False new by (simp add: scale_up_loop.simps [of env tgt c])
    with len sub less show ?thesis
      by auto
  qed
qed

lemma scale_down_loop_Inr:
  assumes "scale_down_loop env tgt c = (Inr (), c')" and "length (qi_iothreads c) < 2 ^ 32"
  shows "qi_iothreads c' = take (unat tgt) (qi_iothreads c)"
  using assms
proof (induction env tgt c rule: scale_down_loop.induct)
  case (1 env tgt c)
  note n = thread_count_unat [OF 1(3)]
  show ?case
  proof (cases "thread_count c \<le> tgt")
    case True
    with 1(2) n show ?thesis
      by (simp add: scale_down_loop.simps [of env tgt c] word_le_nat_alt)
  next
    case False
    then obtain new c1 where down: "scale_down env c = (Inr new, c1)"
      using 1(2) by (auto simp: scale_down_loop.simps [of env tgt c] split: sum.splits prod.splits)
    note d = scale_down_Inr [OF down]
    have less: "unat tgt < length (qi_iothreads c)"
      using False n by (simp add: word_le_nat_alt)
    have new: "new \<noteq> thread_count c"
      using scale_down_iothreads [OF down] d n thread_count_unat [of c1] 1(3) by fastforce
    have "qi_iothreads c' = take (unat tgt) (qi_iothreads c1)"
      using 1(1) [OF False down [symmetric] refl new] 1(2,3) down False new d
      by (simp add: scale_down_loop.simps [of env tgt c])
    moreover have "unat tgt \<le> length (qi_iothreads c) - 1"
      using less by simp
    ultimately show ?thesis
      using d by (simp add: butlast_conv_take min_absorb1)
  qed
qed

lemma resize_length:
  assumes "set_thread_count env tgt c = (Inr (), c')" and "length (qi_iothreads c) < 2 ^ 32"
  shows "length (qi_iothreads c') = unat tgt \<and>
    (unat tgt \<le> length (qi_iothreads c) \<longrightarrow> qi_iothreads c' = take (unat tgt) (qi_iothreads c)) \<and>
    (length (qi_iothreads c) \<le> unat tgt \<longrightarrow> set (qi_iothreads c) \<subseteq> set (qi_iothreads c'))"
proof -
  obtain c1 where up: "scale_up_loop env tgt c = (Inr (), c1)"
    using assms(1) by (cases "scale_up_loop env tgt c") (auto simp: set_thread_count_def split: sum.splits)
  with assms(1) have down: "scale_down_loop env tgt c1 = (Inr (), c')"
    by (cases "scale_down_loop env tgt c1"; cases "fst (scale_down_loop env tgt c1)")
      (auto simp: set_thread_count_def)
  note u = scale_up_loop_Inr [OF up assms(2)]
  have "length (qi_iothreads c1) < 2 ^ 32"
    using u assms(2) unsigned_less [of tgt, where 'a = nat] by simp
  note d = scale_down_loop_Inr [OF down this]
  have same: "qi_iothreads c1 = qi_iothreads c" if "unat tgt \<le> length (qi_iothreads c)"
  proof -
    have "tgt \<le> thread_count c"
      using that thread_count_unat [OF assms(2)] by (simp add: word_le_nat_alt)
    with up show ?thesis
      by (simp add: scale_up_loop.simps [of env tgt c])
  qed
  show ?thesis
    using u d same by auto
qed

text \<open>
  C23: a resize that reports success reached its target.  The cached pool then has exactly the requested
  number of IOThreads; growing keeps every thread, shrinking removes threads from the end of the list
  only.
\<close>

theorem set_thread_count_exact:
  assumes "set_thread_count env tgt c = (Inr (), c')" and "length (qi_iothreads c) < 2 ^ 32"
  shows "length (qi_iothreads c') = unat tgt \<and>
    (unat tgt \<le> length (qi_iothreads c) \<longrightarrow> qi_iothreads c' = take (unat tgt) (qi_iothreads c)) \<and>
    (length (qi_iothreads c) \<le> unat tgt \<longrightarrow> set (qi_iothreads c) \<subseteq> set (qi_iothreads c'))"
  using assms by (rule resize_length)

subsection \<open>The host follows\<close>

text \<open>
  What QMP documents of its commands, as seen through \<open>view\<close>: the IOThread objects of the VM and
  the mapping of its device.  A command that is answered with a return value was carried out:
  \<open>object-add\<close> adds an object of a name not in use, \<open>object-del\<close> removes it, and the mapping
  command installs the mapping.  A command that is answered with an error changed nothing.  Of a
  command without a readable answer (libvirt could not deliver it or the reply, or the reply is none)
  nothing is known.

  \<open>calm\<close> holds of a hypervisor state in which every command sent to the VM so far got a readable
  answer, and nobody but this client has changed the VM's IOThreads and mapping.  Nothing is assumed
  of a state that is not calm.
\<close>

definition host_effect :: "string \<Rightarrow> json \<Rightarrow> string set \<times> json \<Rightarrow> string set \<times> json" where
  "host_effect cmd args v =
     (case v of (objs, mapping) \<Rightarrow>
        if cmd = ''object-add'' then
          (case json_field ''id'' args of JString i \<Rightarrow> (insert i objs, mapping) | _ \<Rightarrow> v)
        else if cmd = ''object-del'' then
          (case json_field ''id'' args of JString i \<Rightarrow> (objs - {i}, mapping) | _ \<Rightarrow> v)
        else if cmd = ''x-virtio-scsi-set-iothread-vq-mapping''
        then (objs, json_field ''iothread-vq-mapping'' args) else v)"

definition host_contract ::
  "'q qemu_env \<Rightarrow> string \<Rightarrow> ('q \<Rightarrow> string set \<times> json) \<Rightarrow> ('q \<Rightarrow> bool) \<Rightarrow> bool" where
  "host_contract env uuid view calm \<longleftrightarrow> (\<forall>cmd args q raw q'.
     lv_monitor (qe_libvirt env) uuid (JObject ((''execute'', JString cmd) #
       (case args of None \<Rightarrow> [] | Some a \<Rightarrow> [(''arguments'', a)]))) q = (raw, q') \<longrightarrow> calm q' \<longrightarrow>
     calm q \<and>
     (\<exists>body. raw = Inr body \<and>
       (case qc_envelope (qe_codec env) body of
          Inr (_, Some _) \<Rightarrow> view q' = view q
        | Inr (Some _, None) \<Rightarrow>
            view q' = host_effect cmd (case args of None \<Rightarrow> JNull | Some a \<Rightarrow> a) (view q) \<and>
            (cmd = ''object-add'' \<longrightarrow> (\<forall>a i. args = Some a \<longrightarrow> json_field ''id'' a = JString i \<longrightarrow> i \<notin> fst (view q)))
        | _ \<Rightarrow> False)))"

text \<open>A command whose call was not even made has no effect either.\<close>

lemma execute_view:
  assumes "host_contract env uuid view calm"
    and run: "execute (qe_libvirt env) (qe_codec env) uuid cmd args q = (r, q')" and "calm q'"
  shows "calm q \<and> (case r of
      Inl _ \<Rightarrow> view q' = view q
    | Inr _ \<Rightarrow> view q' = host_effect cmd (case args of None \<Rightarrow> JNull | Some a \<Rightarrow> a) (view q) \<and>
        (cmd = ''object-add'' \<longrightarrow> (\<forall>a i. args = Some a \<longrightarrow> json_field ''id'' a = JString i \<longrightarrow> i \<notin> fst (view q))))"
proof -
  obtain raw q1 where sent: "lv_monitor (qe_libvirt env) uuid (JObject ((''execute'', JString cmd) #
      (case args of None \<Rightarrow> [] | Some a \<Rightarrow> [(''arguments'', a)]))) q = (raw, q1)"
    by fastforce
  show ?thesis
  proof (cases "lv_join_error (qe_libvirt env) q = None \<and> lookup_vm (qe_libvirt env) uuid q = Inr ()")
    case False
    with run assms(3) show ?thesis
      by (auto simp: execute_def Let_def split: option.splits sum.splits)
  next
    case True
    with run sent have q1: "q' = q1" and r: "r = (case raw of
        Inl e \<Rightarrow> Inl (io_other (''qemu_monitor_command('' @ cmd @ ''): '' @ e))
      | Inr body \<Rightarrow> parse_qmp_envelope (qe_codec env) cmd body)"
      by (auto simp: execute_def Let_def split: sum.splits)
    from assms(1) [unfolded host_contract_def, rule_format, OF sent] assms(3) q1 obtain body
      where "calm q" "raw = Inr body" and reply: "case qc_envelope (qe_codec env) body of
          Inr (_, Some _) \<Rightarrow> view q' = view q
        | Inr (Some _, None) \<Rightarrow>
            view q' = host_effect cmd (case args of None \<Rightarrow> JNull | Some a \<Rightarrow> a) (view q) \<and>
            (cmd = ''object-add'' \<longrightarrow> (\<forall>a i. args = Some a \<longrightarrow> json_field ''id'' a = JString i \<longrightarrow> i \<notin> fst (view q)))
        | _ \<Rightarrow> False"
      by blast
    then show ?thesis
      unfolding r by (auto simp: parse_qmp_envelope_def split: sum.splits prod.splits option.splits)
  qed
qed

definition mapping_json :: "vq_mapping list \<Rightarrow> json" where
  "mapping_json ms = JArray (map vq_mapping_json ms)"

fun mapped_threads :: "json \<Rightarrow> string set" where
  "mapped_threads (JArray ms) = {t. \<exists>m\<in>set ms. json_field ''iothread'' m = JString t}"
| "mapped_threads _ = {}"

lemma mapped_threads_json [simp]: "mapped_threads (mapping_json ms) = vm_iothread ` set ms"
  by (auto simp: mapping_json_def vq_mapping_json_def)

lemma host_add:
  assumes "host_contract env (qi_uuid c) view calm" and "cl_add_io_thread env i None c = (r, c')"
    and calm: "calm (qi_host c')"
  shows "calm (qi_host c) \<and> (case r of
      Inl _ \<Rightarrow> view (qi_host c') = view (qi_host c)
    | Inr _ \<Rightarrow> i \<notin> fst (view (qi_host c)) \<and>
        view (qi_host c') = (insert i (fst (view (qi_host c))), snd (view (qi_host c))))"
proof -
  let ?args = "Some (JObject [(''qom-type'', JString ''iothread''), (''id'', JString i)])"
  obtain r0 q where e: "execute (qe_libvirt env) (qe_codec env) (qi_uuid c) ''object-add'' ?args (qi_host c) = (r0, q)"
    by fastforce
  show ?thesis
  proof (cases "trim i = []")
    case True
    with assms(2) calm show ?thesis
      by (auto simp: cl_add_io_thread_def on_host_def qmp_add_io_thread_def)
  next
    case False
    with assms(2) e have "r = result_map (\<lambda>_. ()) r0" and "qi_host c' = q"
      by (auto simp: cl_add_io_thread_def on_host_def qmp_add_io_thread_def)
    with execute_view [OF assms(1) e] calm show ?thesis
      by (cases r0; cases "view (qi_host c)") (auto simp: host_effect_def)
  qed
qed

lemma host_del:
  assumes "host_contract env (qi_uuid c) view calm" and "cl_del_io_thread env i c = (r, c')"
    and calm: "calm (qi_host c')"
  shows "calm (qi_host c) \<and> (case r of
      Inl _ \<Rightarrow> view (qi_host c') = view (qi_host c)
    | Inr _ \<Rightarrow> view (qi_host c') = (fst (view (qi_host c)) - {i}, snd (view (qi_host c))))"
proof -
  obtain r0 q where e: "execute (qe_libvirt env) (qe_codec env) (qi_uuid c) ''object-del''
      (Some (JObject [(''id'', JString i)])) (qi_host c) = (r0, q)"
    by fastforce
  show ?thesis
  proof (cases "trim i = []")
    case True
    with assms(2) calm show ?thesis
      by (auto simp: cl_del_io_thread_def on_host_def qmp_del_io_thread_def)
  next
    case False
    with assms(2) e have "r = result_map (\<lambda>_. ()) r0" and "qi_host c' = q"
      by (auto simp: cl_del_io_thread_def on_host_def qmp_del_io_thread_def)
    with execute_view [OF assms(1) e] calm show ?thesis
      by (cases r0; cases "view (qi_host c)") (auto simp: host_effect_def)
  qed
qed

lemma host_map:
  assumes "host_contract env (qi_uuid c) view calm" and "cl_set_vq_mapping env device ms c = (r, c')"
    and calm: "calm (qi_host c')"
  shows "calm (qi_host c) \<and> (case r of
      Inl _ \<Rightarrow> view (qi_host c') = view (qi_host c)
    | Inr _ \<Rightarrow> view (qi_host c') = (fst (view (qi_host c)), mapping_json ms))"
proof -
  obtain r0 q where e: "execute (qe_libvirt env) (qe_codec env) (qi_uuid c) ''x-virtio-scsi-set-iothread-vq-mapping''
      (Some (JObject [(''path'', JString device), (''iothread-vq-mapping'', JArray (map vq_mapping_json ms))]))
      (qi_host c) = (r0, q)"
    by fastforce
  show ?thesis
  proof (cases "trim device = [] \<or> ms = []")
    case True
    with assms(2) calm show ?thesis
      by (auto simp: cl_set_vq_mapping_def on_host_def qmp_set_vq_mapping_def split: if_splits)
  next
    case False
    with assms(2) e have "r = result_map (\<lambda>_. ()) r0" and "qi_host c' = q"
      by (auto simp: cl_set_vq_mapping_def on_host_def qmp_set_vq_mapping_def)
    with execute_view [OF assms(1) e] calm show ?thesis
      by (cases r0; cases "view (qi_host c)") (auto simp: host_effect_def mapping_json_def)
  qed
qed

text \<open>
  The host agrees with the client: it has the client's IOThreads, and its device uses existing objects
  only.
\<close>

definition host_ok :: "('q \<Rightarrow> string set \<times> json) \<Rightarrow> 'q qemu_client \<Rightarrow> bool" where
  "host_ok view c \<longleftrightarrow> distinct (qi_iothreads c) \<and> set (qi_iothreads c) \<subseteq> fst (view (qi_host c)) \<and>
     mapped_threads (snd (view (qi_host c))) \<subseteq> fst (view (qi_host c))"

text \<open>The client's claim on a host: it agrees as long as the host is calm.\<close>

definition in_step :: "('q \<Rightarrow> string set \<times> json) \<Rightarrow> ('q \<Rightarrow> bool) \<Rightarrow> 'q qemu_client \<Rightarrow> bool" where
  "in_step view calm c \<longleftrightarrow> (calm (qi_host c) \<longrightarrow> host_ok view c)"

text \<open>The objects that are not the client's, and whether the queues are spread over the client's
  threads.\<close>

definition foreign :: "('q \<Rightarrow> string set \<times> json) \<Rightarrow> 'q qemu_client \<Rightarrow> string set" where
  "foreign view c = fst (view (qi_host c)) - set (qi_iothreads c)"

definition evenly_mapped :: "('q \<Rightarrow> string set \<times> json) \<Rightarrow> 'q qemu_client \<Rightarrow> bool" where
  "evenly_mapped view c \<longleftrightarrow>
     snd (view (qi_host c)) = mapping_json (round_robin_vq_mapping (qi_iothreads c) (qi_vq_count c))"

lemma round_robin_threads: "vm_iothread ` set (round_robin_vq_mapping ids n) \<subseteq> set ids"
proof (cases "ids = [] \<or> n = 0")
  case True
  then show ?thesis
    by (auto simp: round_robin_vq_mapping_def)
next
  case False
  then show ?thesis
    by (auto simp: round_robin_eq)
qed

lemma cl_add_keeps:
  "cl_add_io_thread env io props c = (r, c') \<Longrightarrow>
     qi_iothreads c' = qi_iothreads c \<and> qi_uuid c' = qi_uuid c \<and> qi_vq_count c' = qi_vq_count c"
  by (auto simp: cl_add_io_thread_def on_host_def split: prod.splits)

lemma cl_del_keeps:
  "cl_del_io_thread env io c = (r, c') \<Longrightarrow>
     qi_iothreads c' = qi_iothreads c \<and> qi_uuid c' = qi_uuid c \<and> qi_vq_count c' = qi_vq_count c"
  by (auto simp: cl_del_io_thread_def on_host_def split: prod.splits)

lemma cl_map_keeps:
  "cl_set_vq_mapping env device ms c = (r, c') \<Longrightarrow>
     qi_iothreads c' = qi_iothreads c \<and> qi_uuid c' = qi_uuid c \<and> qi_vq_count c' = qi_vq_count c"
  by (auto simp: cl_set_vq_mapping_def on_host_def split: prod.splits)

lemma scale_up_uuid: "scale_up env c = (r, c') \<Longrightarrow> qi_uuid c' = qi_uuid c"
  by (auto simp: scale_up_def Let_def dest!: cl_add_keeps cl_map_keeps split: sum.splits prod.splits)
    (metis cl_del_keeps prod.collapse)

lemma scale_down_uuid: "scale_down env c = (r, c') \<Longrightarrow> qi_uuid c' = qi_uuid c"
  by (auto simp: scale_down_def Let_def dest!: cl_del_keeps cl_map_keeps split: sum.splits prod.splits if_splits)

text \<open>One step, with the outcomes of its commands.\<close>

lemma scale_up_host:
  assumes contract: "host_contract env (qi_uuid c) view calm" and step: "in_step view calm c"
    and up: "scale_up env c = (r, c')" and calm: "calm (qi_host c')"
  shows "calm (qi_host c) \<and> host_ok view c' \<and>
    (r \<noteq> Inr n \<or> foreign view c' = foreign view c \<and> evenly_mapped view c')"
proof -
  obtain i extra where new: "next_qemu_iothread_id (qi_iothreads c) (qi_extra c) = (i, extra)"
    by fastforce
  let ?c0 = "c\<lparr>qi_extra := extra\<rparr>"
  obtain r1 c1 where add: "cl_add_io_thread env i None ?c0 = (r1, c1)"
    by fastforce
  have c1: "qi_iothreads c1 = qi_iothreads c" "qi_uuid c1 = qi_uuid c" "qi_vq_count c1 = qi_vq_count c"
    using cl_add_keeps [OF add] by simp_all
  have h1: "calm (qi_host c) \<and> (case r1 of Inl _ \<Rightarrow> view (qi_host c1) = view (qi_host c)
    | Inr _ \<Rightarrow> i \<notin> fst (view (qi_host c)) \<and>
        view (qi_host c1) = (insert i (fst (view (qi_host c))), snd (view (qi_host c))))" if "calm (qi_host c1)"
    using host_add [of env ?c0 view calm i r1 c1] contract add that by (cases r1) simp_all
  show ?thesis
  proof (cases r1)
    case (Inl e)
    with up new add have r: "r = Inl e" "c' = c1"
      by (simp_all add: scale_up_def)
    with Inl h1 calm c1 step show ?thesis
      by (auto simp: host_ok_def in_step_def)
  next
    case (Inr u)
    define ids where "ids = sort (qi_iothreads c @ [i])"
    obtain r2 c2 where map: "cl_set_vq_mapping env (qi_device_path c1)
        (round_robin_vq_mapping ids (qi_vq_count c)) c1 = (r2, c2)"
      by fastforce
    have c2: "qi_iothreads c2 = qi_iothreads c" "qi_uuid c2 = qi_uuid c" "qi_vq_count c2 = qi_vq_count c"
      using cl_map_keeps [OF map] c1 by simp_all
    note h2 = host_map [OF contract [folded c1(2)] map]
    show ?thesis
    proof (cases r2)
      case (Inr v)
      with up new add map \<open>r1 = Inr u\<close> c1 have r: "r = Inr (of_nat (length ids))" "c' = c2\<lparr>qi_iothreads := ids\<rparr>"
        by (simp_all add: scale_up_def ids_def Let_def)
      then have "calm (qi_host c2)"
        using calm by simp
      note h2 = h2 [OF this] h1 [OF conjunct1 [OF h2 [OF this]]]
      then have ok: "host_ok view c" and fresh: "i \<notin> fst (view (qi_host c))"
        using step \<open>r1 = Inr u\<close> by (auto simp: in_step_def)
      then have ids: "distinct ids" "set ids = insert i (set (qi_iothreads c))"
        by (auto simp: ids_def host_ok_def)
      from h2 r Inr \<open>r1 = Inr u\<close> ids ok c2 fresh round_robin_threads [of ids "qi_vq_count c"] show ?thesis
        by (auto simp: host_ok_def foreign_def evenly_mapped_def)
    next
      case (Inl e)
      obtain r3 c3 where del: "cl_del_io_thread env i c2 = (r3, c3)"
        by fastforce
      have c3: "qi_iothreads c3 = qi_iothreads c" "qi_uuid c3 = qi_uuid c"
        using cl_del_keeps [OF del] c2 by simp_all
      note h3 = host_del [OF contract [folded c2(2)] del]
      have r: "r = Inl e" "c' = c3"
        using up new add map del Inl \<open>r1 = Inr u\<close> c1 by (simp_all add: scale_up_def ids_def Let_def)
      then have "calm (qi_host c3)"
        using calm by simp
      note h3 = h3 [OF this]
      note h2 = h2 [OF conjunct1 [OF h3]]
      note h1 = h1 [OF conjunct1 [OF h2]]
      have ok: "host_ok view c" and fresh: "i \<notin> fst (view (qi_host c))"
        using step h1 \<open>r1 = Inr u\<close> by (auto simp: in_step_def)
      with h1 h2 h3 r Inl \<open>r1 = Inr u\<close> c3 show ?thesis
        by (cases r3) (auto simp: host_ok_def)
    qed
  qed
qed

lemma scale_down_host:
  assumes contract: "host_contract env (qi_uuid c) view calm" and step: "in_step view calm c"
    and down: "scale_down env c = (r, c')" and calm: "calm (qi_host c')"
  shows "calm (qi_host c) \<and> host_ok view c' \<and>
    (r \<noteq> Inr n \<or> foreign view c' = foreign view c \<and> evenly_mapped view c')"
proof (cases "length (qi_iothreads c) \<le> 1")
  case True
  with down step calm show ?thesis
    by (auto simp: scale_down_def in_step_def)
next
  case False
  define doomed remaining where "doomed = last (qi_iothreads c)" and "remaining = butlast (qi_iothreads c)"
  have split: "qi_iothreads c = remaining @ [doomed]"
    using False by (cases "qi_iothreads c" rule: rev_cases) (auto simp: doomed_def remaining_def)
  have parts: "doomed \<notin> set remaining" "distinct remaining"
      "set (qi_iothreads c) = insert doomed (set remaining)" if "host_ok view c"
    using that split by (auto simp: host_ok_def)
  obtain r1 c1 where map: "cl_set_vq_mapping env (qi_device_path c)
      (round_robin_vq_mapping remaining (qi_vq_count c)) c = (r1, c1)"
    by fastforce
  have c1: "qi_iothreads c1 = qi_iothreads c" "qi_uuid c1 = qi_uuid c" "qi_vq_count c1 = qi_vq_count c"
    using cl_map_keeps [OF map] by simp_all
  note h1 = host_map [OF contract map]
  have threads: "vm_iothread ` set (round_robin_vq_mapping remaining (qi_vq_count c)) \<subseteq> set remaining"
    by (rule round_robin_threads)
  show ?thesis
  proof (cases r1)
    case (Inl e)
    with down map False have "r = Inl e" "c' = c1"
      by (simp_all add: scale_down_def remaining_def Let_def)
    with Inl h1 calm c1 step show ?thesis
      by (auto simp: host_ok_def in_step_def)
  next
    case (Inr u)
    obtain r2 c2 where del: "cl_del_io_thread env doomed c1 = (r2, c2)"
      by fastforce
    have c2: "qi_iothreads c2 = qi_iothreads c" "qi_uuid c2 = qi_uuid c" "qi_vq_count c2 = qi_vq_count c"
      using cl_del_keeps [OF del] c1 by simp_all
    have c': "c' = (case r2 of Inl _ \<Rightarrow> c2 | Inr _ \<Rightarrow> c2\<lparr>qi_iothreads := remaining\<rparr>)"
        "\<And>e. r2 = Inl e \<Longrightarrow> r = Inl e"
      using down map del Inr False by (auto simp: scale_down_def remaining_def doomed_def Let_def split: sum.splits)
    then have "calm (qi_host c2)"
      using calm by (cases r2) simp_all
    note h2 = host_del [OF contract [folded c1(2)] del this]
    note h1 = h1 [OF conjunct1 [OF h2]]
    then have ok: "host_ok view c"
      using step by (simp add: in_step_def)
    show ?thesis
    proof (cases r2)
      case (Inl e)
      with Inr h1 h2 c2 c' ok parts [OF ok] threads show ?thesis
        by (auto simp: host_ok_def)
    next
      case (Inr v)
      with \<open>r1 = Inr u\<close> h1 h2 c2 c' ok parts [OF ok] threads show ?thesis
        by (auto simp: host_ok_def foreign_def evenly_mapped_def)
    qed
  qed
qed

text \<open>The loops.\<close>

lemma scale_up_loop_host:
  assumes "host_contract env (qi_uuid c) view calm" and "in_step view calm c"
    and "scale_up_loop env tgt c = (r, c')"
  shows "qi_uuid c' = qi_uuid c \<and> (calm (qi_host c') \<longrightarrow> calm (qi_host c) \<and> host_ok view c' \<and>
    (r = Inr () \<longrightarrow> foreign view c' = foreign view c \<and> (c' = c \<or> evenly_mapped view c')))"
  using assms
proof (induction env tgt c rule: scale_up_loop.induct)
  case (1 env tgt c)
  show ?case
  proof (cases "tgt \<le> thread_count c")
    case True
    with 1(3,4) show ?thesis
      by (auto simp: scale_up_loop.simps [of env tgt c] in_step_def)
  next
    case False
    obtain r1 c1 where up: "scale_up env c = (r1, c1)"
      by fastforce
    note h = scale_up_host [OF 1(2,3) up] scale_up_uuid [OF up]
    show ?thesis
    proof (cases r1)
      case (Inl e)
      with 1(4) False up h show ?thesis
        by (auto simp: scale_up_loop.simps [of env tgt c])
    next
      case (Inr new)
      have new: "new \<noteq> thread_count c"
        using scale_up_iothreads [OF up [unfolded Inr]] scale_up_Inr [OF up [unfolded Inr]]
        by (simp add: thread_count_def)
      have "scale_up_loop env tgt c1 = (r, c')"
        using 1(4) False up Inr new by (simp add: scale_up_loop.simps [of env tgt c])
      moreover have "in_step view calm c1" "host_contract env (qi_uuid c1) view calm"
        using h 1(2) by (simp_all add: in_step_def)
      ultimately have "qi_uuid c' = qi_uuid c1 \<and> (calm (qi_host c') \<longrightarrow> calm (qi_host c1) \<and> host_ok view c' \<and>
          (r = Inr () \<longrightarrow> foreign view c' = foreign view c1 \<and> (c' = c1 \<or> evenly_mapped view c')))"
        using 1(1) [OF False up [symmetric] Inr new] by blast
      with h(1) [of new] h(2) Inr show ?thesis
        by auto
    qed
  qed
qed

lemma scale_down_loop_host:
  assumes "host_contract env (qi_uuid c) view calm" and "in_step view calm c"
    and "scale_down_loop env tgt c = (r, c')"
  shows "qi_uuid c' = qi_uuid c \<and> (calm (qi_host c') \<longrightarrow> calm (qi_host c) \<and> host_ok view c' \<and>
    (r = Inr () \<longrightarrow> foreign view c' = foreign view c \<and> (c' = c \<or> evenly_mapped view c')))"
  using assms
proof (induction env tgt c rule: scale_down_loop.induct)
  case (1 env tgt c)
  show ?case
  proof (cases "thread_count c \<le> tgt")
    case True
    with 1(3,4) show ?thesis
      by (auto simp: scale_down_loop.simps [of env tgt c] in_step_def)
  next
    case False
    obtain r1 c1 where down: "scale_down env c = (r1, c1)"
      by fastforce
    note h = scale_down_host [OF 1(2,3) down] scale_down_uuid [OF down]
    show ?thesis
    proof (cases r1)
      case (Inl e)
      with 1(4) False down h show ?thesis
        by (auto simp: scale_down_loop.simps [of env tgt c])
    next
      case (Inr new)
      have "unat (thread_count c1) < unat (thread_count c)"
        using scale_down_progress [OF down [unfolded Inr] False] .
      with scale_down_iothreads [OF down [unfolded Inr]] have new: "new \<noteq> thread_count c"
        by auto
      have "scale_down_loop env tgt c1 = (r, c')"
        using 1(4) False down Inr new by (simp add: scale_down_loop.simps [of env tgt c])
      moreover have "in_step view calm c1" "host_contract env (qi_uuid c1) view calm"
        using h 1(2) by (simp_all add: in_step_def)
      ultimately have "qi_uuid c' = qi_uuid c1 \<and> (calm (qi_host c') \<longrightarrow> calm (qi_host c1) \<and> host_ok view c' \<and>
          (r = Inr () \<longrightarrow> foreign view c' = foreign view c1 \<and> (c' = c1 \<or> evenly_mapped view c')))"
        using 1(1) [OF False down [symmetric] Inr new] by blast
      with h(1) [of new] h(2) Inr show ?thesis
        by auto
    qed
  qed
qed

subsection \<open>A host that behaves as documented\<close>

text \<open>
  A hypervisor small enough to run: a list of objects and the mapping of one device.  It answers every
  request it understands and refuses to add an object twice.
\<close>

definition sim_monitor :: "string \<Rightarrow> json \<Rightarrow> string list \<times> json \<Rightarrow> (string + string) \<times> (string list \<times> json)" where
  "sim_monitor uuid req v =
     (case json_field ''execute'' req of
        JString cmd \<Rightarrow>
          let args = json_field ''arguments'' req
          in if cmd = ''object-add'' then
               (case json_field ''id'' args of
                  JString i \<Rightarrow>
                    if i \<in> set (fst v) then (Inr ''duplicate'', v) else (Inr ''done'', (i # fst v, snd v))
                | _ \<Rightarrow> (Inr ''done'', v))
             else if cmd = ''object-del'' then
               (case json_field ''id'' args of
                  JString i \<Rightarrow> (Inr ''done'', (filter (\<lambda>j. j \<noteq> i) (fst v), snd v))
                | _ \<Rightarrow> (Inr ''done'', v))
             else if cmd = ''x-virtio-scsi-set-iothread-vq-mapping''
             then (Inr ''done'', (fst v, json_field ''iothread-vq-mapping'' args))
             else (Inr ''done'', v)
      | _ \<Rightarrow> (Inl ''not a request'', v))"

definition sim_env :: "(string list \<times> json) qemu_env" where
  "sim_env =
     \<lparr>qe_libvirt = \<lparr>lv_join_error = (\<lambda>_. None), lv_open = (\<lambda>_ _. None), lv_active = (\<lambda>_. Inr []),
        lv_lookup = (\<lambda>_ _. None), lv_max_vcpus = (\<lambda>_ _. Inr 4), lv_name = (\<lambda>_ _. Inr ''vm''),
        lv_monitor = sim_monitor\<rparr>,
      qe_codec = \<lparr>qc_envelope = (\<lambda>body. if body = ''done'' then Inr (Some ''{}'', None)
          else Inr (None, Some (''GenericError'', body))),
        qc_metrics = Inr, qc_stats = (\<lambda>_. Inr []), qc_mapping = (\<lambda>_. Inr [])\<rparr>\<rparr>"

text \<open>A client of such a host, with the threads it knows and one object that is not its own.\<close>

definition sim_client :: "string list \<Rightarrow> (string list \<times> json) qemu_client" where
  "sim_client ids =
     (qemu_client_new ''vm'' 4 (''mon0'' # ids, mapping_json (round_robin_vq_mapping ids 2)) 0)
     \<lparr>qi_iothreads := ids, qi_device_path := ''/scsi0'', qi_vq_count := 2\<rparr>"

lemma sim_monitor_reply:
  assumes "sim_monitor uuid (JObject ((''execute'', JString cmd) #
       (case args of None \<Rightarrow> [] | Some a \<Rightarrow> [(''arguments'', a)]))) q = (raw, q')"
  defines "a \<equiv> (case args of None \<Rightarrow> JNull | Some a \<Rightarrow> a)"
  shows "raw = Inr ''duplicate'' \<and> q' = q \<or>
    raw = Inr ''done'' \<and> (set (fst q'), snd q') = host_effect cmd a (set (fst q), snd q) \<and>
      (cmd = ''object-add'' \<longrightarrow> (\<forall>i. json_field ''id'' a = JString i \<longrightarrow> i \<notin> set (fst q)))"
proof -
  have "json_field ''execute'' (JObject ((''execute'', JString cmd) #
      (case args of None \<Rightarrow> [] | Some a \<Rightarrow> [(''arguments'', a)]))) = JString cmd"
    and "json_field ''arguments'' (JObject ((''execute'', JString cmd) #
      (case args of None \<Rightarrow> [] | Some a \<Rightarrow> [(''arguments'', a)]))) = a"
    by (simp_all add: a_def split: option.split)
  then have run: "sim_monitor uuid (JObject ((''execute'', JString cmd) #
       (case args of None \<Rightarrow> [] | Some a \<Rightarrow> [(''arguments'', a)]))) q =
      (if cmd = ''object-add'' then
               (case json_field ''id'' a of
                  JString i \<Rightarrow>
                    if i \<in> set (fst q) then (Inr ''duplicate'', q) else (Inr ''done'', (i # fst q, snd q))
                | _ \<Rightarrow> (Inr ''done'', q))
             else if cmd = ''object-del'' then
               (case json_field ''id'' a of
                  JString i \<Rightarrow> (Inr ''done'', (filter (\<lambda>j. j \<noteq> i) (fst q), snd q))
                | _ \<Rightarrow> (Inr ''done'', q))
             else if cmd = ''x-virtio-scsi-set-iothread-vq-mapping''
             then (Inr ''done'', (fst q, json_field ''iothread-vq-mapping'' a))
             else (Inr ''done'', q))"
    unfolding sim_monitor_def by (simp only: json.case Let_def)
  show ?thesis
    using assms(1) unfolding run
    by (cases "json_field ''id'' a") (auto simp: host_effect_def split: if_splits)
qed

lemma sim_contract:
  "host_contract sim_env uuid (\<lambda>q. (set (fst q), snd q)) (\<lambda>_. True)"
  unfolding host_contract_def
proof (intro allI impI)
  fix cmd args q raw q'
  assume "lv_monitor (qe_libvirt sim_env) uuid (JObject ((''execute'', JString cmd) #
       (case args of None \<Rightarrow> [] | Some a \<Rightarrow> [(''arguments'', a)]))) q = (raw, q')"
  then have "sim_monitor uuid (JObject ((''execute'', JString cmd) #
       (case args of None \<Rightarrow> [] | Some a \<Rightarrow> [(''arguments'', a)]))) q = (raw, q')"
    by (simp add: sim_env_def)
  from sim_monitor_reply [OF this] show "True \<and>
     (\<exists>body. raw = Inr body \<and>
       (case qc_envelope (qe_codec sim_env) body of
          Inr (_, Some _) \<Rightarrow> (set (fst q'), snd q') = (set (fst q), snd q)
        | Inr (Some _, None) \<Rightarrow>
            (set (fst q'), snd q') =
              host_effect cmd (case args of None \<Rightarrow> JNull | Some a \<Rightarrow> a) (set (fst q), snd q) \<and>
            (cmd = ''object-add'' \<longrightarrow> (\<forall>a i. args = Some a \<longrightarrow> json_field ''id'' a = JString i \<longrightarrow>
               i \<notin> fst (set (fst q), snd q)))
        | _ \<Rightarrow> False))"
    by (elim disjE conjE) (simp_all add: sim_env_def)
qed

lemma sim_ok: "distinct ids \<Longrightarrow> host_ok (\<lambda>q. (set (fst q), snd q)) (sim_client ids)"
  using round_robin_threads [of ids 2] by (auto simp: host_ok_def sim_client_def qemu_client_new_def)

theorem set_thread_count_exact_witness:
  "length (qi_iothreads (snd (set_thread_count sim_env 1 (sim_client [''iot0'', ''iot1''])))) = 1"
proof -
  have "fst (set_thread_count sim_env 1 (sim_client [''iot0'', ''iot1''])) = Inr ()"
    by code_simp
  then have "set_thread_count sim_env 1 (sim_client [''iot0'', ''iot1'']) =
      (Inr (), snd (set_thread_count sim_env 1 (sim_client [''iot0'', ''iot1''])))"
    by (simp add: prod_eq_iff)
  from set_thread_count_exact [OF this] show ?thesis
    by (simp add: sim_client_def)
qed

subsection \<open>The host follows its client\<close>

text \<open>
  The host follows the client, and no virtqueue is ever left without its thread.  As long as the host is
  calm, a resize that starts from agreement between client and host ends in agreement, whichever
  commands QEMU refuses on the way: every IOThread the client knows exists, and the device's queues are
  mapped to existing threads only.  When it succeeds, no other object of the host was touched, and
  unless nothing was to be done the queues are spread evenly over exactly the new set of threads.
\<close>

lemma resize_host:
  assumes "host_contract env (qi_uuid c) view calm" and "in_step view calm c"
    and "set_thread_count env tgt c = (r, c')"
  shows "qi_uuid c' = qi_uuid c \<and> in_step view calm c' \<and>
    (calm (qi_host c') \<longrightarrow> r = Inr () \<longrightarrow> fst (view (qi_host c')) = foreign view c \<union> set (qi_iothreads c') \<and>
      (c' = c \<or> evenly_mapped view c'))"
proof -
  obtain r1 c1 where up: "scale_up_loop env tgt c = (r1, c1)"
    by fastforce
  note u = scale_up_loop_host [OF assms(1,2) up]
  show ?thesis
  proof (cases r1)
    case (Inl e)
    with assms(3) up u show ?thesis
      by (auto simp: set_thread_count_def in_step_def)
  next
    case (Inr v)
    obtain r2 c2 where down: "scale_down_loop env tgt c1 = (r2, c2)"
      by fastforce
    have "host_contract env (qi_uuid c1) view calm" and "in_step view calm c1"
      using u assms(1) by (simp_all add: in_step_def)
    note d = scale_down_loop_host [OF this down]
    have "c' = c2" and "r = result_map_err client_error_of r2"
      using assms(3) up down Inr by (simp_all add: set_thread_count_def)
    with u d Inr show ?thesis
      by (cases r2) (auto simp: foreign_def host_ok_def in_step_def)
  qed
qed

lemma sim_grows: "fst (set_thread_count sim_env 2 (sim_client [''iot0''])) = Inr ()"
  by code_simp

lemma resize_host_witness:
  "case set_thread_count sim_env 2 (sim_client [''iot0'']) of (r, c') \<Rightarrow>
     host_ok (\<lambda>q. (set (fst q), snd q)) c' \<and> set (fst (qi_host c')) = {''mon0''} \<union> set (qi_iothreads c')"
proof -
  obtain r c' where run: "set_thread_count sim_env 2 (sim_client [''iot0'']) = (r, c')"
    by fastforce
  with sim_grows have "r = Inr ()"
    by simp
  moreover have "foreign (\<lambda>q. (set (fst q), snd q)) (sim_client [''iot0'']) = {''mon0''}"
    by (auto simp: foreign_def sim_client_def qemu_client_new_def)
  ultimately show ?thesis
    using resize_host [OF sim_contract _ run] sim_ok [of "[''iot0'']"] run by (simp add: in_step_def)
qed

lemma scale_down_Inl: "scale_down env c = (Inl e, c') \<Longrightarrow> qi_iothreads c' = qi_iothreads c"
  by (auto simp: scale_down_def Let_def dest!: cl_map_keeps cl_del_keeps
      split: sum.splits prod.splits if_splits)

text \<open>
  A pool cannot be emptied.  Asked for zero IOThreads, a client that has any reports an error; it
  has removed threads one by one until one was left or a command failed.
\<close>

lemma last_thread_stays:
  assumes "qi_iothreads c \<noteq> []" and "length (qi_iothreads c) < 2 ^ 32"
  shows "case set_thread_count env 0 c of (r, c') \<Rightarrow> (\<exists>e. r = Inl e) \<and> qi_iothreads c' \<noteq> []"
proof -
  have loop: "(\<exists>e. fst (scale_down_loop env tgt c) = Inl e) \<and> qi_iothreads (snd (scale_down_loop env tgt c)) \<noteq> []"
    if "qi_iothreads c \<noteq> []" "length (qi_iothreads c) < 2 ^ 32" "tgt = 0" for tgt
    using that
  proof (induction env tgt c rule: scale_down_loop.induct)
    case (1 env tgt c)
    have pos: "\<not> thread_count c \<le> tgt"
      using 1(2-4) thread_count_unat [OF 1(3)] by (simp add: word_le_nat_alt)
    obtain r1 c1 where down: "scale_down env c = (r1, c1)"
      by fastforce
    show ?case
    proof (cases r1)
      case (Inl e)
      have "qi_iothreads c1 = qi_iothreads c"
        using down Inl scale_down_Inl by blast
      with pos down Inl 1(2) show ?thesis
        by (simp add: scale_down_loop.simps [of env tgt c])
    next
      case (Inr new)
      note d = scale_down_Inr [OF down [unfolded Inr]]
      have new: "new \<noteq> thread_count c"
        using scale_down_iothreads [OF down [unfolded Inr]] scale_down_progress [OF down [unfolded Inr] pos] by auto
      have "qi_iothreads c1 \<noteq> []" "length (qi_iothreads c1) < 2 ^ 32"
        using d 1(3) by auto
      have "scale_down_loop env tgt c = scale_down_loop env tgt c1"
        using pos down Inr new by (simp add: scale_down_loop.simps [of env tgt c])
      with 1(1) [OF pos down [symmetric] Inr new] 1(4) \<open>qi_iothreads c1 \<noteq> []\<close>
        \<open>length (qi_iothreads c1) < 2 ^ 32\<close> show ?thesis
        by simp
    qed
  qed
  have "scale_up_loop env 0 c = (Inr (), c)"
    by (simp add: scale_up_loop.simps [of env 0 c])
  with loop [OF assms refl] show ?thesis
    by (auto simp: set_thread_count_def split: prod.split)
qed

lemma last_thread_stays_witness:
  "case set_thread_count sim_env 0 (sim_client [''iot0'', ''iot1'']) of
     (r, c') \<Rightarrow> (\<exists>e. r = Inl e) \<and> qi_iothreads c' \<noteq> []"
  using last_thread_stays [of "sim_client [''iot0'', ''iot1'']" sim_env] by (simp add: sim_client_def)

end
