(* ===== verification/Qemu_Backend.thy ===== *)
theory Qemu_Backend
  imports Qemu_Client Discovery Controller_Safety
begin

section \<open>The QEMU backend (backends/qemu/mod.rs)\<close>

text \<open>
  Configuration, the memoised connection and discovery.  The connection is known by its URI.  Every
  client starts with the hypervisor state \<open>q\<close> and the counter of spare identifiers \<open>extra\<close>
  that discovery found; commands of one client are not seen through another.
\<close>

definition backend_name :: string where
  "backend_name = ''qemu''"

record qemu_config =
  qcf_libvirt_uri :: string

definition default_libvirt_uri :: string where
  "default_libvirt_uri = ''qemu:///system''"

definition qemu_config_default :: qemu_config where
  "qemu_config_default = \<lparr>qcf_libvirt_uri = default_libvirt_uri\<rparr>"

definition qemu_config_from_dir ::
  "(path \<Rightarrow> bool) \<Rightarrow> (path \<Rightarrow> config_error + qemu_config) \<Rightarrow> path \<Rightarrow> path \<Rightarrow> config_error + qemu_config"
where
  "qemu_config_from_dir path_exists load rootp dir =
     (let p = path_new rootp (path_join dir [Normal ''qemu.json''])
      in if path_exists p then load p else Inr qemu_config_default)"

record qemu_backend =
  qb_cfg :: qemu_config
  qb_conn :: "string option"

definition qemu_backend_new :: "qemu_config \<Rightarrow> qemu_backend" where
  "qemu_backend_new cfg = \<lparr>qb_cfg = cfg, qb_conn = None\<rparr>"

definition build_qemu_backend ::
  "(path \<Rightarrow> bool) \<Rightarrow> (path \<Rightarrow> config_error + qemu_config) \<Rightarrow> path \<Rightarrow> path \<Rightarrow>
   backend_client_error + qemu_backend"
where
  "build_qemu_backend path_exists load rootp dir =
     result_map_err ClientConfig (result_map qemu_backend_new (qemu_config_from_dir path_exists load rootp dir))"

text \<open>The registration the backend links into the program.\<close>

definition qemu_registration ::
  "(path \<Rightarrow> bool) \<Rightarrow> (path \<Rightarrow> config_error + qemu_config) \<Rightarrow> path \<Rightarrow> qemu_backend backend_registration"
where
  "qemu_registration path_exists load rootp =
     \<lparr>reg_name = backend_name, reg_build = build_qemu_backend path_exists load rootp\<rparr>"




subsection \<open>What discovery reports\<close>



lemma map_filter_subseq: "subseq (List.map_filter f xs) (map (the \<circ> f) xs)"
  by (induction xs) (auto simp: List.map_filter_simps split: option.split)







end
