(* ===== verification/Util_Paths.thy ===== *)
theory Util_Paths
  imports Paths
begin

section \<open>Paths as texts (util.rs)\<close>

text \<open>
  The other theories work with the components of a path.  Here is the type of util.rs itself,
  which holds the text, with the operations of \<open>std::path\<close> it calls on texts; the lemmas
  show that taking a text apart commutes with them, so that \<open>path_new\<close> on components is
  what \<open>Path::new\<close> computes.  File names are taken to be UTF-8, so that
  \<open>to_string_lossy\<close> loses nothing.
\<close>

definition text_is_absolute :: "string \<Rightarrow> bool" where
  "text_is_absolute s = (s \<noteq> [] \<and> hd s = CHR ''/'')"

text \<open>\<open>PathBuf::push\<close>, as \<open>join\<close> uses it.\<close>

definition text_join :: "string \<Rightarrow> string \<Rightarrow> string" where
  "text_join a b =
     (if text_is_absolute b then b
      else if a \<noteq> [] \<and> last a \<noteq> CHR ''/'' then a @ CHR ''/'' # b else a @ b)"

text \<open>\<open>strip_prefix("/")\<close> of an absolute path: what the components after the root span,
  without the separators and dots around it.\<close>

definition segment_is_void :: "string \<Rightarrow> bool" where
  "segment_is_void s = (s = [] \<or> s = ''.'')"

definition trim_segments :: "string list \<Rightarrow> string list" where
  "trim_segments ss = rev (dropWhile segment_is_void (rev (dropWhile segment_is_void ss)))"

definition text_strip_root :: "string \<Rightarrow> string" where
  "text_strip_root s = join ''/'' (trim_segments (split_on (CHR ''/'') (tl s)))"

record util_path =
  up_text :: string

text \<open>The value of \<open>IO_THREAD_CONTROLLER_ROOT_PATH\<close>, from the environment.\<close>

definition root_path :: "(string \<Rightarrow> string option) \<Rightarrow> string" where
  "root_path environ = (case environ ''IO_THREAD_CONTROLLER_ROOT_PATH'' of Some s \<Rightarrow> s | None \<Rightarrow> ''/'')"

definition util_path_new :: "(string \<Rightarrow> string option) \<Rightarrow> string \<Rightarrow> util_path" where
  "util_path_new environ s =
     \<lparr>up_text = (if text_is_absolute s then text_join (root_path environ) (text_strip_root s) else s)\<rparr>"

text \<open>The conversions: \<open>From\<close>, \<open>FromStr\<close>, which never fails, and serde's.\<close>

definition util_path_from :: "(string \<Rightarrow> string option) \<Rightarrow> string \<Rightarrow> util_path" where
  "util_path_from environ s = util_path_new environ s"

definition util_path_from_str :: "(string \<Rightarrow> string option) \<Rightarrow> string \<Rightarrow> 'e + util_path" where
  "util_path_from_str environ s = Inr (util_path_new environ s)"

definition serialize_path :: "util_path \<Rightarrow> string" where
  "serialize_path p = up_text p"

definition deserialize_path :: "(string \<Rightarrow> string option) \<Rightarrow> 'e + string \<Rightarrow> 'e + util_path" where
  "deserialize_path environ r =
     (case r of Inl e \<Rightarrow> Inl e | Inr s \<Rightarrow> Inr (util_path_new environ s))"

definition show_path :: "util_path \<Rightarrow> string" where
  "show_path p = up_text p"

text \<open>\<open>glob\<close>: the crate's matcher is an argument; \<open>None\<close> is the panic on a pattern it
  does not accept.\<close>

definition glob_path :: "(string \<Rightarrow> 'e + string list) \<Rightarrow> util_path \<Rightarrow> string list option" where
  "glob_path globber p = (case globber (up_text p) of Inl _ \<Rightarrow> None | Inr paths \<Rightarrow> Some paths)"

subsection \<open>Texts and components\<close>

definition comps_of :: "string list \<Rightarrow> path_component list" where
  "comps_of ss = concat (map component_of ss)"

lemma comps_of_simps [simp]:
  "comps_of [] = []" "comps_of (s # ss) = component_of s @ comps_of ss"
  "comps_of (ss @ ts) = comps_of ss @ comps_of ts"
  by (simp_all add: comps_of_def)

lemma component_of_void: "segment_is_void s \<Longrightarrow> component_of s = []"
  by (auto simp: segment_is_void_def)

lemma comps_of_dropWhile [simp]: "comps_of (dropWhile segment_is_void ss) = comps_of ss"
  by (induction ss) (auto simp: component_of_void simp del: component_of.simps)

lemma comps_of_rtrim [simp]: "comps_of (rev (dropWhile segment_is_void (rev ss))) = comps_of ss"
  by (induction ss rule: rev_induct) (auto simp: component_of_void simp del: component_of.simps)

lemma comps_of_trim [simp]: "comps_of (trim_segments ss) = comps_of ss"
  by (simp add: trim_segments_def)

lemma trim_segments_subset: "set (trim_segments ss) \<subseteq> set ss"
  by (auto simp: trim_segments_def dest!: set_dropWhileD)

lemma last_dropWhile_eq: "dropWhile P xs \<noteq> [] \<Longrightarrow> last (dropWhile P xs) = last xs"
  by (induction xs) auto

lemma trim_segments_hd:
  assumes "trim_segments ss \<noteq> []"
  shows "\<not> segment_is_void (hd (trim_segments ss))"
proof -
  let ?l = "dropWhile segment_is_void ss"
  have ne: "dropWhile segment_is_void (rev ?l) \<noteq> []"
    using assms by (simp add: trim_segments_def)
  then have "?l \<noteq> []"
    by (cases "?l") simp_all
  then have "\<not> segment_is_void (hd ?l)"
    by (rule hd_dropWhile)
  with last_dropWhile_eq [OF ne] \<open>?l \<noteq> []\<close> show ?thesis
    by (simp add: trim_segments_def hd_rev last_rev)
qed

lemma parse_path_absolute:
  "text_is_absolute s \<Longrightarrow> parse_path s = RootDir # comps_of (split_on (CHR ''/'') (tl s))"
  by (cases s) (simp_all add: text_is_absolute_def parse_path_def comps_of_def)

lemma parse_path_strip:
  assumes "text_is_absolute s"
  shows "parse_path (text_strip_root s) = tl (parse_path s)"
    and "\<not> text_is_absolute (text_strip_root s)"
proof -
  let ?segs = "trim_segments (split_on (CHR ''/'') (tl s))"
  have free: "\<forall>x \<in> set ?segs. CHR ''/'' \<notin> set x"
    using trim_segments_subset split_on_parts by blast
  have tl: "tl (parse_path s) = comps_of ?segs"
    by (simp add: parse_path_absolute [OF assms])
  show "parse_path (text_strip_root s) = tl (parse_path s)"
    and "\<not> text_is_absolute (text_strip_root s)"
  proof (atomize (full), cases "?segs = []")
    case True
    then show "parse_path (text_strip_root s) = tl (parse_path s) \<and> \<not> text_is_absolute (text_strip_root s)"
      by (simp add: text_strip_root_def tl parse_path_def [of "[]"] text_is_absolute_def)
  next
    case False
    then obtain x xs where xs: "?segs = x # xs"
      by (cases ?segs) auto
    then have x: "x \<noteq> []" "x \<noteq> ''.''" "CHR ''/'' \<notin> set x"
      using trim_segments_hd [of "split_on (CHR ''/'') (tl s)"] free by (auto simp: segment_is_void_def)
    have split: "split_on (CHR ''/'') (text_strip_root s) = x # xs"
      unfolding text_strip_root_def using split_join [OF False free] xs by simp
    have "text_strip_root s \<noteq> []" "hd (text_strip_root s) = hd x"
      using x xs by (cases xs; cases x; simp add: text_strip_root_def)+
    moreover have "hd x \<noteq> CHR ''/''"
      using x by (cases x) auto
    ultimately show "parse_path (text_strip_root s) = tl (parse_path s) \<and> \<not> text_is_absolute (text_strip_root s)"
      using x xs by (simp add: parse_path_def [of "text_strip_root s"] split tl text_is_absolute_def comps_of_def)
  qed
qed


lemma comps_of_plain: "RootDir \<notin> set (comps_of ss)" "CurDir \<notin> set (comps_of ss)"
  by (induction ss) auto

definition path_prefix :: "string \<Rightarrow> path" where
  "path_prefix s =
     (if text_is_absolute s then [RootDir]
      else if s \<noteq> [] \<and> hd (split_on (CHR ''/'') s) = ''.'' then [CurDir] else [])"

lemma parse_path_eq: "parse_path s = path_prefix s @ comps_of (split_on (CHR ''/'') s)"
proof (cases "text_is_absolute s")
  case True
  then show ?thesis
    by (cases s) (simp_all add: parse_path_absolute path_prefix_def text_is_absolute_def)
next
  case False
  then show ?thesis
    by (cases "s = []")
      (simp_all add: parse_path_def path_prefix_def text_is_absolute_def comps_of_def del: split_on.simps(2))
qed

lemma parse_path_is_absolute: "path_is_absolute (parse_path s) \<longleftrightarrow> text_is_absolute s"
  using comps_of_plain(1) [of "split_on (CHR ''/'') s"]
  by (cases "comps_of (split_on (CHR ''/'') s)")
    (auto simp: path_is_absolute_def parse_path_eq path_prefix_def)

lemma parse_path_rest:
  assumes "\<not> text_is_absolute b"
  shows "(if parse_path b \<noteq> [] \<and> hd (parse_path b) = CurDir then tl (parse_path b) else parse_path b) =
    comps_of (split_on (CHR ''/'') b)"
  using assms comps_of_plain(2) [of "split_on (CHR ''/'') b"]
  by (cases "comps_of (split_on (CHR ''/'') b)") (auto simp: parse_path_eq path_prefix_def)

lemma hd_split_on:
  assumes "s \<noteq> []" and "hd s \<noteq> c"
  shows "hd (split_on c s) \<noteq> []"
  using assms by (cases s; cases "split_on c (tl s)") auto

lemma parse_path_nonempty:
  assumes "s \<noteq> []"
  shows "parse_path s \<noteq> []"
proof (cases "text_is_absolute s \<or> hd (split_on (CHR ''/'') s) = ''.''")
  case True
  with assms show ?thesis
    by (auto simp: parse_path_eq path_prefix_def)
next
  case False
  then have "hd (split_on (CHR ''/'') s) \<noteq> []"
    using assms by (intro hd_split_on) (auto simp: text_is_absolute_def)
  then have "component_of (hd (split_on (CHR ''/'') s)) \<noteq> []"
    using False by simp
  then have "comps_of (split_on (CHR ''/'') s) \<noteq> []"
    by (cases "split_on (CHR ''/'') s") auto
  then show ?thesis
    by (simp add: parse_path_eq)
qed

lemma split_text_join:
  assumes "a \<noteq> []" and "\<not> text_is_absolute b"
  shows "comps_of (split_on (CHR ''/'') (text_join a b)) =
      comps_of (split_on (CHR ''/'') a) @ comps_of (split_on (CHR ''/'') b)"
    and "path_prefix (text_join a b) = path_prefix a"
proof -
  obtain a' where a': "text_join a b = a' @ CHR ''/'' # b" "a = a' \<or> a = a' @ ''/''"
  proof (cases "last a = CHR ''/''")
    case True
    then have "a = butlast a @ ''/''" and "text_join a b = a @ b"
      using assms append_butlast_last_id [of a] by (simp_all add: text_join_def)
    then show thesis
      using that [of "butlast a"] by (metis append.assoc append_Cons append_Nil)
  next
    case False
    then show thesis
      using assms that [of a] by (simp add: text_join_def)
  qed
  then have "split_on (CHR ''/'') (text_join a b) = split_on (CHR ''/'') a' @ split_on (CHR ''/'') b"
    and split: "split_on (CHR ''/'') a = split_on (CHR ''/'') a' \<or>
      split_on (CHR ''/'') a = split_on (CHR ''/'') a' @ [[]]"
    by (auto simp: split_on_append)
  then show "comps_of (split_on (CHR ''/'') (text_join a b)) =
      comps_of (split_on (CHR ''/'') a) @ comps_of (split_on (CHR ''/'') b)"
    and "path_prefix (text_join a b) = path_prefix a"
    using a' assms(1) by (auto simp: path_prefix_def text_is_absolute_def hd_append)
qed

text \<open>Joining texts is joining components.\<close>

lemma parse_text_join: "parse_path (text_join a b) = path_join (parse_path a) (parse_path b)"
proof (cases "text_is_absolute b \<or> a = []")
  case True
  then show ?thesis
    by (auto simp: text_join_def path_join_def parse_path_is_absolute parse_path_def [of "[]"])
next
  case False
  then have "path_join (parse_path a) (parse_path b) = parse_path a @ comps_of (split_on (CHR ''/'') b)"
    by (simp add: path_join_def parse_path_is_absolute parse_path_nonempty parse_path_rest)
  then show ?thesis
    using False split_text_join [of a b] by (simp add: parse_path_eq)
qed

subsection \<open>Path::new on texts and on components\<close>

definition root_comps :: "(string \<Rightarrow> string option) \<Rightarrow> path" where
  "root_comps environ = parse_path (root_path environ)"

text \<open>\<open>Path::new\<close> on a text is \<open>path_new\<close> on its components.\<close>

lemma util_path_new_refines:
  "parse_path (up_text (util_path_new environ s)) = path_new (root_comps environ) (parse_path s)"
proof (cases "text_is_absolute s")
  case True
  then show ?thesis
    using parse_path_strip(1) [OF True]
    by (simp add: util_path_new_def path_new_def parse_path_is_absolute parse_text_join root_comps_def)
next
  case False
  then show ?thesis
    by (simp add: util_path_new_def path_new_def parse_path_is_absolute)
qed

text \<open>
  A path that is written out and read back is the same path under the default root only: with
  another absolute root an absolute path is moved below the root a second time.  The same holds
  wherever a \<open>Path\<close> is handed to \<open>Path::new\<close>, as the engine and backend directories are.
\<close>

lemma path_new_root:
  assumes "root_comps environ = RootDir # r" and "text_is_absolute s"
  shows "path_new (root_comps environ) (parse_path s) = RootDir # r @ tl (parse_path s)"
proof -
  have "tl (parse_path s) = comps_of (split_on (CHR ''/'') (tl s))"
    by (simp add: parse_path_absolute [OF assms(2)])
  then have "RootDir \<notin> set (tl (parse_path s))" "CurDir \<notin> set (tl (parse_path s))"
    using comps_of_plain by simp_all
  then show ?thesis
    using assms
    by (cases "tl (parse_path s)")
      (auto simp: path_new_def path_join_def parse_path_is_absolute, auto simp: path_is_absolute_def)
qed

definition reread :: "(string \<Rightarrow> string option) \<Rightarrow> util_path \<Rightarrow> unit + util_path" where
  "reread environ p = deserialize_path environ (Inr (serialize_path p))"

lemma reread_default:
  assumes "environ ''IO_THREAD_CONTROLLER_ROOT_PATH'' \<in> {None, Some ''/''}"
  shows "\<exists>q. reread environ p = Inr q \<and> parse_path (up_text q) = parse_path (up_text p)"
proof -
  have root: "root_comps environ = RootDir # []"
    using assms by (auto simp: root_comps_def root_path_def parse_path_def)
  have "path_new (root_comps environ) (parse_path (up_text p)) = parse_path (up_text p)"
  proof (cases "text_is_absolute (up_text p)")
    case True
    then show ?thesis
      using path_new_root [OF root True] by (simp add: parse_path_absolute [OF True])
  next
    case False
    then show ?thesis
      by (simp add: path_new_def parse_path_is_absolute)
  qed
  then show ?thesis
    by (simp add: reread_def deserialize_path_def serialize_path_def util_path_new_refines)
qed

lemma reread_moves:
  assumes "root_comps environ = RootDir # r" and "r \<noteq> []" and "text_is_absolute (up_text p)"
  shows "\<exists>q. reread environ p = Inr q \<and> parse_path (up_text q) = RootDir # r @ tl (parse_path (up_text p)) \<and>
    parse_path (up_text q) \<noteq> parse_path (up_text p)"
  using assms path_new_root [OF assms(1,3)] parse_path_absolute [OF assms(3)]
  by (simp add: reread_def deserialize_path_def serialize_path_def util_path_new_refines)

lemma parsed_path:
  "util_path_from_str environ s = (Inr (util_path_from environ s) :: 'e + util_path)"
  "show_path (util_path_from environ s) = serialize_path (util_path_new environ s)"
  by (simp_all add: util_path_from_str_def util_path_from_def show_path_def serialize_path_def)

subsection \<open>The tests of util.rs\<close>

definition no_environ :: "string \<Rightarrow> string option" where
  "no_environ = (\<lambda>_. None)"

definition relative_paths_are_unchanged :: bool where
  "relative_paths_are_unchanged \<longleftrightarrow> up_text (util_path_new no_environ ''relative/sock'') = ''relative/sock''"

definition absolute_paths_keep_absolute_form_under_default_root :: bool where
  "absolute_paths_keep_absolute_form_under_default_root \<longleftrightarrow>
     up_text (util_path_new no_environ ''/var/run/example.sock'') = ''/var/run/example.sock''"

definition from_str_builds_path :: bool where
  "from_str_builds_path \<longleftrightarrow>
     (util_path_from_str no_environ ''tmp/example'' :: unit + util_path) = Inr \<lparr>up_text = ''tmp/example''\<rparr>"

lemma util_tests:
  relative_paths_are_unchanged absolute_paths_keep_absolute_form_under_default_root from_str_builds_path
  by code_simp+

end
