(* ===== verification/Documents.thy ===== *)
theory Documents
  imports Ownership Configs Threshold Qemu_Backend Util_Paths
begin

section \<open>The JSON documents (config.rs, state.rs, engines/threshold.rs, backends/qemu/mod.rs)\<close>

text \<open>
  What the attributes of serde on the program's structures say: names, defaults, required fields and
  unknown ones, for reading and for writing.
\<close>

subsection \<open>Percentages and paths\<close>

definition json_percent :: "json \<Rightarrow> document_error + f64" where
  "json_percent j = result_map deserialize_percent (json_f64 j)"

text \<open>JSON has no infinities and no NaN; serde\_json writes \<open>null\<close>.\<close>

definition percent_json :: "f64 \<Rightarrow> json" where
  "percent_json v = float_json (serialize_percent v)"

text \<open>A path is written with its components separated by single slashes.\<close>

definition show_component :: "path_component \<Rightarrow> string" where
  "show_component c = (case c of RootDir \<Rightarrow> [] | CurDir \<Rightarrow> ''.'' | ParentDir \<Rightarrow> ''..'' | Normal s \<Rightarrow> s)"

definition path_text :: "path \<Rightarrow> string" where
  "path_text p = (if p = [RootDir] then ''/'' else join ''/'' (map show_component p))"

definition json_path :: "path \<Rightarrow> json \<Rightarrow> document_error + path" where
  "json_path rootp j = result_map (\<lambda>s. path_new rootp (parse_path s)) (json_string j)"

subsection \<open>The ownership registry\<close>

definition json_string_set :: "json \<Rightarrow> document_error + string set" where
  "json_string_set j = result_map set (json_list json_string j)"

text \<open>A \<open>BTreeSet\<close> is written in its order.\<close>

definition string_set_json :: "string set \<Rightarrow> json" where
  "string_set_json A = list_json JString (sorted_list_of_set A)"

definition ownership_of_json :: "json \<Rightarrow> document_error + vm_ownership" where
  "ownership_of_json j =
     result_bind (struct_fields True [''managed_vms'', ''unmanaged_vms''] j) (\<lambda>obj.
     result_bind (field_or json_string_set {} ''managed_vms'' obj) (\<lambda>managed.
     result_bind (field_or json_string_set {} ''unmanaged_vms'' obj) (\<lambda>unmanaged.
     Inr \<lparr>managed_vms = managed, unmanaged_vms = unmanaged\<rparr>)))"

definition ownership_json :: "vm_ownership \<Rightarrow> json" where
  "ownership_json r =
     JObject [(''managed_vms'', string_set_json (managed_vms r)),
           (''unmanaged_vms'', string_set_json (unmanaged_vms r))]"

lemma json_string_set_json [reread]: "finite A \<Longrightarrow> json_string_set (string_set_json A) = Inr A"
  by (simp add: json_string_set_def string_set_json_def reread)

lemma ownership_reread:
  "finite (managed_vms r) \<Longrightarrow> finite (unmanaged_vms r) \<Longrightarrow> ownership_of_json (ownership_json r) = Inr r"
  by (simp add: ownership_of_json_def ownership_json_def field_or_def reread)

text \<open>The codec of the registry, over one of values.\<close>

definition encode_ownership :: "(json \<Rightarrow> string) \<Rightarrow> vm_ownership \<Rightarrow> string + string" where
  "encode_ownership print r = Inr (print (ownership_json r))"

definition decode_ownership ::
  "(document_error \<Rightarrow> string) \<Rightarrow> (string \<Rightarrow> string + json) \<Rightarrow> string \<Rightarrow> string + vm_ownership" where
  "decode_ownership show_error parse s =
     result_bind (parse s) (\<lambda>j. result_map_err show_error (ownership_of_json j))"

subsection \<open>Paths survive being written\<close>

definition plain_component :: "path_component \<Rightarrow> bool" where
  "plain_component c =
     (case c of
        ParentDir \<Rightarrow> True
      | Normal s \<Rightarrow> s \<noteq> [] \<and> s \<noteq> ''.'' \<and> s \<noteq> ''..'' \<and> CHR ''/'' \<notin> set s
      | _ \<Rightarrow> False)"

lemma plain_comps_of: "list_all plain_component (comps_of (split_on (CHR ''/'') s))"
proof -
  have "list_all plain_component (comps_of ss)" if "\<forall>s\<in>set ss. CHR ''/'' \<notin> set s" for ss
    using that by (induction ss) (auto simp: plain_component_def)
  then show ?thesis
    using split_on_parts by blast
qed

lemma plain_shown:
  assumes "plain_component c"
  shows "component_of (show_component c) = [c]" and "CHR ''/'' \<notin> set (show_component c)"
    and "show_component c \<noteq> []" and "show_component c \<noteq> ''.''"
  using assms by (cases c; simp add: plain_component_def show_component_def)+

lemma comps_of_shown: "list_all plain_component cs \<Longrightarrow> comps_of (map show_component cs) = cs"
  by (induction cs) (simp_all add: plain_shown(1) del: component_of.simps)

lemma split_shown:
  assumes "cs \<noteq> []" and "list_all plain_component cs"
  shows "split_on (CHR ''/'') (join ''/'' (map show_component cs)) = map show_component cs"
  using assms plain_shown(2) by (intro split_join) (auto simp: list_all_iff)

lemma parse_path_text: "parse_path (path_text (parse_path s)) = parse_path s"
proof -
  define cs where "cs = comps_of (split_on (CHR ''/'') s)"
  have plain: "list_all plain_component cs"
    unfolding cs_def by (rule plain_comps_of)
  have p: "parse_path s = path_prefix s @ cs"
    by (simp add: cs_def parse_path_eq)
  have "path_prefix s = [RootDir] \<or> path_prefix s = [CurDir] \<or> path_prefix s = []"
    by (simp add: path_prefix_def)
  then consider (root) "path_prefix s = [RootDir]" | (dot) "path_prefix s = [CurDir]" | (none) "path_prefix s = []"
    by blast
  then show ?thesis
  proof cases
    case root
    show ?thesis
    proof (cases "cs = []")
      case True
      then show ?thesis
        using p root by (simp add: path_text_def parse_path_def)
    next
      case False
      then have written: "path_text (parse_path s) = CHR ''/'' # join ''/'' (map show_component cs)"
        using p root by (cases cs) (simp_all add: path_text_def show_component_def)
      then have "text_is_absolute (path_text (parse_path s))"
        by (simp add: text_is_absolute_def)
      then have "parse_path (path_text (parse_path s)) = RootDir # cs"
        using False plain unfolding written by (simp add: parse_path_absolute split_shown comps_of_shown)
      then show ?thesis
        by (simp add: p root)
    qed
  next
    case dot
    have "split_on (CHR ''/'') (join ''/'' (map show_component (CurDir # cs))) = map show_component (CurDir # cs)"
      using plain plain_shown(2) by (intro split_join) (auto simp: list_all_iff show_component_def)
    then have split: "split_on (CHR ''/'') (path_text (parse_path s)) = ''.'' # map show_component cs"
      using p dot by (simp add: path_text_def show_component_def)
    have "path_text (parse_path s) \<noteq> []" "\<not> text_is_absolute (path_text (parse_path s))"
      using p dot by (cases cs; simp add: path_text_def show_component_def text_is_absolute_def)+
    then have "path_prefix (path_text (parse_path s)) = [CurDir]"
      unfolding path_prefix_def split by simp
    then have "parse_path (path_text (parse_path s)) = CurDir # cs"
      using plain unfolding parse_path_eq [of "path_text (parse_path s)"] split by (simp add: comps_of_shown)
    then show ?thesis
      by (simp add: p dot)
  next
    case none
    show ?thesis
    proof (cases cs)
      case Nil
      then show ?thesis
        using p none by (simp add: path_text_def parse_path_def [of "[]"])
    next
      case (Cons c ds)
      then have "c \<noteq> RootDir" and c: "plain_component c"
        using plain by (auto simp: plain_component_def)
      then have written: "path_text (parse_path s) = join ''/'' (map show_component cs)"
        using p none Cons by (simp add: path_text_def)
      have split: "split_on (CHR ''/'') (path_text (parse_path s)) = map show_component cs"
        unfolding written using Cons plain by (intro split_shown) simp_all
      obtain x xs where x: "show_component c = x # xs" "x \<noteq> CHR ''/''"
        using plain_shown(2,3) [OF c] by (cases "show_component c") auto
      then have "\<not> text_is_absolute (path_text (parse_path s))"
        using Cons by (cases ds) (simp_all add: written text_is_absolute_def)
      then have "path_prefix (path_text (parse_path s)) = []"
        using plain_shown(4) [OF c] unfolding path_prefix_def split Cons by simp
      then have "parse_path (path_text (parse_path s)) = cs"
        using plain unfolding parse_path_eq [of "path_text (parse_path s)"] split by (simp add: comps_of_shown)
      then show ?thesis
        by (simp add: p none)
    qed
  qed
qed

subsection \<open>The configurations\<close>

definition config_fields :: "string list" where
  "config_fields =
     [''engine'',
      ''engine_config_dir'',
      ''backend_config_dir'',
      ''vm_state_path'',
      ''min_thread_count'',
      ''max_thread_count'',
      ''host_cpu_scale_up_ceiling_percent'',
      ''cooldown_secs'',
      ''scale_poll_secs'',
      ''round_up_durations'',
      ''enable_per_vm_status_line'',
      ''enable_per_vm_main_log'',
      ''enable_aggregate_status_line'',
      ''print_status_header'',
      ''max_instances_adjusted_per_poll'',
      ''experimental_psi_monitoring'',
      ''refresh_cgroup_on_each_read'',
      ''dry_run'']"

definition config_of_json :: "path \<Rightarrow> json \<Rightarrow> document_error + config" where
  "config_of_json rootp j =
     result_bind (struct_fields True config_fields j) (\<lambda>obj.
     result_bind (field json_string ''engine'' obj) (\<lambda>v1.
     result_bind (field (json_path rootp) ''engine_config_dir'' obj) (\<lambda>v2.
     result_bind (field (json_path rootp) ''backend_config_dir'' obj) (\<lambda>v3.
     result_bind (field (json_path rootp) ''vm_state_path'' obj) (\<lambda>v4.
     result_bind (field_or json_u32 default_min_thread_count ''min_thread_count'' obj) (\<lambda>v5.
     result_bind (field_or json_u32 default_max_thread_count ''max_thread_count'' obj) (\<lambda>v6.
     result_bind (field_or json_percent default_host_cpu_scale_up_ceiling ''host_cpu_scale_up_ceiling_percent'' obj) (\<lambda>v7.
     result_bind (field_or json_u64 default_cooldown_secs ''cooldown_secs'' obj) (\<lambda>v8.
     result_bind (field json_u64 ''scale_poll_secs'' obj) (\<lambda>v9.
     result_bind (field_or json_bool False ''round_up_durations'' obj) (\<lambda>v10.
     result_bind (field_or json_bool False ''enable_per_vm_status_line'' obj) (\<lambda>v11.
     result_bind (field_or json_bool False ''enable_per_vm_main_log'' obj) (\<lambda>v12.
     result_bind (field_or json_bool True ''enable_aggregate_status_line'' obj) (\<lambda>v13.
     result_bind (field_or json_bool False ''print_status_header'' obj) (\<lambda>v14.
     result_bind (field_or json_u32 default_max_instances_adjusted_per_poll ''max_instances_adjusted_per_poll'' obj) (\<lambda>v15.
     result_bind (field_or json_bool False ''experimental_psi_monitoring'' obj) (\<lambda>v16.
     result_bind (field_or json_bool False ''refresh_cgroup_on_each_read'' obj) (\<lambda>v17.
     result_bind (field_or json_bool False ''dry_run'' obj) (\<lambda>v18.
     Inr \<lparr>cfg_engine = v1, cfg_engine_config_dir = v2,
       cfg_backend_config_dir = v3, cfg_vm_state_path = v4,
       cfg_min_thread_count = v5, cfg_max_thread_count = v6,
       cfg_host_cpu_scale_up_ceiling = v7, cfg_cooldown_secs = v8,
       cfg_scale_poll_secs = v9, cfg_round_up_durations = v10,
       cfg_enable_per_vm_status_line = v11, cfg_enable_per_vm_main_log = v12,
       cfg_enable_aggregate_status_line = v13, cfg_print_status_header = v14,
       cfg_max_instances_adjusted_per_poll = v15, cfg_experimental_psi_monitoring = v16,
       cfg_refresh_cgroup_on_each_read = v17, cfg_dry_run = v18\<rparr>)))))))))))))))))))"

definition config_json :: "config \<Rightarrow> json" where
  "config_json cfg =
     JObject
      [(''engine'', JString (cfg_engine cfg)),
       (''engine_config_dir'', JString (path_text (cfg_engine_config_dir cfg))),
       (''backend_config_dir'', JString (path_text (cfg_backend_config_dir cfg))),
       (''vm_state_path'', JString (path_text (cfg_vm_state_path cfg))),
       (''min_thread_count'', word_json (cfg_min_thread_count cfg)),
       (''max_thread_count'', word_json (cfg_max_thread_count cfg)),
       (''host_cpu_scale_up_ceiling_percent'', percent_json (cfg_host_cpu_scale_up_ceiling cfg)),
       (''cooldown_secs'', word_json (cfg_cooldown_secs cfg)),
       (''scale_poll_secs'', word_json (cfg_scale_poll_secs cfg)),
       (''round_up_durations'', JBool (cfg_round_up_durations cfg)),
       (''enable_per_vm_status_line'', JBool (cfg_enable_per_vm_status_line cfg)),
       (''enable_per_vm_main_log'', JBool (cfg_enable_per_vm_main_log cfg)),
       (''enable_aggregate_status_line'', JBool (cfg_enable_aggregate_status_line cfg)),
       (''print_status_header'', JBool (cfg_print_status_header cfg)),
       (''max_instances_adjusted_per_poll'', word_json (cfg_max_instances_adjusted_per_poll cfg)),
       (''experimental_psi_monitoring'', JBool (cfg_experimental_psi_monitoring cfg)),
       (''refresh_cgroup_on_each_read'', JBool (cfg_refresh_cgroup_on_each_read cfg)),
       (''dry_run'', JBool (cfg_dry_run cfg))]"

definition threshold_config_fields :: "string list" where
  "threshold_config_fields =
     [''scale_up_threshold_percent'',
      ''scale_down_sustain_secs'',
      ''max_scale_down_step'',
      ''scale_up_min_gain_percent'',
      ''scale_down_revert_drop_percent'',
      ''scale_validation_delay_secs'',
      ''scale_validation_delay_per_thread_secs'',
      ''block_scale_up_when_cgroup_throttled'',
      ''post_revert_up_grace_secs'',
      ''post_revert_up_recovery_secs'',
      ''post_revert_up_backoff_max_secs'',
      ''scale_down_backoff_max_secs'']"

definition threshold_config_of_json :: "json \<Rightarrow> document_error + threshold_config" where
  "threshold_config_of_json j =
     result_bind (struct_fields True threshold_config_fields j) (\<lambda>obj.
     result_bind (field_or json_percent default_scale_up_threshold ''scale_up_threshold_percent'' obj) (\<lambda>v1.
     result_bind (field_or json_u64 30 ''scale_down_sustain_secs'' obj) (\<lambda>v2.
     result_bind (field_or json_u32 0 ''max_scale_down_step'' obj) (\<lambda>v3.
     result_bind (field_or json_percent default_scale_up_min_gain ''scale_up_min_gain_percent'' obj) (\<lambda>v4.
     result_bind (field_or json_percent default_scale_down_revert_drop ''scale_down_revert_drop_percent'' obj) (\<lambda>v5.
     result_bind (field_or json_u64 20 ''scale_validation_delay_secs'' obj) (\<lambda>v6.
     result_bind (field_or json_u64 0 ''scale_validation_delay_per_thread_secs'' obj) (\<lambda>v7.
     result_bind (field_or json_bool True ''block_scale_up_when_cgroup_throttled'' obj) (\<lambda>v8.
     result_bind (field_or json_u64 10 ''post_revert_up_grace_secs'' obj) (\<lambda>v9.
     result_bind (field_or json_u64 20 ''post_revert_up_recovery_secs'' obj) (\<lambda>v10.
     result_bind (field_or json_u64 300 ''post_revert_up_backoff_max_secs'' obj) (\<lambda>v11.
     result_bind (field_or json_u64 1200 ''scale_down_backoff_max_secs'' obj) (\<lambda>v12.
     Inr \<lparr>thc_scale_up_threshold = v1, thc_scale_down_sustain_secs = v2,
       thc_max_scale_down_step = v3, thc_scale_up_min_gain = v4,
       thc_scale_down_revert_drop = v5, thc_scale_validation_delay_secs = v6,
       thc_scale_validation_delay_per_thread_secs = v7, thc_block_scale_up_when_cgroup_throttled = v8,
       thc_post_revert_up_grace_secs = v9, thc_post_revert_up_recovery_secs = v10,
       thc_post_revert_up_backoff_max_secs = v11, thc_scale_down_backoff_max_secs = v12\<rparr>)))))))))))))"

definition threshold_config_json :: "threshold_config \<Rightarrow> json" where
  "threshold_config_json cfg =
     JObject
      [(''scale_up_threshold_percent'', percent_json (thc_scale_up_threshold cfg)),
       (''scale_down_sustain_secs'', word_json (thc_scale_down_sustain_secs cfg)),
       (''max_scale_down_step'', word_json (thc_max_scale_down_step cfg)),
       (''scale_up_min_gain_percent'', percent_json (thc_scale_up_min_gain cfg)),
       (''scale_down_revert_drop_percent'', percent_json (thc_scale_down_revert_drop cfg)),
       (''scale_validation_delay_secs'', word_json (thc_scale_validation_delay_secs cfg)),
       (''scale_validation_delay_per_thread_secs'', word_json (thc_scale_validation_delay_per_thread_secs cfg)),
       (''block_scale_up_when_cgroup_throttled'', JBool (thc_block_scale_up_when_cgroup_throttled cfg)),
       (''post_revert_up_grace_secs'', word_json (thc_post_revert_up_grace_secs cfg)),
       (''post_revert_up_recovery_secs'', word_json (thc_post_revert_up_recovery_secs cfg)),
       (''post_revert_up_backoff_max_secs'', word_json (thc_post_revert_up_backoff_max_secs cfg)),
       (''scale_down_backoff_max_secs'', word_json (thc_scale_down_backoff_max_secs cfg))]"

definition qemu_config_of_json :: "json \<Rightarrow> document_error + qemu_config" where
  "qemu_config_of_json j =
     result_bind (struct_fields True [''libvirt_uri''] j) (\<lambda>obj.
     result_bind (field_or json_string default_libvirt_uri ''libvirt_uri'' obj) (\<lambda>uri.
     Inr \<lparr>qcf_libvirt_uri = uri\<rparr>))"

definition qemu_config_json :: "qemu_config \<Rightarrow> json" where
  "qemu_config_json cfg = JObject [(''libvirt_uri'', JString (qcf_libvirt_uri cfg))]"

text \<open>\<open>--dump-config\<close>, and what the engine and the backend report as their configuration.\<close>

definition dump_default_config :: "(json \<Rightarrow> string) \<Rightarrow> path \<Rightarrow> string" where
  "dump_default_config pretty rootp = pretty (config_json (config_default rootp))"

definition threshold_dump_config :: "threshold_engine \<Rightarrow> json" where
  "threshold_dump_config e = threshold_config_json (te_cfg e)"

definition qemu_dump_config :: "qemu_backend \<Rightarrow> json" where
  "qemu_dump_config b = qemu_config_json (qb_cfg b)"

subsection \<open>What is written can be read\<close>

lemma percent_reread:
  assumes "f64_in v 0 1"
  shows "json_percent (percent_json v) = Inr (deserialize_percent (serialize_percent v))"
proof -
  obtain x where x: "v = Fin x" "0 \<le> x" "x \<le> 1"
    using f64_in_Fin [OF assms] by blast
  have "f64_in (round_f64 (x * 100)) (of_int 0) (of_int 100)"
    using x by (intro round_f64_in) auto
  then obtain y where "serialize_percent v = Fin y"
    using f64_in_Fin by (fastforce simp: serialize_percent_def x)
  then show ?thesis
    by (simp add: json_percent_def percent_json_def float_json_def json_f64_def)
qed

definition parsed :: "path \<Rightarrow> bool" where
  "parsed p \<longleftrightarrow> parse_path (path_text p) = p"

lemma parsed_new: "parsed (path_new (root_comps environ) (parse_path s))"
  using parse_path_text by (simp add: parsed_def util_path_new_refines [symmetric])

lemma json_path_text: "parsed p \<Longrightarrow> json_path rootp (JString (path_text p)) = Inr (path_new rootp p)"
  by (simp add: json_path_def parsed_def reread)

definition rooted_twice :: "path \<Rightarrow> config \<Rightarrow> config" where
  "rooted_twice rootp cfg =
     cfg\<lparr>cfg_engine_config_dir := path_new rootp (cfg_engine_config_dir cfg),
         cfg_backend_config_dir := path_new rootp (cfg_backend_config_dir cfg),
         cfg_vm_state_path := path_new rootp (cfg_vm_state_path cfg)\<rparr>"

lemma config_reread:
  assumes "parsed (cfg_engine_config_dir cfg)" and "parsed (cfg_backend_config_dir cfg)"
    and "parsed (cfg_vm_state_path cfg)" and "f64_in (cfg_host_cpu_scale_up_ceiling cfg) 0 1"
  shows "config_of_json rootp (config_json cfg) = Inr ((rooted_twice rootp cfg)
    \<lparr>cfg_host_cpu_scale_up_ceiling := deserialize_percent (serialize_percent (cfg_host_cpu_scale_up_ceiling cfg))\<rparr>)"
proof -
  have "struct_fields True config_fields (config_json cfg) =
      Inr (case config_json cfg of JObject obj \<Rightarrow> obj | _ \<Rightarrow> [])"
    by (simp add: reread config_json_def config_fields_def)
  then show ?thesis
    unfolding config_of_json_def
    by (simp add: config_json_def field_def field_or_def json_path_text percent_reread reread assms rooted_twice_def)
qed

lemma threshold_config_reread:
  assumes "f64_in (thc_scale_up_threshold cfg) 0 1" and "f64_in (thc_scale_up_min_gain cfg) 0 1"
    and "f64_in (thc_scale_down_revert_drop cfg) 0 1"
  shows "threshold_config_of_json (threshold_config_json cfg) = Inr (cfg
    \<lparr>thc_scale_up_threshold := deserialize_percent (serialize_percent (thc_scale_up_threshold cfg)),
     thc_scale_up_min_gain := deserialize_percent (serialize_percent (thc_scale_up_min_gain cfg)),
     thc_scale_down_revert_drop := deserialize_percent (serialize_percent (thc_scale_down_revert_drop cfg))\<rparr>)"
proof -
  have "struct_fields True threshold_config_fields (threshold_config_json cfg) =
      Inr (case threshold_config_json cfg of JObject obj \<Rightarrow> obj | _ \<Rightarrow> [])"
    by (simp add: reread threshold_config_json_def threshold_config_fields_def)
  then show ?thesis
    unfolding threshold_config_of_json_def
    by (simp add: threshold_config_json_def field_or_def percent_reread reread assms)
qed

lemma qemu_config_reread: "qemu_config_of_json (qemu_config_json cfg) = Inr cfg"
  by (simp add: qemu_config_of_json_def qemu_config_json_def field_or_def reread)

text \<open>Under the default root the paths stay where they are.\<close>

lemma path_new_plain: "path_new [RootDir] (parse_path s) = parse_path s"
proof (cases "text_is_absolute s")
  case True
  have "root_comps (\<lambda>_. None) = RootDir # []"
    by (simp add: root_comps_def root_path_def parse_path_def)
  from path_new_root [OF this True] show ?thesis
    using \<open>root_comps (\<lambda>_. None) = RootDir # []\<close> by (simp add: parse_path_absolute [OF True])
next
  case False
  then show ?thesis
    by (simp add: path_new_def parse_path_is_absolute)
qed

lemma json_path_parsed:
  assumes "json_path [RootDir] j = Inr p"
  shows "parsed p" and "path_new [RootDir] p = p"
proof -
  obtain s where "p = parse_path s"
    using assms by (cases "json_string j") (auto simp: json_path_def path_new_plain)
  then show "parsed p" and "path_new [RootDir] p = p"
    by (simp_all add: parsed_def parse_path_text path_new_plain)
qed

lemma config_paths:
  assumes "config_of_json rootp j = Inr cfg"
  shows "\<exists>a b c. json_path rootp a = Inr (cfg_engine_config_dir cfg) \<and>
    json_path rootp b = Inr (cfg_backend_config_dir cfg) \<and> json_path rootp c = Inr (cfg_vm_state_path cfg)"
proof -
  have field: "\<exists>j. read j = Inr v" if "field read name obj = Inr v" for read name obj and v :: path
    using that by (auto simp: field_def split: option.splits)
  show ?thesis
    using assms unfolding config_of_json_def result_bind_Inr by (auto dest!: field)
qed

text \<open>
  A configuration that was read, and written again, is read as itself, up to the rounding of the
  percentage: a command-line user can start from \<open>--dump-config\<close>.
\<close>

lemma dumped_config_reloads:
  assumes "config_of_json [RootDir] j = Inr cfg" and "f64_in (cfg_host_cpu_scale_up_ceiling cfg) 0 1"
  shows "config_of_json [RootDir] (config_json cfg) = Inr (cfg
    \<lparr>cfg_host_cpu_scale_up_ceiling := deserialize_percent (serialize_percent (cfg_host_cpu_scale_up_ceiling cfg))\<rparr>)"
proof -
  obtain a b c where paths: "json_path [RootDir] a = Inr (cfg_engine_config_dir cfg)"
    "json_path [RootDir] b = Inr (cfg_backend_config_dir cfg)" "json_path [RootDir] c = Inr (cfg_vm_state_path cfg)"
    using config_paths [OF assms(1)] by blast
  then have "rooted_twice [RootDir] cfg = cfg"
    by (simp add: rooted_twice_def json_path_parsed)
  then show ?thesis
    using config_reread [OF json_path_parsed(1) [OF paths(1)] json_path_parsed(1) [OF paths(2)]
        json_path_parsed(1) [OF paths(3)] assms(2)] by simp
qed

lemma default_config_reloads:
  "config_of_json [RootDir] (config_json (config_default [RootDir])) = Inr (config_default [RootDir])"
proof -
  have ceiling: "f64_in (f64_lit (9 / 10)) 0 1" "deserialize_percent (serialize_percent (f64_lit (9 / 10))) = f64_lit (9 / 10)"
    by code_simp+
  have "rooted_twice [RootDir] (config_default [RootDir]) = config_default [RootDir]"
    by (simp add: rooted_twice_def config_default_def path_new_plain)
  then show ?thesis
    using ceiling config_reread [of "config_default [RootDir]" "[RootDir]"]
    by (simp add: config_default_def parsed_def path_new_plain parse_path_text)
qed

subsection \<open>The registry file\<close>

text \<open>
  C28: what one daemon saves, the next one loads, and what it loads classifies no VM both ways.  After a
  successful save, a daemon started on the resulting files reads the same registry, provided
  serde\_json reads back the one value it wrote; and whatever file a daemon is started on, the registry
  it gets is free of contradictions or the start fails.
\<close>

theorem registry_file_roundtrip:
  assumes "finite (managed_vms r)" and "finite (unmanaged_vms r)"
    and "parse (print (ownership_json r)) = Inr (ownership_json r)"
  shows "(case store_save (encode_ownership print) pid f p r fs of
      (Inl _, _) \<Rightarrow> True
    | (Inr _, trace) \<Rightarrow> store_load (decode_ownership show_error parse) None (last trace) p = Inr r) \<and>
    (case store_load (decode_ownership show_error parse) fault fs' p' of Inl _ \<Rightarrow> True | Inr r' \<Rightarrow> ownership_ok r')"
proof -
  have "decode_ownership show_error parse data = Inr r" if "encode_ownership print r = Inr data" for data
    using that assms by (auto simp: encode_ownership_def decode_ownership_def ownership_reread)
  then show ?thesis
    by (rule save_load_registry)
qed

text \<open>A text for one value, and its reader.\<close>

lemma registry_file_roundtrip_witness:
  "let r = \<lparr>managed_vms = {''a''}, unmanaged_vms = {''b''}\<rparr>;
       print = (\<lambda>_. ''{managed_vms:[a],unmanaged_vms:[b]}''); parse = (\<lambda>_. Inr (ownership_json r));
       p = [RootDir, Normal ''lib'', Normal ''vm-state.json''];
       f = \<lparr>sf_create_dir = None, sf_write = None, sf_rename = None\<rparr>
   in (case store_save (encode_ownership print) ''1'' f p r (\<lambda>_. None) of
        (Inl _, _) \<Rightarrow> True
      | (Inr _, trace) \<Rightarrow> store_load (decode_ownership (\<lambda>_. []) parse) None (last trace) p = Inr r) \<and>
      (case store_load (decode_ownership (\<lambda>_. []) parse) None (\<lambda>_. None) p of Inl _ \<Rightarrow> True | Inr r' \<Rightarrow> ownership_ok r')"
  unfolding Let_def by (rule registry_file_roundtrip) simp_all

end
