(* ===== verification/Wire.thy ===== *)
theory Wire
  imports Fleet_System Qemu_Client Documents
begin

section \<open>The JSON on the wires (controller.rs, instance.rs, backends/mod.rs, backends/qemu/libvirt.rs)\<close>

text \<open>
  The values the daemon sends to the dashboard and to D-Bus callers, and those QEMU sends to the daemon, as the
  attributes of serde on the program's structures make them.  With them the encoders and decoders that the
  other theories take as arguments become functions over a text codec, serde\_json, of which only this is
  relied on: it reads no value but the one it wrote, fractions apart.
\<close>

subsection \<open>GetSnapshot\<close>

definition latency_json :: "snapshot_latency \<Rightarrow> json" where
  "latency_json l =
     JObject [(''p50'', word_json (lat_p50 l)), (''p95'', word_json (lat_p95 l)),
              (''p99'', word_json (lat_p99 l)), (''avg'', word_json (lat_avg l))]"

definition latency_of_json :: "json \<Rightarrow> document_error + snapshot_latency" where
  "latency_of_json j =
     result_bind (struct_fields False [''p50'', ''p95'', ''p99'', ''avg''] j) (\<lambda>obj.
     result_bind (field_or json_u64 0 ''p50'' obj) (\<lambda>p50.
     result_bind (field_or json_u64 0 ''p95'' obj) (\<lambda>p95.
     result_bind (field_or json_u64 0 ''p99'' obj) (\<lambda>p99.
     result_bind (field_or json_u64 0 ''avg'' obj) (\<lambda>avg.
     Inr \<lparr>lat_p50 = p50, lat_p95 = p95, lat_p99 = p99, lat_avg = avg\<rparr>)))))"

definition snapshot_vm_fields :: "string list" where
  "snapshot_vm_fields =
     [''id'', ''vcpu_count'', ''pid'', ''thread_count'',
      ''alive'', ''perf_available'', ''per_thread_util'', ''manual_scaling_sticky'',
      ''read_iops'', ''write_iops'', ''other_iops'', ''read_bw_bps'',
      ''write_bw_bps'', ''read_latency_us'', ''write_latency_us'', ''num_queues'',
      ''per_vq_depth'', ''qd_total'', ''qd_avg_x100'', ''qd_median'',
      ''cpu_pct_avg'', ''cpu_pct_median'', ''cpu_pct_total'']"

definition snapshot_vm_json :: "snapshot_vm \<Rightarrow> json" where
  "snapshot_vm_json v =
     JObject
      [(''id'', JString (sv_id v)),
       (''vcpu_count'', word_json (sv_vcpu_count v)),
       (''pid'', signed_json (sv_pid v)),
       (''thread_count'', word_json (sv_thread_count v)),
       (''alive'', JBool (sv_alive v)),
       (''perf_available'', JBool (sv_perf_available v)),
       (''per_thread_util'', float_json (sv_per_thread_util v)),
       (''manual_scaling_sticky'', JBool (sv_manual_scaling_sticky v)),
       (''read_iops'', word_json (sv_read_iops v)),
       (''write_iops'', word_json (sv_write_iops v)),
       (''other_iops'', word_json (sv_other_iops v)),
       (''read_bw_bps'', word_json (sv_read_bw_bps v)),
       (''write_bw_bps'', word_json (sv_write_bw_bps v)),
       (''read_latency_us'', option_json latency_json (sv_read_latency_us v)),
       (''write_latency_us'', option_json latency_json (sv_write_latency_us v)),
       (''num_queues'', option_json word_json (sv_num_queues v)),
       (''per_vq_depth'', option_json (list_json word_json) (sv_per_vq_depth v)),
       (''qd_total'', option_json word_json (sv_qd_total v)),
       (''qd_avg_x100'', option_json word_json (sv_qd_avg_x100 v)),
       (''qd_median'', option_json word_json (sv_qd_median v)),
       (''cpu_pct_avg'', option_json word_json (sv_cpu_pct_avg v)),
       (''cpu_pct_median'', option_json word_json (sv_cpu_pct_median v)),
       (''cpu_pct_total'', option_json word_json (sv_cpu_pct_total v))]"

definition snapshot_vm_of_json :: "json \<Rightarrow> document_error + snapshot_vm" where
  "snapshot_vm_of_json j =
     result_bind (struct_fields False snapshot_vm_fields j) (\<lambda>obj.
     result_bind (field_or json_string [] ''id'' obj) (\<lambda>v1.
     result_bind (field_or json_u32 0 ''vcpu_count'' obj) (\<lambda>v2.
     result_bind (field_or json_i32 0 ''pid'' obj) (\<lambda>v3.
     result_bind (field_or json_u32 0 ''thread_count'' obj) (\<lambda>v4.
     result_bind (field_or json_bool False ''alive'' obj) (\<lambda>v5.
     result_bind (field_or json_bool False ''perf_available'' obj) (\<lambda>v6.
     result_bind (field_or json_f64 (Fin 0) ''per_thread_util'' obj) (\<lambda>v7.
     result_bind (field_or json_bool False ''manual_scaling_sticky'' obj) (\<lambda>v8.
     result_bind (field_or json_u64 0 ''read_iops'' obj) (\<lambda>v9.
     result_bind (field_or json_u64 0 ''write_iops'' obj) (\<lambda>v10.
     result_bind (field_or json_u64 0 ''other_iops'' obj) (\<lambda>v11.
     result_bind (field_or json_u64 0 ''read_bw_bps'' obj) (\<lambda>v12.
     result_bind (field_or json_u64 0 ''write_bw_bps'' obj) (\<lambda>v13.
     result_bind (field_or (json_option latency_of_json) None ''read_latency_us'' obj) (\<lambda>v14.
     result_bind (field_or (json_option latency_of_json) None ''write_latency_us'' obj) (\<lambda>v15.
     result_bind (field_or (json_option json_u32) None ''num_queues'' obj) (\<lambda>v16.
     result_bind (field_or (json_option (json_list json_u64)) None ''per_vq_depth'' obj) (\<lambda>v17.
     result_bind (field_or (json_option json_u64) None ''qd_total'' obj) (\<lambda>v18.
     result_bind (field_or (json_option json_u64) None ''qd_avg_x100'' obj) (\<lambda>v19.
     result_bind (field_or (json_option json_u64) None ''qd_median'' obj) (\<lambda>v20.
     result_bind (field_or (json_option json_u64) None ''cpu_pct_avg'' obj) (\<lambda>v21.
     result_bind (field_or (json_option json_u64) None ''cpu_pct_median'' obj) (\<lambda>v22.
     result_bind (field_or (json_option json_u64) None ''cpu_pct_total'' obj) (\<lambda>v23.
     Inr \<lparr>sv_id = v1, sv_vcpu_count = v2,
       sv_pid = v3, sv_thread_count = v4,
       sv_alive = v5, sv_perf_available = v6,
       sv_per_thread_util = v7, sv_manual_scaling_sticky = v8,
       sv_read_iops = v9, sv_write_iops = v10,
       sv_other_iops = v11, sv_read_bw_bps = v12,
       sv_write_bw_bps = v13, sv_read_latency_us = v14,
       sv_write_latency_us = v15, sv_num_queues = v16,
       sv_per_vq_depth = v17, sv_qd_total = v18,
       sv_qd_avg_x100 = v19, sv_qd_median = v20,
       sv_cpu_pct_avg = v21, sv_cpu_pct_median = v22,
       sv_cpu_pct_total = v23\<rparr>))))))))))))))))))))))))"

definition payload_json :: "snapshot_vm list \<Rightarrow> json" where
  "payload_json vms = JObject [(''vms'', list_json snapshot_vm_json vms)]"

definition payload_of_json :: "json \<Rightarrow> document_error + snapshot_vm list" where
  "payload_of_json j =
     result_bind (struct_fields False [''vms''] j) (\<lambda>obj. field_or (json_list snapshot_vm_of_json) [] ''vms'' obj)"

subsection \<open>Readers that no fraction reaches\<close>

named_theorems blind \<open>readers that do not see fractions\<close>

definition float_blind :: "(json \<Rightarrow> document_error + 'a) \<Rightarrow> bool" where
  "float_blind read \<longleftrightarrow> (\<forall>j. read (zero_floats j) = read j)"

lemma blind_plain [blind]:
  "float_blind json_bool" "float_blind json_string" "float_blind (json_uint name)" "float_blind json_i32"
  by (auto simp: float_blind_def json_bool_def json_string_def json_uint_def json_i32_def split: json.split)

lemma blind_words [blind]: "float_blind json_u16" "float_blind json_u32" "float_blind json_u64"
  by (simp_all add: json_u16_def json_u32_def json_u64_def blind)

lemma zero_floats_JNull [simp]: "zero_floats j = JNull \<longleftrightarrow> j = JNull"
  by (cases j) simp_all

lemma blind_option [blind]: "float_blind read \<Longrightarrow> float_blind (json_option read)"
  by (simp add: float_blind_def json_option_def)

lemma read_all_blind: "(\<And>j. read (zero_floats j) = read' j) \<Longrightarrow> read_all read (map zero_floats js) = read_all read' js"
  by (induction js) simp_all

lemma blind_list [blind]: "float_blind read \<Longrightarrow> float_blind (json_list read)"
  by (auto simp: float_blind_def json_list_def read_all_blind split: json.split)

lemma map_of_zero_floats: "map_of (map (map_prod id zero_floats) obj) k = map_option zero_floats (map_of obj k)"
  by (induction obj) auto

lemma field_or_blind: "float_blind read \<Longrightarrow> field_or read v k (map (map_prod id zero_floats) obj) = field_or read v k obj"
  by (simp add: field_or_def map_of_zero_floats float_blind_def split: option.split)

lemma field_blind: "float_blind read \<Longrightarrow> field read k (map (map_prod id zero_floats) obj) = field read k obj"
  by (simp add: field_def map_of_zero_floats float_blind_def split: option.split)

lemma struct_fields_zero_floats:
  "struct_fields deny names (zero_floats j) = result_map (map (map_prod id zero_floats)) (struct_fields deny names j)"
proof (cases j)
  case (JObject obj)
  have "map fst (map (map_prod id zero_floats) obj) = map fst obj"
    by simp
  then show ?thesis
    by (simp add: JObject struct_fields_def split: list.split del: map_map)
next
  case (JArray js)
  then show ?thesis
    by (simp add: struct_fields_def zip_map2 map_prod_def id_def)
qed (simp_all add: struct_fields_def)

lemma blind_latency [blind]: "float_blind latency_of_json"
proof -
  have "latency_of_json (zero_floats j) = latency_of_json j" for j
    by (cases "struct_fields False [''p50'', ''p95'', ''p99'', ''avg''] j")
      (simp_all add: latency_of_json_def struct_fields_zero_floats field_or_blind blind)
  then show ?thesis
    by (simp add: float_blind_def)
qed

text \<open>The one fraction of a snapshot.\<close>

lemma snapshot_vm_zero_floats:
  assumes "snapshot_vm_of_json j = Inr v"
  shows "\<exists>u. snapshot_vm_of_json (zero_floats j) = Inr (v\<lparr>sv_per_thread_util := u\<rparr>)"
proof -
  have util: "\<exists>u. field_or json_f64 (Fin 0) k (map (map_prod id zero_floats) obj) = Inr u"
    if "field_or json_f64 (Fin 0) k obj = Inr w" for k obj w
    using that by (auto simp: field_or_def map_of_zero_floats json_f64_def split: option.splits json.splits)
  show ?thesis
    using assms unfolding snapshot_vm_of_json_def struct_fields_zero_floats result_bind_Inr
    by (elim exE conjE) (drule util, auto simp: field_or_blind blind result_bind_Inr)
qed


subsection \<open>The snapshot arrives\<close>

lemma latency_reread [reread]: "latency_of_json (latency_json l) = Inr l"
  by (simp add: latency_of_json_def latency_json_def field_or_def reread)

lemma zero_floats_written [simp]:
  "zero_floats (word_json n) = word_json n" "zero_floats (signed_json k) = signed_json k"
  "zero_floats (latency_json l) = latency_json l" "latency_json l \<noteq> JNull"
  by (simp_all add: word_json_def signed_json_def latency_json_def)

lemma zero_floats_option [simp]:
  "(\<And>x. zero_floats (write x) = write x) \<Longrightarrow> zero_floats (option_json write v) = option_json write v"
  by (simp add: option_json_def split: option.split)

lemma zero_floats_list [simp]:
  "(\<And>x. zero_floats (write x) = write x) \<Longrightarrow> zero_floats (list_json write xs) = list_json write xs"
  by (simp add: list_json_def)

lemma snapshot_vm_reread [reread]:
  assumes "sv_per_thread_util v = Fin r"
  shows "snapshot_vm_of_json (snapshot_vm_json v) = Inr v"
proof -
  have "struct_fields False snapshot_vm_fields (snapshot_vm_json v) =
      Inr (case snapshot_vm_json v of JObject obj \<Rightarrow> obj | _ \<Rightarrow> [])"
    by (simp add: reread snapshot_vm_json_def snapshot_vm_fields_def)
  then show ?thesis
    unfolding snapshot_vm_of_json_def
    by (simp add: snapshot_vm_json_def field_or_def reread float_json_def json_f64_def assms)
qed

lemma snapshot_vm_zeroed:
  assumes "snapshot_vm_of_json (zero_floats (snapshot_vm_json v)) = Inr w"
  shows "w = v\<lparr>sv_per_thread_util := Fin 0\<rparr>"
proof (cases "sv_per_thread_util v")
  case (Fin r)
  have "zero_floats (snapshot_vm_json v) = snapshot_vm_json (v\<lparr>sv_per_thread_util := Fin 0\<rparr>)"
    by (simp add: snapshot_vm_json_def float_json_def Fin)
  with assms show ?thesis
    by (simp add: reread)
qed (use assms in \<open>simp_all add: snapshot_vm_of_json_def snapshot_vm_json_def struct_fields_def snapshot_vm_fields_def
    field_or_def float_json_def json_f64_def reread result_bind_Inr\<close>)

lemma same_snapshot:
  assumes "zero_floats j = zero_floats (snapshot_vm_json v)" and "snapshot_vm_of_json j = Inr w"
  shows "same_but_util w v"
proof -
  obtain u where "snapshot_vm_of_json (zero_floats j) = Inr (w\<lparr>sv_per_thread_util := u\<rparr>)"
    using snapshot_vm_zero_floats [OF assms(2)] by blast
  then have "w\<lparr>sv_per_thread_util := u\<rparr> = v\<lparr>sv_per_thread_util := Fin 0\<rparr>"
    using assms(1) snapshot_vm_zeroed by simp
  then show ?thesis
    by (cases w; cases v) (simp add: same_but_util_def)
qed

lemma same_snapshots:
  assumes "map zero_floats js = map (zero_floats \<circ> snapshot_vm_json) vms"
    and "read_all snapshot_vm_of_json js = Inr ws"
  shows "list_all2 same_but_util ws vms"
  using assms
proof (induction js arbitrary: vms ws)
  case (Cons j js)
  then obtain v vs where vms: "vms = v # vs"
    by (cases vms) auto
  obtain w ws' where "snapshot_vm_of_json j = Inr w" "read_all snapshot_vm_of_json js = Inr ws'" "ws = w # ws'"
    using Cons.prems(2) by (cases "read_all snapshot_vm_of_json js") (auto simp: result_bind_Inr)
  moreover have "zero_floats j = zero_floats (snapshot_vm_json v)"
    and "map zero_floats js = map (zero_floats \<circ> snapshot_vm_json) vs"
    using Cons.prems(1) by (simp_all add: vms)
  ultimately show ?case
    using same_snapshot Cons.IH by (simp add: vms)
qed simp

lemma same_payload:
  assumes "zero_floats j = zero_floats (payload_json vms)" and "payload_of_json j = Inr ws"
  shows "list_all2 same_but_util ws vms"
proof -
  obtain js where "j = JObject [(''vms'', JArray js)]" "map zero_floats js = map (zero_floats \<circ> snapshot_vm_json) vms"
  proof (cases j)
    case (JObject obj)
    then obtain x where obj: "obj = [(''vms'', x)]" and x: "zero_floats x = JArray (map (zero_floats \<circ> snapshot_vm_json) vms)"
      using assms(1) by (cases obj) (auto simp: payload_json_def list_json_def)
    from x obtain js where "x = JArray js" "map zero_floats js = map (zero_floats \<circ> snapshot_vm_json) vms"
      by (cases x) auto
    with JObject obj show thesis
      using that by blast
  qed (use assms(1) in \<open>simp_all add: payload_json_def\<close>)
  moreover from this have "read_all snapshot_vm_of_json js = Inr ws"
    using assms(2) by (simp add: payload_of_json_def struct_fields_def field_or_def json_list_def)
  ultimately show ?thesis
    using same_snapshots by blast
qed

text \<open>
  The dashboard's decoder and the daemon's encoder over one text codec.  An encoding never fails:
  the values have no keys that are not texts.
\<close>

definition parse_payload ::
  "(document_error \<Rightarrow> string) \<Rightarrow> (string \<Rightarrow> string + json) \<Rightarrow> string \<Rightarrow> string + snapshot_vm list" where
  "parse_payload show_error parse s =
     result_bind (parse s) (\<lambda>j. result_map_err show_error (payload_of_json j))"

definition print_payload :: "(json \<Rightarrow> string) \<Rightarrow> snapshot_vm list \<Rightarrow> string" where
  "print_payload print vms = print (payload_json vms)"

lemma wire_is_faithful:
  assumes "reads_what_it_wrote print parse" and "ce_snapshot_json env = print_payload print"
  shows "faithful_wire (parse_payload show_error parse) env"
proof -
  have "list_all2 same_but_util payload vms"
    if read: "parse_payload show_error parse (print (payload_json vms)) = Inr payload" for vms payload
  proof -
    from read obtain j where parsed: "parse (print (payload_json vms)) = Inr j"
      by (cases "parse (print (payload_json vms))") (simp_all add: parse_payload_def)
    with read have "payload_of_json j = Inr payload"
      by (cases "payload_of_json j") (simp_all add: parse_payload_def)
    moreover have "zero_floats j = zero_floats (payload_json vms)"
      using assms(1) parsed unfolding reads_what_it_wrote_def by blast
    ultimately show ?thesis
      by (rule same_payload [rotated])
  qed
  then show ?thesis
    by (simp add: faithful_wire_def assms(2) print_payload_def)
qed

subsection \<open>The other replies of the daemon\<close>

text \<open>
  \<open>GetStats\<close>, in the order of the source; the maps of serde\_json sort their keys, which is left to the
  printer.
\<close>

definition stats_vm_json :: "stats_vm \<Rightarrow> json" where
  "stats_vm_json v =
     JObject
      [(''vm'', JString (sw_vm v)),
       (''thread_count'', word_json (sw_thread_count v)),
       (''manual_scaling_sticky'', JBool (sw_manual_scaling_sticky v)),
       (''scaling_allowed'', JBool (sw_scaling_allowed v)),
       (''vcpu_count'', word_json (sw_vcpu_count v)),
       (''per_thread_util'', float_json (sw_per_thread_util v)),
       (''read_io_count'', word_json (sw_read_io_count v)),
       (''write_io_count'', word_json (sw_write_io_count v)),
       (''other_io_count'', word_json (sw_other_io_count v))]"

definition stats_json :: "u64 \<Rightarrow> stats_vm list \<Rightarrow> json" where
  "stats_json n vms = JObject [(''tick'', word_json n), (''vms'', list_json stats_vm_json vms)]"

text \<open>\<open>VqMapping\<close>; it is written by \<open>vq\_mapping\_json\<close>.\<close>

definition vq_mapping_of_json :: "json \<Rightarrow> document_error + vq_mapping" where
  "vq_mapping_of_json j =
     result_bind (struct_fields False [''iothread'', ''vqs''] j) (\<lambda>obj.
     result_bind (field json_string ''iothread'' obj) (\<lambda>io.
     result_bind (field_or (json_list json_u16) [] ''vqs'' obj) (\<lambda>vqs.
     Inr \<lparr>vm_iothread = io, vm_vqs = vqs\<rparr>)))"

lemma vq_mapping_reread [reread]: "vq_mapping_of_json (vq_mapping_json m) = Inr m"
proof -
  have "vq_mapping_json m = JObject ((''iothread'', JString (vm_iothread m)) #
      (if vm_vqs m = [] then [] else [(''vqs'', list_json word_json (vm_vqs m))]))"
    by (simp add: vq_mapping_json_def list_json_def word_json_def)
  then show ?thesis
    by (simp add: vq_mapping_of_json_def field_def field_or_def reread)
qed

definition parse_mapping ::
  "(document_error \<Rightarrow> string) \<Rightarrow> (string \<Rightarrow> string + json) \<Rightarrow> string \<Rightarrow> string + vq_mapping list" where
  "parse_mapping show_error parse s =
     result_bind (parse s) (\<lambda>j. result_map_err show_error (json_list vq_mapping_of_json j))"

text \<open>The environment of a controller whose texts go through one codec.\<close>

definition wire_env ::
  "(document_error \<Rightarrow> string) \<Rightarrow> (json \<Rightarrow> string) \<Rightarrow> (string \<Rightarrow> string + json) \<Rightarrow>
   ('c, 'r, 'e) controller_env \<Rightarrow> ('c, 'r, 'e) controller_env" where
  "wire_env show_error print parse env = env
     \<lparr>ce_encode := encode_ownership print,
      ce_snapshot_json := print_payload print,
      ce_stats_json := \<lambda>n vms. print (stats_json n vms),
      ce_mapping_json := \<lambda>ms. Inr (print (list_json vq_mapping_json ms)),
      ce_parse_mapping := parse_mapping show_error parse\<rparr>"

text \<open>A mapping that a caller got can be handed back unchanged.\<close>

lemma mapping_handed_back:
  assumes "reads_what_it_wrote print parse"
    and "ce_mapping_json (wire_env show_error print parse env) ms = Inr json"
    and "ce_parse_mapping (wire_env show_error print parse env) json = Inr ms'"
  shows "ms' = ms"
proof -
  have blind: "float_blind vq_mapping_of_json"
  proof -
    have "vq_mapping_of_json (zero_floats j) = vq_mapping_of_json j" for j
      by (cases "struct_fields False [''iothread'', ''vqs''] j")
        (simp_all add: vq_mapping_of_json_def struct_fields_zero_floats field_or_blind field_blind blind)
    then show ?thesis
      by (simp add: float_blind_def)
  qed
  obtain j where j: "parse json = Inr j" "json_list vq_mapping_of_json j = Inr ms'"
    using assms(3) by (cases "parse json") (auto simp: wire_env_def parse_mapping_def result_map_err_Inr)
  moreover have "json = print (list_json vq_mapping_json ms)"
    using assms(2) by (simp add: wire_env_def)
  ultimately have "zero_floats j = zero_floats (list_json vq_mapping_json ms)"
    using assms(1) unfolding reads_what_it_wrote_def by blast
  then have "json_list vq_mapping_of_json j = json_list vq_mapping_of_json (list_json vq_mapping_json ms)"
    using blind_list [OF blind] unfolding float_blind_def by metis
  then show ?thesis
    using j(2) by (simp add: reread)
qed

subsection \<open>The replies of QEMU\<close>

definition error_body_of_json :: "json \<Rightarrow> document_error + string \<times> string" where
  "error_body_of_json j =
     result_bind (struct_fields False [''class'', ''desc''] j) (\<lambda>obj.
     result_bind (field json_string ''class'' obj) (\<lambda>cls.
     result_bind (field json_string ''desc'' obj) (\<lambda>desc.
     Inr (cls, desc))))"

text \<open>
  The return value is kept as the text it has in the reply; it is an option, and an option is read from
  \<open>null\<close> as none.
\<close>

definition envelope_of_json :: "string \<Rightarrow> json \<Rightarrow> document_error + string option \<times> (string \<times> string) option" where
  "envelope_of_json raw j =
     result_bind (struct_fields False [''return'', ''error''] j) (\<lambda>obj.
     result_bind (field_or (json_option (\<lambda>_. Inr raw)) None ''return'' obj) (\<lambda>ret.
     result_bind (field_or (json_option error_body_of_json) None ''error'' obj) (\<lambda>err.
     Inr (ret, err))))"

definition metrics_of_json :: "json \<Rightarrow> document_error + string" where
  "metrics_of_json j =
     result_bind (struct_fields False [''human-readable-text''] j) (field json_string ''human-readable-text'')"

definition block_stats_of_json :: "json \<Rightarrow> document_error + block_stats" where
  "block_stats_of_json j =
     result_bind (struct_fields False [''rd_bytes'', ''wr_bytes'', ''rd_operations'', ''wr_operations'',
         ''flush_operations'', ''unmap_operations''] j) (\<lambda>obj.
     result_bind (field_or json_u64 0 ''rd_bytes'' obj) (\<lambda>rd_bytes.
     result_bind (field_or json_u64 0 ''wr_bytes'' obj) (\<lambda>wr_bytes.
     result_bind (field_or json_u64 0 ''rd_operations'' obj) (\<lambda>rd_operations.
     result_bind (field_or json_u64 0 ''wr_operations'' obj) (\<lambda>wr_operations.
     result_bind (field_or json_u64 0 ''flush_operations'' obj) (\<lambda>flush_operations.
     result_bind (field_or json_u64 0 ''unmap_operations'' obj) (\<lambda>unmap_operations.
     Inr \<lparr>bs_rd_bytes = rd_bytes, bs_wr_bytes = wr_bytes, bs_rd_operations = rd_operations,
       bs_wr_operations = wr_operations, bs_flush_operations = flush_operations,
       bs_unmap_operations = unmap_operations\<rparr>)))))))"

definition block_entry_of_json :: "json \<Rightarrow> document_error + block_stats" where
  "block_entry_of_json j = result_bind (struct_fields False [''stats''] j) (field block_stats_of_json ''stats'')"

text \<open>The text of the return value of a reply is \<open>raw\<close> of the reply.\<close>

definition wire_codec ::
  "(document_error \<Rightarrow> string) \<Rightarrow> (string \<Rightarrow> string + json) \<Rightarrow> (string \<Rightarrow> string) \<Rightarrow> qmp_codec" where
  "wire_codec show_error parse raw =
     \<lparr>qc_envelope = (\<lambda>s. result_bind (parse s) (\<lambda>j. result_map_err show_error (envelope_of_json (raw s) j))),
      qc_metrics = (\<lambda>s. result_bind (parse s) (\<lambda>j. result_map_err show_error (metrics_of_json j))),
      qc_stats = (\<lambda>s. result_bind (parse s) (\<lambda>j. result_map_err show_error (json_list block_entry_of_json j))),
      qc_mapping = parse_mapping show_error parse\<rparr>"

text \<open>A reply whose return value is \<open>null\<close> is an error, so that no command is answered with \<open>null\<close>.\<close>

lemma null_return_is_missing:
  assumes "parse body = Inr (JObject [(''return'', JNull)])"
  shows "parse_qmp_envelope (wire_codec show_error parse raw) cmd body =
    Inl (QemuParse (''qmp '' @ cmd @ '' response missing return/error: '' @ body))"
  using assms
  by (simp add: parse_qmp_envelope_def wire_codec_def envelope_of_json_def field_or_def json_option_def reread)

lemma returned_value:
  assumes "parse body = Inr (JObject obj)"
    and "parse_qmp_envelope (wire_codec show_error parse raw) cmd body = Inr s"
  shows "s = raw body \<and> (\<exists>v. map_of obj ''return'' = Some v \<and> v \<noteq> JNull)"
proof -
  obtain ret where "envelope_of_json (raw body) (JObject obj) = Inr (ret, None)" "ret = Some s"
    using assms by (cases "envelope_of_json (raw body) (JObject obj)")
      (auto simp: parse_qmp_envelope_def wire_codec_def Let_def split: sum.splits prod.splits option.splits)
  then show ?thesis
    by (auto simp: envelope_of_json_def result_bind_Inr field_or_def json_option_def struct_fields_def
        split: option.splits if_splits list.splits)
qed

text \<open>A mapping that the daemon sent arrives.\<close>

lemma sent_mapping_read: "json_list vq_mapping_of_json (mapping_json ms) = Inr ms"
  using json_list_list [OF vq_mapping_reread, of ms] by (simp add: mapping_json_def list_json_def)

subsection \<open>The dashboard and the daemon over this wire\<close>

lemma wire_env_faithful:
  "reads_what_it_wrote print parse \<Longrightarrow>
    faithful_wire (parse_payload show_error parse) (wire_env show_err print parse env)"
  by (rule wire_is_faithful) (simp_all add: wire_env_def)

text \<open>
  C18: the dashboard never shows a state that was not, and never asks for a VM that was not.  Whatever
  the interleaving of the daemon with its callers, restarts, polls, failures of the bus and keys, each
  line of the table carries a pool size, a sticky flag, a liveness and a vCPU count which the VM had in
  one and the same state of the controller; every point and every marked change of its plots is a
  pool size it had; and each request the dashboard sends is for a positive number of threads of a VM
  that the controller had.  Of the JSON codec only this is assumed: it reads no value but the one it wrote.
\<close>

theorem dashboard_truthful:
  assumes "controller_ok c"
    and "reads_what_it_wrote print parse"
    and "(system_next (parse_payload show_error parse) (wire_env show_err print parse env) dec shown select)\<^sup>*\<^sup>*
      (system_init c (dash_init metric started now refresh_secs)) s"
  shows "(\<forall>v\<in>set (sh_vms (dh_shared (sys_dash s))).
      row_was (set (sys_past s)) v \<and> history_was (set (sys_past s)) v) \<and>
    (\<forall>(vm, n, sticky)\<in>set (dh_sent (sys_dash s)). 0 < n \<and> (\<exists>m. had (set (sys_past s)) vm m))"
  by (rule dashboard_was [OF assms(1) wire_env_faithful [OF assms(2)] assms(3)])

text \<open>
  C19: a poll reads one state of the controller, and not an old one.  When the answer to a poll arrives,
  there is a state the controller has had since the daemon accepted the poll whose snapshot the answer
  is; provided the dashboard decodes it, every selected VM of that state is listed, with its pool size, its
  sticky flag and its vCPU count.
\<close>

theorem poll_reads_fresh_state:
  assumes "controller_ok c"
    and "reads_what_it_wrote print parse"
    and "(system_next (parse_payload show_error parse) (wire_env show_err print parse env) dec shown select)\<^sup>*\<^sup>*
      (system_init c (dash_init metric started now refresh_secs)) s"
    and "sys_asked s = Some (n, k)" and "(n, reply) \<in> set (dw_answers (sys_daemon s))"
  shows "\<exists>c\<in>set (drop k (sys_past s)). \<exists>json. reply = ReplyText json \<and> json = handle_get_snapshot (wire_env show_err print parse env) c \<and>
    (\<forall>vms vm i. parse_payload show_error parse json = Inr vms \<longrightarrow>
      hm_get (ct_instances c) vm = Some i \<longrightarrow> selected select vm \<longrightarrow>
      (\<exists>v. find_vm (dh_shared (poll_result select (parse_payload show_error parse) t (Inr json) (sys_dash s))) vm = Some v \<and>
        ls_thread_count (vv_status v) = st_thread_count (inst_status i) \<and>
        ls_sticky (vv_status v) = st_manual_scaling_sticky (inst_status i) \<and>
        vv_vcpu_count v = Some (st_vcpu_count (inst_status i))))"
proof -
  have "reply_readable (parse_payload show_error parse) (wire_env show_err print parse env) c"
    if "parse_payload show_error parse (handle_get_snapshot (wire_env show_err print parse env) c) = Inr vms" for c vms
    using that wire_env_faithful [OF assms(2), of show_error show_err env]
    unfolding reply_readable_def faithful_wire_def handle_get_snapshot_def fleet_entries_def by blast
  then show ?thesis
    using poll_reads_state [OF assms(1,3,4,5), of t] by blast
qed

subsection \<open>A concrete poll\<close>

text \<open>The fleet of one VM again, with a text codec that only has a text for this fleet.\<close>

definition only_entries :: "snapshot_vm list" where
  "only_entries = fleet_entries (demo_env threshold_ops) demo_fleet"

definition only_print :: "json \<Rightarrow> string" where
  "only_print j = (if zero_floats j = zero_floats (payload_json only_entries) then ''4'' else [])"

definition only_read :: "string \<Rightarrow> string + json" where
  "only_read s = (if s = ''4'' then Inr (payload_json only_entries) else Inl ''not a fleet'')"

definition only_fleet :: "(u32, unit, threshold_engine) controller_env" where
  "only_fleet = wire_env (\<lambda>_. ''not a fleet'') only_print only_read (demo_env threshold_ops)"

definition only_parse :: "string \<Rightarrow> string + snapshot_vm list" where
  "only_parse = parse_payload (\<lambda>_. ''not a fleet'') only_read"

lemma only_codec: "reads_what_it_wrote only_print only_read"
  by (simp add: reads_what_it_wrote_def only_print_def only_read_def)

lemma only_encoder: "ce_snapshot_json only_fleet = print_payload only_print"
  by (simp add: only_fleet_def wire_env_def)

lemma only_fleet_entries: "fleet_entries only_fleet demo_fleet = only_entries"
  by (simp add: fleet_entries_def only_fleet_def wire_env_def only_entries_def)

lemma only_json: "handle_get_snapshot only_fleet demo_fleet = ''4''"
  using only_fleet_entries
  by (simp add: handle_get_snapshot_def only_encoder print_payload_def only_print_def fleet_entries_def)

lemma only_decoded: "payload_of_json (payload_json only_entries) = Inr only_entries"
proof -
  have "\<forall>v\<in>set only_entries. sv_per_thread_util v = Fin 0"
    by code_simp
  then have "json_list snapshot_vm_of_json (list_json snapshot_vm_json only_entries) = Inr only_entries"
    using json_list_list [of only_entries snapshot_vm_of_json snapshot_vm_json] snapshot_vm_reread by blast
  then show ?thesis
    by (simp add: payload_of_json_def payload_json_def field_or_def reread)
qed

lemma only_readable: "reply_readable only_parse only_fleet demo_fleet"
  using only_json
  by (simp add: reply_readable_def handle_get_snapshot_def fleet_entries_def [symmetric] only_parse_def
      parse_payload_def only_read_def only_decoded only_fleet_entries list_all2_refl same_but_util_def)

text \<open>The poll is begun, accepted and served.\<close>

definition asked_system :: "(u32, unit, threshold_engine) system" where
  "asked_system =
     (let s = system_init demo_fleet (dash_init MetricIops 0 0 (Fin 1));
          d = serve_request only_fleet (accept_request GetSnapshot (sys_daemon s))
      in s\<lparr>sys_dash := (sys_dash s)\<lparr>dh_polling := Some 1\<rparr>, sys_daemon := d, sys_asked := Some (0, 1),
           sys_past := [demo_fleet, demo_fleet]\<rparr>)"

lemma served_fleet:
  "serve_request only_fleet (accept_request GetSnapshot (daemon_init demo_fleet)) =
     (daemon_init demo_fleet)\<lparr>dw_accepted := 1, dw_handled := [0], dw_answers := [(0, ReplyText ''4'')],
       dw_requests := [GetSnapshot]\<rparr>"
  by (simp add: serve_request_def accept_request_def daemon_init_def handle_dbus_request_def only_json)

lemma asked_run:
  "(system_next only_parse only_fleet dec shown [])\<^sup>*\<^sup>*
     (system_init demo_fleet (dash_init MetricIops 0 0 (Fin 1))) asked_system"
proof -
  let ?s0 = "system_init demo_fleet (dash_init MetricIops 0 0 (Fin 1))"
  let ?s1 = "?s0\<lparr>sys_dash := (sys_dash ?s0)\<lparr>dh_polling := Some 1\<rparr>\<rparr>"
  let ?s2 = "?s1\<lparr>sys_daemon := accept_request (fst service_get_snapshot) (sys_daemon ?s1),
      sys_asked := Some (dw_accepted (sys_daemon ?s1), length (sys_past ?s1))\<rparr>"
  let ?d = "serve_request only_fleet (sys_daemon ?s2)"
  have begun: "system_next only_parse only_fleet dec shown [] ?s0 ?s1"
    by (rule polling) (simp_all add: system_init_def dash_init_def dash_shared_new_def)
  have accepted: "system_next only_parse only_fleet dec shown [] ?s1 ?s2"
    by (rule poll_accepted) (simp_all add: system_init_def daemon_init_def)
  have "daemon_next only_fleet (sys_daemon ?s2) ?d"
    by (rule loop_serves) (simp_all add: system_init_def daemon_init_def accept_request_def)
  then have served: "system_next only_parse only_fleet dec shown [] ?s2
      (?s2\<lparr>sys_daemon := ?d, sys_past := sys_past ?s2 @ [dw_controller ?d]\<rparr>)"
    by (rule daemon_moves)
  have "?s2\<lparr>sys_daemon := ?d, sys_past := sys_past ?s2 @ [dw_controller ?d]\<rparr> = asked_system"
    by (simp add: asked_system_def system_init_def service_get_snapshot_def served_fleet)
      (simp add: daemon_init_def)
  with served have served: "system_next only_parse only_fleet dec shown [] ?s2 asked_system"
    by (rule back_subst)
  have "(system_next only_parse only_fleet dec shown [])\<^sup>*\<^sup>* ?s0 ?s1"
    using begun by (rule r_into_rtranclp)
  then have "(system_next only_parse only_fleet dec shown [])\<^sup>*\<^sup>* ?s0 ?s2"
    using accepted by (rule rtranclp.rtrancl_into_rtrancl)
  then show ?thesis
    using served by (rule rtranclp.rtrancl_into_rtrancl)
qed

lemma asked_fields:
  "sys_asked asked_system = Some (0, 1)" "(0, ReplyText ''4'') \<in> set (dw_answers (sys_daemon asked_system))"
  "sys_past asked_system = [demo_fleet, demo_fleet]"
  by (simp_all add: asked_system_def system_init_def served_fleet)

lemma answered_run:
  "\<exists>s. (system_next only_parse only_fleet dec shown [])\<^sup>*\<^sup>*
      (system_init demo_fleet (dash_init MetricIops 0 0 (Fin 1))) s \<and>
    sys_past s = [demo_fleet, demo_fleet] \<and> sh_vms (dh_shared (sys_dash s)) \<noteq> []"
proof -
  let ?t = "asked_system\<lparr>sys_dash := poll_result [] only_parse 1 (snd service_get_snapshot True (Received ''4''))
      (sys_dash asked_system), sys_asked := None\<rparr>"
  have "system_next only_parse only_fleet dec shown [] asked_system ?t"
    by (rule poll_answered [OF _ _ asked_fields(1,2)])
      (simp_all add: asked_system_def system_init_def dash_init_def)
  with asked_run have run: "(system_next only_parse only_fleet dec shown [])\<^sup>*\<^sup>*
      (system_init demo_fleet (dash_init MetricIops 0 0 (Fin 1))) ?t"
    by (rule rtranclp.rtrancl_into_rtrancl)
  obtain i where i: "hm_get (ct_instances demo_fleet) ''vm'' = Some i"
    using demo_fleet_facts(2) by auto
  let ?w = "sys_dash asked_system"
  obtain sh streak where r: "sampler_reply [] 1 (poll_controller only_parse only_fleet demo_fleet)
      (dh_shared ?w, dh_streak ?w) = (sh, streak)"
    by (rule prod.exhaust)
  have "streak_ok (dh_streak ?w)"
    by (simp add: asked_system_def system_init_def dash_init_def streak_ok_def)
  from poll_shows(3) [OF demo_fleet_facts(1) only_readable this r i] have "sh_vms sh \<noteq> []"
    by (auto simp: selected_def find_vm_def)
  moreover have "dh_shared (sys_dash ?t) = sh"
    using r by (simp add: poll_result_def poll_controller_json only_json service_get_snapshot_def send_and_await_def)
  ultimately show ?thesis
    using run asked_fields(3) by auto
qed

theorem dashboard_truthful_witness:
  "\<exists>s v. (system_next only_parse only_fleet demo_dec (\<lambda>_. []) [])\<^sup>*\<^sup>*
      (system_init demo_fleet (dash_init MetricIops 0 0 (Fin 1))) s \<and>
    v \<in> set (sh_vms (dh_shared (sys_dash s))) \<and> row_was {demo_fleet} v"
proof -
  obtain s where s: "(system_next only_parse only_fleet demo_dec (\<lambda>_. []) [])\<^sup>*\<^sup>*
      (system_init demo_fleet (dash_init MetricIops 0 0 (Fin 1))) s"
    "sys_past s = [demo_fleet, demo_fleet]" "sh_vms (dh_shared (sys_dash s)) \<noteq> []"
    using answered_run by blast
  from s(3) obtain v where v: "v \<in> set (sh_vms (dh_shared (sys_dash s)))"
    by (cases "sh_vms (dh_shared (sys_dash s))") auto
  with dashboard_truthful [OF demo_fleet_facts(1) only_codec s(1) [unfolded only_parse_def only_fleet_def]] s(2) have "row_was {demo_fleet} v"
    by simp
  with s(1) v show ?thesis
    by blast
qed

theorem poll_reads_fresh_state_witness:
  "\<exists>v. find_vm (dh_shared (poll_result [] only_parse 2 (Inr ''4'') (sys_dash asked_system))) ''vm'' = Some v \<and>
     ls_thread_count (vv_status v) = 4"
proof -
  obtain i where i: "hm_get (ct_instances demo_fleet) ''vm'' = Some i" "st_thread_count (inst_status i) = 4"
    using demo_fleet_facts(2) by auto
  have past: "set (drop 1 (sys_past asked_system)) = {demo_fleet}"
    by (simp add: asked_fields(3))
  have selected: "selected [] ''vm''"
    by (simp add: selected_def)
  obtain c json where c: "c \<in> {demo_fleet}" "ReplyText ''4'' = ReplyText json" and
    shown: "\<forall>vms vm i. only_parse json = Inr vms \<longrightarrow> hm_get (ct_instances c) vm = Some i \<longrightarrow> selected [] vm \<longrightarrow>
      (\<exists>v. find_vm (dh_shared (poll_result [] only_parse 2 (Inr json) (sys_dash asked_system))) vm = Some v \<and>
        ls_thread_count (vv_status v) = st_thread_count (inst_status i) \<and>
        ls_sticky (vv_status v) = st_manual_scaling_sticky (inst_status i) \<and>
        vv_vcpu_count v = Some (st_vcpu_count (inst_status i)))"
    using poll_reads_fresh_state [OF demo_fleet_facts(1) only_codec
        asked_run [of demo_dec "\<lambda>_. []", unfolded only_parse_def only_fleet_def] asked_fields(1,2), of 2]
    unfolding past only_parse_def by blast
  moreover have "only_parse ''4'' = Inr only_entries"
    by (simp add: only_parse_def parse_payload_def only_read_def only_decoded)
  ultimately obtain v where "find_vm (dh_shared (poll_result [] only_parse 2 (Inr ''4'') (sys_dash asked_system))) ''vm'' = Some v"
    "ls_thread_count (vv_status v) = st_thread_count (inst_status i)"
    using i(1) selected by auto
  then show ?thesis
    using i(2) by simp
qed

end
