(* ===== verification/Engine_Logs.thy ===== *)
theory Engine_Logs
  imports Threshold Libvirt
begin

section \<open>What the threshold engine tells the operators (engines/threshold.rs)\<close>

text \<open>
  The records that an evaluation writes, with their fields, in the order of the code; the text of
  the message is implied by the constructor.  All but the last go to the target \<open>engine\<close>.
\<close>

text \<open>The format \<open>{:.2}\<close> of a finite number.\<close>

definition fmt_hundredths :: "f64 \<Rightarrow> string" where
  "fmt_hundredths v =
     (case v of
        Fin r \<Rightarrow>
          let n = round_half_even (\<bar>r\<bar> * 100)
          in (if r < 0 then ''-'' else []) @ show_int (n div 100) @ ''.'' @
             show_int (n mod 100 div 10) @ show_int (n mod 10)
      | NaN \<Rightarrow> ''NaN'' | PosInf \<Rightarrow> ''inf'' | NegInf \<Rightarrow> ''-inf'')"

definition fmt_step :: "u32 \<Rightarrow> u32 \<Rightarrow> string" where
  "fmt_step thread_count tgt = show_word thread_count @ ''->'' @ show_word tgt"

definition fmt_util :: "f64 \<Rightarrow> string" where
  "fmt_util per_thread_util = fmt_hundredths (f64_mul per_thread_util (Fin 100)) @ ''%''"

datatype engine_log =
    PerformanceRevert (log_vm: string) (lg_reverted: string) (lg_baseline: u64) (lg_observed: u64)
      (lg_required: f64) (lg_change_percent: f64) (lg_step: string)
  | ScaleUpDecision (log_vm: string) (lg_util: string) (lg_step: string) (lg_iops: u64) (lg_min_iops: u64)
      (lg_after_secs: int)
  | ScaleDownDecision (log_vm: string) (lg_util: string) (lg_step: string)
  | PostRevertUpHold (log_vm: string) (lg_failures: u32) (lg_grace: u32) (lg_recovery: u32)
  | ScaleDownBackoff (log_vm: string) (lg_failures: u32) (lg_sustain: u32)
  | UpSuppressed (log_vm: string)

definition log_performance_revert ::
  "string \<Rightarrow> string \<Rightarrow> u32 \<Rightarrow> u32 \<Rightarrow> u64 \<Rightarrow> u64 \<Rightarrow> f64 \<Rightarrow> engine_log" where
  "log_performance_revert vm reverted_action thread_count tgt baseline_iops observed_iops required_iops =
     PerformanceRevert vm reverted_action baseline_iops observed_iops required_iops
       (if baseline_iops = 0 then Fin 0
        else f64_div (f64_mul (f64_sub (f64_of_word observed_iops) (f64_of_word baseline_iops)) (Fin 100))
               (f64_of_word baseline_iops))
       (fmt_step thread_count tgt)"

definition log_scale_up_decision ::
  "string \<Rightarrow> f64 \<Rightarrow> u32 \<Rightarrow> u32 \<Rightarrow> u64 \<Rightarrow> u64 \<Rightarrow> duration \<Rightarrow> engine_log" where
  "log_scale_up_decision vm per_thread_util thread_count tgt current_iops min_target_iops after =
     ScaleUpDecision vm (fmt_util per_thread_util) (fmt_step thread_count tgt) current_iops min_target_iops
       (after div nanos_per_sec)"

definition log_scale_down_decision :: "string \<Rightarrow> f64 \<Rightarrow> u32 \<Rightarrow> u32 \<Rightarrow> engine_log" where
  "log_scale_down_decision vm per_thread_util thread_count tgt =
     ScaleDownDecision vm (fmt_util per_thread_util) (fmt_step thread_count tgt)"

definition log_post_revert_up_hold :: "string \<Rightarrow> u32 \<Rightarrow> u32 \<Rightarrow> u32 \<Rightarrow> engine_log" where
  "log_post_revert_up_hold vm failures grace recovery = PostRevertUpHold vm failures grace recovery"

definition log_scale_down_backoff :: "string \<Rightarrow> u32 \<Rightarrow> u32 \<Rightarrow> engine_log" where
  "log_scale_down_backoff vm failures sustain = ScaleDownBackoff vm failures sustain"

text \<open>The I/O rate a scale-up has to reach, and the settling time, as announced.\<close>

definition required_up :: "threshold_config \<Rightarrow> u64 \<Rightarrow> f64" where
  "required_up cfg baseline = f64_mul (f64_of_word baseline) (f64_add (Fin 1) (thc_scale_up_min_gain cfg))"

definition up_expectations :: "threshold_config \<Rightarrow> threshold_polls \<Rightarrow> duration \<Rightarrow> u64 \<Rightarrow> u32 \<Rightarrow> u64 \<times> duration" where
  "up_expectations cfg ps period current_iops tgt =
     (if f64_lt (Fin 0) (thc_scale_up_min_gain cfg)
      then (f64_as_word (f64_ceil (required_up cfg current_iops)), validation_after ps period tgt)
      else (current_iops, 0))"

text \<open>
  The records of one evaluation: \<open>vm\<close> and \<open>label\<close> are the identifier and the display name of
  the instance, \<open>v'\<close> is the entry after the evaluation.
\<close>

definition validation_log ::
  "threshold_config \<Rightarrow> threshold_polls \<Rightarrow> string \<Rightarrow> u32 \<Rightarrow> io_sample \<Rightarrow> pending_validation \<Rightarrow>
   scale_action \<times> vm_state \<Rightarrow> engine_log list"
where
  "validation_log cfg ps vm thread_count sample pending result =
     (case result of
        (Revert tgt, v') \<Rightarrow>
          let observed = iops_rate (pv_validation_start pending) sample;
              baseline = pv_baseline_iops pending;
              required = (if is_up (pv_action pending) then required_up cfg baseline
                          else f64_mul (f64_of_word baseline) (f64_sub (Fin 1) (thc_scale_down_revert_drop cfg)))
          in [log_performance_revert (vs_instance_id v') (show_action (pv_action pending)) thread_count tgt baseline observed required,
              if is_up (pv_action pending)
              then let failures = vs_consecutive_failed_ups v'
                   in log_post_revert_up_hold vm failures (post_revert_up_grace_polls ps failures)
                        (tp_post_revert_up_recovery ps)
              else let failures = vs_consecutive_failed_downs v'
                   in log_scale_down_backoff vm failures (scale_down_sustain_polls ps failures)]
      | _ \<Rightarrow> [])"

definition scaling_log ::
  "threshold_config \<Rightarrow> threshold_polls \<Rightarrow> duration \<Rightarrow> string \<Rightarrow> string \<Rightarrow> tick_context \<Rightarrow> instance_status \<Rightarrow>
   bool \<Rightarrow> scale_action \<times> vm_state \<Rightarrow> engine_log list"
where
  "scaling_log cfg ps period vm label ctxt s block_scale_up result =
     (case result of
        (Up tgt, v') \<Rightarrow>
          (case up_expectations cfg ps period (vs_current_baseline_iops v') tgt of
             (min_target_iops, after) \<Rightarrow>
               [log_scale_up_decision label (st_per_thread_util s) (st_thread_count s) tgt
                  (vs_current_baseline_iops v') min_target_iops after])
      | (Down tgt, v') \<Rightarrow> [log_scale_down_decision label (st_per_thread_util s) (st_thread_count s) tgt]
      | _ \<Rightarrow> if \<not> block_scale_up \<and> wants_up cfg ctxt s \<and> throttled cfg s then [UpSuppressed vm] else [])"

definition evaluation_log ::
  "threshold_config \<Rightarrow> threshold_polls \<Rightarrow> duration \<Rightarrow> string \<Rightarrow> string \<Rightarrow> tick_context \<Rightarrow> instance_status \<Rightarrow>
   vm_state \<Rightarrow> engine_log list"
where
  "evaluation_log cfg ps period vm label ctxt s v =
     (let sample = \<lparr>is_io_count = (case st_perf s of None \<Rightarrow> 0 | Some p \<Rightarrow> total_io_count p), is_at = tc_now ctxt\<rparr>;
          result = evaluate_vm cfg ps ctxt s v
      in case vs_pending_validation v of
           Some pending \<Rightarrow> validation_log cfg ps vm (st_thread_count s) sample pending result
         | None \<Rightarrow> scaling_log cfg ps period vm label ctxt s
             (fst (advance_post_revert_up_hold sample (tp_post_revert_up_recovery ps) v)) result)"

subsection \<open>The announced minimum decides\<close>

lemma ceil_decides:
  assumes "0 \<le> r" and "r \<le> 2 ^ 53"
  shows "f64_lt (f64_of_word (n :: u64)) (Fin r) \<longleftrightarrow> n < f64_as_word (f64_ceil (Fin r))"
proof -
  have c: "0 \<le> \<lceil>r\<rceil>" "\<lceil>r\<rceil> \<le> 2 ^ 53"
    using assms by (simp_all add: ceiling_le_iff)
  then have word: "uint (f64_as_word (f64_ceil (Fin r)) :: u64) = \<lceil>r\<rceil>"
    by (simp add: uint_sat_of_int word_top_def)
  show ?thesis
  proof (cases "uint n \<le> 2 ^ 53")
    case True
    then have "f64_of_word n = Fin (of_int (uint n))"
      by (simp add: f64_of_word_def f64_of_int_small)
    then show ?thesis
      by (simp add: word_less_def word less_ceiling_iff del: f64_ceil.simps f64_as_word.simps)
  next
    case False
    then have "f64_le (Fin (of_int (2 ^ 53))) (f64_of_word n)"
      using f64_of_int_mono [of "2 ^ 53" "uint n"] by (simp add: f64_of_word_def f64_of_int_small)
    then have "\<not> f64_lt (f64_of_word n) (Fin r)"
      using assms by (cases "f64_of_word n") auto
    moreover have "\<lceil>r\<rceil> < uint n"
      using c False by linarith
    ultimately show ?thesis
      by (simp add: word_less_def word del: f64_ceil.simps f64_as_word.simps f64_lt.simps)
  qed
qed

lemma required_up_bounded:
  assumes "f64_in (thc_scale_up_min_gain cfg) 0 1" and "uint baseline \<le> 2 ^ 52"
  obtains r where "required_up cfg baseline = Fin r" and "0 \<le> r" and "r \<le> 2 ^ 53"
    and "baseline = 0 \<Longrightarrow> r = 0"
proof -
  obtain g where g: "thc_scale_up_min_gain cfg = Fin g" "0 \<le> g" "g \<le> 1"
    using f64_in_Fin [OF assms(1)] by blast
  have "f64_le (round_f64 0) (round_f64 (1 + g))" "f64_le (round_f64 (1 + g)) (round_f64 (of_int 2))"
    using g by (intro round_f64_mono; simp)+
  then have two: "f64_le (Fin 0) (round_f64 (1 + g))" "f64_le (round_f64 (1 + g)) (Fin 2)"
    using round_f64_of_int [of 2] by simp_all
  then obtain y where y: "round_f64 (1 + g) = Fin y" "0 \<le> y" "y \<le> 2"
    by (cases "round_f64 (1 + g)") auto
  let ?b = "of_int (uint baseline) :: rat"
  have b: "f64_of_word baseline = Fin ?b"
    using assms(2) by (simp add: f64_of_word_def f64_of_int_small)
  have "?b \<le> 2 ^ 52"
    using assms(2) by (metis of_int_le_iff of_int_numeral of_int_power)
  then have "?b * y \<le> 2 ^ 52 * 2"
    using y by (intro mult_mono) simp_all
  moreover have "0 \<le> ?b * y"
    by (rule mult_nonneg_nonneg [OF of_int_nonneg y(2)]) simp
  ultimately have bounds: "0 \<le> ?b * y" "?b * y \<le> of_int (2 ^ 53)"
    by simp_all
  have "f64_le (round_f64 0) (round_f64 (?b * y))" "f64_le (round_f64 (?b * y)) (round_f64 (of_int (2 ^ 53)))"
    using bounds by (intro round_f64_mono; simp)+
  then have "f64_le (Fin 0) (round_f64 (?b * y))" "f64_le (round_f64 (?b * y)) (Fin (2 ^ 53))"
    using round_f64_of_int [of "2 ^ 53"] by simp_all
  then obtain r where r: "round_f64 (?b * y) = Fin r" "0 \<le> r" "r \<le> 2 ^ 53"
    by (cases "round_f64 (?b * y)") auto
  moreover have "required_up cfg baseline = round_f64 (?b * y)"
    by (simp add: required_up_def b g(1) y(1))
  moreover have "r = 0" if "baseline = 0"
    using r(1) that by simp
  ultimately show thesis
    using that by simp
qed

lemma announced_minimum:
  assumes "f64_in (thc_scale_up_min_gain cfg) 0 1" and "f64_lt (Fin 0) (thc_scale_up_min_gain cfg)"
    and "uint (pv_baseline_iops p) \<le> 2 ^ 52" and "is_up (pv_action p)"
  shows "validation_revert_target cfg observed util p =
    (if observed < fst (up_expectations cfg ps period (pv_baseline_iops p) tgt)
     then Some (pv_baseline_thread_count p) else None)"
proof -
  obtain r where r: "required_up cfg (pv_baseline_iops p) = Fin r" "0 \<le> r" "r \<le> 2 ^ 53"
    "pv_baseline_iops p = 0 \<Longrightarrow> r = 0"
    using required_up_bounded [OF assms(1,3)] by metis
  have zero: "\<not> f64_lt (f64_of_word observed) (Fin r)" if "pv_baseline_iops p = 0"
    using r(4) [OF that] f64_of_int_nonneg [of "uint observed"]
    by (cases "f64_of_int (uint observed)") (auto simp: f64_of_word_def)
  obtain n where "pv_action p = Up n"
    using assms(4) by (cases "pv_action p") auto
  then have target: "validation_revert_target cfg observed util p =
      (if 0 < pv_baseline_iops p \<and> f64_lt (f64_of_word observed) (Fin r)
       then Some (pv_baseline_thread_count p) else None)"
    using assms(2) r(1) by (simp add: validation_revert_target_def required_up_def)
  have announced: "fst (up_expectations cfg ps period (pv_baseline_iops p) tgt) = f64_as_word (f64_ceil (Fin r))"
    using assms(2) r(1) by (simp add: up_expectations_def)
  have decides: "f64_lt (f64_of_word observed) (Fin r) \<longleftrightarrow> observed < f64_as_word (f64_ceil (Fin r))"
    by (rule ceil_decides [OF r(2,3)])
  show ?thesis
  proof (cases "pv_baseline_iops p = 0")
    case True
    with zero have "\<not> f64_lt (f64_of_word observed) (Fin r)"
      by blast
    with decides target announced show ?thesis
      by (simp del: f64_lt.simps f64_ceil.simps f64_as_word.simps)
  next
    case False
    then have "0 < pv_baseline_iops p"
      by (simp add: word_neq_0_conv)
    with decides target announced show ?thesis
      by (simp del: f64_lt.simps f64_ceil.simps f64_as_word.simps)
  qed
qed


subsection \<open>The announcement is kept\<close>

lemma up_result:
  assumes "evaluate_vm cfg ps ctxt s v = (Up n, v')"
  shows "vs_pending_validation v = None" and "vs_pending_validation v' = None"
    and "n = min (st_thread_count s + 1) (tc_max_thread_count ctxt)"
proof -
  show none: "vs_pending_validation v = None"
    using assms by (auto simp: evaluate_vm_def Let_def dest!: evaluate_validation_action split: option.splits)
  then have scaling: "evaluate_scaling cfg ps ctxt s (vm_sample ctxt s) v = (Up n, v')"
    using assms by (simp add: evaluate_vm_def vm_sample_def Let_def)
  show "vs_pending_validation v' = None"
    using evaluate_scaling_eq(3) [OF scaling] none by simp
  show "n = min (st_thread_count s + 1) (tc_max_thread_count ctxt)"
    using scaling by (auto simp: evaluate_scaling_def Let_def split_beta split: if_splits)
qed

lemma applied_up_pending:
  assumes "f64_lt (Fin 0) (thc_scale_up_min_gain cfg)"
  shows "vs_pending_validation (on_applied_vm cfg ps (Up n) count applied v) = Some
    \<lparr>pv_action = Up n, pv_baseline_thread_count = count, pv_baseline_iops = vs_current_baseline_iops v,
     pv_validation_start = applied, pv_polls_remaining = validation_sample_polls ps n\<rparr>"
  using assms by (simp add: on_applied_vm_def start_validation_def Let_def)

text \<open>
  C7: what a scale-up announces is what happens.  When an evaluation decides to grow a VM's pool,
  its record names the step, the I/O rate the VM has to reach and the seconds until it is
  measured.  Applied, the engine leaves the VM alone for exactly that many periods less one,
  whatever the load; then it measures, and it goes back to the previous count exactly when the
  measured rate is below the announced one.
\<close>

theorem announcement_is_kept:
  assumes "f64_in (thc_scale_up_min_gain cfg) 0 1" and "f64_lt (Fin 0) (thc_scale_up_min_gain cfg)"
    and "evaluate_vm cfg ps ctxt s v = (Up n, v')"
    and "uint (vs_current_baseline_iops v') \<le> 2 ^ 52"
    and "k = unat (validation_sample_polls ps n)" and "k < length ticks"
    and "k + 1 < 2 ^ 32" and "period * (int k + 1) \<le> duration_max"
  shows "\<exists>minimum. evaluation_log cfg ps period vm label ctxt s v =
      [ScaleUpDecision label (fmt_util (st_per_thread_util s)) (fmt_step (st_thread_count s) n)
         (vs_current_baseline_iops v') minimum (period * (int k + 1) div nanos_per_sec)] \<and>
    (let actions = fst (evaluate_run cfg ps ticks (on_applied_vm cfg ps (Up n) (st_thread_count s) applied v'))
     in (\<forall>j. j < k \<longrightarrow> actions ! j = Hold) \<and>
        actions ! k = (if iops_rate applied (vm_sample (fst (ticks ! k)) (snd (ticks ! k))) < minimum
                       then Revert (st_thread_count s) else Hold))"
proof -
  note up = up_result [OF assms(3)]
  let ?v = "on_applied_vm cfg ps (Up n) (st_thread_count s) applied v'"
  define p where "p = \<lparr>pv_action = Up n, pv_baseline_thread_count = st_thread_count s,
    pv_baseline_iops = vs_current_baseline_iops v', pv_validation_start = applied,
    pv_polls_remaining = validation_sample_polls ps n\<rparr>"
  have pending: "vs_pending_validation ?v = Some p"
    unfolding p_def by (rule applied_up_pending [OF assms(2)])
  define minimum where "minimum = fst (up_expectations cfg ps period (vs_current_baseline_iops v') n)"
  have polls: "uint (pv_polls_remaining p) = int k"
    using assms(5) by (simp add: p_def)
  have run: "fst (evaluate_run cfg ps ticks ?v) ! j =
      (if j < k then Hold
       else if iops_rate applied (vm_sample (fst (ticks ! k)) (snd (ticks ! k))) < minimum
       then Revert (st_thread_count s) else Hold)" if "j \<le> k" for j
    using validation_schedule [OF pending, of j ticks cfg ps] that assms(6) polls
      announced_minimum [OF assms(1,2), of p _ _ ps period n] assms(4)
    by (auto simp: p_def minimum_def)
  have "uint (sat_add (validation_sample_polls ps n) 1) = int k + 1"
    using polls assms(7) by (simp add: p_def uint_sat_add word_top_def)
  then have "validation_after ps period n = period * (int k + 1)"
    using assms(8) by (simp add: validation_after_def duration_saturating_mul_def)
  then have "evaluation_log cfg ps period vm label ctxt s v =
      [ScaleUpDecision label (fmt_util (st_per_thread_util s)) (fmt_step (st_thread_count s) n)
         (vs_current_baseline_iops v') minimum (period * (int k + 1) div nanos_per_sec)]"
    using up(1) assms(2,3)
    by (simp add: evaluation_log_def scaling_log_def log_scale_up_decision_def minimum_def
        up_expectations_def Let_def)
  then show ?thesis
    using run by (simp add: Let_def)
qed


subsection \<open>A concrete scale-up\<close>

text \<open>A VM with four saturated workers that has done 1000 operations in ten seconds.\<close>

definition demo_busy :: "tick_context \<times> instance_status" where
  "demo_busy = (case demo_tick (10 * nanos_per_sec) (Fin 1) of
     (ctxt, s) \<Rightarrow> (ctxt, s\<lparr>st_perf := Some (perf_default\<lparr>perf_read_io_count := 1000\<rparr>)\<rparr>))"

definition demo_warm :: vm_state where
  "demo_warm = (vm_state_new ''vm'')\<lparr>vs_baseline_window_start := Some \<lparr>is_io_count = 0, is_at = 0\<rparr>\<rparr>"

lemma demo_busy_values:
  "evaluate_vm demo_config demo_polls (fst demo_busy) (snd demo_busy) demo_warm =
     (Up 5, demo_warm\<lparr>vs_current_baseline_iops := 100\<rparr>)"
  "f64_in (thc_scale_up_min_gain demo_config) 0 1"
  "f64_lt (Fin 0) (thc_scale_up_min_gain demo_config)"
  "unat (validation_sample_polls demo_polls 5) = 2"
  "fmt_util (st_per_thread_util (snd demo_busy)) = ''100.00%''"
  "fmt_step (st_thread_count (snd demo_busy)) 5 = ''4->5''"
  by code_simp+

lemma announcement_is_kept_witness:
  "\<exists>minimum. evaluation_log demo_config demo_polls (10 * nanos_per_sec) ''vm'' ''web''
     (fst demo_busy) (snd demo_busy) demo_warm = [ScaleUpDecision ''web'' ''100.00%'' ''4->5'' 100 minimum 30]"
proof -
  let ?applied = "\<lparr>is_io_count = 1000, is_at = 10 * nanos_per_sec\<rparr>"
  have side: "uint (vs_current_baseline_iops (demo_warm\<lparr>vs_current_baseline_iops := 100\<rparr>)) \<le> 2 ^ 52"
    "(2 :: nat) < length (replicate 3 (demo_tick 0 (Fin 1)))" "(2 :: nat) + 1 < 2 ^ 32"
    "(10 * nanos_per_sec) * (int 2 + 1) \<le> duration_max"
    by (simp_all add: duration_max_def nanos_per_sec_def)
  have secs: "(10 * nanos_per_sec) * (int 2 + 1) div nanos_per_sec = 30"
    by (simp add: nanos_per_sec_def)
  show ?thesis
    using announcement_is_kept [OF demo_busy_values(2,3,1) side(1) demo_busy_values(4) [symmetric] side(2-4),
        of "''vm''" "''web''" ?applied]
    unfolding demo_busy_values(5,6) secs by (elim exE conjE, intro exI) simp
qed

end
