(* ===== verification/Service_Logs.thy ===== *)
theory Service_Logs
  imports Startup Per_VM_Logs
begin

section \<open>What the daemon tells at its start (daemon.rs, main.rs, per_vm_log.rs)\<close>

text \<open>
  The records of the start, the legend of the status lines and the filter of the main log.  The JSON
  encoder and the filters of the logging framework are arguments.
\<close>

text \<open>\<open>VERSION\<close>: the value of \<open>IO_THREAD_CONTROLLER_VERSION\<close> when the daemon
  was built.\<close>

definition daemon_version :: "string option \<Rightarrow> string" where
  "daemon_version built_with = (case built_with of Some v \<Rightarrow> v | None \<Rightarrow> ''unknown'')"

definition per_vm_destination :: "config \<Rightarrow> string" where
  "per_vm_destination cfg =
     (if cfg_enable_per_vm_status_line cfg
      then if cfg_enable_per_vm_main_log cfg then ''main log''
           else ''/var/log/io-thread-controller/vms/<vm>.log''
      else ''disabled'')"

definition per_vm_legend :: string where
  "per_vm_legend =
     ''# per-VM line: status=<threads> <read IOPS> <write IOPS> <other IOPS> '' @
     ''<IOPS 1m> <IOPS 5m> <IOPS 15m> <read BW MB/s> <write BW MB/s> '' @
     ''<average CPU> <median CPU> <total CPU> '' @
     ''<read lat us p50> <read lat us p95> <read lat us p99> <read lat us avg> '' @
     ''<write lat us p50> <write lat us p95> <write lat us p99> <write lat us avg> '' @
     ''<us/IOP 1m> <us/IOP 5m> <us/IOP 15m>''"

definition aggregate_legend :: string where
  "aggregate_legend = ''# aggregate line: <instances> <threads> <IOPS 1m> <IOPS 5m> <IOPS 15m>''"

datatype 'j startup_log =
    PerVmLogging bool bool string
  | StatusLegend string
  | ControllerConfig 'j
  | EngineConfig string 'j
  | BackendConfig string 'j

text \<open>\<open>log_effective_config\<close>; the configurations are encoded by the caller.\<close>

definition log_effective_config ::
  "'j \<Rightarrow> string \<times> 'j \<Rightarrow> (string \<times> 'j) list \<Rightarrow> 'j startup_log list" where
  "log_effective_config cfg engine backends =
     [ControllerConfig cfg, EngineConfig (fst engine) (snd engine)] @
     map (\<lambda>(name, dump). BackendConfig name dump) backends"

text \<open>What \<open>run\<close> logs before its controller exists.\<close>

definition startup_logs ::
  "(config \<Rightarrow> 'j) \<Rightarrow> config \<Rightarrow> string \<times> 'j \<Rightarrow> (string \<times> 'j) list \<Rightarrow> 'j startup_log list" where
  "startup_logs encode cfg engine backends =
     [PerVmLogging (cfg_enable_per_vm_status_line cfg) (cfg_enable_per_vm_main_log cfg) (per_vm_destination cfg)] @
     (if cfg_print_status_header cfg
      then [StatusLegend per_vm_legend, StatusLegend aggregate_legend] else []) @
     log_effective_config (encode cfg) engine backends"

text \<open>\<open>main\<close>: the line on standard error, if any, and the exit code.\<close>

datatype exit_code = ExitSuccess | ExitFailure

definition main_result :: "('e \<Rightarrow> string) \<Rightarrow> 'e + unit \<Rightarrow> string option \<times> exit_code" where
  "main_result show_error r =
     (case r of
        Inr _ \<Rightarrow> (None, ExitSuccess)
      | Inl e \<Rightarrow> (Some (''error: '' @ show_error e), ExitFailure))"

text \<open>
  \<open>main_log_filter\<close> over the operations of the framework's \<open>EnvFilter\<close>: parsing
  directives, and adding one.  Directives that do not parse give way to \<open>info\<close>.
\<close>

definition main_log_filter ::
  "(string \<Rightarrow> 'x + 'f) \<Rightarrow> (string \<Rightarrow> 'f) \<Rightarrow> (string \<Rightarrow> 'f \<Rightarrow> 'f) \<Rightarrow> string \<Rightarrow> 'f" where
  "main_log_filter try_new new_filter add_directive directives =
     add_directive ''per_vm=off''
       (case try_new directives of Inr f \<Rightarrow> f | Inl _ \<Rightarrow> new_filter ''info'')"

text \<open>\<open>init_logging\<close>: the format of the main log, with its target and its time, the filter of
  the main log and that of the per-VM files.\<close>

record logging_setup =
  lgs_json :: bool
  lgs_target :: bool
  lgs_time :: bool

definition main_log_format :: "bool \<Rightarrow> log_style \<Rightarrow> logging_setup" where
  "main_log_format journal style =
     (case effective_style journal style of
        StyleSystemd \<Rightarrow> \<lparr>lgs_json = False, lgs_target = True, lgs_time = False\<rparr>
      | StyleJson \<Rightarrow> \<lparr>lgs_json = True, lgs_target = True, lgs_time = True\<rparr>
      | _ \<Rightarrow> \<lparr>lgs_json = False, lgs_target = True, lgs_time = True\<rparr>)"

definition init_logging ::
  "(string \<Rightarrow> 'x + 'f) \<Rightarrow> (string \<Rightarrow> 'f) \<Rightarrow> (string \<Rightarrow> 'f \<Rightarrow> 'f) \<Rightarrow> string \<Rightarrow> bool \<Rightarrow> log_style \<Rightarrow> 'p \<Rightarrow>
   (logging_setup \<times> 'f) \<times> ('p \<times> string)"
where
  "init_logging try_new new_filter add_directive directives journal style per_vm_log =
     ((main_log_format journal style, main_log_filter try_new new_filter add_directive directives),
      (per_vm_log, ''info''))"

subsection \<open>The lines agree with their legends\<close>

text \<open>The columns a legend announces.\<close>

definition legend_columns :: "string \<Rightarrow> nat" where
  "legend_columns s = length (filter (\<lambda>c. c = CHR ''<'') s)"

lemma optional_cell_parts [simp]: "part_count (CHR '' '') (optional_cell v) = 1"
  by (simp add: optional_cell_def split: option.split)

lemma format_optional_cells_parts:
  "cells \<noteq> [] \<Longrightarrow> part_count (CHR '' '') (format_optional_cells cells '' '') = length cells"
  by (simp add: format_optional_cells_def part_count_join comp_def sum_list_triv)

lemma format_latency_cell_parts [simp]: "part_count (CHR '' '') (format_latency_cell l '' '') = 4"
  by (simp add: format_latency_cell_def part_count_join del: join.simps split: option.split)

lemma format_1_5_15_parts [simp]: "part_count (CHR '' '') (format_1_5_15 g '' '' m) = 3"
  by (simp add: format_1_5_15_def part_count_join del: join.simps)

lemma status_line_parts:
  "part_count (CHR '' '') (format_instance_status_line median s (map f status_windows)) = 23"
proof -
  have "part_count (CHR '' '') (format_optional_cells (map f status_windows) '' '') = 3"
    by (subst format_optional_cells_parts) (simp_all add: status_windows_def)
  then show ?thesis
    by (simp add: format_instance_status_line_def Let_def part_count_prefix part_count_join
        del: join.simps append_Cons)
qed

lemma show_int_parts [simp]: "0 \<le> n \<Longrightarrow> part_count (CHR '' '') (show_int n) = 1"
  using dec_digits_chars [of n] by (intro part_count_free) (auto simp: show_int_def)

lemma instance_status_events_kinds:
  assumes "e \<in> set (instance_status_events cfg median i)"
  shows "e = emit_instance_status_main i (map (\<lambda>w. iops_over w (st_rolling (inst_status i))) status_windows) \<or>
    e = StatusFile (inst_id i) (format_instance_status_line median (inst_status i)
      (map (\<lambda>w. iops_over w (st_rolling (inst_status i))) status_windows))"
  using assms
  by (auto simp: instance_status_events_def emit_instance_status_file_def Let_def split: if_splits)

text \<open>Every line of a VM's log has one value for each column of the legend, present or
  \<open>-\<close>, and so has the aggregate line.\<close>

lemma status_lines_match_legends:
  "StatusFile vm line \<in> set (emit_status_lines env c) \<Longrightarrow>
     part_count (CHR '' '') line = legend_columns per_vm_legend"
  "StatusAggregate line \<in> set (emit_status_lines env c) \<Longrightarrow>
     part_count (CHR '' '') line = legend_columns aggregate_legend"
proof -
  have columns: "legend_columns per_vm_legend = 23" "legend_columns aggregate_legend = 5"
    by code_simp+
  show "part_count (CHR '' '') line = legend_columns per_vm_legend"
    if "StatusFile vm line \<in> set (emit_status_lines env c)"
    using that unfolding columns
    by (auto simp: emit_status_lines_def Let_def emit_instance_status_main_def status_line_parts
        dest!: instance_status_events_kinds split: if_splits)
  have "part_count (CHR '' '') (format_optional_cells (map (aggregate_iops fleet) status_windows) '' '') = 3" for fleet
    by (subst format_optional_cells_parts) (simp_all add: status_windows_def)
  then have "part_count (CHR '' '') (join '' '' [show_int (int n), show_word m,
      format_optional_cells (map (aggregate_iops fleet) status_windows) '' '']) = 5" for n and m :: u64 and fleet
    by (simp add: part_count_join del: join.simps)
  then show "part_count (CHR '' '') line = legend_columns aggregate_legend"
    if "StatusAggregate line \<in> set (emit_status_lines env c)"
    using that unfolding columns
    by (auto simp: emit_status_lines_def Let_def emit_instance_status_main_def
        simp del: join.simps dest!: instance_status_events_kinds split: if_splits)
qed

text \<open>The destination that is logged is a file exactly when the files are written.\<close>

lemma destination_matches_log_dir:
  "per_vm_log_dir rootp cfg \<noteq> None \<longleftrightarrow> per_vm_destination cfg = ''/var/log/io-thread-controller/vms/<vm>.log''"
  by (simp add: per_vm_log_dir_def per_vm_destination_def)

end
