(* ===== verification/Config_Tests.thy ===== *)
theory Config_Tests
  imports Documents
begin

section \<open>The tests of the configuration and of the registry (config.rs, state.rs)\<close>

text \<open>
  The repository's unit tests, run on the model.  A test is a truth value that repeats the assertions;
  JSON texts are given as their values, the text of an error by its kind where serde\_json writes it, and
  the root path is the default one.
\<close>

definition test_root :: path where
  "test_root = [RootDir]"

text \<open>\<open>validate_config(..).unwrap().finish()\<close>.\<close>

definition validate_and_finish :: "config \<Rightarrow> config_error + config" where
  "validate_and_finish cfg =
     result_bind (validate_config cfg) (\<lambda>(cfg, durations).
     result_bind (converter_finish durations) (\<lambda>_. Inr cfg))"

text \<open>An error whose text holds all of the given parts.\<close>

definition fails_with :: "(config_error + 'a) \<Rightarrow> string list \<Rightarrow> bool" where
  "fails_with r parts =
     (case r of Inr _ \<Rightarrow> False | Inl e \<Rightarrow> list_all (\<lambda>part. contains_str part (show_config_error e)) parts)"

text \<open>\<open>(a - b).abs() < f64::EPSILON\<close>.\<close>

definition f64_close :: "f64 \<Rightarrow> f64 \<Rightarrow> bool" where
  "f64_close a b = (case f64_sub a b of Fin r \<Rightarrow> f64_lt (Fin \<bar>r\<bar>) (Fin (1 / 2 ^ 52)) | _ \<Rightarrow> False)"

subsection \<open>config.rs\<close>

definition default_config_is_valid :: bool where
  "default_config_is_valid \<longleftrightarrow>
     (let cfg = config_default test_root
      in cfg_engine cfg = ''threshold'' \<and> cfg_scale_poll_secs cfg = 10 \<and>
         (case validate_and_finish cfg of Inl _ \<Rightarrow> False | Inr _ \<Rightarrow> True))"

definition validate_rejects_empty_engine :: bool where
  "validate_rejects_empty_engine \<longleftrightarrow>
     fails_with (validate_config ((config_default test_root)\<lparr>cfg_engine := []\<rparr>)) [''engine must be non-empty'']"

definition validate_rejects_zero_poll :: bool where
  "validate_rejects_zero_poll \<longleftrightarrow>
     fails_with (validate_config ((config_default test_root)\<lparr>cfg_scale_poll_secs := 0\<rparr>))
       [''scale_poll_secs must be > 0'']"

definition test_validate_rejects_cooldown_not_poll_multiple :: bool where
  "test_validate_rejects_cooldown_not_poll_multiple \<longleftrightarrow>
     (let cfg = (config_default test_root)\<lparr>cfg_cooldown_secs := 25\<rparr>
      in fails_with (validate_and_finish cfg)
           [''cooldown_secs (25) is not a multiple of scale_poll_secs (10); nearest valid values: 20 or 30'',
            ''--round-up-durations''] \<and>
         (case validate_config cfg of Inl _ \<Rightarrow> False | Inr (cfg, _) \<Rightarrow> cfg_cooldown_secs cfg = 25))"

definition test_validate_rounds_up_cooldown :: bool where
  "test_validate_rounds_up_cooldown \<longleftrightarrow>
     (case validate_and_finish ((config_default test_root)\<lparr>cfg_cooldown_secs := 25, cfg_round_up_durations := True\<rparr>) of
        Inl _ \<Rightarrow> False | Inr cfg \<Rightarrow> cfg_cooldown_secs cfg = 30)"

definition test_poll_converter :: bool where
  "test_poll_converter \<longleftrightarrow>
     (let converter = converter_new \<lparr>pp_secs = 4, pp_round_up = False\<rparr>;
          (zero, _, converter) = polls ''zero'' 0 converter;
          (exact, _, converter) = polls ''exact'' 12 converter;
          (_, _, converter) = polls ''short'' 1 converter;
          (_, _, converter) = polls ''long'' 30 converter
      in zero = 0 \<and> exact = 3 \<and>
         fails_with (converter_finish converter)
           [''short (1) is not a multiple of scale_poll_secs (4); nearest valid values: 0 or 4'',
            ''long (30) is not a multiple of scale_poll_secs (4); nearest valid values: 28 or 32'']) \<and>
     (let converter = converter_new \<lparr>pp_secs = 4, pp_round_up = True\<rparr>;
          (long, secs, converter) = polls ''long'' 30 converter
      in long = 8 \<and> secs = 32 \<and> converter_finish converter = Inr ())"

definition required_fields :: "json \<Rightarrow> (string \<times> json) list" where
  "required_fields poll =
     [(''engine'', JString ''foo''), (''engine_config_dir'', JString ''/engines''),
      (''backend_config_dir'', JString ''/backends''), (''scale_poll_secs'', poll),
      (''vm_state_path'', JString ''/path/to/vm-state'')]"

definition test_durations_must_be_integers :: bool where
  "test_durations_must_be_integers \<longleftrightarrow>
     config_of_json test_root (JObject (required_fields (JFloat (Fin (15 / 2))))) = Inl (InvalidType ''u64'')"

text \<open>Loading a file that holds the text of one document, without an include.\<close>

definition load_document :: "json \<Rightarrow> (config_error + config) option" where
  "load_document doc =
     (let p = [RootDir, Normal ''config.json'']
      in load_json_with_includes (\<lambda>j. result_map_err (\<lambda>_. ''document'') (config_of_json test_root j)) 1 test_root
           (\<lambda>_. Inr (None, doc)) (\<lambda>_ patch. patch) (JObject []) (\<lambda>_. None) (\<lambda>q. if q = p then Some ''text'' else None) p)"

definition load_config_round_trips_required_fields :: bool where
  "load_config_round_trips_required_fields \<longleftrightarrow>
     (case load_document (JObject
        [(''engine'', JString ''threshold''),
         (''engine_config_dir'', JString ''/etc/io-thread-controller/engines''),
         (''backend_config_dir'', JString ''/etc/io-thread-controller/backends''),
         (''scale_poll_secs'', JNumber 7),
         (''vm_state_path'', JString ''/var/lib/io-thread-controller/vm-state.json'')]) of
        Some (Inr cfg) \<Rightarrow>
          cfg_engine cfg = ''threshold'' \<and> cfg_scale_poll_secs cfg = 7 \<and>
          path_text (cfg_engine_config_dir cfg) = ''/etc/io-thread-controller/engines''
      | _ \<Rightarrow> False)"

definition load_config_rejects_unknown_fields :: bool where
  "load_config_rejects_unknown_fields \<longleftrightarrow>
     (case load_document (JObject
        [(''engine'', JString ''threshold''), (''engine_config_dir'', JString ''/engines''),
         (''backend_config_dir'', JString ''/backends''), (''scale_poll_secs'', JNumber 1),
         (''not_a_real_field'', JBool True)]) of
        Some (Inl (ConfigJson _)) \<Rightarrow> True
      | _ \<Rightarrow> False)"

definition has_entry :: "string \<Rightarrow> json \<Rightarrow> json \<Rightarrow> bool" where
  "has_entry k v doc = (case doc of JObject obj \<Rightarrow> map_of obj k = Some v | _ \<Rightarrow> False)"

definition dump_default_config_contains_engine :: bool where
  "dump_default_config_contains_engine \<longleftrightarrow>
     (let dumped = config_json (config_default test_root)
      in has_entry ''engine'' (JString ''threshold'') dumped \<and> has_entry ''scale_poll_secs'' (JNumber 10) dumped \<and>
         has_entry ''engine_config_dir'' (JString ''/etc/io-thread-controller.d/engines'') dumped)"

definition controller_policy_defaults_round_trip :: bool where
  "controller_policy_defaults_round_trip \<longleftrightarrow>
     (case config_of_json test_root (JObject
        [(''engine'', JString ''foo''), (''engine_config_dir'', JString ''/path/to/engines''),
         (''backend_config_dir'', JString ''/path/to/backends''), (''scale_poll_secs'', JNumber 42),
         (''vm_state_path'', JString ''/path/to/vm-state.json'')]) of
        Inl _ \<Rightarrow> False
      | Inr cfg \<Rightarrow>
          cfg_min_thread_count cfg = 1 \<and> cfg_max_thread_count cfg = 8 \<and>
          f64_close (cfg_host_cpu_scale_up_ceiling cfg) (f64_lit (9 / 10)) \<and> cfg_cooldown_secs cfg = 30 \<and>
          \<not> cfg_round_up_durations cfg \<and>
          has_entry ''host_cpu_scale_up_ceiling_percent'' (JFloat (Fin 90)) (config_json cfg))"

definition test_cgroup_refresh_defaults_to_false :: bool where
  "test_cgroup_refresh_defaults_to_false \<longleftrightarrow>
     \<not> cfg_refresh_cgroup_on_each_read (config_default test_root) \<and>
     (case config_of_json test_root (JObject (required_fields (JNumber 10))) of
        Inl _ \<Rightarrow> False | Inr cfg \<Rightarrow> \<not> cfg_refresh_cgroup_on_each_read cfg)"

lemma config_tests:
  default_config_is_valid validate_rejects_empty_engine validate_rejects_zero_poll
  test_validate_rejects_cooldown_not_poll_multiple test_validate_rounds_up_cooldown test_poll_converter
  test_durations_must_be_integers load_config_round_trips_required_fields load_config_rejects_unknown_fields
  dump_default_config_contains_engine controller_policy_defaults_round_trip test_cgroup_refresh_defaults_to_false
  by code_simp+


subsection \<open>state.rs\<close>

text \<open>The codec of a test: the one document it writes, and its value.\<close>

definition no_faults :: save_faults where
  "no_faults = \<lparr>sf_create_dir = None, sf_write = None, sf_rename = None\<rparr>"

definition registry_path :: path where
  "registry_path = [RootDir, Normal ''tmp'', Normal ''ownership.json'']"

definition ownership_round_trips_in_one_file :: bool where
  "ownership_round_trips_in_one_file \<longleftrightarrow>
     (case result_bind (record_vm ownership_default ''managed'' True) (\<lambda>r. record_vm r ''../unmanaged'' False) of
        Inl _ \<Rightarrow> False
      | Inr expected \<Rightarrow>
          (case store_save (encode_ownership (\<lambda>_. ''text'')) ''1'' no_faults registry_path expected (\<lambda>_. None) of
             (Inl _, _) \<Rightarrow> False
           | (Inr _, trace) \<Rightarrow>
               let fs = last trace
               in (case store_load (decode_ownership (\<lambda>_. []) (\<lambda>s.
                     if s = ''text'' then Inr (ownership_json expected) else Inl [])) None fs registry_path of
                     Inl _ \<Rightarrow> False
                   | Inr loaded \<Rightarrow> managed_vms loaded = managed_vms expected \<and> unmanaged_vms loaded = unmanaged_vms expected) \<and>
                  length (filter (\<lambda>p. fs p \<noteq> None) [registry_path, store_tmp ''1'' registry_path]) = 1))"

definition missing_state_uses_defaults :: bool where
  "missing_state_uses_defaults \<longleftrightarrow>
     (case store_load (decode_ownership (\<lambda>_. []) (\<lambda>_. Inl [])) None (\<lambda>_. None) registry_path of
        Inl _ \<Rightarrow> False
      | Inr r \<Rightarrow> managed_vms r = {} \<and> unmanaged_vms r = {})"

definition overlapping_classifications_are_rejected :: bool where
  "overlapping_classifications_are_rejected \<longleftrightarrow>
     (case store_load (decode_ownership (\<lambda>_. []) (\<lambda>_. Inr (JObject
        [(''managed_vms'', JArray [JString ''same'']), (''unmanaged_vms'', JArray [JString ''same''])])))
        None (\<lambda>p. if p = registry_path then Some ''text'' else None) registry_path of
        Inl _ \<Rightarrow> True | Inr _ \<Rightarrow> False)"

lemma state_tests:
  ownership_round_trips_in_one_file missing_state_uses_defaults overlapping_classifications_are_rejected
  by code_simp+

end
