(* ===== verification/Unit_Tests.thy ===== *)
theory Unit_Tests
  imports Wire Service_Logs Config_Tests Discovery
begin

section \<open>Further unit tests (rolling.rs, backends, engines/mod.rs, instance.rs, per\_vm\_log.rs)\<close>

text \<open>
  As for the configuration: a test is a truth value that repeats the assertions of the repository's test on the
  model, and the lemmas at the end of each part run it.  \<open>Instant::now()\<close> is zero and the kernel counts
  a hundred ticks a second.
\<close>

subsection \<open>rolling.rs\<close>

definition test_ticks :: f64 where
  "test_ticks = f64_of_int 100"

definition first_sample_only_establishes_baseline :: bool where
  "first_sample_only_establishes_baseline \<longleftrightarrow>
     rolling_is_empty (push_from_procfs_delta test_ticks 0 10 20 rolling_new)"

definition rates_use_real_elapsed_time :: bool where
  "rates_use_real_elapsed_time \<longleftrightarrow>
     (let t0 = 0;
          m = push_from_procfs_delta test_ticks t0 10 20 rolling_new;
          m = push_from_procfs_delta test_ticks (t0 + 2 * nanos_per_sec) 210 120 m
      in iops_over (60 * nanos_per_sec) m = Some 100 \<and>
         cpu_us_per_io_over (60 * nanos_per_sec) m = Some 5000)"

definition counter_reset_replaces_baseline :: bool where
  "counter_reset_replaces_baseline \<longleftrightarrow>
     (let t0 = 0;
          m = push_from_procfs_delta test_ticks t0 100 100 rolling_new;
          m = push_from_procfs_delta test_ticks (t0 + nanos_per_sec) 10 10 m
      in rolling_is_empty m)"

lemma rolling_tests:
  first_sample_only_establishes_baseline rates_use_real_elapsed_time counter_reset_replaces_baseline
  by code_simp+

subsection \<open>backends/qemu/helpers.rs\<close>

definition round_robin_distributes_evenly :: bool where
  "round_robin_distributes_evenly \<longleftrightarrow>
     (let mapping = round_robin_vq_mapping [''iot0'', ''iot1'', ''iot2''] 7
      in map (\<lambda>m. length (vm_vqs m)) mapping = [3, 2, 2] \<and>
         map vm_vqs mapping = [[0, 3, 6], [1, 4], [2, 5]])"

definition next_id_fills_gaps_in_order :: bool where
  "next_id_fills_gaps_in_order \<longleftrightarrow>
     fst (next_qemu_iothread_id [''iot0'', ''iot2''] 0) = ''iot1'' \<and>
     fst (next_qemu_iothread_id [''iot0'', ''iot1''] 0) = ''iot2''"

definition quoted :: "string \<Rightarrow> string" where
  "quoted s = CHR 0x22 # s @ [CHR 0x22]"

definition topology_parses_prometheus_body :: bool where
  "topology_parses_prometheus_body \<longleftrightarrow>
     (let body = ''# HELP foo'' @ ''\<newline>'' @
            ''qemu_iothread_info{id='' @ quoted ''iot0'' @ '',tid='' @ quoted ''123'' @ ''} 1'' @ ''\<newline>'' @
            ''qemu_iothread_info{id='' @ quoted ''iot1'' @ '',tid='' @ quoted ''124'' @ ''} 1'' @ ''\<newline>'' @
            ''qemu_iothread_info{id='' @ quoted ''dirtybitmap'' @ '',tid='' @ quoted ''999'' @ ''} 1'' @ ''\<newline>'' @
            ''qemu_virtio_scsi_num_queues{device='' @ quoted ''/machine/peripheral/scsi0'' @ ''} 4'' @ ''\<newline>'';
          topo = topology_new body
      in qt_iothreads topo = [''iot0'', ''iot1''] \<and>
         map_of (qt_iothread_tids topo) ''iot0'' = Some 123 \<and>
         qt_device_path topo = ''/machine/peripheral/scsi0'' \<and>
         qt_vq_count topo = 4 \<and>
         qt_vq_inflight topo = [])"

definition test_topology_parses_vq_inflight_for_managed_device :: bool where
  "test_topology_parses_vq_inflight_for_managed_device \<longleftrightarrow>
     (let inflight = (\<lambda>device vq n. ''qemu_virtio_scsi_vq_inflight{device='' @ quoted device @ '',vq='' @ quoted vq @
            ''} '' @ n @ ''\<newline>'');
          queues = (\<lambda>device n. ''qemu_virtio_scsi_num_queues{device='' @ quoted device @ ''} '' @ n @ ''\<newline>'');
          scsi0 = ''/machine/peripheral/scsi0'';
          scsi1 = ''/machine/peripheral/scsi1'';
          topo = topology_new (inflight scsi0 ''1'' ''7'' @ inflight scsi0 ''0'' ''3'' @ queues scsi0 ''2'' @
            queues scsi1 ''1'' @ inflight scsi1 ''0'' ''99'')
      in qt_device_path topo = scsi0 \<and> qt_vq_inflight topo = [3, 7])"

lemma first_ids: "iothread_id 0 = ''iot0''" "iothread_id 1 = ''iot1''" "iothread_id 2 = ''iot2''"
  by code_simp+

lemma helper_tests:
  round_robin_distributes_evenly topology_parses_prometheus_body
  test_topology_parses_vq_inflight_for_managed_device
  by code_simp+

lemma next_id_test: next_id_fills_gaps_in_order
proof -
  have "[0..<n] = 0 # 1 # 2 # [3..<n]" if "3 < n" for n :: nat
    using that by (simp add: upt_conv_Cons eval_nat_numeral)
  from this [of 1024] show ?thesis
    by (simp add: next_id_fills_gaps_in_order_def next_qemu_iothread_id_def first_ids
        first_ids(2) [unfolded One_nat_def] del: upt_rec_numeral)
qed

subsection \<open>backends/qemu/libvirt.rs\<close>

text \<open>A reply is given with its value, and the text of its return value.\<close>

definition reply_codec :: "json \<Rightarrow> string \<Rightarrow> qmp_codec" where
  "reply_codec j raw = wire_codec (\<lambda>_. []) (\<lambda>_. Inr j) (\<lambda>_. raw)"

definition xml_matches_virtio_scsi_variants :: bool where
  "xml_matches_virtio_scsi_variants \<longleftrightarrow>
     (let q = (\<lambda>s. [CHR 0x27] @ s @ [CHR 0x27])
      in xml_has_virtio_scsi (''<controller type='' @ q ''scsi'' @ '' index='' @ q ''0'' @ '' model='' @ q ''virtio-scsi'' @ ''>'') \<and>
         xml_has_virtio_scsi (''<controller type='' @ quoted ''scsi'' @ '' index='' @ quoted ''0'' @ '' model='' @
           quoted ''virtio-scsi'' @ ''/>'') \<and>
         \<not> xml_has_virtio_scsi (''<controller type='' @ q ''scsi'' @ '' model='' @ q ''lsi'' @ ''/>'') \<and>
         \<not> xml_has_virtio_scsi (''<disk type='' @ q ''file'' @ ''/>''))"

definition parse_envelope_extracts_return :: bool where
  "parse_envelope_extracts_return \<longleftrightarrow>
     (let raw = ''{'' @ quoted ''foo'' @ '':42}'';
          body = ''{'' @ quoted ''return'' @ '':'' @ raw @ ''}'';
          j = JObject [(''return'', JObject [(''foo'', JNumber 42)])]
      in parse_qmp_envelope (reply_codec j raw) ''query'' body = Inr raw)"

definition parse_envelope_surfaces_qmp_error :: bool where
  "parse_envelope_surfaces_qmp_error \<longleftrightarrow>
     (let j = JObject [(''error'', JObject [(''class'', JString ''GenericError''), (''desc'', JString ''boom'')])]
      in case parse_qmp_envelope (reply_codec j []) ''query'' [] of
           Inl (QemuQmp cmd cls desc) \<Rightarrow> cls = ''GenericError'' \<and> desc = ''boom''
         | _ \<Rightarrow> False)"

definition parse_blockstats_sums_across_devices :: bool where
  "parse_blockstats_sums_across_devices \<longleftrightarrow>
     (let disk = (\<lambda>rd wr flush unmap rd_bytes wr_bytes. JObject [(''stats'', JObject
            [(''rd_operations'', JNumber rd), (''wr_operations'', JNumber wr), (''flush_operations'', JNumber flush),
             (''unmap_operations'', JNumber unmap), (''rd_bytes'', JNumber rd_bytes), (''wr_bytes'', JNumber wr_bytes)])]);
          j = JArray [disk 100 200 3 1 4096 8192, disk 50 25 0 0 2048 1024]
      in case parse_blockstats (reply_codec j []) [] of
           Inr (Some p) \<Rightarrow> perf_read_io_count p = 150 \<and> perf_write_io_count p = 225 \<and> perf_other_io_count p = 4 \<and>
             perf_read_bytes_total p = 6144 \<and> perf_write_bytes_total p = 9216 \<and>
             total_io_count p = 150 + 225 + 4
         | _ \<Rightarrow> False)"

definition parse_blockstats_empty_returns_unavailable :: bool where
  "parse_blockstats_empty_returns_unavailable \<longleftrightarrow>
     parse_blockstats (reply_codec (JArray []) []) ''[]'' = Inr None"

lemma libvirt_tests:
  xml_matches_virtio_scsi_variants parse_envelope_extracts_return parse_envelope_surfaces_qmp_error
  parse_blockstats_sums_across_devices parse_blockstats_empty_returns_unavailable
  by code_simp+

subsection \<open>backends/mod.rs\<close>

text \<open>
  A pass over a directory with one socket: what connecting to it gives, and its inode, if it is there.  That a
  pass does not connect shows in that it finds the VM although connecting would fail.
\<close>

definition test_socket_env :: "u64 option \<Rightarrow> io_failure + (io_failure + i32 option) \<Rightarrow> path \<Rightarrow> socket_env" where
  "test_socket_env inode connect p =
     \<lparr>se_metadata = (case inode of None \<Rightarrow> Inl (OtherKind, ''no such file'') | Some ino \<Rightarrow> Inr (1, ino)),
      se_start_before = (\<lambda>_. Some 77), se_connect = connect, se_start_after = (\<lambda>_. Some 77)\<rparr>"

definition discover_pass ::
  "u64 option \<Rightarrow> bool \<Rightarrow> peer_cache \<Rightarrow> (string \<times> i32) list option \<times> peer_cache" where
  "discover_pass inode connects cache =
     (case discover_via_control_socket test_root [RootDir, Normal ''run''] ''ctl''
         (test_socket_env inode (if connects then Inr (Inr (Some 42)) else Inl (OtherKind, ''not tried''))) (\<lambda>_. ())
         (Inr [Inr \<lparr>de_name = Some ''vm-a'', de_is_dir = Some True\<rparr>]) cache of
        (Inl _, cache) \<Rightarrow> (None, cache)
      | (Inr insts, cache) \<Rightarrow> (Some (map (\<lambda>i :: (unit, unit) vm_instance. (inst_id i, inst_pid i)) insts), cache))"

definition test_discovery_reuses_identified_control_socket_peer :: bool where
  "test_discovery_reuses_identified_control_socket_peer \<longleftrightarrow>
     (let (first, cache1) = discover_pass (Some 5) True (\<lambda>_. None);
          (second, cache2) = discover_pass (Some 5) False cache1;
          (rebound, cache3) = discover_pass (Some 6) True cache2;
          (gone, cache4) = discover_pass None True cache3
      in first = Some [(''vm-a'', 42)] \<and> second = Some [(''vm-a'', 42)] \<and>
         fst (discover_pass (Some 6) False cache2) = Some [] \<and> rebound = Some [(''vm-a'', 42)] \<and>
         gone = Some [] \<and> cache4 (socket_path test_root [RootDir, Normal ''run''] ''ctl'' ''vm-a'') = None)"

lemma discovery_test: test_discovery_reuses_identified_control_socket_peer
  by code_simp

subsection \<open>engines/mod.rs\<close>

definition scale_action_target_and_display :: bool where
  "scale_action_target_and_display \<longleftrightarrow>
     target Hold = None \<and> target (Up 4) = Some 4 \<and> target (Down 2) = Some 2 \<and> target (Revert 3) = Some 3 \<and>
     show_action Hold = ''none'' \<and> show_action (Up 1) = ''up'' \<and> show_action (Down 1) = ''down'' \<and>
     show_action (Revert 1) = ''revert''"

definition instance_decision_new_preserves_fields :: bool where
  "instance_decision_new_preserves_fields \<longleftrightarrow>
     (let decision = instance_decision_new ''vm-1'' (Up 5)
      in dec_instance_id decision = ''vm-1'' \<and> dec_action decision = Up 5)"

text \<open>An engine whose state counts the evaluations.\<close>

definition per_instance_engine :: "string \<Rightarrow> instance_status \<Rightarrow> tick_context \<Rightarrow> nat \<Rightarrow> scale_action \<times> nat" where
  "per_instance_engine i s ctxt calls = (Hold, calls + 1)"

definition default_fleet_evaluation_skips_ineligible_instances :: bool where
  "default_fleet_evaluation_skips_ineligible_instances \<longleftrightarrow>
     (let status = (\<lambda>i. inst_status (instance_new i [] 0 () :: (unit, unit) vm_instance));
          (plan, calls) = evaluate_fleet per_instance_engine
            [(''first'', status ''first''), (''sticky'', (status ''sticky'')\<lparr>st_manual_scaling_sticky := True\<rparr>)]
            (tick_context_default 0) 0
      in calls = 1 \<and> plan = [instance_decision_new ''first'' Hold])"

lemma engine_tests:
  scale_action_target_and_display instance_decision_new_preserves_fields
  default_fleet_evaluation_skips_ineligible_instances
  by code_simp+

subsection \<open>instance.rs\<close>

text \<open>The clients of the tests; the state of a client is its number of threads, or whether it was closed.\<close>

definition snapshot_client :: "u32 client_ops" where
  "snapshot_client = client_defaults (\<lambda>_ threads. (Inr (), threads))
     (\<lambda>threads. (Inr \<lparr>tps_thread_count = threads, tps_vcpu_count = 2, tps_perf = None, tps_per_thread_util = None\<rparr>,
        threads)) (\<lambda>threads. threads)"

definition failing_client :: "bool client_ops" where
  "failing_client = client_defaults (\<lambda>_ closed. (Inr (), closed))
     (\<lambda>closed. (Inl (Disconnected ''gone''), closed)) (\<lambda>_. True)"

text \<open>What the host says about the process is not part of the tests; they hold whatever it says.\<close>

definition refresh_state_applies_successful_snapshot :: "proc_env \<Rightarrow> bool" where
  "refresh_state_applies_successful_snapshot env \<longleftrightarrow>
     (case refresh_state test_root test_ticks (\<lambda>(_ :: unit) _. True) snapshot_client False env
         (instance_new ''vm-ok'' [] 7 3) of
        (ok, i) \<Rightarrow> ok \<and> st_alive (inst_status i) \<and> st_thread_count (inst_status i) = 3)"

definition refresh_state_marks_failed_instances_dead_and_closes :: "proc_env \<Rightarrow> bool" where
  "refresh_state_marks_failed_instances_dead_and_closes env \<longleftrightarrow>
     (case refresh_state test_root test_ticks (\<lambda>(_ :: unit) _. True) failing_client False env
         (instance_new ''vm-bad'' [] 9 False) of
        (ok, i) \<Rightarrow> \<not> ok \<and> \<not> st_alive (inst_status i) \<and> inst_client i)"

definition display_trims_instance_id :: bool where
  "display_trims_instance_id \<longleftrightarrow>
     show_instance (instance_new ''  vm-1  '' [] 1 1 :: (u32, unit) vm_instance) = ''vm-1''"

text \<open>\<open>(?:worker[0-9]+)\<close> matches anywhere in a name.\<close>

definition worker_match :: "string \<Rightarrow> string \<Rightarrow> bool" where
  "worker_match pattern name \<longleftrightarrow>
     pattern = ''(?:worker[0-9]+)'' \<and> list_ex (\<lambda>d. contains_str (''worker'' @ [d]) name) ''0123456789''"

definition test_exact_ignore_takes_precedence_over_regex_match :: bool where
  "test_exact_ignore_takes_precedence_over_regex_match \<longleftrightarrow>
     (case thread_name_filter_new Inr ''worker[0-9]+'' [''worker0''] of
        Inl _ \<Rightarrow> False
      | Inr f \<Rightarrow> \<not> filter_matches worker_match f ''worker0'' \<and> filter_matches worker_match f ''worker1-helper'' \<and>
          \<not> filter_matches worker_match f ''backend-main'')"

definition test_task :: "i32 \<Rightarrow> string \<Rightarrow> u64 \<Rightarrow> task_cpu_sample" where
  "test_task tid name ticks = \<lparr>task_tid = tid, task_name = name, task_cpu_ticks = ticks\<rparr>"

definition duplicate_worker_names_keep_independent_deltas :: bool where
  "duplicate_worker_names_keep_independent_deltas \<longleftrightarrow>
     (let previous = [test_task 10 ''worker'' 100, test_task 11 ''worker'' 200];
          current = [test_task 11 ''worker'' 400, test_task 10 ''worker'' 200];
          util = compute_per_worker_util previous current (f64_of_int 500)
      in length util = 2 \<and>
         list_all2 f64_close (map snd util) [f64_lit (4 / 10), f64_lit (2 / 10)])"

definition new_worker_starts_without_a_lifetime_spike :: bool where
  "new_worker_starts_without_a_lifetime_spike \<longleftrightarrow>
     (let previous = [test_task 10 ''worker0'' 100];
          current = [test_task 10 ''worker0'' 200, test_task 11 ''worker1'' 900000];
          util = compute_per_worker_util previous current (f64_of_int 500)
      in length util = 1 \<and> list_all2 f64_close (map snd util) [f64_lit (2 / 10)])"

lemma refresh_tests:
  "refresh_state_applies_successful_snapshot env" "refresh_state_marks_failed_instances_dead_and_closes env"
  by (simp_all add: refresh_state_applies_successful_snapshot_def refresh_state_marks_failed_instances_dead_and_closes_def
      refresh_state_def snapshot_client_def failing_client_def client_defaults_def instance_new_def
      apply_thread_pool_snapshot_def apply_snapshot_fields_def apply_utilisation_def apply_history_def apply_cgroup_def Let_def
      split: option.split)

lemma instance_tests:
  display_trims_instance_id test_exact_ignore_takes_precedence_over_regex_match
  duplicate_worker_names_keep_independent_deltas new_worker_starts_without_a_lifetime_spike
  by code_simp+

subsection \<open>per\_vm\_log.rs\<close>

definition test_dir :: path where
  "test_dir = [RootDir, Normal ''tmp'']"

definition test_log :: per_vm_log where
  "test_log = set_dir (Some test_dir) log_default"

text \<open>The events of the test as their fields; the stamp has no blank.\<close>

definition tagged_events :: "(string \<times> append_fault \<times> (string \<times> string) list) list" where
  "tagged_events = map (\<lambda>fields. (''12:00:00'', NoFault, fields))
     [[(''message'', ''status=1 2 3''), (''vm'', ''vm-a'')],
      [(''message'', ''oops''), (''event'', ''scale_failed''), (''vm'', ''vm-a''), (''target'', ''4'')],
      [(''event'', ''vm_added''), (''vm'', ''vm-a'')],
      [(''message'', ''no VM here'')]]"

definition test_writes_vm_tagged_events_without_vm_field :: bool where
  "test_writes_vm_tagged_events_without_vm_field \<longleftrightarrow>
     (case on_events tagged_events test_log (\<lambda>_. None) of
        (_, _, fs) \<Rightarrow>
          (case log_path ''vm-a'' test_log of
             None \<Rightarrow> False
           | Some p \<Rightarrow>
               (case fs p of
                  None \<Rightarrow> False
                | Some contents \<Rightarrow>
                    map (\<lambda>line. tl (dropWhile (\<lambda>c. c \<noteq> CHR '' '') line)) (lines contents) =
                      [''status=1 2 3'', ''oops event=scale_failed target=4'', ''event=vm_added''])))"

definition test_disabled_writes_nothing :: bool where
  "test_disabled_writes_nothing \<longleftrightarrow>
     (case on_event ''12:00:00'' NoFault [(''message'', ''status=1''), (''vm'', ''vm-a'')] log_default (\<lambda>_. None) of
        (warned, l, fs) \<Rightarrow> warned = None \<and> log_path ''vm-a'' l = None \<and> fs [RootDir, Normal ''vm-a.log''] = None)"

lemma log_tests: test_writes_vm_tagged_events_without_vm_field test_disabled_writes_nothing
  by code_simp+

text \<open>One file in the directory, and none while the files are disabled.\<close>

lemma test_log_path: "log_path ''vm-a'' test_log = Some (test_dir @ [Normal ''vm-a.log''])"
  by code_simp

lemma log_file_count:
  "dom (snd (snd (on_events tagged_events test_log (\<lambda>_. None)))) = {test_dir @ [Normal ''vm-a.log'']}"
  "snd (snd (on_event stamp fault entries log_default fs)) = fs"
proof -
  have "pl_dir test_log \<noteq> None"
    by (simp add: test_log_def set_dir_def)
  then show "dom (snd (snd (on_events tagged_events test_log (\<lambda>_. None)))) = {test_dir @ [Normal ''vm-a.log'']}"
    by (simp add: tagged_events_def on_event_def record_field_def record_default_def append_log_def append_file_def
        test_log_path Let_def)
qed (simp add: on_event_def log_default_def)

end
