(* ===== verification/Controller_Tests.thy ===== *)
theory Controller_Tests
  imports Unit_Tests
begin

section \<open>The tests of the controller (controller.rs)\<close>

text \<open>
  The unit tests of the controller on the model, run by the lemmas at the end of each part.  Clocks stand still
  at zero, the registry is not there at the start, and its encoding never fails.  Where a test also reads back
  the per-VM log file, those assertions are left out: which events reach a file is the subject of the per-VM
  log and its own tests.
\<close>

definition controller_test_config :: config where
  "controller_test_config = (config_default test_root)\<lparr>cfg_vm_state_path := [RootDir, Normal ''tmp'', Normal ''ownership.json'']\<rparr>"

definition test_env :: "'c client_ops \<Rightarrow> 'e engine_ops \<Rightarrow> ('c, unit, 'e) controller_env" where
  "test_env client engine =
     \<lparr>ce_client = client, ce_engine = engine, ce_is_match = (\<lambda>_ _. True), ce_ticks_per_second = test_ticks,
      ce_root = test_root, ce_process_id = ''1'', ce_encode = (\<lambda>_. Inr ''saved''), ce_median = (\<lambda>_. Fin 0),
      ce_version = ''1'', ce_snapshot_json = (\<lambda>_. []), ce_stats_json = (\<lambda>_ _. []), ce_mapping_json = (\<lambda>_. Inr []),
      ce_parse_mapping = (\<lambda>_. Inr [])\<rparr>"

text \<open>\<open>Controller::new(..).unwrap()\<close> with an engine; a test that fails to get one fails.\<close>

definition with_controller :: "config \<Rightarrow> 'e \<Rightarrow> (('c, unit, 'e) controller \<Rightarrow> bool) \<Rightarrow> bool" where
  "with_controller cfg engine test =
     (case controller_new (\<lambda>_. Inl []) None (\<lambda>_. None) cfg engine of Inl _ \<Rightarrow> False | Inr c \<Rightarrow> test c)"

definition default_threshold_engine :: "threshold_engine option" where
  "default_threshold_engine =
     (case config_poll_period (config_default test_root) of
        None \<Rightarrow> None
      | Some period \<Rightarrow>
          (case threshold_new threshold_config_default (converter_new period) of
             Inl _ \<Rightarrow> None
           | Inr (e, durations) \<Rightarrow> (case converter_finish durations of Inl _ \<Rightarrow> None | Inr _ \<Rightarrow> Some e)))"

definition with_threshold :: "config \<Rightarrow> (('c, unit, threshold_engine) controller \<Rightarrow> bool) \<Rightarrow> bool" where
  "with_threshold cfg test =
     (case default_threshold_engine of None \<Rightarrow> False | Some e \<Rightarrow> with_controller cfg e test)"

subsection \<open>Actuation\<close>

text \<open>The client's state is its target.\<close>

definition vcpu_limited_client :: "u32 client_ops" where
  "vcpu_limited_client = client_defaults (\<lambda>count _. (Inr (), count))
     (\<lambda>tgt. (Inr \<lparr>tps_thread_count = tgt, tps_vcpu_count = 4, tps_perf = None, tps_per_thread_util = None\<rparr>, tgt))
     (\<lambda>tgt. tgt)"

definition one_vm :: "string \<Rightarrow> u32 \<Rightarrow> u32 \<Rightarrow> bool option \<Rightarrow> (u32, unit, 'e) controller \<Rightarrow> (u32, unit, 'e) controller" where
  "one_vm vm threads vcpus managed c =
     set_instance vm ((instance_new vm [] 0 threads)\<lparr>inst_status := (inst_status (instance_new vm [] 0 threads :: (u32, unit) vm_instance))
       \<lparr>st_thread_count := threads, st_vcpu_count := vcpus, st_ownership_classification := managed\<rparr>\<rparr>) c"

text \<open>
  Decisions for the VM in order, each with what it is expected to answer, if the test looks at it, and the
  target after it.
\<close>

fun decisions :: "string \<Rightarrow> (scale_action \<times> bool option \<times> u32) list \<Rightarrow> (u32, unit, threshold_engine) controller \<Rightarrow> bool" where
  "decisions vm [] c = True"
| "decisions vm ((action, applied, tgt) # steps) c =
     (case apply_engine_decision (test_env vcpu_limited_client threshold_ops) demo_readings vm action c of
        (Inl _, _) \<Rightarrow> False
      | (Inr ok, c') \<Rightarrow>
          (applied = None \<or> applied = Some ok) \<and>
          map_option inst_client (hm_get (ct_instances c') vm) = Some tgt \<and> decisions vm steps c')"

definition reclassified :: "string \<Rightarrow> bool \<Rightarrow> (u32, unit, 'e) controller \<Rightarrow> (u32, unit, 'e) controller" where
  "reclassified vm managed c =
     (case hm_get (ct_instances c) vm of
        None \<Rightarrow> c
      | Some i \<Rightarrow> set_instance vm (i\<lparr>inst_status := (inst_status i)\<lparr>st_ownership_classification := Some managed\<rparr>\<rparr>) c)"

definition decided :: "string \<Rightarrow> scale_action \<Rightarrow> (u32, unit, threshold_engine) controller \<Rightarrow> (u32, unit, threshold_engine) controller" where
  "decided vm action c = snd (apply_engine_decision (test_env vcpu_limited_client threshold_ops) demo_readings vm action c)"

definition cooling :: "string \<Rightarrow> ('c, 'r, 'e) controller \<Rightarrow> bool" where
  "cooling vm c =
     (case hm_get (ct_instances c) vm of None \<Rightarrow> False | Some i \<Rightarrow> st_cooldown_until (inst_status i) \<noteq> None)"

definition actuation_enforces_vcpu_cap :: bool where
  "actuation_enforces_vcpu_cap \<longleftrightarrow>
     (let vm = ''some-vcpu-limited-test-instance'';
          cfg = controller_test_config\<lparr>cfg_cooldown_secs := 0\<rparr>
      in with_threshold cfg (\<lambda>c.
           let c0 = one_vm vm 2 4 (Some True) c;
               c3 = decided vm (Down 3) (decided vm (Up 5) (decided vm (Up 4) c0))
           in decisions vm [(Up 4, None, 4), (Up 5, None, 4), (Down 3, None, 3)] c0 \<and>
              decisions vm [(Up 4, None, 3), (Down 2, None, 3)] (reclassified vm False c3)))"

definition actuation_enforces_controller_bounds_and_host_ceiling :: bool where
  "actuation_enforces_controller_bounds_and_host_ceiling \<longleftrightarrow>
     (let vm = ''policy-guarded'';
          cfg = controller_test_config\<lparr>cfg_min_thread_count := 2, cfg_max_thread_count := 3,
            cfg_host_cpu_scale_up_ceiling := f64_lit (1 / 2), cfg_cooldown_secs := 30\<rparr>
      in with_threshold cfg (\<lambda>c.
           let c0 = (one_vm vm 2 4 None c)\<lparr>ct_host_cpu_util := f64_lit (1 / 2)\<rparr>;
               c1 = (decided vm (Up 3) c0)\<lparr>ct_host_cpu_util := Fin 0\<rparr>
           in decisions vm [(Up 3, None, 2)] c0 \<and>
              decisions vm [(Up 3, None, 2), (Down 2, None, 2), (Revert 2, None, 2), (Down 1, None, 2), (Up 4, None, 2)] c1))"

definition revert_arms_cooldown_blocking_immediate_retry :: bool where
  "revert_arms_cooldown_blocking_immediate_retry \<longleftrightarrow>
     (let vm = ''revert-cooldown'';
          cfg = controller_test_config\<lparr>cfg_cooldown_secs := 30, cfg_min_thread_count := 1, cfg_max_thread_count := 8\<rparr>
      in with_threshold cfg (\<lambda>c.
           let c0 = one_vm vm 4 8 (Some True) c
           in decisions vm [(Revert 3, Some True, 3), (Up 4, Some False, 3), (Down 2, Some False, 3)] c0 \<and>
              cooling vm (decided vm (Revert 3) c0)))"

definition revert_bypasses_existing_cooldown :: bool where
  "revert_bypasses_existing_cooldown \<longleftrightarrow>
     (let vm = ''revert-bypass'';
          cfg = controller_test_config\<lparr>cfg_cooldown_secs := 60, cfg_min_thread_count := 1, cfg_max_thread_count := 8\<rparr>
      in with_threshold cfg (\<lambda>c.
           let c0 = one_vm vm 3 8 (Some True) c
           in decisions vm [(Up 4, Some True, 4), (Revert 3, Some True, 3)] c0 \<and> cooling vm (decided vm (Up 4) c0)))"

lemma actuation_test1: actuation_enforces_vcpu_cap
  by code_simp

lemma actuation_test2: actuation_enforces_controller_bounds_and_host_ceiling
  by code_simp

lemma actuation_test3: revert_arms_cooldown_blocking_immediate_retry
  by code_simp

lemma actuation_test4: revert_bypasses_existing_cooldown
  by code_simp

subsection \<open>Setting every VM\<close>

text \<open>The client's state: whether it fails, and its target.\<close>

definition bulk_client :: "(bool \<times> u32) client_ops" where
  "bulk_client = client_defaults
     (\<lambda>n (fail, tgt). if fail then (Inl (Protocol ''injected failure''), (fail, tgt)) else (Inr (), (fail, n)))
     (\<lambda>(fail, tgt). (Inr \<lparr>tps_thread_count = tgt, tps_vcpu_count = 16, tps_perf = None, tps_per_thread_util = Some (Fin 0)\<rparr>,
        (fail, tgt))) (\<lambda>x. x)"

definition bulk_instance :: "string \<Rightarrow> bool \<Rightarrow> (bool \<times> u32, unit) vm_instance" where
  "bulk_instance vm fail =
     (let i = instance_new vm [] 0 (fail, 1) in i\<lparr>inst_status := (inst_status i)\<lparr>st_vcpu_count := 16\<rparr>\<rparr>)"

definition test_set_all_attempts_every_vm_and_reports_partial_failure :: bool where
  "test_set_all_attempts_every_vm_and_reports_partial_failure \<longleftrightarrow>
     with_threshold controller_test_config (\<lambda>c.
       case handle_set_all_thread_counts (test_env bulk_client threshold_ops) 4 True
           (set_instance ''hidden'' (bulk_instance ''hidden'' True)
             (set_instance ''visible'' (bulk_instance ''visible'' False) c)) of
         ((failed, summary), c') \<Rightarrow>
           failed = 1 \<and>
           (case (hm_get (ct_instances c') ''visible'', hm_get (ct_instances c') ''hidden'') of
              (Some good, Some bad) \<Rightarrow>
                snd (inst_client good) = 4 \<and> snd (inst_client bad) = 1 \<and>
                st_manual_scaling_sticky (inst_status good) \<and> \<not> st_manual_scaling_sticky (inst_status bad)
            | _ \<Rightarrow> False) \<and>
           contains_str ''1/2'' summary \<and> contains_str ''hidden: injected failure'' summary)"

lemma set_all_test: test_set_all_attempts_every_vm_and_reports_partial_failure
  by code_simp

subsection \<open>Synchronisation and ticks\<close>

datatype test_client = Snapshot u32 nat | Failing

definition test_client_ops :: "test_client client_ops" where
  "test_client_ops = client_defaults (\<lambda>_ client. (Inr (), client))
     (\<lambda>client. (case client of
          Snapshot threads _ \<Rightarrow> Inr \<lparr>tps_thread_count = threads, tps_vcpu_count = 2, tps_perf = None, tps_per_thread_util = None\<rparr>
        | Failing \<Rightarrow> Inl (Transport ''boom''), client))
     (\<lambda>client. (case client of Snapshot threads closes \<Rightarrow> Snapshot threads (closes + 1) | Failing \<Rightarrow> Failing))"

fun closings :: "test_client \<Rightarrow> nat" where
  "closings (Snapshot _ closes) = closes"
| "closings Failing = 0"

record shared_engine =
  se_added :: nat
  se_removed :: nat
  se_evaluated :: nat

definition shared_evaluate :: "string \<Rightarrow> instance_status \<Rightarrow> tick_context \<Rightarrow> shared_engine \<Rightarrow> scale_action \<times> shared_engine" where
  "shared_evaluate i s ctxt e = (Hold, e\<lparr>se_evaluated := se_evaluated e + 1\<rparr>)"

definition shared_ops :: "shared_engine engine_ops" where
  "shared_ops =
     \<lparr>eng_name = ''shared'', eng_evaluate = shared_evaluate, eng_evaluate_fleet = evaluate_fleet shared_evaluate,
      eng_on_applied = (\<lambda>_ _ e. e), eng_on_instance_added = (\<lambda>_ e. e\<lparr>se_added := se_added e + 1\<rparr>),
      eng_on_instance_removed = (\<lambda>_ e. e\<lparr>se_removed := se_removed e + 1\<rparr>)\<rparr>"

definition shared_engine_new :: shared_engine where
  "shared_engine_new = \<lparr>se_added = 0, se_removed = 0, se_evaluated = 0\<rparr>"

definition sync_instances_adds_retains_and_removes :: bool where
  "sync_instances_adds_retains_and_removes \<longleftrightarrow>
     with_controller controller_test_config shared_engine_new (\<lambda>c.
       let env = test_env test_client_ops shared_ops;
           vm = (\<lambda>threads. instance_new ''vm-a'' [] 1 (Snapshot threads 0));
           (counts1, dropped1, c1) = sync_instances env [vm 1] c;
           (counts2, dropped2, c2) = sync_instances env [vm 9] c1;
           (counts3, dropped3, c3) = sync_instances env [] c2
       in counts1 = (1, 0) \<and> length (ct_instances c1) = 1 \<and> se_added (ct_engine c1) = 1 \<and>
          counts2 = (0, 0) \<and> length (ct_instances c2) = 1 \<and>
          sum_list (map (\<lambda>i. closings (inst_client i)) (dropped1 @ dropped2)) = 1 \<and>
          counts3 = (0, 1) \<and> ct_instances c3 = [] \<and> se_removed (ct_engine c3) = 1 \<and> se_evaluated (ct_engine c3) = 0)"

definition tick_refreshes_evaluates_and_drops_failed_instances :: bool where
  "tick_refreshes_evaluates_and_drops_failed_instances \<longleftrightarrow>
     with_controller controller_test_config shared_engine_new (\<lambda>c.
       let env = test_env test_client_ops shared_ops;
           (counts, dropped, c1) = sync_instances env
             [instance_new ''ok'' [] 1 (Snapshot 4 0), instance_new ''bad'' [] 2 Failing] c
       in se_added (ct_engine c1) = 2 \<and>
          (case tick env demo_readings c1 of
             (Inl _, _) \<Rightarrow> False
           | (Inr _, c2) \<Rightarrow>
               ct_tick_index c2 = 1 \<and> hm_keys (ct_instances c2) = [''ok''] \<and>
               map_option (\<lambda>i. st_thread_count (inst_status i)) (hm_get (ct_instances c2) ''ok'') = Some 4 \<and>
               se_evaluated (ct_engine c2) = 1 \<and> se_removed (ct_engine c2) = 1))"

lemma sync_test: sync_instances_adds_retains_and_removes
  by code_simp

lemma tick_test: tick_refreshes_evaluates_and_drops_failed_instances
  by code_simp

subsection \<open>The status line\<close>

definition test_per_vm_status_line_has_fixed_space_separated_fields :: bool where
  "test_per_vm_status_line_has_fixed_space_separated_fields \<longleftrightarrow>
     (let status = status_default;
          empty_line = format_instance_status_line (\<lambda>_. Fin 0) status [None, None, None];
          status = status\<lparr>st_read_latency_us := Some \<lparr>lat_p50 = 1, lat_p95 = 2, lat_p99 = 3, lat_avg = 4\<rparr>\<rparr>;
          full = format_instance_status_line (\<lambda>_. Fin 0) status [Some 1, Some 2, Some 3]
      in list_all (\<lambda>line. CHR ''/'' \<notin> set line \<and> length (split_on (CHR '' '') line) = 23) [empty_line, full] \<and>
         contains_str '' 1 2 3 4 - - - - '' full)"

lemma status_line_test: test_per_vm_status_line_has_fixed_space_separated_fields
  by code_simp

end
