(* ===== verification/Threshold_Tests.thy ===== *)
theory Threshold_Tests
  imports Engine_Logs Controller_Tests
begin

section \<open>The tests of the threshold engine (engines/threshold.rs)\<close>

text \<open>
  The unit tests of the repository, run on the model.  A test is a list of steps over an engine and the
  status of the one instance; it passes when every assertion on the way holds.  Times count from
  \<open>Instant::now()\<close> of the test.  Two tests read what the engine writes to the log; they look at the record
  instead of its rendering.
\<close>

datatype test_step =
    Added
  | Observe u32 f64 u64
  | Applied applied_outcome
  | Baseline u64
  | Evaluates instant scale_action
  | Checks "vm_state \<Rightarrow> bool"

definition test_vm :: string where
  "test_vm = ''vm-1''"

definition test_instance :: instance_status where
  "test_instance = status_default\<lparr>st_perf := Some perf_default\<rparr>"

definition set_observation :: "u32 \<Rightarrow> f64 \<Rightarrow> u64 \<Rightarrow> instance_status \<Rightarrow> instance_status" where
  "set_observation threads per_thread_util io_count s =
     s\<lparr>st_thread_count := threads, st_per_thread_util := per_thread_util,
       st_perf := map_option (\<lambda>p. p\<lparr>perf_read_io_count := io_count\<rparr>) (st_perf s)\<rparr>"

definition context_at :: "instant \<Rightarrow> tick_context" where
  "context_at now = tick_context_default now"

fun do_step :: "test_step \<Rightarrow> threshold_engine \<times> instance_status \<Rightarrow> (threshold_engine \<times> instance_status) option" where
  "do_step Added (e, s) = Some (threshold_on_instance_added test_vm e, s)"
| "do_step (Observe n u io) (e, s) = Some (e, set_observation n u io s)"
| "do_step (Applied outcome) (e, s) = Some (threshold_on_applied test_vm outcome e, s)"
| "do_step (Baseline iops) (e, s) =
     (case hm_get (te_state e) test_vm of
        None \<Rightarrow> None
      | Some v \<Rightarrow> Some (e\<lparr>te_state := hm_insert test_vm (v\<lparr>vs_current_baseline_iops := iops\<rparr>) (te_state e)\<rparr>, s))"
| "do_step (Evaluates now expected) (e, s) =
     (case threshold_evaluate test_vm s (context_at now) e of
        (action, e) \<Rightarrow> if action = expected then Some (e, s) else None)"
| "do_step (Checks holds) (e, s) =
     (case hm_get (te_state e) test_vm of
        None \<Rightarrow> None
      | Some v \<Rightarrow> if holds v then Some (e, s) else None)"

fun test_run :: "test_step list \<Rightarrow> threshold_engine \<times> instance_status \<Rightarrow> (threshold_engine \<times> instance_status) option" where
  "test_run [] st = Some st"
| "test_run (step # steps) st = (case do_step step st of None \<Rightarrow> None | Some st \<Rightarrow> test_run steps st)"

definition test_polls :: "u64 \<Rightarrow> u64" where
  "test_polls count = 10 * count"

definition try_new_engine :: "threshold_config \<Rightarrow> bool \<Rightarrow> config_error + threshold_engine" where
  "try_new_engine cfg round_up =
     result_bind (threshold_new cfg (converter_new \<lparr>pp_secs = 10, pp_round_up = round_up\<rparr>)) (\<lambda>(e, durations).
     result_bind (converter_finish durations) (\<lambda>_. Inr e))"

text \<open>A test that unwraps an engine that is not there fails.\<close>

definition on_engine :: "threshold_config \<Rightarrow> (threshold_engine \<Rightarrow> bool) \<Rightarrow> bool" where
  "on_engine cfg test = (case try_new_engine cfg False of Inl _ \<Rightarrow> False | Inr e \<Rightarrow> test e)"

definition test_passes :: "threshold_config \<Rightarrow> test_step list \<Rightarrow> bool" where
  "test_passes cfg steps = on_engine cfg (\<lambda>e. test_run steps (e, test_instance) \<noteq> None)"

definition secs :: "int \<Rightarrow> instant" where
  "secs n = n * nanos_per_sec"

definition seed_baseline_rate :: "threshold_config \<Rightarrow> u32 \<Rightarrow> u64 \<Rightarrow> instant \<Rightarrow> instant \<Rightarrow> test_step list" where
  "seed_baseline_rate cfg threads baseline_iops t0 t1 =
     (let steady_util = thc_scale_up_threshold cfg
      in [Added, Observe threads steady_util 0, Evaluates t0 Hold,
          Observe threads steady_util baseline_iops, Evaluates t1 Hold])"

definition engine_cfg :: threshold_config where
  "engine_cfg = threshold_config_default\<lparr>thc_scale_up_threshold := f64_lit (8 / 10),
     thc_scale_up_min_gain := f64_lit (5 / 100), thc_scale_validation_delay_secs := 0\<rparr>"

subsection \<open>Validation of a scale\<close>

definition scale_up_revert_fires_on_iops_rate_drop :: bool where
  "scale_up_revert_fires_on_iops_rate_drop \<longleftrightarrow> test_passes engine_cfg
     (seed_baseline_rate engine_cfg 5 100000 (secs 0) (secs 1) @
      [Applied (Success (Up 6) 5 100000 (secs 1)), Observe 6 (f64_lit (6 / 10)) 150000,
       Evaluates (secs 2) (Revert 5)])"

definition scale_up_flat_rate_reverts :: bool where
  "scale_up_flat_rate_reverts \<longleftrightarrow> test_passes engine_cfg
     (seed_baseline_rate engine_cfg 3 100000 (secs 0) (secs 1) @
      [Applied (Success (Up 4) 3 100000 (secs 1)), Observe 4 (f64_lit (6 / 10)) 101000,
       Evaluates (secs 2) (Revert 3)])"

definition scale_up_rate_gain_keeps_scale :: bool where
  "scale_up_rate_gain_keeps_scale \<longleftrightarrow> test_passes engine_cfg
     (seed_baseline_rate engine_cfg 3 100000 (secs 0) (secs 1) @
      [Applied (Success (Up 4) 3 100000 (secs 1)), Observe 4 (f64_lit (6 / 10)) 210000,
       Evaluates (secs 2) Hold])"

definition scale_down_keeps_shrink_when_util_stays_low :: bool where
  "scale_down_keeps_shrink_when_util_stays_low \<longleftrightarrow>
     (let cfg = threshold_config_default\<lparr>thc_scale_up_threshold := f64_lit (8 / 10),
            thc_scale_down_revert_drop := f64_lit (5 / 100), thc_scale_validation_delay_secs := 0,
            thc_scale_down_sustain_secs := test_polls 1\<rparr>
      in test_passes cfg
           (seed_baseline_rate cfg 4 100000 (secs 0) (secs 1) @
            [Applied (Success (Down 1) 4 100000 (secs 1)), Observe 1 (Fin 0) 100001, Evaluates (secs 2) Hold]))"

definition scale_down_reverts_when_util_stays_high_and_iops_drop :: bool where
  "scale_down_reverts_when_util_stays_high_and_iops_drop \<longleftrightarrow>
     (let cfg = threshold_config_default\<lparr>thc_scale_up_threshold := f64_lit (8 / 10),
            thc_scale_down_revert_drop := f64_lit (5 / 100), thc_scale_validation_delay_secs := 0\<rparr>
      in test_passes cfg
           (seed_baseline_rate cfg 4 100000 (secs 0) (secs 1) @
            [Applied (Success (Down 2) 4 100000 (secs 1)), Observe 2 (f64_lit (95 / 100)) 110000,
             Evaluates (secs 2) (Revert 4)]))"

definition no_scale_up_during_pending_validation :: bool where
  "no_scale_up_during_pending_validation \<longleftrightarrow> on_engine engine_cfg (\<lambda>e.
     test_run
       (seed_baseline_rate engine_cfg 4 100000 (secs 0) (secs 1) @
        [Applied (Success (Up 5) 4 100000 (secs 1)), Observe 5 (f64_lit (88 / 100)) 220000] @
        map (\<lambda>i. Evaluates (secs 1 + secs (int i + 1)) Hold) [0..<unat (tp_scale_validation_delay (te_polls e))] @
        [Evaluates (secs 2) Hold, Observe 5 (f64_lit (88 / 100)) 330000, Evaluates (secs 3) (Up 6)])
       (e, test_instance) \<noteq> None)"

definition pending_validation_reverts_regressive_scale :: bool where
  "pending_validation_reverts_regressive_scale \<longleftrightarrow>
     (let cfg = threshold_config_default\<lparr>thc_scale_up_threshold := f64_lit (8 / 10),
            thc_scale_up_min_gain := f64_lit (5 / 100), thc_scale_validation_delay_secs := test_polls 2\<rparr>
      in on_engine cfg (\<lambda>e.
           test_run
             (seed_baseline_rate cfg 4 100000 (secs 0) (secs 1) @
              [Applied (Success (Up 5) 4 100000 (secs 1)), Observe 5 (f64_lit (88 / 100)) 140000] @
              map (\<lambda>i. Evaluates (secs 1 + secs (int i + 1)) Hold) [0..<unat (tp_scale_validation_delay (te_polls e))] @
              [Evaluates (secs 4) (Revert 4)])
             (e, test_instance) \<noteq> None))"

lemma revert_test1: scale_up_revert_fires_on_iops_rate_drop
  by code_simp

lemma revert_test2: scale_up_flat_rate_reverts
  by code_simp

lemma revert_test3: scale_up_rate_gain_keeps_scale
  by code_simp

lemma revert_test4: scale_down_keeps_shrink_when_util_stays_low
  by code_simp

lemma revert_test5: scale_down_reverts_when_util_stays_high_and_iops_drop
  by code_simp

lemma pending_test1: no_scale_up_during_pending_validation
  by code_simp

lemma pending_test2: pending_validation_reverts_regressive_scale
  by code_simp

subsection \<open>Holds and backoffs\<close>

definition hold_cfg :: "u64 \<Rightarrow> u64 \<Rightarrow> threshold_config" where
  "hold_cfg grace recovery = engine_cfg\<lparr>thc_post_revert_up_grace_secs := test_polls grace,
     thc_post_revert_up_recovery_secs := test_polls recovery\<rparr>"

definition failed_up_steps :: "threshold_config \<Rightarrow> test_step list" where
  "failed_up_steps cfg =
     seed_baseline_rate cfg 3 100000 (secs 0) (secs 1) @
     [Applied (Success (Up 4) 3 100000 (secs 1)), Observe 4 (f64_lit (95 / 100)) 101000, Evaluates (secs 2) (Revert 3)]"

definition test_failed_scale_up_grace_then_recovery_baseline :: bool where
  "test_failed_scale_up_grace_then_recovery_baseline \<longleftrightarrow>
     (let cfg = hold_cfg 1 2
      in test_passes cfg
           (failed_up_steps cfg @
            [Observe 3 (f64_lit (4 / 10)) 150000, Evaluates (secs 3) Hold,
             Observe 3 (f64_lit (95 / 100)) 150000, Evaluates (secs 4) Hold,
             Observe 3 (f64_lit (95 / 100)) 250000, Evaluates (secs 5) Hold,
             Observe 3 (f64_lit (95 / 100)) 350000, Evaluates (secs 6) (Up 4),
             Checks (\<lambda>v. vs_current_baseline_iops v = 100000 \<and> vs_post_revert_up_hold v = None)]))"

definition test_scale_down_allowed_during_post_revert_up_hold :: bool where
  "test_scale_down_allowed_during_post_revert_up_hold \<longleftrightarrow>
     (let cfg = (hold_cfg 2 2)\<lparr>thc_scale_down_sustain_secs := test_polls 1\<rparr>
      in test_passes cfg
           (failed_up_steps cfg @ [Observe 3 (Fin 0) 101000, Evaluates (secs 3) (Down 2)]))"

definition test_backoff_polls_doubles_and_caps :: bool where
  "test_backoff_polls_doubles_and_caps \<longleftrightarrow>
     map (\<lambda>n. backoff_polls 3 n 30) [0, 1, 2, 3, 4, 5] = [3, 6, 12, 24, 30, 30] \<and>
     backoff_polls 3 100 30 = 30 \<and> backoff_polls 3 4 0 = 3 \<and> backoff_polls 12 2 5 = 12"

definition apply_and_validate :: "scale_action \<Rightarrow> u32 \<Rightarrow> u64 \<Rightarrow> instant \<Rightarrow> scale_action \<Rightarrow> test_step list" where
  "apply_and_validate action previous_count io_delta start expected =
     (case target action of
        None \<Rightarrow> []
      | Some tgt \<Rightarrow>
          [Baseline 100000, Applied (Success action previous_count 0 start), Observe tgt (f64_lit (95 / 100)) io_delta,
           Evaluates (start + secs 1) expected])"

definition test_failed_scale_ups_back_off_until_kept :: bool where
  "test_failed_scale_ups_back_off_until_kept \<longleftrightarrow>
     (let cfg = (hold_cfg 1 2)\<lparr>thc_post_revert_up_backoff_max_secs := test_polls 12\<rparr>
      in on_engine cfg (\<lambda>e.
           test_run
             (Added # concat (map (\<lambda>(i, grace).
                apply_and_validate (Up 4) 3 1000 (secs (10 * i)) (Revert 3) @
                [Checks (\<lambda>v. uint (vs_consecutive_failed_ups v) = i + 1 \<and> vs_post_revert_up_hold v = Some (Grace grace))])
                [(0, 1), (1, 4), (2, 10), (3, 10)]) @
              apply_and_validate (Up 4) 3 200000 (secs 100) Hold @
              [Checks (\<lambda>v. vs_consecutive_failed_ups v = 0)])
             (e, test_instance) \<noteq> None \<and>
           post_revert_up_grace_polls (te_polls e) 1 = 1))"

definition test_failed_scale_downs_back_off_until_scale_up :: bool where
  "test_failed_scale_downs_back_off_until_scale_up \<longleftrightarrow>
     (let cfg = threshold_config_default\<lparr>thc_scale_up_threshold := f64_lit (8 / 10),
            thc_scale_down_revert_drop := f64_lit (5 / 100), thc_scale_validation_delay_secs := 0,
            thc_scale_down_sustain_secs := test_polls 3, thc_scale_down_backoff_max_secs := test_polls 20\<rparr>
      in on_engine cfg (\<lambda>e.
           test_run
             (Added # concat (map (\<lambda>(i, sustain).
                apply_and_validate (Down 2) 4 1000 (secs (10 * i)) (Revert 4) @
                [Checks (\<lambda>v. uint (vs_consecutive_failed_downs v) = i + 1 \<and>
                   scale_down_sustain_polls (te_polls e) (vs_consecutive_failed_downs v) = sustain)])
                [(0, 6), (1, 12), (2, 20)]) @
              [Applied (Success (Up 5) 4 0 (secs 100)), Checks (\<lambda>v. vs_consecutive_failed_downs v = 0)])
             (e, test_instance) \<noteq> None))"

text \<open>The cases: an action, what it leaves of the counts, and whether the hold stays.\<close>

definition test_reset_after_applied :: bool where
  "test_reset_after_applied \<longleftrightarrow>
     list_all (\<lambda>(action, low, ups, downs, hold).
       let v = (vm_state_new test_vm)\<lparr>vs_low_util_polls := 5, vs_consecutive_failed_ups := 2, vs_consecutive_failed_downs := 3\<rparr>;
           v = reset_after_applied action (begin_post_revert_up_hold 1 v)
       in vs_low_util_polls v = low \<and> vs_consecutive_failed_ups v = ups \<and> vs_consecutive_failed_downs v = downs \<and>
          (vs_post_revert_up_hold v \<noteq> None) = hold)
     [(Up 4, 0, 2, 0, True), (Down 2, 0, 0, 3, False), (Hold, 5, 2, 3, True), (Revert 3, 5, 2, 3, True)]"

lemma hold_test1: test_failed_scale_up_grace_then_recovery_baseline
  by code_simp

lemma hold_test2: test_scale_down_allowed_during_post_revert_up_hold
  by code_simp

lemma backoff_test1: test_backoff_polls_doubles_and_caps
  by code_simp

lemma backoff_test2: test_failed_scale_ups_back_off_until_kept
  by code_simp

lemma backoff_test3: test_failed_scale_downs_back_off_until_scale_up
  by code_simp

lemma reset_test: test_reset_after_applied
  by code_simp

subsection \<open>Records\<close>

definition performance_revert_log_contains_decision_inputs :: bool where
  "performance_revert_log_contains_decision_inputs \<longleftrightarrow>
     (case log_performance_revert ''vm-1'' ''up'' 6 5 155000 122000 (f64_of_int 162750) of
        PerformanceRevert vm reverted_action baseline_iops observed_iops required_iops _ thr \<Rightarrow>
          vm = ''vm-1'' \<and> reverted_action = ''up'' \<and> baseline_iops = 155000 \<and> observed_iops = 122000 \<and>
          required_iops = Fin 162750 \<and> thr = ''6->5''
      | _ \<Rightarrow> False)"

definition scale_up_log_includes_iops_targets :: bool where
  "scale_up_log_includes_iops_targets \<longleftrightarrow> on_engine engine_cfg (\<lambda>e.
     case test_run (seed_baseline_rate engine_cfg 2 100000 (secs 0) (secs 1) @
         [Observe 2 (f64_lit (9 / 10)) 100000]) (e, test_instance) of
       None \<Rightarrow> False
     | Some (e, s) \<Rightarrow>
         fst (threshold_evaluate test_vm s (context_at (secs 1)) e) = Up 3 \<and>
         (case hm_get (te_state e) test_vm of
            None \<Rightarrow> False
          | Some v \<Rightarrow>
              (case evaluation_log (te_cfg e) (te_polls e) (te_poll_period e) test_vm test_vm (context_at (secs 1)) s v of
                 [ScaleUpDecision _ _ _ current_iops min_target_iops validation_after_secs] \<Rightarrow>
                   current_iops = 100000 \<and> min_target_iops = 105000 \<and> validation_after_secs = 10
               | _ \<Rightarrow> False)))"

lemma record_test1: performance_revert_log_contains_decision_inputs
  by code_simp

lemma record_test2: scale_up_log_includes_iops_targets
  by code_simp

subsection \<open>Settings\<close>

definition percent_wire_format_round_trips :: bool where
  "percent_wire_format_round_trips \<longleftrightarrow>
     (case threshold_config_of_json (JObject [(''scale_up_min_gain_percent'', JNumber 10)]) of
        Inl _ \<Rightarrow> False
      | Inr cfg \<Rightarrow>
          f64_close (thc_scale_up_min_gain cfg) (f64_lit (1 / 10)) \<and>
          json_field ''scale_up_min_gain_percent'' (threshold_config_json cfg) = JFloat (Fin 10)) \<and>
     (case threshold_config_of_json (JObject [(''scale_up_revert_drop_percent'', JNumber 10)]) of
        Inl _ \<Rightarrow> True | Inr _ \<Rightarrow> False)"

definition test_validation_polls_increase_with_target_thread_count :: bool where
  "test_validation_polls_increase_with_target_thread_count \<longleftrightarrow>
     on_engine (threshold_config_default\<lparr>thc_scale_validation_delay_secs := test_polls 2,
         thc_scale_validation_delay_per_thread_secs := test_polls 3\<rparr>)
       (\<lambda>e. validation_sample_polls (te_polls e) 1 = 5 \<and> validation_sample_polls (te_polls e) 4 = 14)"

definition missing_config_file_uses_defaults :: bool where
  "missing_config_file_uses_defaults \<longleftrightarrow>
     (case threshold_from_config_dir (\<lambda>_. False) (\<lambda>_. Inl (ConfigJson [])) test_root test_dir
         (converter_new \<lparr>pp_secs = 10, pp_round_up = False\<rparr>) of
        Inl _ \<Rightarrow> False
      | Inr (e, durations) \<Rightarrow>
          (case converter_finish durations of Inl _ \<Rightarrow> False | Inr _ \<Rightarrow> eng_name threshold_ops = engine_name))"

definition test_defaults_are_multiples_of_default_poll_period :: bool where
  "test_defaults_are_multiples_of_default_poll_period \<longleftrightarrow> default_threshold_engine \<noteq> None"

definition test_durations_not_poll_multiples_are_all_rejected :: bool where
  "test_durations_not_poll_multiples_are_all_rejected \<longleftrightarrow>
     fails_with (try_new_engine (threshold_config_default\<lparr>thc_scale_down_sustain_secs := 25,
         thc_post_revert_up_grace_secs := 5\<rparr>) False)
       [''scale_down_sustain_secs (25)'', ''post_revert_up_grace_secs (5)'']"

definition test_rounded_durations_are_used_and_dumped :: bool where
  "test_rounded_durations_are_used_and_dumped \<longleftrightarrow>
     (case try_new_engine (threshold_config_default\<lparr>thc_scale_down_sustain_secs := 25,
         thc_scale_validation_delay_secs := 1\<rparr>) True of
        Inl _ \<Rightarrow> False
      | Inr e \<Rightarrow>
          tp_scale_down_sustain (te_polls e) = 3 \<and> tp_scale_validation_delay (te_polls e) = 1 \<and>
          json_field ''scale_down_sustain_secs'' (threshold_dump_config e) = JNumber 30 \<and>
          json_field ''scale_validation_delay_secs'' (threshold_dump_config e) = JNumber 10)"

definition evaluate_holds_when_util_below_thresholds :: bool where
  "evaluate_holds_when_util_below_thresholds \<longleftrightarrow>
     test_passes threshold_config_default [Evaluates (secs 0) Hold]"

lemma setting_tests:
  percent_wire_format_round_trips test_validation_polls_increase_with_target_thread_count
  missing_config_file_uses_defaults test_defaults_are_multiples_of_default_poll_period
  test_durations_not_poll_multiples_are_all_rejected test_rounded_durations_are_used_and_dumped
  evaluate_holds_when_util_below_thresholds
  by code_simp+

subsection \<open>The registry of engines (engines/mod.rs)\<close>

definition load_registered_engine_finds_threshold_and_rejects_unknown :: bool where
  "load_registered_engine_finds_threshold_and_rejects_unknown \<longleftrightarrow>
     (let engines = [(engine_name, threshold_from_config_dir (\<lambda>_. False) (\<lambda>_. Inl (ConfigJson [])) test_root)];
          dir = [RootDir, Normal ''tmp'', Normal ''missing-engines''];
          durations = converter_new \<lparr>pp_secs = 10, pp_round_up = False\<rparr>
      in (case load_registered_engine engines dir ''threshold'' durations of
            Inl _ \<Rightarrow> False | Inr (_, durations) \<Rightarrow> eng_name threshold_ops = ''threshold'') \<and>
         (case load_registered_engine engines dir ''no-such-engine'' durations of
            Inl (NoSuchEngine name) \<Rightarrow> name = ''no-such-engine'' | _ \<Rightarrow> False))"

lemma registry_test: load_registered_engine_finds_threshold_and_rejects_unknown
  by code_simp

end
