(* ===== verification/Dashboard_View.thy ===== *)
theory Dashboard_View
  imports Dashboard_Keys
begin

section \<open>What the dashboard shows (bin/iothread-tui.rs)\<close>

text \<open>
  The texts, the lines of the plots and the rows of the table, as they are handed to the drawing
  library: its widgets, the placing of axis labels and the painting itself are left out.  Characters
  outside ASCII appear as their UTF-8 bytes.
\<close>

subsection \<open>Themes\<close>

datatype color =
    CReset | CBlack | CRed | CGreen | CYellow | CBlue | CMagenta | CCyan | CGray | CDarkGray | CLightRed
  | CLightGreen | CLightYellow | CLightBlue | CLightMagenta | CLightCyan | CWhite
  | CRgb "8 word" "8 word" "8 word"

record theme =
  th_name :: string
  th_palette :: "color list"
  th_aggregate :: color
  th_axis :: color
  th_accent :: color
  th_background :: color

definition themes :: "theme list" where
  "themes =
     [\<lparr>th_name = ''dark'',
       th_palette = [CCyan, CLightMagenta, CLightGreen, CYellow, CLightBlue, CLightRed, CLightCyan, CWhite],
       th_aggregate = CGray, th_axis = CWhite, th_accent = CMagenta, th_background = CBlack\<rparr>,
      \<lparr>th_name = ''light'',
       th_palette = [CBlue, CMagenta, CGreen, CRed, CCyan, CDarkGray, CRgb 0x80 0x60 0x00, CBlack],
       th_aggregate = CBlack, th_axis = CBlack, th_accent = CBlue, th_background = CWhite\<rparr>]"

lemma theme_count_themes: "theme_count = length themes"
  by (simp add: theme_count_def themes_def)

definition ui_theme :: "ui_state \<Rightarrow> theme" where
  "ui_theme ui = themes ! (ui_theme_idx ui mod length themes)"

definition vm_color :: "ui_state \<Rightarrow> nat \<Rightarrow> color" where
  "vm_color ui color_idx = (let p = th_palette (ui_theme ui) in p ! (color_idx mod length p))"

definition dim :: "color \<Rightarrow> color" where
  "dim c =
     (case c of
        CCyan \<Rightarrow> CBlue | CLightMagenta \<Rightarrow> CMagenta | CLightGreen \<Rightarrow> CGreen | CYellow \<Rightarrow> CLightYellow
      | CLightBlue \<Rightarrow> CBlue | CLightRed \<Rightarrow> CRed | CLightCyan \<Rightarrow> CDarkGray | CWhite \<Rightarrow> CGray | other \<Rightarrow> other)"

subsection \<open>Texts\<close>

text \<open>The float format \<open>{:.1}\<close>.\<close>

definition fmt_tenth :: "f64 \<Rightarrow> string" where
  "fmt_tenth v =
     (case v of
        Fin r \<Rightarrow>
          let n = round_half_even (\<bar>r\<bar> * 10)
          in (if r < 0 then ''-'' else []) @ show_int (n div 10) @ ''.'' @ show_int (n mod 10)
      | _ \<Rightarrow> fmt_whole v)"

definition axis_label :: "u64 \<Rightarrow> perf_metric \<Rightarrow> string" where
  "axis_label iop_size m =
     (case m of MetricIops \<Rightarrow> ''IOPS @ '' @ show_word (iop_size div 1024) @ '' KiB'' | MetricBandwidth \<Rightarrow> ''MB/s'')"

definition plot_kind_label :: "plot_kind \<Rightarrow> string" where
  "plot_kind_label k =
     (case k of PlotPerf \<Rightarrow> ''perf'' | PlotLatency \<Rightarrow> ''latency'' | PlotCpu \<Rightarrow> ''cpu'' | PlotQueueDepth \<Rightarrow> ''qd''
      | PlotCpuPerIop \<Rightarrow> ''cpu/iop'')"

definition prompt_title :: "prompt_kind \<Rightarrow> string" where
  "prompt_title k =
     (case k of
        RefreshSecs \<Rightarrow> ''refresh cadence (seconds)''
      | YMax p \<Rightarrow> ''y-max for '' @ plot_kind_label p @ '' (0 clears)''
      | SetThreadsOf vm _ _ \<Rightarrow> ''set thread count for '' @ vm)"

definition column_label :: "dash_column \<Rightarrow> string" where
  "column_label c =
     (case c of ColId \<Rightarrow> ''id'' | ColThreads \<Rightarrow> ''thr'' | ColIops \<Rightarrow> ''iops r/w/o'' | ColBandwidth \<Rightarrow> ''bw r/w''
      | ColCpu \<Rightarrow> ''cpu avg/med/total'' | ColUsPerIop \<Rightarrow> ''us/iop'' | ColLatRead \<Rightarrow> ''lat_r p50/95/99''
      | ColLatWrite \<Rightarrow> ''lat_w p50/95/99'' | ColQueueDepth \<Rightarrow> ''qd avg/med/tot'' | ColNumQueues \<Rightarrow> ''queues'')"

definition column_width :: "dash_column \<Rightarrow> u16" where
  "column_width c =
     (case c of ColId \<Rightarrow> 28 | ColThreads \<Rightarrow> 5 | ColIops \<Rightarrow> 22 | ColBandwidth \<Rightarrow> 20 | ColCpu \<Rightarrow> 18 | ColUsPerIop \<Rightarrow> 8
      | ColLatRead \<Rightarrow> 20 | ColLatWrite \<Rightarrow> 20 | ColQueueDepth \<Rightarrow> 16 | ColNumQueues \<Rightarrow> 8)"

definition humanize :: "f64 \<Rightarrow> string" where
  "humanize v =
     (if v = NaN \<or> f64_le v (Fin 0) then ''0''
      else if f64_le (f64_lit 1000000) v then fmt_whole (f64_div v (f64_lit 1000000)) @ ''M''
      else if f64_le (f64_lit 10000) v then fmt_whole (f64_div v (f64_lit 1000)) @ ''k''
      else fmt_whole v)"

definition fmt_duration_secs :: "f64 \<Rightarrow> string" where
  "fmt_duration_secs s =
     (if \<not> f64_is_finite s \<or> f64_le s (Fin 0) then ''0''
      else if f64_lt s (Fin 1) then show_word (f64_as_word (f64_round (f64_mul s (f64_lit 1000))) :: u64) @ ''ms''
      else if f64_lt (f64_abs (f64_fract s)) (f64_lit (5 / 100)) then show_word (f64_as_word (f64_round s) :: u64) @ ''s''
      else fmt_tenth s @ ''s'')"

definition fmt_cpu_triple :: "u64 option \<Rightarrow> u64 option \<Rightarrow> u64 option \<Rightarrow> f64 \<Rightarrow> string" where
  "fmt_cpu_triple avg median sum_pct fallback =
     (case (avg, median, sum_pct) of
        (Some a, Some m, Some t) \<Rightarrow> show_word a @ ''/'' @ show_word m @ ''/'' @ show_word t
      | _ \<Rightarrow> fmt_whole fallback)"

definition fmt_bandwidth_mbps :: "f64 \<Rightarrow> string" where
  "fmt_bandwidth_mbps mb_per_sec =
     (if \<not> f64_is_finite mb_per_sec \<or> f64_le mb_per_sec (Fin 0) then ''0''
      else let bps = f64_mul mb_per_sec (f64_lit 1000000)
           in if f64_le (f64_lit 1000000000) bps then fmt_tenth (f64_div bps (f64_lit 1000000000)) @ ''GB/s''
              else if f64_le (f64_lit 1000000) bps then fmt_whole (f64_div bps (f64_lit 1000000)) @ ''MB/s''
              else if f64_le (f64_lit 1000) bps then fmt_whole (f64_div bps (f64_lit 1000)) @ ''KB/s''
              else fmt_whole bps @ ''B/s'')"

definition fmt_lat :: "(u64 \<times> u64 \<times> u64) option \<Rightarrow> string" where
  "fmt_lat lat =
     (case lat of
        Some (p50, p95, p99) \<Rightarrow> show_word p50 @ ''/'' @ show_word p95 @ ''/'' @ show_word p99
      | None \<Rightarrow> ''-/-/-'')"

definition fmt_cpu_per_iop :: "f64 \<Rightarrow> string" where
  "fmt_cpu_per_iop v = (if v = NaN then ''NaN'' else fmt_whole v)"

definition fmt_qd :: "latest_status \<Rightarrow> string" where
  "fmt_qd s =
     (case (ls_qd_avg s, ls_qd_median s, ls_qd_total s) of
        (Some a, Some m, Some t) \<Rightarrow> fmt_tenth a @ ''/'' @ show_word m @ ''/'' @ show_word t
      | _ \<Rightarrow> ''-'')"

definition fmt_qd_total :: "u64 option \<Rightarrow> string" where
  "fmt_qd_total t = (case t of Some n \<Rightarrow> ''-/-/'' @ show_word n | None \<Rightarrow> ''-'')"

text \<open>Slicing inside a character panics, which is \<open>None\<close>.\<close>

definition char_boundary :: "nat \<Rightarrow> string \<Rightarrow> bool" where
  "char_boundary n s = (n = length s \<or> n < length s \<and> \<not> (128 \<le> (of_char (s ! n) :: nat) \<and> (of_char (s ! n) :: nat) < 192))"

definition shorten_id :: "string \<Rightarrow> u32 option \<Rightarrow> string option" where
  "shorten_id vm vcpu_count =
     map_option (\<lambda>base. case vcpu_count of Some n \<Rightarrow> base @ '' vc='' @ show_word n | None \<Rightarrow> base)
       (if 22 < length vm
        then if char_boundary 16 vm \<and> char_boundary (length vm - 4) vm
             then Some (take 16 vm @ [CHR 0xE2, CHR 0x80, CHR 0xA6] @ drop (length vm - 4) vm) else None
        else Some vm)"

subsection \<open>The frame's snapshot and the focus\<close>

record render_snapshot =
  rs_vms :: "vm_view list"
  rs_aggregate :: "plot_sample list"
  rs_daemon_error :: "string option"

definition snapshot_shared :: "dash_shared \<Rightarrow> render_snapshot" where
  "snapshot_shared sh =
     \<lparr>rs_vms = sh_vms sh, rs_aggregate = sh_aggregate sh, rs_daemon_error = daemon_error sh\<rparr>"

definition focused_vm_index :: "focus option \<Rightarrow> render_snapshot \<Rightarrow> nat option" where
  "focused_vm_index f snap =
     (case f of
        Some (FocusVm vm) \<Rightarrow>
          if vm \<in> vv_id ` set (rs_vms snap) then Some (length (takeWhile (\<lambda>v. vv_id v \<noteq> vm) (rs_vms snap))) else None
      | _ \<Rightarrow> None)"

definition highlight_indices_perf :: "ui_state \<Rightarrow> render_snapshot \<Rightarrow> nat list" where
  "highlight_indices_perf ui snap =
     (let agg = plots_aggregate ui (length (rs_vms snap)); base = (if agg then 1 else 0)
      in case focused_vm_index (ui_focused ui) snap of
           Some i \<Rightarrow> [base + i]
         | None \<Rightarrow> if ui_focused ui = Some FocusTotal \<and> agg then [0] else [])"

definition highlight_indices_latency :: "ui_state \<Rightarrow> render_snapshot \<Rightarrow> nat list" where
  "highlight_indices_latency ui snap =
     (case focused_vm_index (ui_focused ui) snap of
        Some i \<Rightarrow> let base = 4 * i in [base, base + 1, base + 2, base + 3]
      | None \<Rightarrow> [])"

subsection \<open>The panes\<close>

type_synonym plot_line = "(f64 \<times> f64) list"
type_synonym plot_series = "(color \<times> plot_line) list"
type_synonym annot_point = "f64 \<times> u32 \<times> u32 \<times> f64"

text \<open>One line: the samples in the window that have a value, and the running maximum over them.\<close>

definition plot_points :: "(plot_sample \<Rightarrow> f64 option) \<Rightarrow> f64 \<Rightarrow> plot_sample list \<Rightarrow> plot_line" where
  "plot_points value x_lo samples =
     List.map_filter (\<lambda>s. if f64_lt (ps_t s) x_lo then None else map_option (\<lambda>y. (ps_t s, y)) (value s)) samples"

definition raise_max :: "f64 \<Rightarrow> plot_line \<Rightarrow> f64" where
  "raise_max y_max line = foldl (\<lambda>m (_, y). if f64_lt m y then y else m) y_max line"

text \<open>What \<open>render_line_canvas\<close> is called with.\<close>

record line_canvas =
  lc_title :: string
  lc_y_hi :: f64
  lc_series :: plot_series
  lc_annots :: "(color \<times> annot_point list) list"
  lc_humanize :: bool
  lc_highlight :: "nat list"
  lc_y_max_override :: "f64 option"

text \<open>The panes with one line per VM, the aggregate first.\<close>

definition vm_lines :: "(plot_sample \<Rightarrow> f64 option) \<Rightarrow> f64 \<Rightarrow> ui_state \<Rightarrow> render_snapshot \<Rightarrow> plot_series" where
  "vm_lines value x_lo ui snap =
     (if plots_aggregate ui (length (rs_vms snap))
      then [(th_aggregate (ui_theme ui), plot_points value x_lo (rs_aggregate snap))] else []) @
     map (\<lambda>d. (vm_color ui (vv_color_idx d), plot_points value x_lo (vv_samples d))) (rs_vms snap)"

definition simple_pane ::
  "string \<Rightarrow> plot_kind \<Rightarrow> (plot_sample \<Rightarrow> f64 option) \<Rightarrow> f64 \<Rightarrow> bool \<Rightarrow> f64 \<Rightarrow> ui_state \<Rightarrow> render_snapshot \<Rightarrow>
   line_canvas"
where
  "simple_pane title kind value y_start humanized x_lo ui snap =
     (let series = vm_lines value x_lo ui snap
      in \<lparr>lc_title = title, lc_y_hi = f64_mul (foldl raise_max y_start (map snd series)) (f64_lit (115 / 100)),
          lc_series = series, lc_annots = [], lc_humanize = humanized,
          lc_highlight = highlight_indices_perf ui snap, lc_y_max_override = ui_y_max_override ui kind\<rparr>)"

definition draw_cpu_plot :: "f64 \<Rightarrow> ui_state \<Rightarrow> render_snapshot \<Rightarrow> line_canvas" where
  "draw_cpu_plot = simple_pane ''cpu (%)'' PlotCpu (\<lambda>s. Some (ps_cpu_pct s)) (f64_lit 100) False"

definition draw_qd_plot :: "f64 \<Rightarrow> ui_state \<Rightarrow> render_snapshot \<Rightarrow> line_canvas" where
  "draw_qd_plot = simple_pane ''queue depth'' PlotQueueDepth (\<lambda>s. Some (ps_qd s)) (Fin 1) True"

definition draw_cpu_per_iop_plot :: "f64 \<Rightarrow> ui_state \<Rightarrow> render_snapshot \<Rightarrow> line_canvas" where
  "draw_cpu_per_iop_plot =
     simple_pane (''cpu ('' @ [CHR 0xC2, CHR 0xB5] @ ''s / iop) '' @ [CHR 0xE2, CHR 0x80, CHR 0x94] @ '' lower is better'')
       PlotCpuPerIop (\<lambda>s. if f64_is_finite (ps_cpu_us_per_iop s) then Some (ps_cpu_us_per_iop s) else None) (Fin 1) False"

definition perf_value :: "ui_state \<Rightarrow> plot_sample \<Rightarrow> f64" where
  "perf_value ui s = (case ui_perf_metric ui of MetricIops \<Rightarrow> ps_iops s | MetricBandwidth \<Rightarrow> ps_bw_mb s)"

text \<open>The annotations of one VM; in bandwidth mode they are cut at the maximum of the lines drawn so
  far.\<close>

definition vm_annots :: "f64 \<Rightarrow> ui_state \<Rightarrow> f64 \<Rightarrow> vm_view \<Rightarrow> color \<times> annot_point list" where
  "vm_annots x_lo ui y_max d =
     (vm_color ui (vv_color_idx d),
      map (\<lambda>a. (an_t a, an_old_n a, an_new_n a,
          case ui_perf_metric ui of
            MetricIops \<Rightarrow> an_y_value a
          | MetricBandwidth \<Rightarrow> f64_min (an_y_value a) y_max))
        (filter (\<lambda>a. f64_le x_lo (an_t a)) (vv_annots d)))"

fun perf_annots :: "f64 \<Rightarrow> ui_state \<Rightarrow> f64 \<Rightarrow> vm_view list \<Rightarrow> (color \<times> annot_point list) list" where
  "perf_annots x_lo ui y_max [] = []"
| "perf_annots x_lo ui y_max (d # ds) =
     (let y_max = raise_max y_max (plot_points (\<lambda>s. Some (perf_value ui s)) x_lo (vv_samples d))
      in vm_annots x_lo ui y_max d # perf_annots x_lo ui y_max ds)"

definition draw_perf_plot :: "u64 \<Rightarrow> f64 \<Rightarrow> ui_state \<Rightarrow> render_snapshot \<Rightarrow> line_canvas" where
  "draw_perf_plot iop_size x_lo ui snap =
     (let value = (\<lambda>s. Some (perf_value ui s));
          pane = simple_pane (''perf ('' @ axis_label iop_size (ui_perf_metric ui) @ '')'') PlotPerf value (Fin 1)
            (ui_perf_metric ui = MetricIops) x_lo ui snap;
          start = (if plots_aggregate ui (length (rs_vms snap))
            then raise_max (Fin 1) (plot_points value x_lo (rs_aggregate snap)) else Fin 1);
          annots = perf_annots x_lo ui start (rs_vms snap)
      in pane\<lparr>lc_annots :=
           case ui_focused ui of
             Some (FocusVm _) \<Rightarrow>
               map (\<lambda>(i, c, points). (c, if Some i = focused_vm_index (ui_focused ui) snap then points else []))
                 (enumerate 0 annots)
           | Some FocusTotal \<Rightarrow> map (\<lambda>(c, _). (c, [])) annots
           | None \<Rightarrow> annots\<rparr>)"

text \<open>Four lines per VM, no aggregate; the maximum is the same in whatever order they are visited.\<close>

definition latency_lines :: "f64 \<Rightarrow> ui_state \<Rightarrow> vm_view \<Rightarrow> plot_series" where
  "latency_lines x_lo ui d =
     (let c = vm_color ui (vv_color_idx d);
          line = (\<lambda>value. plot_points (\<lambda>s. map_option f64_of_word (value s)) x_lo (vv_samples d))
      in [(c, line ps_lat_r_avg), (dim c, line (\<lambda>s. map_option (\<lambda>(_, _, p99). p99) (ps_lat_r s))),
          (dim c, line ps_lat_w_avg), (dim (dim c), line (\<lambda>s. map_option (\<lambda>(_, _, p99). p99) (ps_lat_w s)))])"

definition draw_latency_plot :: "f64 \<Rightarrow> ui_state \<Rightarrow> render_snapshot \<Rightarrow> line_canvas" where
  "draw_latency_plot x_lo ui snap =
     (let series = concat (map (latency_lines x_lo ui) (rs_vms snap))
      in \<lparr>lc_title = ''latency ('' @ [CHR 0xC2, CHR 0xB5] @ ''s) '' @ [CHR 0xE2, CHR 0x80, CHR 0x94] @
            '' bright=read avg, dim=read p99 / write avg / write p99'',
          lc_y_hi = f64_mul (foldl raise_max (Fin 1) (map snd series)) (f64_lit (115 / 100)),
          lc_series = series, lc_annots = [], lc_humanize = True,
          lc_highlight = highlight_indices_latency ui snap,
          lc_y_max_override = ui_y_max_override ui PlotLatency\<rparr>)"

definition draw_plot :: "u64 \<Rightarrow> f64 \<Rightarrow> ui_state \<Rightarrow> render_snapshot \<Rightarrow> plot_kind \<Rightarrow> line_canvas" where
  "draw_plot iop_size x_lo ui snap k =
     (case k of
        PlotPerf \<Rightarrow> draw_perf_plot iop_size x_lo ui snap
      | PlotLatency \<Rightarrow> draw_latency_plot x_lo ui snap
      | PlotCpu \<Rightarrow> draw_cpu_plot x_lo ui snap
      | PlotQueueDepth \<Rightarrow> draw_qd_plot x_lo ui snap
      | PlotCpuPerIop \<Rightarrow> draw_cpu_per_iop_plot x_lo ui snap)"

subsection \<open>The canvas\<close>

text \<open>
  What \<open>render_line_canvas\<close> paints, every plot starting at zero: the bounds, the segments of the
  lines in paint order and the marks of thread changes.  The decimal logarithm is an argument.
\<close>

record canvas_picture =
  cp_title :: string
  cp_x_bounds :: "f64 \<times> f64"
  cp_y_bounds :: "f64 \<times> f64"
  cp_segments :: "(color \<times> (f64 \<times> f64) \<times> f64 \<times> f64) list"
  cp_marks :: "(f64 \<times> f64 \<times> color \<times> string) list"

definition y_top :: "line_canvas \<Rightarrow> f64" where
  "y_top lc = f64_max (case lc_y_max_override lc of Some v \<Rightarrow> v | None \<Rightarrow> lc_y_hi lc) (Fin 1)"

definition y_scale :: "(f64 \<Rightarrow> f64) \<Rightarrow> bool \<Rightarrow> f64 \<Rightarrow> f64" where
  "y_scale log10 log_y v = (if log_y then log10 (f64_add v (Fin 1)) else v)"

text \<open>The lines drawn: all of them, or only the highlighted ones.\<close>

definition drawn_series :: "line_canvas \<Rightarrow> plot_series" where
  "drawn_series lc =
     map snd (filter (\<lambda>(i, _). lc_highlight lc = [] \<or> i \<in> set (lc_highlight lc)) (enumerate 0 (lc_series lc)))"

fun segments :: "(f64 \<Rightarrow> f64) \<Rightarrow> color \<Rightarrow> plot_line \<Rightarrow> (color \<times> (f64 \<times> f64) \<times> f64 \<times> f64) list" where
  "segments ty c ((x1, y1) # (x2, y2) # points) =
     (c, (x1, ty y1), (x2, ty y2)) # segments ty c ((x2, y2) # points)"
| "segments ty c _ = []"

definition mark :: "(f64 \<Rightarrow> f64) \<Rightarrow> annot_point \<Rightarrow> f64 \<times> f64 \<times> color \<times> string" where
  "mark ty a =
     (case a of (t, old_n, new_n, y) \<Rightarrow>
        (t, ty y, if old_n \<le> new_n then CLightGreen else CLightRed,
         show_word old_n @ [CHR 0xE2, CHR 0x86, CHR 0x92] @ show_word new_n))"

definition render_line_canvas :: "(f64 \<Rightarrow> f64) \<Rightarrow> f64 \<times> f64 \<Rightarrow> ui_state \<Rightarrow> line_canvas \<Rightarrow> canvas_picture" where
  "render_line_canvas log10 window ui lc =
     (let ty = y_scale log10 (ui_log_y_scale ui); lo = ty (Fin 0); top = y_top lc
      in \<lparr>cp_title = lc_title lc @ ''   y='' @ (if lc_humanize lc then humanize top else fmt_whole top) @
            (if ui_log_y_scale ui then ''  [log]'' else []) @
            (if lc_y_max_override lc \<noteq> None then ''  [locked]'' else []),
          cp_x_bounds = window,
          cp_y_bounds = (lo, f64_max (ty top) (f64_add lo (f64_lit (1 / 1000000000)))),
          cp_segments = concat (map (\<lambda>(c, line). segments ty c line) (drawn_series lc)),
          cp_marks = concat (map (\<lambda>(_, points). map (mark ty) points) (lc_annots lc))\<rparr>)"

text \<open>The text of a time on the axis, elapsed or as the time of day in UTC, and the distance of the
  ticks.\<close>

definition f64_as_i64 :: "f64 \<Rightarrow> i64" where
  "f64_as_i64 v =
     (case v of
        NaN \<Rightarrow> 0
      | PosInf \<Rightarrow> word_of_int (2 ^ 63 - 1)
      | NegInf \<Rightarrow> word_of_int (- (2 ^ 63))
      | Fin r \<Rightarrow> word_of_int (max (- (2 ^ 63)) (min (2 ^ 63 - 1) (if 0 \<le> r then \<lfloor>r\<rfloor> else \<lceil>r\<rceil>))))"

definition pad2 :: "int \<Rightarrow> string" where
  "pad2 n = (if n < 10 then ''0'' else []) @ show_int n"

definition x_label :: "ui_state \<Rightarrow> f64 \<Rightarrow> string" where
  "x_label ui t =
     (if ui_wall_clock_x ui
      then let secs = sint (ui_started_unix_s ui + f64_as_i64 t) mod 86400
           in pad2 (secs div 3600) @ '':'' @ pad2 (secs mod 3600 div 60) @ '':'' @ pad2 (secs mod 60)
      else fmt_whole t @ ''s'')"

definition pick_x_tick_step :: "f64 \<Rightarrow> f64" where
  "pick_x_tick_step width =
     (let steps = map f64_lit [1, 2, 5, 10, 15, 30, 60, 120, 300, 600, 900, 1800, 3600]
      in case find (\<lambda>s. f64_le (f64_div width s) (f64_lit 8)) steps of Some s \<Rightarrow> s | None \<Rightarrow> last steps)"

subsection \<open>Focus\<close>

text \<open>The lines that belong to one VM in a pane.\<close>

definition own_lines :: "f64 \<Rightarrow> ui_state \<Rightarrow> plot_kind \<Rightarrow> vm_view \<Rightarrow> plot_series" where
  "own_lines x_lo ui k d =
     (let one = (\<lambda>value. [(vm_color ui (vv_color_idx d), plot_points value x_lo (vv_samples d))])
      in case k of
           PlotPerf \<Rightarrow> one (\<lambda>s. Some (perf_value ui s))
         | PlotLatency \<Rightarrow> latency_lines x_lo ui d
         | PlotCpu \<Rightarrow> one (\<lambda>s. Some (ps_cpu_pct s))
         | PlotQueueDepth \<Rightarrow> one (\<lambda>s. Some (ps_qd s))
         | PlotCpuPerIop \<Rightarrow> one (\<lambda>s. if f64_is_finite (ps_cpu_us_per_iop s) then Some (ps_cpu_us_per_iop s) else None))"

lemma enumerate_select:
  "i < length xs \<Longrightarrow> map snd (filter (\<lambda>(j, _). j = n + i) (enumerate n xs)) = [xs ! i]"
proof (induction xs arbitrary: n i)
  case (Cons x xs)
  have none: "filter (\<lambda>(j, _). j = n) (enumerate (Suc n) xs) = []"
    by (auto simp: filter_empty_conv in_set_enumerate_eq)
  from Cons.IH [of "i - 1" "Suc n"] Cons.prems none show ?case
    by (cases i) auto
qed simp

lemma enumerate_range:
  "map snd (filter (\<lambda>(j, _). n + a \<le> j \<and> j < n + a + k) (enumerate n xs)) = take k (drop a xs)"
proof (induction xs arbitrary: n a k)
  case (Cons x xs)
  show ?case
  proof (cases a)
    case 0
    have "filter (\<lambda>(j, _). n \<le> j \<and> j < Suc (n + m)) (enumerate (Suc n) xs) =
        filter (\<lambda>(j, _). Suc n \<le> j \<and> j < Suc n + m) (enumerate (Suc n) xs)" for m
      by (rule filter_cong) (auto simp: in_set_enumerate_eq)
    moreover have "filter (\<lambda>(j, _). n \<le> j \<and> j < n) (enumerate (Suc n) xs) = []"
      by (auto simp: filter_empty_conv)
    ultimately show ?thesis
      using Cons.IH [of "Suc n" 0 "k - 1"] 0 by (cases k) simp_all
  next
    case (Suc a')
    then show ?thesis
      using Cons.IH [of "Suc n" a' k] by simp
  qed
qed simp

lemma concat_block:
  "\<forall>x\<in>set xs. length (f x) = k \<Longrightarrow> i < length xs \<Longrightarrow> take k (drop (k * i) (concat (map f xs))) = f (xs ! i)"
proof (induction xs arbitrary: i)
  case (Cons x xs)
  then show ?case
    by (cases i) simp_all
qed simp

lemma enumerate_one:
  "i < length xs \<Longrightarrow> concat (map (\<lambda>p. if fst p = n + i then f (snd p) else []) (enumerate n xs)) = f (xs ! i)"
proof (induction xs arbitrary: n i)
  case (Cons x xs)
  have none: "concat (map (\<lambda>p. if fst p = n then f (snd p) else []) (enumerate (Suc n) xs)) = []"
    by (auto simp: in_set_enumerate_eq)
  from Cons.IH [of "i - 1" "Suc n"] Cons.prems none show ?case
    by (cases i) auto
qed simp

lemma focused_found:
  assumes "ui_focused ui = Some (FocusVm vm)" and "find (\<lambda>d. vv_id d = vm) (rs_vms snap) = Some d"
  obtains i where "focused_vm_index (ui_focused ui) snap = Some i" and "i < length (rs_vms snap)"
    and "rs_vms snap ! i = d"
proof -
  obtain i where i: "i < length (rs_vms snap)" "vv_id (rs_vms snap ! i) = vm" "d = rs_vms snap ! i"
    "\<forall>j<i. vv_id (rs_vms snap ! j) \<noteq> vm"
    using assms(2) by (auto simp: find_Some_iff)
  have "length (takeWhile (\<lambda>v. vv_id v \<noteq> vm) (rs_vms snap)) = i"
    using i by (subst takeWhile_eq_take_P_nth [of i]) auto
  with i that [of i] assms(1) show ?thesis
    by (force simp: focused_vm_index_def)
qed

lemma simple_pane_focused:
  assumes "focused_vm_index (ui_focused ui) snap = Some i" and "i < length (rs_vms snap)"
  shows "drawn_series (simple_pane title kind value y_start humanized x_lo ui snap) =
    [(vm_color ui (vv_color_idx (rs_vms snap ! i)), plot_points value x_lo (vv_samples (rs_vms snap ! i)))]"
proof -
  let ?n = "if plots_aggregate ui (length (rs_vms snap)) then 1 else 0 :: nat"
  let ?series = "vm_lines value x_lo ui snap"
  have "?n + i < length ?series" "?series ! (?n + i) =
      (vm_color ui (vv_color_idx (rs_vms snap ! i)), plot_points value x_lo (vv_samples (rs_vms snap ! i)))"
    using assms(2) by (auto simp: vm_lines_def nth_append)
  with enumerate_select [of "?n + i" ?series 0] assms(1) show ?thesis
    by (simp add: drawn_series_def simple_pane_def highlight_indices_perf_def Let_def)
qed

lemma latency_focused:
  assumes "focused_vm_index (ui_focused ui) snap = Some i" and "i < length (rs_vms snap)"
  shows "drawn_series (draw_latency_plot x_lo ui snap) = latency_lines x_lo ui (rs_vms snap ! i)"
proof -
  have "(\<lambda>(j :: nat, _ :: color \<times> plot_line). j \<in> {4 * i, 4 * i + 1, 4 * i + 2, 4 * i + 3}) =
      (\<lambda>(j, _). 0 + 4 * i \<le> j \<and> j < 0 + 4 * i + 4)"
    by (auto simp: fun_eq_iff)
  moreover have "\<forall>d\<in>set (rs_vms snap). length (latency_lines x_lo ui d) = 4"
    by (simp add: latency_lines_def Let_def)
  ultimately show ?thesis
    using enumerate_range [of 0 "4 * i" 4 "concat (map (latency_lines x_lo ui) (rs_vms snap))"]
      concat_block [of "rs_vms snap" "latency_lines x_lo ui" 4 i] assms
    by (simp add: drawn_series_def draw_latency_plot_def highlight_indices_latency_def Let_def)
qed

text \<open>The annotations in the window, without their height.\<close>

definition marks_shown :: "f64 \<Rightarrow> vm_view \<Rightarrow> (f64 \<times> u32 \<times> u32) list" where
  "marks_shown x_lo d = map (\<lambda>a. (an_t a, an_old_n a, an_new_n a)) (filter (\<lambda>a. f64_le x_lo (an_t a)) (vv_annots d))"

definition without_height :: "annot_point \<Rightarrow> f64 \<times> u32 \<times> u32" where
  "without_height a = (case a of (t, old_n, new_n, _) \<Rightarrow> (t, old_n, new_n))"

lemma perf_annots_spec:
  "map (\<lambda>(_, points). map without_height points) (perf_annots x_lo ui y_max ds) = map (marks_shown x_lo) ds"
  by (induction x_lo ui y_max ds rule: perf_annots.induct)
    (simp_all add: vm_annots_def marks_shown_def without_height_def Let_def)

lemma focused_marks:
  assumes "i < length ds"
  shows "concat (map (\<lambda>p. if fst p = i then map without_height (snd (snd p)) else [])
      (enumerate 0 (perf_annots x_lo ui y_max ds))) = marks_shown x_lo (ds ! i)"
proof -
  let ?annots = "perf_annots x_lo ui y_max ds"
  have len: "length ?annots = length ds"
    using arg_cong [OF perf_annots_spec, of length] by simp
  then have "map (\<lambda>(_, points). map without_height points) ?annots ! i = marks_shown x_lo (ds ! i)"
    using assms by (simp add: perf_annots_spec)
  then show ?thesis
    using enumerate_one [of i ?annots 0 "\<lambda>p. map without_height (snd p)"] assms len
    by (simp add: case_prod_beta)
qed

text \<open>
  Focusing a VM shows that VM and nothing else.  In every pane exactly its own lines are drawn, one
  or in the latency pane four, with or without the aggregate line; the thread changes marked in the
  performance pane are its own that lie in the window, and no other pane marks any.
\<close>

lemma focus_shows_one_vm:
  assumes "ui_focused ui = Some (FocusVm vm)" and "find (\<lambda>d. vv_id d = vm) (rs_vms snap) = Some d"
  shows "drawn_series (draw_plot iop_size x_lo ui snap k) = own_lines x_lo ui k d \<and>
    map without_height (concat (map snd (lc_annots (draw_plot iop_size x_lo ui snap k)))) =
      (if k = PlotPerf then marks_shown x_lo d else [])"
proof -
  obtain i where i: "focused_vm_index (ui_focused ui) snap = Some i" "i < length (rs_vms snap)"
    "rs_vms snap ! i = d"
    using focused_found [OF assms] by metis
  have series: "drawn_series (lc\<lparr>lc_annots := a\<rparr>) = drawn_series lc" for lc a
    by (simp add: drawn_series_def)
  have marks: "map without_height (concat (map (\<lambda>x. snd (case x of (j, c, points) \<Rightarrow> (c, if Some j = Some i then points else [])))
      (enumerate 0 (perf_annots x_lo ui y_max (rs_vms snap))))) = marks_shown x_lo d" for y_max
    using focused_marks [OF i(2), of x_lo ui y_max] i(3)
    by (simp add: map_concat case_prod_beta comp_def if_distrib [of "map without_height"] cong: if_cong)
  show ?thesis
  proof (cases k)
    case PlotPerf
    with marks show ?thesis
      using simple_pane_focused [OF i(1,2)] i(1,3) assms(1)
      by (simp add: draw_plot_def draw_perf_plot_def own_lines_def Let_def series comp_def del: simple_pane_def)
  next
    case PlotLatency
    then show ?thesis
      using latency_focused [OF i(1,2)] i(3)
      by (simp add: draw_plot_def own_lines_def) (simp add: draw_latency_plot_def Let_def)
  qed (use simple_pane_focused [OF i(1,2)] i(3) in
      \<open>simp_all add: draw_plot_def draw_cpu_plot_def draw_qd_plot_def draw_cpu_per_iop_plot_def own_lines_def Let_def\<close>,
      simp_all add: simple_pane_def Let_def)
qed

lemma focus_shows_one_vm_witness:
  "length (drawn_series (draw_plot 4096 (Fin 0) demo_ui (snapshot_shared demo_shared) PlotLatency)) = 4 \<and>
   length (drawn_series (draw_plot 4096 (Fin 0) demo_ui (snapshot_shared demo_shared) PlotCpu)) = 1"
proof -
  have focus: "ui_focused demo_ui = Some (FocusVm ''vm'')"
    by (simp add: demo_ui_def)
  have "find (\<lambda>d. vv_id d = ''vm'') (rs_vms (snapshot_shared demo_shared)) =
      Some (sample_view 1 (Fin 1) (demo_entry ''vm'' 3) (vm_view_new 0 ''vm'' 0))"
    by (simp add: snapshot_shared_def demo_shared_def sample_view_def vm_view_new_def Let_def)
  from focus_shows_one_vm [OF focus this, of 4096 "Fin 0" PlotLatency]
    focus_shows_one_vm [OF focus this, of 4096 "Fin 0" PlotCpu]
  show ?thesis
    by (simp add: own_lines_def latency_lines_def Let_def)
qed

end
