(* ===== verification/Dashboard_Axes.thy ===== *)
theory Dashboard_Axes
  imports Dashboard_View
begin

section \<open>The labels of the axes (bin/iothread-tui.rs)\<close>

text \<open>
  Where \<open>render_line_canvas\<close> puts its labels.  Its loops run over floating-point numbers and end
  only when a number passes a limit, so they are partial functions: \<open>None\<close> is a loop that does not
  end.  Logarithm, power and square root are arguments.
\<close>

subsection \<open>The time axis\<close>

partial_function (option) x_tick_loop :: "f64 \<Rightarrow> f64 \<Rightarrow> f64 \<Rightarrow> f64 list option" where
  "x_tick_loop step limit t =
     (if f64_le t limit then Option.bind (x_tick_loop step limit (f64_add t step)) (\<lambda>ts. Some (t # ts)) else Some [])"

definition x_step :: "f64 \<times> f64 \<Rightarrow> f64" where
  "x_step window = pick_x_tick_step (f64_max (f64_sub (snd window) (fst window)) (Fin 1))"

definition x_ticks :: "f64 \<times> f64 \<Rightarrow> f64 list option" where
  "x_ticks window =
     x_tick_loop (x_step window) (f64_add (snd window) (f64_lit (1 / 1000000)))
       (f64_mul (f64_ceil (f64_div (fst window) (x_step window))) (x_step window))"

definition x_labels :: "ui_state \<Rightarrow> f64 \<times> f64 \<Rightarrow> (f64 \<times> string) list option" where
  "x_labels ui window = map_option (map (\<lambda>t. (t, x_label ui t))) (x_ticks window)"

subsection \<open>The value axis\<close>

definition pick_y_tick_step :: "(f64 \<Rightarrow> f64) \<Rightarrow> (f64 \<Rightarrow> f64 \<Rightarrow> f64) \<Rightarrow> f64 \<Rightarrow> bool \<Rightarrow> f64" where
  "pick_y_tick_step log10 powf y_max whole_units =
     (if \<not> f64_is_finite y_max \<or> f64_le y_max (Fin 0) then Fin 1
      else let target = f64_max (f64_div y_max (f64_lit 6)) (if whole_units then Fin 1 else Fin (pow2 (- 1022)));
               magnitude = powf (f64_lit 10) (f64_floor (log10 target));
               normalized = f64_div target magnitude;
               multiple = (if f64_le normalized (f64_lit 1) then f64_lit 1
                 else if f64_le normalized (f64_lit 2) then f64_lit 2
                 else if f64_le normalized (f64_lit 5) then f64_lit 5 else f64_lit 10)
           in f64_max (f64_mul multiple magnitude) (if whole_units then Fin 1 else Fin 0))"

definition label_is_exact :: "bool \<Rightarrow> f64 \<Rightarrow> bool" where
  "label_is_exact humanized v =
     (let unit = (if \<not> humanized \<or> f64_lt v (f64_lit 10000) then f64_lit 1
            else if f64_lt v (f64_lit 1000000) then f64_lit 1000 else f64_lit 1000000);
          scaled = f64_div v unit
      in f64_lt (f64_abs (f64_sub scaled (f64_round scaled))) (f64_lit (1 / 1000000)))"

text \<open>The \<open>i\<close>-th multiple of an interval above the lower end of the axis.\<close>

definition tick_at :: "f64 \<Rightarrow> f64 \<Rightarrow> nat \<Rightarrow> f64" where
  "tick_at y_lo sub i = f64_add y_lo (f64_mul sub (f64_of_int (int i)))"

definition tick_limit :: "f64 \<Rightarrow> f64 \<Rightarrow> f64" where
  "tick_limit y_hi sub = f64_add y_hi (f64_mul sub (f64_lit (1 / 1000000)))"

partial_function (option) all_exact :: "bool \<Rightarrow> f64 \<Rightarrow> f64 \<Rightarrow> f64 \<Rightarrow> nat \<Rightarrow> bool option" where
  "all_exact humanized y_lo y_hi sub i =
     (if f64_le (tick_at y_lo sub i) (tick_limit y_hi sub)
      then if label_is_exact humanized (tick_at y_lo sub i) then all_exact humanized y_lo y_hi sub (i + 1) else Some False
      else Some True)"

text \<open>The multiples that are not multiples of \<open>d\<close>; the others are skipped before the limit is
  looked at.\<close>

partial_function (option) secondary_ticks :: "nat \<Rightarrow> f64 \<Rightarrow> f64 \<Rightarrow> f64 \<Rightarrow> nat \<Rightarrow> f64 list option" where
  "secondary_ticks d y_lo y_hi sub i =
     (if i mod d = 0 then secondary_ticks d y_lo y_hi sub (i + 1)
      else if f64_le (tick_at y_lo sub i) (tick_limit y_hi sub)
      then Option.bind (secondary_ticks d y_lo y_hi sub (i + 1)) (\<lambda>ts. Some (tick_at y_lo sub i # ts))
      else Some [])"

fun subdivision :: "bool \<Rightarrow> f64 \<Rightarrow> f64 \<Rightarrow> f64 \<Rightarrow> f64 \<Rightarrow> nat list \<Rightarrow> nat option option" where
  "subdivision humanized y_lo y_hi step rows_per_step [] = Some None"
| "subdivision humanized y_lo y_hi step rows_per_step (d # ds) =
     (if f64_le (f64_lit 2) (f64_div rows_per_step (f64_of_int (int d)))
      then Option.bind (all_exact humanized y_lo y_hi (f64_div step (f64_of_int (int d))) 1)
             (\<lambda>ok. if ok then Some (Some d) else subdivision humanized y_lo y_hi step rows_per_step ds)
      else subdivision humanized y_lo y_hi step rows_per_step ds)"

text \<open>The ticks for a given primary interval, those that are primary marked.\<close>

definition ticks_for_step :: "f64 \<Rightarrow> f64 \<Rightarrow> f64 \<Rightarrow> f64 \<Rightarrow> bool \<Rightarrow> (f64 \<times> bool) list option" where
  "ticks_for_step step y_lo y_hi rows humanized =
     (let count = (f64_as_word (f64_max (f64_floor (f64_add (f64_div (f64_sub y_hi y_lo) step) (f64_lit (1 / 1000000)))) (Fin 0)) :: u64);
          primary = map (\<lambda>i. (tick_at y_lo step i, True)) [0..<Suc (unat count)];
          rows_per_step = f64_div (f64_mul rows step) (f64_max (f64_sub y_hi y_lo) (f64_lit (1 / 1000000000)))
      in Option.bind (subdivision humanized y_lo y_hi step rows_per_step [10, 5, 2]) (\<lambda>found.
           case found of
             None \<Rightarrow> Some primary
           | Some d \<Rightarrow>
               map_option (\<lambda>ts. primary @ map (\<lambda>v. (v, False)) ts)
                 (secondary_ticks d y_lo y_hi (f64_div step (f64_of_int (int d))) 1)))"

definition y_axis_ticks ::
  "(f64 \<Rightarrow> f64) \<Rightarrow> (f64 \<Rightarrow> f64 \<Rightarrow> f64) \<Rightarrow> f64 \<Rightarrow> f64 \<Rightarrow> f64 \<Rightarrow> bool \<Rightarrow> (f64 \<times> bool) list option"
where
  "y_axis_ticks log10 powf y_lo y_hi rows humanized =
     ticks_for_step (pick_y_tick_step log10 powf y_hi humanized) y_lo y_hi rows humanized"

declare x_tick_loop.simps [code] all_exact.simps [code] secondary_ticks.simps [code]

text \<open>The rows of the screen the labels get; a row is used once.\<close>

fun place_labels ::
  "(f64 \<Rightarrow> string) \<Rightarrow> (f64 \<Rightarrow> u16) \<Rightarrow> u16 list \<Rightarrow> (f64 \<times> bool) list \<Rightarrow> (u16 \<times> string \<times> bool) list"
where
  "place_labels lbl row used [] = []"
| "place_labels lbl row used ((value, primary) # ticks) =
     (if row value \<in> set used then place_labels lbl row used ticks
      else (row value, lbl value, primary) # place_labels lbl row (row value # used) ticks)"

definition y_labels ::
  "(f64 \<Rightarrow> f64) \<Rightarrow> (f64 \<Rightarrow> f64 \<Rightarrow> f64) \<Rightarrow> (f64 \<Rightarrow> f64) \<Rightarrow> ui_state \<Rightarrow> line_canvas \<Rightarrow> u16 \<Rightarrow> u16 \<Rightarrow> u16 \<Rightarrow>
   (u16 \<times> string \<times> bool) list option"
where
  "y_labels log10 powf sqrtf ui lc y width height =
     (let ty = y_scale log10 (ui_log_y_scale ui); lo = ty (Fin 0); y_max = y_top lc;
          hi = f64_max (ty y_max) (f64_add lo (f64_lit (1 / 1000000000)));
          inner_top = sat_add y 1; inner_height = sat_sub height 2; last_row = sat_sub inner_height 1;
          y_range = f64_max (f64_sub hi lo) (f64_lit (1 / 1000000000));
          row = (\<lambda>v. min (sat_add inner_top
              (f64_as_word (f64_round (f64_mul (f64_div (f64_sub hi (ty v)) y_range) (f64_of_word last_row)))))
            (sat_add inner_top last_row));
          lbl = (if lc_humanize lc then humanize else fmt_whole)
      in map_option (\<lambda>ticks. if sat_sub width 2 = 0 \<or> inner_height = 0 then [] else place_labels lbl row [] ticks)
           (if ui_log_y_scale ui
            then Some [(y_max, True), (sqrtf (f64_mul (f64_max (Fin 0) (Fin 1)) y_max), True), (Fin 0, True)]
            else y_axis_ticks log10 powf (Fin 0) y_max (f64_of_word last_row) (lc_humanize lc)))"

subsection \<open>Rounding between fractions\<close>

lemma round_dyadic:
  assumes "\<bar>n\<bar> \<le> 2 ^ 53" and "j \<le> 1000"
  shows "round_f64 (of_int n / 2 ^ j) = Fin (of_int n / 2 ^ j)"
proof (rule round_f64_exact [where n = n and k = "- int j"])
  show "of_int n / 2 ^ j = of_int n * pow2 (- int j)"
    by (cases "j = 0") (simp_all add: pow2_def)
qed (use assms in simp_all)

lemma round_le_dyadic:
  assumes "round_f64 q = Fin r" and "q \<le> of_int n / 2 ^ j" and "\<bar>n\<bar> \<le> 2 ^ 53" and "j \<le> 1000"
  shows "r \<le> of_int n / 2 ^ j"
  using round_f64_mono [OF assms(2)] round_dyadic [OF assms(3,4)] assms(1) by simp

lemma round_ge_dyadic:
  assumes "round_f64 q = Fin r" and "of_int n / 2 ^ j \<le> q" and "\<bar>n\<bar> \<le> 2 ^ 53" and "j \<le> 1000"
  shows "of_int n / 2 ^ j \<le> r"
  using round_f64_mono [OF assms(2)] round_dyadic [OF assms(3,4)] assms(1) by simp

lemma round_finite:
  assumes "0 \<le> q" and "q \<le> of_int n" and "n \<le> 2 ^ 53"
  obtains r where "round_f64 q = Fin r" and "0 \<le> r" and "r \<le> of_int n"
proof -
  have n: "0 \<le> n"
    using assms(1,2) by (metis of_int_0_le_iff order_trans)
  then have "f64_le (Fin 0) (round_f64 q)" "f64_le (round_f64 q) (Fin (of_int n))"
    using round_f64_mono [OF assms(1)] round_f64_mono [OF assms(2)] round_f64_of_int [of n] assms(3) by simp_all
  with that show ?thesis
    by (cases "round_f64 q") simp_all
qed

subsection \<open>The loop over the time axis\<close>

lemma x_tick_loop_runs:
  assumes "0 < s" and "0 \<le> k" and "k * s \<le> 2 ^ 52" and "s \<le> 2 ^ 51" and "L \<le> 2 ^ 51"
  shows "x_tick_loop (Fin (of_int s)) (Fin L) (Fin (of_int (k * s))) =
    Some (map (\<lambda>j. Fin (of_int (j * s))) [k..\<lfloor>L / of_int s\<rfloor>])"
  using assms(2,3)
proof (induction "nat (\<lfloor>L / of_int s\<rfloor> + 1 - k)" arbitrary: k)
  case 0
  then have "\<lfloor>L / of_int s\<rfloor> < k"
    by simp
  then have "L < of_int (k * s)"
    using assms(1) by (simp add: floor_less_iff divide_less_eq)
  with \<open>\<lfloor>L / of_int s\<rfloor> < k\<close> show ?case
    by (subst x_tick_loop.simps) simp
next
  case (Suc n)
  then have k: "k \<le> \<lfloor>L / of_int s\<rfloor>"
    by linarith
  then have le: "of_int (k * s) \<le> L"
    using assms(1) by (simp add: le_floor_iff le_divide_eq)
  then have "(of_int (k * s) :: rat) \<le> of_int (2 ^ 51)"
    using assms(5) by simp
  then have ks: "k * s \<le> 2 ^ 51"
    unfolding of_int_le_iff .
  then have next_le: "(k + 1) * s \<le> 2 ^ 52"
    using assms(4) by (simp add: algebra_simps)
  have "0 \<le> (k + 1) * s"
    using Suc.prems(1) assms(1) by simp
  then have "f64_add (Fin (of_int (k * s))) (Fin (of_int s)) = Fin (of_int ((k + 1) * s))"
    using round_f64_of_int [of "(k + 1) * s"] next_le by (simp add: algebra_simps)
  moreover have "x_tick_loop (Fin (of_int s)) (Fin L) (Fin (of_int ((k + 1) * s))) =
      Some (map (\<lambda>j. Fin (of_int (j * s))) [k + 1..\<lfloor>L / of_int s\<rfloor>])"
    using Suc.hyps(2) Suc.prems(1) next_le by (intro Suc.hyps(1)) simp_all
  ultimately show ?case
    using k le by (subst x_tick_loop.simps) (simp add: upto_rec1)
qed

lemma lits [simp]:
  "f64_lit 1 = Fin 1" "f64_lit 2 = Fin 2" "f64_lit 5 = Fin 5" "f64_lit 8 = Fin 8" "f64_lit 10 = Fin 10"
  "f64_lit 15 = Fin 15" "f64_lit 30 = Fin 30" "f64_lit 60 = Fin 60" "f64_lit 120 = Fin 120" "f64_lit 300 = Fin 300"
  "f64_lit 600 = Fin 600" "f64_lit 900 = Fin 900" "f64_lit 1800 = Fin 1800" "f64_lit 3600 = Fin 3600"
  by (simp_all add: f64_lit_def round_f64_of_int [of "numeral n" for n, simplified] round_f64_of_int [of 1, simplified])

lemma find_SomeD: "find P xs = Some x \<Longrightarrow> x \<in> set xs \<and> P x"
  by (induction xs) (auto split: if_splits)

lemma pick_x_tick_step_spec:
  obtains s :: int where "pick_x_tick_step width = Fin (of_int s)" and "1 \<le> s" and "s \<le> 3600"
    and "f64_le (f64_div width (Fin 3600)) (Fin 8) \<longrightarrow> f64_le (f64_div width (Fin (of_int s))) (Fin 8)"
proof -
  let ?steps = "[1, 2, 5, 10, 15, 30, 60, 120, 300, 600, 900, 1800, 3600] :: int list"
  have steps: "map f64_lit [1, 2, 5, 10, 15, 30, 60, 120, 300, 600, 900, 1800, 3600] = map (\<lambda>s. Fin (of_int s)) ?steps"
    by simp
  show ?thesis
  proof (cases "find (\<lambda>s. f64_le (f64_div width s) (Fin 8)) (map (\<lambda>s. Fin (of_int s)) ?steps)")
    case None
    then have "\<not> f64_le (f64_div width (Fin 3600)) (Fin 8)"
      unfolding find_None_iff by auto
    with None that [of 3600] show ?thesis
      by (simp add: pick_x_tick_step_def Let_def)
  next
    case (Some x)
    from find_SomeD [OF this] have "x \<in> (\<lambda>s. Fin (of_int s)) ` set ?steps" "f64_le (f64_div width x) (Fin 8)"
      unfolding set_map by (rule conjunct1, rule conjunct2)
    then obtain s where s: "s \<in> set ?steps" "x = Fin (of_int s)" "f64_le (f64_div width x) (Fin 8)"
      by (elim imageE) blast
    then have "1 \<le> s" "s \<le> 3600"
      by auto
    moreover have "pick_x_tick_step width = x"
      using Some unfolding pick_x_tick_step_def Let_def steps lits(4) by (simp only: option.case)
    ultimately show ?thesis
      using that [of s] s(2,3) by simp
  qed
qed

lemma div_le_eight:
  assumes "0 \<le> w" and "1 \<le> s" and "s \<le> 3600" and "f64_le (f64_div (Fin w) (Fin (of_int s))) (Fin 8)"
  shows "w < 8 * of_int s + 1 / 16"
proof (rule ccontr)
  assume "\<not> ?thesis"
  then have "8 * of_int s + 1 / 16 \<le> w"
    by simp
  then have "(of_int (8 * 65536 + 1) / 2 ^ 16 :: rat) \<le> w / of_int s"
    using assms(2,3) by (simp add: field_simps)
  from round_f64_mono [OF this] round_dyadic [of "8 * 65536 + 1" 16] assms(2,4) show False
    by (cases "round_f64 (w / of_int s)") simp_all
qed

lemma round_bits:
  fixes k :: int
  shows "0 \<le> k \<Longrightarrow> k \<le> 2 ^ 37 \<Longrightarrow> \<bar>k * 2 ^ 15 + 1\<bar> \<le> 2 ^ 53" and "0 \<le> k \<Longrightarrow> k \<le> 2 ^ 40 \<Longrightarrow> \<bar>k + 2\<bar> \<le> 2 ^ 53"
  by simp_all

lemma first_tick:
  assumes "0 \<le> a" and "a \<le> 2 ^ 37" and "1 \<le> s" and "s \<le> 3600"
  obtains k :: int where "f64_ceil (f64_div (Fin a) (Fin (of_int s))) = Fin (of_int k)" and "0 \<le> k"
    and "k \<le> 2 ^ 37" and "a - 1 / 8 \<le> of_int (k * s)"
    and "\<forall>j. a \<le> of_int (j * s) \<longrightarrow> k \<le> j"
proof -
  have "a / of_int s \<le> a"
    using assms by (simp add: divide_le_eq mult_le_cancel_left1)
  then obtain c where c: "round_f64 (a / of_int s) = Fin c" "0 \<le> c" "c \<le> 2 ^ 37"
    using round_finite [of "a / of_int s" "2 ^ 37"] assms by force
  let ?k = "\<lceil>c\<rceil>"
  have k: "0 \<le> ?k" "?k \<le> 2 ^ 37"
    using c(2,3) by (simp_all add: ceiling_le_iff less_le_trans [of "- 1 :: rat" 0])
  have "a - 1 / 8 \<le> of_int (?k * s)"
  proof (rule ccontr)
    assume "\<not> ?thesis"
    then have "of_int (?k * s) + 1 / 8 < a"
      by simp
    moreover have "of_int s / 2 ^ 15 \<le> (1 / 8 :: rat)"
      using assms(4) by (simp add: divide_le_eq)
    ultimately have "of_int (?k * 2 ^ 15 + 1) / 2 ^ 15 \<le> a / of_int s"
      using assms(3) by (simp add: field_simps)
    moreover have "\<bar>?k * 2 ^ 15 + 1\<bar> \<le> 2 ^ 53"
      using k by (rule round_bits(1))
    ultimately have "of_int (?k * 2 ^ 15 + 1) / 2 ^ 15 \<le> c"
      by (intro round_ge_dyadic [OF c(1)]) simp_all
    then have "of_int ?k + 1 / 2 ^ 15 \<le> c"
      by (simp add: field_simps)
    then show False
      using le_of_int_ceiling [of c] by (simp add: field_simps)
  qed
  moreover have "?k \<le> j" if "a \<le> of_int (j * s)" for j
  proof (cases "j \<le> 2 ^ 53")
    case True
    have "a / of_int s \<le> of_int j / 2 ^ 0"
      using that assms(3) by (simp add: divide_le_eq)
    moreover have "0 \<le> j"
      using that assms(1,3) by (metis of_int_0_le_iff order_trans zero_le_mult_iff linorder_not_le zero_less_one order_less_le_trans)
    ultimately show ?thesis
      using round_le_dyadic [OF c(1), of j 0] True by (simp add: ceiling_le_iff)
  next
    case False
    have "\<lceil>c\<rceil> \<le> 2 ^ 53"
      using c(3) by (simp add: ceiling_le_iff)
    with False show ?thesis
      by linarith
  qed
  ultimately show ?thesis
    using that [of ?k] k c(1) assms(3) by simp
qed

lemma last_tick:
  assumes "0 \<le> b" and "b \<le> 2 ^ 37"
  obtains L where "f64_add (Fin b) (f64_lit (1 / 1000000)) = Fin L" and "L \<le> b + 1 / 4"
    and "\<forall>m :: int. of_int m \<le> b \<longrightarrow> of_int m \<le> L"
proof -
  obtain e where e: "f64_lit (1 / 1000000) = Fin e" "0 \<le> e"
    unfolding f64_lit_def using round_finite [of "1 / 1000000" 1] by force
  have "e \<le> of_int 1 / 2 ^ 3"
    using e(1) unfolding f64_lit_def by (rule round_le_dyadic) simp_all
  then have "b + e \<le> of_int (\<lfloor>8 * b\<rfloor> + 2) / 2 ^ 3"
    by (simp add: field_simps) linarith
  moreover have fl: "0 \<le> \<lfloor>8 * b\<rfloor>" "\<lfloor>8 * b\<rfloor> \<le> 2 ^ 40"
    using assms by (simp_all add: floor_le_iff)
  moreover obtain L where L: "round_f64 (b + e) = Fin L"
    using round_finite [of "b + e" "2 ^ 38"] assms e(2) \<open>e \<le> _\<close> by force
  moreover have "\<bar>\<lfloor>8 * b\<rfloor> + 2\<bar> \<le> 2 ^ 53"
    using fl by (rule round_bits(2))
  ultimately have "L \<le> of_int (\<lfloor>8 * b\<rfloor> + 2) / 2 ^ 3"
    by (intro round_le_dyadic [OF L]) simp_all
  then have "L \<le> (of_int \<lfloor>8 * b\<rfloor> + 2) / 8"
    by simp
  moreover have "L \<le> b + 1 / 4" if "L \<le> (r + 2) / 8" and "r \<le> 8 * b" for r
    using that by simp
  ultimately have "L \<le> b + 1 / 4"
    using of_int_floor_le by blast
  moreover have "of_int m \<le> L" if "of_int m \<le> b" for m :: int
  proof (cases "0 \<le> m")
    case True
    have "m \<le> 2 ^ 37"
      using that assms(2) by (metis of_int_le_iff of_int_numeral of_int_power order_trans)
    then show ?thesis
      using round_ge_dyadic [OF L, of m 0] that e(2) True by simp
  next
    case False
    moreover have "0 \<le> L"
      using round_ge_dyadic [OF L, of 0 0] assms(1) e(2) by simp
    ultimately show ?thesis
      by (meson less_le_trans linorder_not_le of_int_less_0_iff order_less_imp_le)
  qed
  ultimately show ?thesis
    using that [of L] L e(1) by simp
qed

lemma x_ticks_spec:
  assumes "0 \<le> a" and "a \<le> b" and "b \<le> 2 ^ 37"
  obtains s k n :: int where "x_step (Fin a, Fin b) = Fin (of_int s)" and "0 < s"
    and "x_ticks (Fin a, Fin b) = Some (map (\<lambda>j. Fin (of_int (j * s))) [k..n])"
    and "a - 1 / 8 \<le> of_int (k * s)" and "of_int (n * s) \<le> b + 1 / 4"
    and "\<forall>j. a \<le> of_int (j * s) \<longrightarrow> of_int (j * s) \<le> b \<longrightarrow> j \<in> {k..n}"
    and "b - a \<le> 28800 \<longrightarrow> n \<le> k + 8"
proof -
  obtain w0 where w0: "round_f64 (b - a) = Fin w0" "0 \<le> w0" "w0 \<le> of_int (2 ^ 37)"
    using round_finite [of "b - a" "2 ^ 37"] assms by force
  let ?w = "max w0 1"
  have window: "f64_max (f64_sub (Fin b) (Fin a)) (Fin 1) = Fin ?w"
    using w0 by (simp add: f64_sub_def max_def)
  obtain s where s: "pick_x_tick_step (Fin ?w) = Fin (of_int s)" "1 \<le> s" "s \<le> 3600"
    "f64_le (f64_div (Fin ?w) (Fin 3600)) (Fin 8) \<longrightarrow> f64_le (f64_div (Fin ?w) (Fin (of_int s))) (Fin 8)"
    using pick_x_tick_step_spec [of "Fin ?w"] .
  have step: "x_step (Fin a, Fin b) = Fin (of_int s)"
    using window s(1) by (simp add: x_step_def)
  obtain k where k: "f64_ceil (f64_div (Fin a) (Fin (of_int s))) = Fin (of_int k)" "0 \<le> k" "k \<le> 2 ^ 37"
    "a - 1 / 8 \<le> of_int (k * s)" "\<forall>j. a \<le> of_int (j * s) \<longrightarrow> k \<le> j"
    using first_tick [OF assms(1) order_trans [OF assms(2,3)] s(2,3)] .
  obtain L where L: "f64_add (Fin b) (f64_lit (1 / 1000000)) = Fin L" "L \<le> b + 1 / 4"
    "\<forall>m :: int. of_int m \<le> b \<longrightarrow> of_int m \<le> L"
    using last_tick [OF order_trans [OF assms(1,2)] assms(3)] .
  have "k * s \<le> 2 ^ 37 * 3600"
    using k(2,3) s(2,3) by (intro mult_mono) simp_all
  then have "f64_mul (Fin (of_int k)) (Fin (of_int s)) = Fin (of_int (k * s))"
    using round_f64_of_int [of "k * s"] k(2) s(2) by simp
  moreover have "L \<le> 2 ^ 51"
    using L(2) assms(3) by simp
  ultimately have ticks: "x_ticks (Fin a, Fin b) = Some (map (\<lambda>j. Fin (of_int (j * s))) [k..\<lfloor>L / of_int s\<rfloor>])"
    using x_tick_loop_runs [of s k L] k(1,2) s(2,3) \<open>k * s \<le> _\<close> L(1) by (simp add: x_ticks_def step)
  have last: "of_int (\<lfloor>L / of_int s\<rfloor> * s) \<le> L"
    using s(2) of_int_floor_le [of "L / of_int s"] by (simp add: le_divide_eq)
  have "\<lfloor>L / of_int s\<rfloor> \<le> k + 8" if "b - a \<le> 28800"
  proof -
    have "w0 \<le> of_int 28800 / 2 ^ 0"
      using that by (intro round_le_dyadic [OF w0(1)]) simp_all
    then have "?w / 3600 \<le> of_int 8 / 2 ^ 0"
      by simp
    from round_f64_mono [OF this] round_dyadic [of 8 0] have "f64_le (f64_div (Fin ?w) (Fin 3600)) (Fin 8)"
      by simp
    then have "?w < 8 * of_int s + 1 / 16"
      using div_le_eight [of ?w s] s w0(2) by simp
    then have small: "w0 < 8 * of_int s + 1 / 16"
      by simp
    have "b - a < 8 * of_int s + 1 / 16"
    proof (rule ccontr)
      assume "\<not> ?thesis"
      then have "of_int (128 * s + 1) / 2 ^ 4 \<le> b - a"
        by simp
      then have "of_int (128 * s + 1) / 2 ^ 4 \<le> w0"
        using s(2,3) by (intro round_ge_dyadic [OF w0(1)]) simp_all
      with small show False
        by simp
    qed
    then have "of_int (\<lfloor>L / of_int s\<rfloor> * s) < of_int (k * s) + 8 * (of_int s :: rat) + 1"
      using last L(2) k(4) by simp
    also have "\<dots> \<le> of_int ((k + 9) * s)"
      using s(2) by (simp add: algebra_simps)
    finally have "\<lfloor>L / of_int s\<rfloor> * s < (k + 9) * s"
      unfolding of_int_less_iff .
    then show ?thesis
      using s(2) by simp
  qed
  moreover have "j \<le> \<lfloor>L / of_int s\<rfloor>" if "of_int (j * s) \<le> b" for j
    using L(3) [rule_format, OF that] s(2) by (simp add: le_floor_iff le_divide_eq)
  ultimately show ?thesis
    using that [OF step _ ticks k(4)] s(2) order_trans [OF last L(2)] k(5) by auto
qed

text \<open>
  C39: the labels of the time axis.  For every window up to 2^37 seconds from the start the loop that
  places them ends.  They are consecutive multiples of the interval chosen, none more than a quarter of
  a second outside the window, every multiple inside it is among them, and up to eight hours there are
  at most nine.
\<close>

theorem x_ticks_complete:
  assumes "0 \<le> a" and "a \<le> b" and "b \<le> 2 ^ 37"
  shows "\<exists>s k n :: int. x_step (Fin a, Fin b) = Fin (of_int s) \<and> 0 < s \<and>
    x_ticks (Fin a, Fin b) = Some (map (\<lambda>j. Fin (of_int (j * s))) [k..n]) \<and>
    a - 1 / 8 \<le> of_int (k * s) \<and> of_int (n * s) \<le> b + 1 / 4 \<and>
    (\<forall>j. a \<le> of_int (j * s) \<longrightarrow> of_int (j * s) \<le> b \<longrightarrow> j \<in> {k..n}) \<and>
    (b - a \<le> 28800 \<longrightarrow> length [k..n] \<le> 9)"
proof -
  obtain s k n :: int where x: "x_step (Fin a, Fin b) = Fin (of_int s)" "0 < s"
    "x_ticks (Fin a, Fin b) = Some (map (\<lambda>j. Fin (of_int (j * s))) [k..n])"
    "a - 1 / 8 \<le> of_int (k * s)" "of_int (n * s) \<le> b + 1 / 4"
    "\<forall>j. a \<le> of_int (j * s) \<longrightarrow> of_int (j * s) \<le> b \<longrightarrow> j \<in> {k..n}"
    "b - a \<le> 28800 \<longrightarrow> n \<le> k + 8"
    using x_ticks_spec [OF assms] .
  have "length [k..n] \<le> 9" if "n \<le> k + 8"
    using that by simp
  with x(7) have "b - a \<le> 28800 \<longrightarrow> length [k..n] \<le> 9"
    by blast
  with x(1-6) show ?thesis
    by (intro exI [of _ s] exI [of _ k] exI [of _ n] conjI) assumption+
qed

theorem x_ticks_complete_witness:
  "\<exists>ts. x_ticks (Fin 0, Fin 120) = Some ts \<and> length ts \<le> 9"
  using x_ticks_complete [of 0 120] by auto

subsection \<open>The loops over the value axis\<close>

lemma tick_at_0:
  assumes "0 \<le> sub" and "i \<le> 2 ^ 53"
  shows "tick_at (Fin 0) (Fin sub) i = round_f64 (sub * of_nat i)"
proof -
  have "f64_of_int (int i) = Fin (of_nat i)"
    using f64_of_int_small [of "int i"] assms(2) by simp
  moreover have "round_f64 (sub * of_nat i) \<noteq> NegInf"
    using round_f64_mono [of 0 "sub * of_nat i"] assms(1) by (cases "round_f64 (sub * of_nat i)") simp_all
  ultimately show ?thesis
    by (cases "round_f64 (sub * of_nat i)") (simp_all add: tick_at_def round_f64_idem)
qed

lemma tick_at_mono:
  assumes "0 \<le> sub" and "j \<le> 2 ^ 53" and "i \<le> j"
  shows "f64_le (tick_at (Fin 0) (Fin sub) i) (tick_at (Fin 0) (Fin sub) j)"
proof -
  have "sub * of_nat i \<le> sub * of_nat j"
    using assms by (intro mult_left_mono) simp_all
  from round_f64_mono [OF this] assms show ?thesis
    by (simp add: tick_at_0)
qed

lemma all_exact_ends:
  assumes "\<not> f64_le (tick_at y_lo sub m) (tick_limit y_hi sub)" and "i \<le> m"
  shows "\<exists>ok. all_exact humanized y_lo y_hi sub i = Some ok \<and> (ok \<longrightarrow>
    (\<forall>j\<ge>i. (\<forall>k\<in>{i..j}. f64_le (tick_at y_lo sub k) (tick_limit y_hi sub)) \<longrightarrow>
      label_is_exact humanized (tick_at y_lo sub j)))"
  using assms(2)
proof (induction "m - i" arbitrary: i)
  case 0
  with assms(1) show ?case
    by (subst all_exact.simps) fastforce
next
  case (Suc n)
  then have "n = m - (i + 1)" "i + 1 \<le> m"
    by simp_all
  from Suc.hyps(1) [OF this] obtain ok where ih: "all_exact humanized y_lo y_hi sub (i + 1) = Some ok"
    "ok \<longrightarrow> (\<forall>j\<ge>i + 1. (\<forall>k\<in>{i + 1..j}. f64_le (tick_at y_lo sub k) (tick_limit y_hi sub)) \<longrightarrow>
      label_is_exact humanized (tick_at y_lo sub j))"
    by blast
  show ?case
  proof (cases "f64_le (tick_at y_lo sub i) (tick_limit y_hi sub) \<and> label_is_exact humanized (tick_at y_lo sub i)")
    case True
    have "label_is_exact humanized (tick_at y_lo sub j)"
      if ok and "i \<le> j" and le: "\<forall>k\<in>{i..j}. f64_le (tick_at y_lo sub k) (tick_limit y_hi sub)" for j
    proof (cases "i = j")
      case False
      with that(2) have "i + 1 \<le> j" "\<forall>k\<in>{i + 1..j}. f64_le (tick_at y_lo sub k) (tick_limit y_hi sub)"
        using le by simp_all
      with ih(2) that(1) show ?thesis
        by blast
    qed (use True in simp)
    with True ih(1) show ?thesis
      by (subst all_exact.simps) auto
  next
    case False
    then show ?thesis
      by (subst all_exact.simps) force
  qed
qed

lemma secondary_ticks_end:
  assumes "\<not> f64_le (tick_at y_lo sub m) (tick_limit y_hi sub)" and "i \<le> m" and "m mod d \<noteq> 0"
  shows "\<exists>ts. secondary_ticks d y_lo y_hi sub i = Some ts \<and>
    (\<forall>v\<in>set ts. \<exists>j\<ge>i. j < m \<and> v = tick_at y_lo sub j \<and> f64_le v (tick_limit y_hi sub))"
  using assms(2)
proof (induction "m - i" arbitrary: i)
  case 0
  with assms(1,3) show ?case
    by (subst secondary_ticks.simps) simp
next
  case (Suc n)
  then have "n = m - (i + 1)" "i + 1 \<le> m"
    by simp_all
  from Suc.hyps(1) [OF this] obtain ts where ih: "secondary_ticks d y_lo y_hi sub (i + 1) = Some ts"
    "\<forall>v\<in>set ts. \<exists>j\<ge>i + 1. j < m \<and> v = tick_at y_lo sub j \<and> f64_le v (tick_limit y_hi sub)"
    by blast
  then have "\<forall>v\<in>set ts. \<exists>j\<ge>i. j < m \<and> v = tick_at y_lo sub j \<and> f64_le v (tick_limit y_hi sub)"
    by (meson add_leD1)
  with ih(1) \<open>i + 1 \<le> m\<close> show ?case
    by (subst secondary_ticks.simps) auto
qed

lemma round_between:
  assumes "lo \<le> q" and "q \<le> hi" and "round_f64 lo = Fin lo" and "round_f64 hi = Fin hi"
  shows "\<exists>r. round_f64 q = Fin r \<and> lo \<le> r \<and> r \<le> hi"
  using round_f64_mono [OF assms(1)] round_f64_mono [OF assms(2)] assms(3,4) by (cases "round_f64 q") simp_all

text \<open>A subinterval of a sane interval passes the top of the axis within 2^47 steps.\<close>

lemma passes_limit:
  assumes "pow2 (- 900) \<le> s" and "s \<le> pow2 900" and "0 \<le> h" and "h \<le> 2 ^ 40 * s" and "2 \<le> d" and "d \<le> 10"
  obtains sub where "f64_div (Fin s) (f64_of_int (int d)) = Fin sub" and "0 \<le> sub"
    and "\<forall>i. 2 ^ 46 \<le> i \<longrightarrow> i \<le> 2 ^ 53 \<longrightarrow> \<not> f64_le (tick_at (Fin 0) (Fin sub) i) (tick_limit (Fin h) (Fin sub))"
proof -
  define e where "e = ilog2 s"
  have pos: "0 < s"
    using assms(1) pow2_pos [of "- 900"] by linarith
  have p: "pow2 e \<le> s" "s < pow2 (e + 1)"
    using ilog2_bounds [OF pos] by (simp_all add: e_def)
  have "pow2 901 = 2 * pow2 900"
    using pow2_Suc [of 900] by simp
  then have e: "- 900 \<le> e" "e \<le> 900"
    using ilog2_ge [OF pos assms(1)] ilog2_less [of s 901] assms(2) pos by (simp_all add: e_def)
  have grid: "round_f64 (pow2 k) = Fin (pow2 k)" "round_f64 (3 * pow2 k) = Fin (3 * pow2 k)"
    if "- 1074 \<le> k" "k \<le> 970" for k
    using that by (rule_tac round_f64_exact [where n = 1 and k = k], simp_all)
      (rule_tac round_f64_exact [where n = 3 and k = k], simp_all)
  have scale: "pow2 (e + 42) = 2 ^ 46 * pow2 (e - 4)" "pow2 (e + 42) = 4 * pow2 (e + 40)"
      "pow2 (e + 40) = 2 ^ 40 * pow2 e" "pow2 e = 16 * pow2 (e - 4)" "pow2 (e + 1) = 2 * pow2 e"
    using pow2_add [of 46 "e - 4"] pow2_add [of 2 "e + 40"] pow2_add [of 40 e] pow2_add [of 4 "e - 4"] pow2_Suc [of e]
    by (simp_all add: pow2_nat [of "numeral n" for n, simplified] ac_simps)
  have d: "(2 :: rat) \<le> of_nat d" "of_nat d \<le> (10 :: rat)"
    using assms(5,6) by simp_all
  have "pow2 (e - 4) * of_nat d \<le> pow2 (e - 4) * 10" "pow2 e * 2 \<le> pow2 e * of_nat d"
    using d by (simp_all add: less_imp_le)
  then have "pow2 (e - 4) * of_nat d \<le> s" "s \<le> pow2 e * of_nat d"
    using p scale(4,5) pow2_pos [of "e - 4"] by linarith+
  then have "pow2 (e - 4) \<le> s / of_nat d" "s / of_nat d \<le> pow2 e"
    using d(1) by (simp_all add: le_divide_eq divide_le_eq)
  then obtain sub where sub: "round_f64 (s / of_nat d) = Fin sub" "pow2 (e - 4) \<le> sub" "sub \<le> pow2 e"
    using round_between [OF _ _ grid(1) grid(1), of "e - 4" _ e] e by force
  have "0 \<le> sub"
    using sub(2) pow2_pos [of "e - 4"] by linarith
  have div: "f64_div (Fin s) (f64_of_int (int d)) = Fin sub"
    using f64_of_int_small [of "int d"] assms(5,6) sub(1) by simp
  obtain t where t: "f64_lit (1 / 1000000) = Fin t" "0 \<le> t" "t \<le> 1"
    unfolding f64_lit_def using round_finite [of "1 / 1000000" 1] by force
  have "sub * t \<le> pow2 e * 1"
    using sub(3) t(2,3) \<open>0 \<le> sub\<close> by (intro mult_mono) (simp_all add: less_imp_le)
  then obtain u where u: "round_f64 (sub * t) = Fin u" "0 \<le> u" "u \<le> pow2 e"
    using round_between [OF _ _ round_f64_0 grid(1), of "sub * t" e] e \<open>0 \<le> sub\<close> t(2) by auto
  have "h + u \<le> 3 * pow2 (e + 40)"
    using assms(4) u(3) p scale(3,5) pow2_pos [of e] by simp
  then obtain l where l: "round_f64 (h + u) = Fin l" "l \<le> 3 * pow2 (e + 40)"
    using round_between [OF _ _ round_f64_0 grid(2), of "h + u" "e + 40"] e assms(3) u(2) by auto
  have "\<not> f64_le (tick_at (Fin 0) (Fin sub) i) (tick_limit (Fin h) (Fin sub))" if "2 ^ 46 \<le> i" "i \<le> 2 ^ 53" for i
  proof -
    have "(2 ^ 46 :: rat) \<le> of_nat i"
      using that(1) by (metis of_nat_le_iff of_nat_numeral of_nat_power)
    then have "pow2 (e + 42) \<le> sub * of_nat i"
      unfolding scale(1) mult.commute [of "2 ^ 46"] using sub(2) \<open>0 \<le> sub\<close> by (intro mult_mono) simp_all
    from round_f64_mono [OF this] have "f64_le (Fin (pow2 (e + 42))) (tick_at (Fin 0) (Fin sub) i)"
      using grid(1) [of "e + 42"] e tick_at_0 [OF \<open>0 \<le> sub\<close> that(2)] by simp
    moreover have "tick_limit (Fin h) (Fin sub) = Fin l"
      using t(1) u(1) l(1) by (simp add: tick_limit_def)
    moreover have "l < pow2 (e + 42)"
      using l(2) scale(2) pow2_pos [of "e + 40"] by linarith
    ultimately show ?thesis
      by (cases "tick_at (Fin 0) (Fin sub) i") simp_all
  qed
  then show ?thesis
    using that [OF div \<open>0 \<le> sub\<close>] by blast
qed

lemma subdivision_spec:
  assumes "pow2 (- 900) \<le> s" and "s \<le> pow2 900" and "0 \<le> h" and "h \<le> 2 ^ 40 * s" and "\<forall>d\<in>set ds. 2 \<le> d \<and> d \<le> 10"
  shows "\<exists>found. subdivision humanized (Fin 0) (Fin h) (Fin s) rows_per_step ds = Some found \<and>
    (\<forall>d. found = Some d \<longrightarrow> d \<in> set ds \<and> all_exact humanized (Fin 0) (Fin h) (f64_div (Fin s) (f64_of_int (int d))) 1 = Some True)"
  using assms(5)
proof (induction ds)
  case (Cons d ds)
  then have d: "2 \<le> d" "d \<le> 10"
    by simp_all
  obtain sub where sub: "f64_div (Fin s) (f64_of_int (int d)) = Fin sub" "0 \<le> sub"
    "\<forall>i. 2 ^ 46 \<le> i \<longrightarrow> i \<le> 2 ^ 53 \<longrightarrow> \<not> f64_le (tick_at (Fin 0) (Fin sub) i) (tick_limit (Fin h) (Fin sub))"
    using passes_limit [OF assms(1-4) d] .
  then have "\<not> f64_le (tick_at (Fin 0) (Fin sub) (2 ^ 46)) (tick_limit (Fin h) (Fin sub))"
    by simp
  from all_exact_ends [OF this, of 1 humanized] obtain ok where
    "all_exact humanized (Fin 0) (Fin h) (Fin sub) 1 = Some ok"
    by auto
  with Cons sub(1) show ?case
    by (cases ok) auto
qed simp

lemma secondary_exact:
  assumes "pow2 (- 900) \<le> s" and "s \<le> pow2 900" and "0 \<le> h" and "h \<le> 2 ^ 40 * s" and "d \<in> {10, 5, 2}"
    and "all_exact humanized (Fin 0) (Fin h) (f64_div (Fin s) (f64_of_int (int d))) 1 = Some True"
  shows "\<exists>ts. secondary_ticks d (Fin 0) (Fin h) (f64_div (Fin s) (f64_of_int (int d))) 1 = Some ts \<and>
    list_all (label_is_exact humanized) ts"
proof -
  have d: "2 \<le> d" "d \<le> 10"
    using assms(5) by auto
  obtain sub where sub: "f64_div (Fin s) (f64_of_int (int d)) = Fin sub" "0 \<le> sub"
    "\<forall>i. 2 ^ 46 \<le> i \<longrightarrow> i \<le> 2 ^ 53 \<longrightarrow> \<not> f64_le (tick_at (Fin 0) (Fin sub) i) (tick_limit (Fin h) (Fin sub))"
    using passes_limit [OF assms(1-4) d] .
  have odd: "(2 ^ 46 + 3 :: nat) mod d \<noteq> 0"
    using assms(5) by auto
  obtain ts where ts: "secondary_ticks d (Fin 0) (Fin h) (Fin sub) 1 = Some ts"
    "\<forall>v\<in>set ts. \<exists>j\<ge>1. j < 2 ^ 46 + 3 \<and> v = tick_at (Fin 0) (Fin sub) j \<and> f64_le v (tick_limit (Fin h) (Fin sub))"
    using secondary_ticks_end [of "Fin 0" "Fin sub" "2 ^ 46 + 3" "Fin h" 1 d] sub(3) odd by auto
  have exact: "\<forall>j\<ge>1. (\<forall>k\<in>{1..j}. f64_le (tick_at (Fin 0) (Fin sub) k) (tick_limit (Fin h) (Fin sub))) \<longrightarrow>
      label_is_exact humanized (tick_at (Fin 0) (Fin sub) j)"
  proof -
    have "\<not> f64_le (tick_at (Fin 0) (Fin sub) (2 ^ 46)) (tick_limit (Fin h) (Fin sub))"
      using sub(3) by simp
    from all_exact_ends [OF this, of 1 humanized] obtain ok where
      "all_exact humanized (Fin 0) (Fin h) (Fin sub) 1 = Some ok" "ok \<longrightarrow> ?thesis"
      by auto
    with assms(6) [unfolded sub(1)] show ?thesis
      by simp
  qed
  have "label_is_exact humanized v" if v: "v \<in> set ts" for v
  proof -
    from ts(2) v obtain j where j: "1 \<le> j" "j < 2 ^ 46 + 3" "v = tick_at (Fin 0) (Fin sub) j"
      "f64_le v (tick_limit (Fin h) (Fin sub))"
      by blast
    have "f64_le (tick_at (Fin 0) (Fin sub) k) (tick_limit (Fin h) (Fin sub))" if "k \<in> {1..j}" for k
      using tick_at_mono [OF sub(2), of j k] that j by (auto intro: f64_le_trans)
    with exact j show ?thesis
      by blast
  qed
  with ts(1) show ?thesis
    by (auto simp: sub(1) list_all_iff)
qed

text \<open>
  The labels of the value axis.  The tick loops end whenever the interval chosen is between 2^-900 and
  2^900 and the axis is at most 2^40 intervals high.  The result is the primary ticks, from zero on, and
  after them the secondary ones, and the label of every secondary tick is printed without loss.
\<close>

lemma y_ticks_exact:
  assumes "pick_y_tick_step log10 powf (Fin h) humanized = Fin s"
    and "pow2 (- 900) \<le> s" and "s \<le> pow2 900" and "0 \<le> h" and "h \<le> 2 ^ 40 * s"
  shows "\<exists>n secondary. y_axis_ticks log10 powf (Fin 0) (Fin h) rows humanized =
      Some (map (\<lambda>i. (tick_at (Fin 0) (Fin s) i, True)) [0..<Suc n] @ map (\<lambda>v. (v, False)) secondary) \<and>
    list_all (label_is_exact humanized) secondary"
proof -
  obtain primary rows_per_step found n where found: "subdivision humanized (Fin 0) (Fin h) (Fin s) rows_per_step [10, 5, 2] = Some found"
    "\<forall>d. found = Some d \<longrightarrow> d \<in> set [10, 5, 2] \<and>
      all_exact humanized (Fin 0) (Fin h) (f64_div (Fin s) (f64_of_int (int d))) 1 = Some True"
    and primary: "primary = map (\<lambda>i. (tick_at (Fin 0) (Fin s) i, True)) [0..<Suc n]"
    and result: "y_axis_ticks log10 powf (Fin 0) (Fin h) rows humanized =
      (case found of
         None \<Rightarrow> Some primary
       | Some d \<Rightarrow> map_option (\<lambda>ts. primary @ map (\<lambda>v. (v, False)) ts)
           (secondary_ticks d (Fin 0) (Fin h) (f64_div (Fin s) (f64_of_int (int d))) 1))"
  proof -
    let ?n = "unat (f64_as_word (f64_max (f64_floor (f64_add (f64_div (f64_sub (Fin h) (Fin 0)) (Fin s))
      (f64_lit (1 / 1000000)))) (Fin 0)) :: u64)"
    let ?r = "f64_div (f64_mul rows (Fin s)) (f64_max (f64_sub (Fin h) (Fin 0)) (f64_lit (1 / 1000000000)))"
    obtain found where f: "subdivision humanized (Fin 0) (Fin h) (Fin s) ?r [10, 5, 2] = Some found"
      "\<forall>d. found = Some d \<longrightarrow> d \<in> set [10, 5, 2] \<and>
        all_exact humanized (Fin 0) (Fin h) (f64_div (Fin s) (f64_of_int (int d))) 1 = Some True"
      using subdivision_spec [OF assms(2-5), of "[10, 5, 2]" humanized ?r] by auto
    show ?thesis
      by (rule that [OF f refl]) (simp only: y_axis_ticks_def ticks_for_step_def assms(1) Let_def f(1) Option.bind.simps)
  qed
  show ?thesis
  proof (cases found)
    case None
    then show ?thesis
      unfolding result primary by (intro exI [of _ n] exI [of _ "[]"]) simp
  next
    case (Some d)
    then obtain ts where "secondary_ticks d (Fin 0) (Fin h) (f64_div (Fin s) (f64_of_int (int d))) 1 = Some ts"
      "list_all (label_is_exact humanized) ts"
      using found(2) secondary_exact [OF assms(2-5), of d humanized] by auto
    with Some show ?thesis
      unfolding result primary by (intro exI [of _ n] exI [of _ ts]) simp
  qed
qed

text \<open>The rows of the labels: no two share one, and none is outside the plot.\<close>

lemma place_labels_rows:
  "distinct (map fst (place_labels lbl row used ticks)) \<and>
   set (map fst (place_labels lbl row used ticks)) \<subseteq> row ` fst ` set ticks - set used"
  by (induction lbl row used ticks rule: place_labels.induct) auto

text \<open>A decimal logarithm and a power, right at the one place where they are used.\<close>

definition demo_log10 :: "f64 \<Rightarrow> f64" where "demo_log10 _ = Fin 4"
definition demo_powf :: "f64 \<Rightarrow> f64 \<Rightarrow> f64" where "demo_powf _ _ = Fin 10000"

lemma labels_within:
  assumes "labels = [] \<or> labels = place_labels lbl row [] ticks" and row: "\<And>v. lo \<le> row v \<and> row v \<le> hi"
  shows "distinct (map fst labels) \<and> (\<forall>r\<in>set (map fst labels). lo \<le> r \<and> r \<le> hi)"
proof (cases "labels = []")
  case False
  with assms(1) have "distinct (map fst labels)" "set (map fst labels) \<subseteq> row ` fst ` set ticks"
    using place_labels_rows [of lbl row "[]" ticks] by (simp_all del: set_map)
  moreover have "lo \<le> r \<and> r \<le> hi" if "r \<in> row ` fst ` set ticks" for r
    using that row by auto
  ultimately show ?thesis
    by blast
qed simp

lemma y_labels_rows:
  assumes "y_labels log10 powf sqrtf ui lc y width height = Some labels"
  shows "distinct (map fst labels) \<and>
    (\<forall>r\<in>set (map fst labels). sat_add y 1 \<le> r \<and> r \<le> sat_add (sat_add y 1) (sat_sub (sat_sub height 2) 1))"
proof -
  define lo where "lo = y_scale log10 (ui_log_y_scale ui) (Fin 0)"
  define hi where "hi = f64_max (y_scale log10 (ui_log_y_scale ui) (y_top lc)) (f64_add lo (f64_lit (1 / 1000000000)))"
  define row where "row v = min (sat_add (sat_add y 1) (f64_as_word (f64_round (f64_mul
      (f64_div (f64_sub hi (y_scale log10 (ui_log_y_scale ui) v)) (f64_max (f64_sub hi lo) (f64_lit (1 / 1000000000))))
      (f64_of_word (sat_sub (sat_sub height 2) 1))))))
    (sat_add (sat_add y 1) (sat_sub (sat_sub height 2) 1))" for v
  let ?lbl = "if lc_humanize lc then humanize else fmt_whole"
  obtain ticks where "labels = (if sat_sub width 2 = 0 \<or> sat_sub height 2 = 0 then [] else place_labels ?lbl row [] ticks)"
    using assms unfolding y_labels_def Let_def map_option_eq_Some lo_def [symmetric] hi_def [symmetric]
      row_def [abs_def, symmetric] by blast
  then have "labels = [] \<or> labels = place_labels ?lbl row [] ticks"
    by metis
  then show ?thesis
    by (rule labels_within) (simp add: row_def le_sat_add)
qed

text \<open>The axis of the unit tests: up to 115000 in humanised labels.\<close>

lemma demo_step: "pick_y_tick_step demo_log10 demo_powf (Fin 115000) True = Fin 20000"
  by code_simp

lemma y_ticks_exact_witness:
  "\<exists>n secondary. y_axis_ticks demo_log10 demo_powf (Fin 0) (Fin 115000) (Fin 40) True =
      Some (map (\<lambda>i. (tick_at (Fin 0) (Fin 20000) i, True)) [0..<Suc n] @ map (\<lambda>v. (v, False)) secondary)"
proof -
  have "pow2 (- 900) \<le> 20000" "20000 \<le> pow2 900"
    using pow2_mono [of "- 900" 0] pow2_mono [of 20 900] pow2_nat [of 20] by simp_all
  then show ?thesis
    using y_ticks_exact [OF demo_step, of "Fin 40"] by fastforce
qed

end
