(* ===== verification/Dashboard_Tests.thy ===== *)
theory Dashboard_Tests
  imports Dashboard_Axes
begin

section \<open>The tests of the dashboard (bin/iothread-tui.rs)\<close>

text \<open>
  The unit tests of the value axis, run on the model.  The decimal logarithm and the power are given by their
  values at the arguments of each test.
\<close>

text \<open>The values of the ticks of one kind, which the model has in ascending order.\<close>

definition tick_values :: "(f64 \<times> bool) list \<Rightarrow> bool \<Rightarrow> f64 list" where
  "tick_values ticks primary = map fst (filter (\<lambda>(_, p). p = primary) ticks)"

definition test_y_ticks_without_room_are_primary_only :: bool where
  "test_y_ticks_without_room_are_primary_only \<longleftrightarrow>
     (case y_axis_ticks demo_log10 demo_powf (Fin 0) (f64_of_int 115000) (f64_of_int 6) True of
        None \<Rightarrow> False
      | Some ticks \<Rightarrow>
          tick_values ticks True = map f64_of_int [0, 20000, 40000, 60000, 80000, 100000] \<and>
          tick_values ticks False = [])"

definition test_y_ticks_with_room_add_secondary_ticks :: bool where
  "test_y_ticks_with_room_add_secondary_ticks \<longleftrightarrow>
     (case y_axis_ticks demo_log10 demo_powf (Fin 0) (f64_of_int 115000) (f64_of_int 40) True of
        None \<Rightarrow> False
      | Some ticks \<Rightarrow> tick_values ticks False = map f64_of_int [10000, 30000, 50000, 70000, 90000, 110000])"

definition test_y_ticks_skip_subdivisions_that_need_decimals :: bool where
  "test_y_ticks_skip_subdivisions_that_need_decimals \<longleftrightarrow>
     (case y_axis_ticks (\<lambda>_. Fin 3) (\<lambda>_ _. Fin 1000) (Fin 0) (f64_of_int 30000) (f64_of_int 300) True of
        None \<Rightarrow> False
      | Some ticks \<Rightarrow>
          let secondary = tick_values ticks False
          in f64_of_int 1000 \<in> set secondary \<and> f64_of_int 500 \<notin> set secondary \<and>
             list_all (label_is_exact True) secondary)"

lemma tick_test1: test_y_ticks_without_room_are_primary_only
  by code_simp

lemma tick_test2: test_y_ticks_with_room_add_secondary_ticks
  by code_simp

lemma tick_test3: test_y_ticks_skip_subdivisions_that_need_decimals
  by code_simp

end
