(* ===== verification/Client_Fleet.thy ===== *)
theory Client_Fleet
  imports Daemon
begin

section \<open>What a backend's client promises, carried through the daemon (backends/mod.rs, controller.rs)\<close>

text \<open>
  The controller changes a client in two ways only, a resize and a snapshot; the other methods of the
  trait do not get past the box around the client.  So whatever these two keep of a client, the daemon
  keeps of every client of its fleet.  The contract is a locale, and a backend interprets it with what
  it promises.
\<close>

subsection \<open>The steps of the controller\<close>

text \<open>What the daemon does to its controller: an event it admits, or a request.\<close>

inductive controller_next ::
  "('c, 'r, 'e) controller_env \<Rightarrow> (('c, 'r) daemon_event \<Rightarrow> bool) \<Rightarrow> ('c, 'r, 'e) controller \<Rightarrow>
   ('c, 'r, 'e) controller \<Rightarrow> bool"
  for env admits
where
  on_event: "admits ev \<Longrightarrow> loop_event env ev c = (stop, c') \<Longrightarrow> controller_next env admits c c'"
| on_request: "handle_dbus_request env req c = (reply, c') \<Longrightarrow> controller_next env admits c c'"

lemma daemon_controller_part:
  assumes "daemon_next env w w'"
  shows "(controller_next env (\<lambda>_. True))\<^sup>*\<^sup>* (dw_controller w) (dw_controller w')"
  using assms
proof cases
  case loop_serves
  then obtain n req q where q: "dw_queue w = (n, req) # q"
    by (cases "dw_queue w") auto
  obtain reply c' where "handle_dbus_request env req (dw_controller w) = (reply, c')"
    by fastforce
  with on_request [OF this] q loop_serves show ?thesis
    by (simp add: serve_request_controller r_into_rtranclp)
next
  case (loop_handles ev stop c)
  with on_event [OF _ loop_handles(3), of "\<lambda>_. True"] show ?thesis
    by (simp add: r_into_rtranclp)
qed simp_all

interpretation controller_part: part_of_whole "daemon_next env" "controller_next env (\<lambda>_. True)" dw_controller
  for env
  by unfold_locales (rule daemon_controller_part)

lemma controller_next_kept: "controller_next env admits c c' \<Longrightarrow> controller_kept c c'"
  by (erule controller_next.cases) (auto intro: loop_event_kept, metis request_kept snd_conv)

interpretation controller_run: kept_relation "controller_next env admits" controller_kept
  for env admits
  by unfold_locales (rule controller_kept_refl, erule (1) controller_kept_trans, erule controller_next_kept)

subsection \<open>A fleet that keeps its contracts\<close>

definition fleet_holds :: "(string \<Rightarrow> 'c \<Rightarrow> bool) \<Rightarrow> ('c, 'r, 'e) controller \<Rightarrow> bool" where
  "fleet_holds holds c \<longleftrightarrow> (\<forall>vm i. hm_get (ct_instances c) vm = Some i \<longrightarrow> holds vm (inst_client i))"

definition all_hold :: "(string \<Rightarrow> 'c \<Rightarrow> bool) \<Rightarrow> ('c, 'r) vm_instance list list \<Rightarrow> bool" where
  "all_hold holds inventories \<longleftrightarrow> (\<forall>i\<in>set (concat inventories). holds (inst_id i) (inst_client i))"

text \<open>Events whose discoveries bring in clients that keep the contract.\<close>

fun brings :: "(string \<Rightarrow> 'c \<Rightarrow> bool) \<Rightarrow> ('c, 'r) daemon_event \<Rightarrow> bool" where
  "brings holds (PollTick t inventories) = all_hold holds inventories"
| "brings holds (PathEvent fault inventories) = all_hold holds inventories"
| "brings holds Terminate = True"

lemma fleet_holds_cong: "ct_instances c' = ct_instances c \<Longrightarrow> fleet_holds holds c' \<longleftrightarrow> fleet_holds holds c"
  by (simp add: fleet_holds_def)

lemma fleet_holds_set:
  "fleet_holds holds c \<Longrightarrow> holds vm (inst_client i) \<Longrightarrow> fleet_holds holds (set_instance vm i c)"
  by (simp add: fleet_holds_def hm_get_insert)

lemma boxed_verbs [simp]:
  "op_add_io_thread (client_of env) io props c = (Inl (NotSupported ''add IOThread''), c)"
  "op_del_io_thread (client_of env) io c = (Inl (NotSupported ''delete IOThread''), c)"
  "op_set_io_thread_vq_mapping (client_of env) device ms c = (Inl (NotSupported ''set IOThread virtqueue mapping''), c)"
  "op_get_io_thread_vq_mapping (client_of env) device c = (Inl (NotSupported ''get IOThread virtqueue mapping''), c)"
  by (simp_all add: client_of_def box_client_def client_defaults_def)

lemma with_client_holds:
  assumes "fleet_holds holds c" and "\<And>cl. snd (call cl) = cl"
  shows "fleet_holds holds (snd (with_client vm call c))"
  using assms(1) assms(2)
  by (auto simp: with_client_def fleet_holds_def hm_get_insert split: option.split prod.split) (metis snd_conv)

lemma persist_holds:
  assumes "persist_new_classifications env faults c = (r, c')"
  shows "fleet_holds holds c' \<longleftrightarrow> fleet_holds holds c"
  using assms
  by (auto simp: persist_new_classifications_def Let_def intro!: fleet_holds_cong
      split: prod.splits sum.splits if_splits)

lemma reconcile_holds:
  assumes "fleet_holds holds c" and "all_hold holds inventories" and "controller_ok c"
  shows "fleet_holds holds (reconcile env inventories c)"
proof -
  obtain added removed cls c' where s: "sync_instances env (discover_all inventories) c = ((added, removed), cls, c')"
    by (metis surj_pair)
  have "holds vm (inst_client i)" if "hm_get (ct_instances c') vm = Some i" for vm i
    using sync_effect [OF assms(3) s] that assms(1,2)
    by (fastforce simp: fleet_holds_def all_hold_def discover_all_def classify_def split: option.splits)
  with s show ?thesis
    by (simp add: reconcile_def fleet_holds_def)
qed

subsection \<open>The contract\<close>

locale client_contract =
  fixes env :: "('c, 'r, 'e) controller_env"
    and holds :: "string \<Rightarrow> 'c \<Rightarrow> bool"
  assumes resize_holds:
      "holds vm c \<Longrightarrow> op_set_thread_count (client_of env) n c = (r, c') \<Longrightarrow> holds vm c'"
    and snapshot_holds:
      "holds vm c \<Longrightarrow> op_get_thread_pool_snapshot (client_of env) c = (s, c') \<Longrightarrow> holds vm c'"
begin

lemma set_thread_count_holds:
  assumes "fleet_holds holds c" and "handle_set_thread_count env vm threads sticky c = (r, c')"
  shows "fleet_holds holds c'"
proof (cases "hm_get (ct_instances c) vm")
  case (Some i)
  obtain res cl where res: "op_set_thread_count (client_of env) threads (inst_client i) = (res, cl)"
    by fastforce
  have "holds vm cl"
    using assms(1) Some res resize_holds unfolding fleet_holds_def by blast
  with assms Some res show ?thesis
    by (auto simp: handle_set_thread_count_def intro: fleet_holds_set split: if_splits sum.splits)
qed (use assms in \<open>simp add: handle_set_thread_count_def\<close>)

lemma set_all_holds:
  "fleet_holds holds c \<Longrightarrow> set_all_loop env ks threads sticky c = (n, fs, c') \<Longrightarrow> fleet_holds holds c'"
proof (induction ks arbitrary: c n fs c')
  case (Cons k ks)
  obtain r c1 where k: "handle_set_thread_count env k threads sticky c = (r, c1)"
    by fastforce
  obtain n1 fs1 c2 where rest: "set_all_loop env ks threads sticky c1 = (n1, fs1, c2)"
    by (metis prod_cases3)
  have "c' = c2"
    using Cons.prems(2) k rest by (cases r) auto
  with Cons.IH [OF set_thread_count_holds [OF Cons.prems(1) k] rest] show ?case
    by simp
qed simp

lemma request_holds:
  assumes "fleet_holds holds c"
  shows "fleet_holds holds (snd (handle_dbus_request env req c))"
proof (cases req)
  case (SetThreadCount vm threads sticky)
  obtain r c' where "handle_set_thread_count env vm threads sticky c = (r, c')"
    by fastforce
  with set_thread_count_holds [OF assms this] SetThreadCount show ?thesis
    by (simp add: handle_dbus_request_def)
next
  case (SetAllThreadCounts threads sticky)
  obtain n fs c' where "set_all_loop env (sort (hm_keys (ct_instances c))) threads sticky c = (n, fs, c')"
    by (metis prod_cases3)
  with set_all_holds [OF assms this] SetAllThreadCounts show ?thesis
    by (simp add: handle_dbus_request_def handle_set_all_thread_counts_def Let_def)
next
  case (AddIoThread vm io n)
  define properties where "properties = (if 0 \<le> sint n
      then Some (io_thread_properties_default\<lparr>ip_poll_max_ns := Some n\<rparr>) else None)"
  have "snd (handle_dbus_request env req c) =
      snd (with_client vm (op_add_io_thread (client_of env) io properties) c)"
    unfolding AddIoThread handle_dbus_request_def properties_def dbus_request.case Let_def
    by (simp only: split_beta snd_conv)
  then show ?thesis
    using assms by (simp add: with_client_holds)
next
  case (SetIoThreadVqMapping vm device json)
  with assms show ?thesis
    by (cases "ce_parse_mapping env json") (simp_all add: handle_dbus_request_def split_beta with_client_holds)
qed (use assms in \<open>simp_all add: handle_dbus_request_def split_beta with_client_holds\<close>)

lemma refresh_holds:
  assumes "fleet_holds holds c" and "controller_ok c"
  shows "fleet_holds holds (tick_refresh env t c)"
  unfolding fleet_holds_def
proof (intro allI impI)
  fix vm i'
  let ?b = "cfg_refresh_cgroup_on_each_read (ct_cfg c)"
  assume "hm_get (ct_instances (tick_refresh env t c)) vm = Some i'"
  then obtain i where i: "hm_get (ct_instances c) vm = Some i" "refresh_instance env t ?b i = (True, i')"
    unfolding tick_refresh_get [OF assms(2)] by (auto split: option.splits prod.splits if_splits)
  obtain s cl where snap: "op_get_thread_pool_snapshot (client_of env) (inst_client i) = (s, cl)"
    by fastforce
  have "holds vm cl"
    using assms(1) i(1) snap snapshot_holds unfolding fleet_holds_def by blast
  moreover have "inst_client i' = cl"
    using i(2) snap by (cases s) (auto simp: refresh_instance_def refresh_state_def)
  ultimately show "holds vm (inst_client i')"
    by simp
qed

lemma decision_holds:
  assumes "fleet_holds holds c" and "apply_engine_decision env t k action c = (r, c')"
  shows "fleet_holds holds c'"
proof (rule apply_engine_decision_cases [OF assms(2)])
  assume "ct_instances c' = ct_instances c"
  with assms(1) show ?thesis
    by (simp add: fleet_holds_def)
next
  fix i i'
  assume i: "hm_get (ct_instances c) k = Some i"
    and adj: "vm_adjusted env t (ct_cfg c) (ct_host_cpu_util c) k action i i'"
    and c': "ct_instances c' = hm_insert k i' (ct_instances c)"
  have "holds k (inst_client i)"
    using assms(1) i by (simp add: fleet_holds_def)
  then have "holds k (inst_client i')"
    using adj resize_holds by (fastforce simp: vm_adjusted_def split: if_splits)
  with assms(1) c' show ?thesis
    by (simp add: fleet_holds_def hm_get_insert)
qed

lemma plan_holds:
  "fleet_holds holds c \<Longrightarrow> apply_plan env t plan n c = (r, c') \<Longrightarrow> fleet_holds holds c'"
proof (induction plan arbitrary: n c)
  case (Cons p plan)
  obtain up sequence k action where p: "p = (up, sequence, k, action)"
    by (cases p)
  let ?cap = "cfg_max_instances_adjusted_per_poll (ct_cfg c)"
  show ?case
  proof (cases "0 < ?cap \<and> uint ?cap \<le> int n")
    case True
    with Cons.prems(2) have "apply_plan env t plan n c = (r, c')"
      by (simp add: p)
    with Cons.IH Cons.prems(1) show ?thesis
      by blast
  next
    case False
    obtain d c1 where d: "apply_engine_decision env t k action c = (d, c1)"
      by fastforce
    note held = decision_holds [OF Cons.prems(1) d]
    show ?thesis
    proof (cases d)
      case (Inl e)
      with Cons.prems(2) False d held show ?thesis
        by (auto simp: p Let_def)
    next
      case (Inr did)
      with Cons.prems(2) False d have "apply_plan env t plan (if did then Suc n else n) c1 = (r, c')"
        by (auto simp: p Let_def)
      with Cons.IH held show ?thesis
        by blast
    qed
  qed
qed simp

lemma tick_holds:
  assumes "fleet_holds holds c" and "controller_ok c" and "tick env t c = (r, c')"
  shows "fleet_holds holds c'"
proof -
  define c1 where "c1 = tick_refresh env t (tick_host t c)"
  have "controller_ok (tick_host t c)"
    using assms(2) by (simp add: controller_ok_def)
  then have c1: "fleet_holds holds c1"
    unfolding c1_def using assms(1) by (intro refresh_holds) (simp_all add: fleet_holds_def)
  obtain p c2 where p: "persist_new_classifications env (tk_save t) c1 = (p, c2)"
    by fastforce
  have c2: "fleet_holds holds c2"
    using c1 persist_holds [OF p] by simp
  obtain plan c3 where plan: "tick_plan env (tick_context_of t (tick_host t c)) c2 = (plan, c3)"
    by fastforce
  then have c3: "fleet_holds holds c3"
    using c2 by (auto simp: tick_plan_def fleet_holds_def Let_def split: prod.splits)
  obtain a c4 where a: "apply_plan env t plan 0 c3 = (a, c4)"
    by fastforce
  have "c' = c2 \<or> c' = c4"
    using assms(3) p plan a unfolding tick_def Let_def c1_def [symmetric]
    by (auto split: sum.splits)
  with c2 plan_holds [OF c3 a] show ?thesis
    by blast
qed

lemma event_holds:
  assumes "fleet_holds holds c" and "controller_ok c" and "brings holds ev" and "loop_event env ev c = (stop, c')"
  shows "fleet_holds holds c'"
proof (cases ev)
  case (PollTick t inventories)
  obtain r c1 where t: "tick env t c = (r, c1)"
    by fastforce
  have c1: "fleet_holds holds c1" "controller_ok c1"
    using tick_holds [OF assms(1,2) t] tick_kept [OF t] assms(2) by (auto simp: controller_kept_def)
  then have "fleet_holds holds (reconcile env inventories c1)"
    using assms(3) PollTick by (intro reconcile_holds) simp_all
  with assms(4) PollTick t c1(1) show ?thesis
    by (cases r) auto
next
  case (PathEvent fault inventories)
  with assms reconcile_holds [OF assms(1) _ assms(2), of inventories env] show ?thesis
    by (cases fault) auto
qed (use assms in simp)

lemma controller_next_holds:
  assumes "controller_next env (brings holds) c c'" and "fleet_holds holds c \<and> controller_ok c"
  shows "fleet_holds holds c' \<and> controller_ok c'"
proof -
  have "controller_ok c'"
    using controller_next_kept [OF assms(1)] assms(2) by (simp add: controller_kept_def)
  moreover have "fleet_holds holds c'"
    using assms(1)
  proof cases
    case (on_event ev stop)
    with event_holds assms(2) show ?thesis
      by blast
  next
    case (on_request req reply)
    with request_holds [of c req] assms(2) show ?thesis
      by simp
  qed
  ultimately show ?thesis
    by blast
qed

end

text \<open>Hence a contract is an invariant of every run.\<close>

sublocale client_contract \<subseteq> fleet: kept_invariant "controller_next env (brings holds)"
    "\<lambda>c. fleet_holds holds c \<and> controller_ok c"
  by unfold_locales (rule controller_next_holds)

subsection \<open>Clients that resize exactly\<close>

locale exact_client = client_contract env holds
  for env :: "('c, 'r, 'e) controller_env" and holds :: "string \<Rightarrow> 'c \<Rightarrow> bool" +
  fixes pool_size :: "'c \<Rightarrow> nat"
  assumes resize_exact:
    "holds vm c \<Longrightarrow> op_set_thread_count (client_of env) n c = (Inr (), c') \<Longrightarrow> pool_size c' = unat n"
begin

text \<open>A request that succeeds leaves the recorded count equal to the size of the pool.\<close>

lemma request_exact:
  assumes "fleet_holds holds c" and "handle_set_thread_count env vm threads sticky c = (Inr (), c')"
  obtains i' where "hm_get (ct_instances c') vm = Some i'" and "holds vm (inst_client i')"
    and "st_thread_count (inst_status i') = threads" and "pool_size (inst_client i') = unat threads"
proof -
  obtain i where i: "hm_get (ct_instances c) vm = Some i"
    using assms(2) by (cases "hm_get (ct_instances c) vm") (auto simp: handle_set_thread_count_def)
  obtain res cl where res: "op_set_thread_count (client_of env) threads (inst_client i) = (res, cl)"
    by fastforce
  have held: "holds vm (inst_client i)"
    using assms(1) i by (simp add: fleet_holds_def)
  have "res = Inr ()" and get: "hm_get (ct_instances c') vm = Some (i\<lparr>inst_client := cl,
      inst_status := (inst_status i)\<lparr>st_thread_count := threads, st_manual_scaling_sticky := sticky\<rparr>\<rparr>)"
    using assms(2) i res
    by (auto simp: handle_set_thread_count_def set_instance_def hm_get_insert split: if_splits sum.splits)
  then have "pool_size cl = unat threads" "holds vm cl"
    using resize_exact [OF held] resize_holds [OF held res] res by auto
  with get that show ?thesis
    by simp
qed

text \<open>And so does a decision of the engine that was carried out.\<close>

lemma decision_exact:
  assumes "fleet_holds holds c" and "apply_engine_decision env t k action c = (Inr True, c')"
    and "\<not> cfg_dry_run (ct_cfg c)"
  obtains i' where "hm_get (ct_instances c') k = Some i'" and "holds k (inst_client i')"
    and "pool_size (inst_client i') = unat (st_thread_count (inst_status i'))"
proof -
  obtain tgt i where i: "target action = Some tgt" "hm_get (ct_instances c) k = Some i"
    using assms(2) by (auto simp: apply_engine_decision_def Let_def split: option.splits)
  obtain res cl where res: "op_set_thread_count (client_of env) tgt (inst_client i) = (res, cl)"
    by fastforce
  have held: "holds k (inst_client i)"
    using assms(1) i by (simp add: fleet_holds_def)
  have "res = Inr ()" and get: "\<exists>until. hm_get (ct_instances c') k = Some (i\<lparr>inst_client := cl,
      inst_status := (inst_status i)\<lparr>st_thread_count := tgt, st_cooldown_until := Some until\<rparr>\<rparr>)"
    using assms(2,3) i res
    by (auto simp: apply_engine_decision_def Let_def set_instance_def hm_get_insert
        split: option.splits if_splits sum.splits)
  moreover from this have "pool_size cl = unat tgt" "holds k cl"
    using resize_exact [OF held] resize_holds [OF held res] res by auto
  ultimately show ?thesis
    using that by auto
qed

end

end
