(* ===== verification/Qemu_Fleet.thy ===== *)
theory Qemu_Fleet
  imports Qemu_Backend Client_Fleet
begin

section \<open>The daemon over a fleet of QEMU guests (backends/qemu, controller.rs, daemon.rs)\<close>

text \<open>
  The QEMU client keeps the contracts of \<open>Client_Fleet\<close>: as long as the VM answers and nobody
  else meddles with its IOThreads, its list of IOThreads and the host move together, whatever command
  is refused.  So they do for every such VM, in every state the daemon reaches.
\<close>

subsection \<open>What is relied on\<close>

text \<open>
  Beside what QMP documents of its commands (\<open>host_contract\<close>): the metrics of a calm host list
  only IOThreads that exist, and there are fewer than \<open>2^32\<close> of them.
\<close>

definition metrics_true ::
  "'q qemu_env \<Rightarrow> string \<Rightarrow> ('q \<Rightarrow> string set \<times> json) \<Rightarrow> ('q \<Rightarrow> bool) \<Rightarrow> bool" where
  "metrics_true env uuid view calm \<longleftrightarrow> (\<forall>q body q'.
     qmp_query_prometheus_metrics (qe_libvirt env) (qe_codec env) uuid q = (Inr body, q') \<longrightarrow>
     (calm q' \<longrightarrow> set (qt_iothreads (topology_new body)) \<subseteq> fst (view q')) \<and>
     length (qt_iothreads (topology_new body)) < 2 ^ 32)"

text \<open>What a client of the VM keeps.\<close>

definition qemu_holds ::
  "'q qemu_env \<Rightarrow> ('q \<Rightarrow> string set \<times> json) \<Rightarrow> ('q \<Rightarrow> bool) \<Rightarrow> string \<Rightarrow> 'q qemu_client \<Rightarrow> bool" where
  "qemu_holds env view calm vm c \<longleftrightarrow>
     qi_uuid c = vm \<and> host_contract env vm view calm \<and> metrics_true env vm view calm \<and>
     in_step view calm c \<and> length (qi_iothreads c) < 2 ^ 32"

subsection \<open>The snapshot\<close>

lemma query_view:
  assumes "host_contract env uuid view calm"
    and "execute (qe_libvirt env) (qe_codec env) uuid cmd args q = (r, q')"
    and "cmd \<notin> {''object-add'', ''object-del'', ''x-virtio-scsi-set-iothread-vq-mapping''}" and "calm q'"
  shows "calm q \<and> view q' = view q"
  using execute_view [OF assms(1,2,4)] assms(3) by (cases r; cases "view q") (simp_all add: host_effect_def)

text \<open>A query leaves a host calm only if it was, and then leaves it as it was.\<close>

definition same_host :: "('q \<Rightarrow> string set \<times> json) \<Rightarrow> ('q \<Rightarrow> bool) \<Rightarrow> 'q \<Rightarrow> 'q \<Rightarrow> bool" where
  "same_host view calm q q' \<longleftrightarrow> (calm q' \<longrightarrow> calm q \<and> view q' = view q)"

lemma same_host_trans: "same_host view calm a b \<Longrightarrow> same_host view calm b c \<Longrightarrow> same_host view calm a c"
  by (auto simp: same_host_def)

lemma in_step_cong:
  "same_host view calm (qi_host c) (qi_host c') \<Longrightarrow> qi_iothreads c' = qi_iothreads c \<Longrightarrow>
   in_step view calm c \<Longrightarrow> in_step view calm c'"
  by (auto simp: in_step_def same_host_def host_ok_def)

lemma blockstats_view:
  assumes "host_contract env (qi_uuid c) view calm" and "query_blockstats env c = (p, c')"
  shows "same_host view calm (qi_host c) (qi_host c') \<and> qi_iothreads c' = qi_iothreads c \<and> qi_uuid c' = qi_uuid c"
proof -
  obtain r q where r: "execute (qe_libvirt env) (qe_codec env) (qi_uuid c) ''query-blockstats'' None (qi_host c) = (r, q)"
    by fastforce
  with assms(2) have "c' = c\<lparr>qi_host := q\<rparr>"
    by (auto simp: query_blockstats_def on_host_def qmp_query_blockstats_def split: sum.splits)
  with query_view [OF assms(1) r] show ?thesis
    by (simp add: same_host_def)
qed

lemma metrics_view:
  assumes "host_contract env uuid view calm"
    and "qmp_query_prometheus_metrics (qe_libvirt env) (qe_codec env) uuid q = (r, q')"
  shows "same_host view calm q q'"
proof -
  obtain raw q1 where e: "execute (qe_libvirt env) (qe_codec env) uuid ''x-query-prometheus-metrics'' None q = (raw, q1)"
    by fastforce
  with assms(2) query_view [OF assms(1) e] show ?thesis
    by (simp add: qmp_query_prometheus_metrics_def same_host_def)
qed

lemma snapshot_keeps:
  assumes held: "qemu_holds env view calm vm c" and "get_thread_pool_snapshot env pe c = (s, c')"
  shows "qemu_holds env view calm vm c'"
proof -
  have vm: "qi_uuid c = vm" "host_contract env (qi_uuid c) view calm" "metrics_true env vm view calm"
    using held by (simp_all add: qemu_holds_def)
  obtain r q where r: "qmp_query_prometheus_metrics (qe_libvirt env) (qe_codec env) (qi_uuid c) (qi_host c) = (r, q)"
    by fastforce
  note view = metrics_view [OF vm(2) r]
  have same: "qemu_holds env view calm vm d"
    if "same_host view calm (qi_host c) (qi_host d)" "qi_iothreads d = qi_iothreads c" "qi_uuid d = qi_uuid c" for d
    using held in_step_cong [OF that(1,2)] that(2,3) by (simp add: qemu_holds_def)
  let ?on = "on_host (qmp_query_prometheus_metrics (qe_libvirt env) (qe_codec env) (qi_uuid c)) c"
  have on: "?on = (r, c\<lparr>qi_host := q\<rparr>)"
    using r by (simp add: on_host_def)
  show ?thesis
  proof (cases r)
    case (Inl e)
    obtain p c2 where b: "query_blockstats env (c\<lparr>qi_host := q, qi_warned_unsupported_metrics := True\<rparr>) = (p, c2)"
      by fastforce
    have "c' = c\<lparr>qi_host := q\<rparr> \<or> c' = c2"
      using assms(2) on Inl b
      by (auto simp: get_thread_pool_snapshot_def snapshot_from_cached_topology_def Let_def
          split: qemu_error.splits if_splits)
    then show ?thesis
      using blockstats_view [OF _ b, of view calm] vm(2) view
      by (auto intro: same same_host_trans)
  next
    case (Inr body)
    define topo where "topo = topology_new body"
    show ?thesis
    proof (cases "sample_topology pe topo")
      case (Inl e)
      with assms(2) on Inr view show ?thesis
        by (auto simp: get_thread_pool_snapshot_def topo_def Let_def intro: same)
    next
      case sample: (Inr ps)
      obtain pid sample where ps: "ps = (pid, sample)"
        by fastforce
      define c1 where "c1 = c\<lparr>qi_host := q, qi_pid := pid, qi_iothreads := qt_iothreads topo,
        qi_iothread_tids := qt_iothread_tids topo, qi_device_path := qt_device_path topo,
        qi_vq_count := qt_vq_count topo, qi_last_sample := Some sample\<rparr>"
      obtain p c2 where b: "query_blockstats env c1 = (p, c2)"
        by fastforce
      have "c' = c2"
        using assms(2) on Inr sample b unfolding ps
        by (auto simp: get_thread_pool_snapshot_def topo_def c1_def Let_def)
      moreover have c2: "same_host view calm q (qi_host c2)" "qi_iothreads c2 = qt_iothreads topo" "qi_uuid c2 = vm"
        using blockstats_view [OF _ b, of view calm] vm by (simp_all add: c1_def)
      moreover have listed: "calm q \<longrightarrow> set (qt_iothreads topo) \<subseteq> fst (view q)" "length (qt_iothreads topo) < 2 ^ 32"
        using vm(3) r Inr unfolding metrics_true_def topo_def vm(1) by blast+
      moreover have "distinct (qt_iothreads topo)"
        unfolding topo_def using topology_shape by blast
      ultimately show ?thesis
        using held view by (auto simp: qemu_holds_def in_step_def host_ok_def same_host_def)
    qed
  qed
qed

subsection \<open>The resize\<close>

lemma scale_up_Inl: "scale_up env c = (Inl e, c') \<Longrightarrow> qi_iothreads c' = qi_iothreads c"
  by (auto simp: scale_up_def Let_def dest!: cl_map_keeps cl_add_keeps split: sum.splits prod.splits)

lemma scale_up_loop_short:
  "length (qi_iothreads c) < 2 ^ 32 \<Longrightarrow> scale_up_loop env tgt c = (r, c') \<Longrightarrow> length (qi_iothreads c') < 2 ^ 32"
proof (induction env tgt c rule: scale_up_loop.induct)
  case (1 env tgt c)
  show ?case
  proof (cases "tgt \<le> thread_count c")
    case True
    with 1(2,3) show ?thesis
      by (simp add: scale_up_loop.simps [of env tgt c])
  next
    case False
    obtain r1 c1 where up: "scale_up env c = (r1, c1)"
      by fastforce
    show ?thesis
    proof (cases r1)
      case (Inl e)
      with 1(2,3) False up scale_up_Inl [of env c e c1] show ?thesis
        by (simp add: scale_up_loop.simps [of env tgt c])
    next
      case (Inr new)
      have new: "new \<noteq> thread_count c"
        using scale_up_iothreads [OF up [unfolded Inr]] scale_up_Inr [OF up [unfolded Inr]]
        by (simp add: thread_count_def)
      have "length (qi_iothreads c) < unat tgt"
        using False thread_count_unat [OF 1(2)] by (simp add: word_le_nat_alt)
      then have "length (qi_iothreads c1) < 2 ^ 32"
        using scale_up_Inr [OF up [unfolded Inr]] unsigned_less [of tgt, where 'a = nat] by simp
      moreover have "scale_up_loop env tgt c1 = (r, c')"
        using 1(3) False up Inr new by (simp add: scale_up_loop.simps [of env tgt c])
      ultimately show ?thesis
        using 1(1) [OF False up [symmetric] Inr new] by blast
    qed
  qed
qed

lemma scale_down_loop_short:
  "scale_down_loop env tgt c = (r, c') \<Longrightarrow> length (qi_iothreads c') \<le> length (qi_iothreads c)"
proof (induction env tgt c rule: scale_down_loop.induct)
  case (1 env tgt c)
  obtain r1 c1 where down: "scale_down env c = (r1, c1)"
    by fastforce
  have le: "length (qi_iothreads c1) \<le> length (qi_iothreads c)"
    using down scale_down_Inl scale_down_Inr by (cases r1) fastforce+
  show ?case
  proof (cases "thread_count c \<le> tgt \<or> (\<exists>e. r1 = Inl e) \<or> r1 = Inr (thread_count c)")
    case True
    with 1(2) down le show ?thesis
      by (auto simp: scale_down_loop.simps [of env tgt c] split: if_splits)
  next
    case False
    then obtain new where new: "r1 = Inr new" "new \<noteq> thread_count c" "\<not> thread_count c \<le> tgt"
      by (cases r1) auto
    then have "scale_down_loop env tgt c1 = (r, c')"
      using 1(2) down by (simp add: scale_down_loop.simps [of env tgt c])
    with 1(1) [OF new(3) down [symmetric] new(1,2)] le show ?thesis
      by fastforce
  qed
qed

lemma resize_keeps:
  assumes held: "qemu_holds env view calm vm c" and run: "set_thread_count env tgt c = (r, c')"
  shows "qemu_holds env view calm vm c'"
proof -
  have c: "qi_uuid c = vm" "host_contract env (qi_uuid c) view calm" "in_step view calm c"
      "length (qi_iothreads c) < 2 ^ 32"
    using held by (simp_all add: qemu_holds_def)
  obtain r1 c1 where up: "scale_up_loop env tgt c = (r1, c1)"
    by fastforce
  obtain r2 c2 where down: "scale_down_loop env tgt c1 = (r2, c2)"
    by fastforce
  have "length (qi_iothreads c1) < 2 ^ 32"
    using scale_up_loop_short [OF c(4) up] .
  moreover have "c' = c1 \<or> c' = c2"
    using run up down by (auto simp: set_thread_count_def split: sum.splits)
  ultimately have "length (qi_iothreads c') < 2 ^ 32"
    using scale_down_loop_short [OF down] by auto
  with resize_host [OF c(2,3) run] held show ?thesis
    by (simp add: qemu_holds_def)
qed

subsection \<open>The contracts hold\<close>

text \<open>The environment of a controller whose backend is this one.\<close>

definition qemu_controller ::
  "('q qemu_client, 'r, 'e) controller_env \<Rightarrow> 'q qemu_env \<Rightarrow> pool_env \<Rightarrow> ('q qemu_client, 'r, 'e) controller_env" where
  "qemu_controller base qenv pe = base\<lparr>ce_client := qemu_client_ops qenv pe\<rparr>"

lemma qemu_controller_ops [simp]:
  "op_set_thread_count (client_of (qemu_controller base qenv pe)) = set_thread_count qenv"
  "op_get_thread_pool_snapshot (client_of (qemu_controller base qenv pe)) = get_thread_pool_snapshot qenv pe"
  by (simp_all add: qemu_controller_def client_of_def box_client_def client_defaults_def qemu_client_ops_def)

interpretation qemu: exact_client "qemu_controller base qenv pe" "qemu_holds qenv view calm" "\<lambda>c. length (qi_iothreads c)"
  for base qenv pe view calm
proof unfold_locales
  fix vm :: string and c c' :: "'a qemu_client" and n :: u32
  assume held: "qemu_holds qenv view calm vm c"
  show "qemu_holds qenv view calm vm c'"
    if "op_set_thread_count (client_of (qemu_controller base qenv pe)) n c = (r, c')" for r
    using resize_keeps [OF held] that by simp
  show "qemu_holds qenv view calm vm c'"
    if "op_get_thread_pool_snapshot (client_of (qemu_controller base qenv pe)) c = (s, c')" for s
    using snapshot_keeps [OF held] that by simp
  show "length (qi_iothreads c') = unat n"
    if "op_set_thread_count (client_of (qemu_controller base qenv pe)) n c = (Inr (), c')"
    using resize_length [of qenv n c c'] that held by (simp add: qemu_holds_def)
qed

text \<open>
  C16: a client and its VM agree for as long as the VM answers.  Through ticks, path events and
  requests in any order, whichever commands QEMU refuses, and as long as discovery brings in clients
  that agree with their hosts: the client of every VM is the VM's own; and if every command sent to the
  VM so far was answered by QEMU, with success or with an error, and nobody else changed its IOThreads
  and its mapping (\<open>calm\<close>), then the client lists each of its IOThreads once, all of them exist
  on the host, and no virtqueue is mapped to a thread that does not exist.  Answers lost on the way to
  other VMs make no difference; of a VM whose own answers got lost nothing is claimed.
\<close>

theorem hosts_stay_coherent:
  assumes "controller_ok c" and "fleet_holds (qemu_holds qenv view calm) c"
    and "(controller_next (qemu_controller base qenv pe) (brings (qemu_holds qenv view calm)))\<^sup>*\<^sup>* c c'"
    and "hm_get (ct_instances c') vm = Some i"
  shows "qi_uuid (inst_client i) = vm \<and>
    (calm (qi_host (inst_client i)) \<longrightarrow> distinct (qi_iothreads (inst_client i)) \<and>
      set (qi_iothreads (inst_client i)) \<subseteq> fst (view (qi_host (inst_client i))) \<and>
      mapped_threads (snd (view (qi_host (inst_client i)))) \<subseteq> fst (view (qi_host (inst_client i))))"
proof -
  have "fleet_holds (qemu_holds qenv view calm) c'"
    using qemu.fleet.run [OF assms(3)] assms(1,2) by blast
  with assms(4) show ?thesis
    by (simp add: fleet_holds_def qemu_holds_def in_step_def host_ok_def)
qed

text \<open>
  C17: a resize asked of the controller reaches the host.  When \<open>SetThreadCount\<close> succeeds on a VM
  of this backend, in any state the daemon can be in, then the recorded count is the requested one and
  the client's list of IOThreads has that length; and if the VM has answered every command so far and
  nobody else changed its IOThreads (\<open>calm\<close>), exactly those IOThreads of the VM exist on the
  host, beside the objects that were never the client's.  A request that fails, too, leaves such a VM
  with every IOThread of the client's list in existence and no virtqueue on a thread that does not
  exist.
\<close>

theorem resize_reaches_host:
  assumes "controller_ok c0" and "fleet_holds (qemu_holds qenv view calm) c0"
    and "(controller_next (qemu_controller base qenv pe) (brings (qemu_holds qenv view calm)))\<^sup>*\<^sup>* c0 c"
    and "hm_get (ct_instances c) vm = Some i"
    and "handle_set_thread_count (qemu_controller base qenv pe) vm threads sticky c = (r, c')"
  shows "\<exists>i'. hm_get (ct_instances c') vm = Some i' \<and>
    (calm (qi_host (inst_client i')) \<longrightarrow> host_ok view (inst_client i')) \<and>
    (r = Inr () \<longrightarrow> st_thread_count (inst_status i') = threads \<and>
       length (qi_iothreads (inst_client i')) = unat threads \<and>
       (calm (qi_host (inst_client i')) \<longrightarrow> fst (view (qi_host (inst_client i'))) =
         foreign view (inst_client i) \<union> set (qi_iothreads (inst_client i'))))"
proof -
  have held: "fleet_holds (qemu_holds qenv view calm) c"
    using qemu.fleet.run [OF assms(3)] assms(1,2) by blast
  then have i: "host_contract qenv (qi_uuid (inst_client i)) view calm" "in_step view calm (inst_client i)"
    using assms(4) by (auto simp: fleet_holds_def qemu_holds_def)
  obtain i' where i': "hm_get (ct_instances c') vm = Some i'"
    using assms(4,5) by (auto simp: handle_set_thread_count_def hm_get_insert split: if_splits prod.splits sum.splits)
  have "fleet_holds (qemu_holds qenv view calm) c'"
    using qemu.set_thread_count_holds [OF held assms(5)] .
  then have ok: "in_step view calm (inst_client i')"
    using i' by (auto simp: fleet_holds_def qemu_holds_def)
  have "st_thread_count (inst_status i') = threads \<and> length (qi_iothreads (inst_client i')) = unat threads \<and>
      (calm (qi_host (inst_client i')) \<longrightarrow> fst (view (qi_host (inst_client i'))) =
        foreign view (inst_client i) \<union> set (qi_iothreads (inst_client i')))"
    if "r = Inr ()"
  proof -
    note run = assms(5) [unfolded that]
    obtain q where "set_thread_count qenv threads (inst_client i) = (Inr (), q)" "inst_client i' = q"
      using run assms(4) i'
      by (auto simp: handle_set_thread_count_def set_instance_def hm_get_insert split: if_splits prod.splits sum.splits)
    with resize_host [OF i] have "calm (qi_host (inst_client i')) \<longrightarrow> fst (view (qi_host (inst_client i'))) =
        foreign view (inst_client i) \<union> set (qi_iothreads (inst_client i'))"
      by blast
    then show ?thesis
      using qemu.request_exact [OF held run] i' by auto
  qed
  with i' ok show ?thesis
    by (auto simp: in_step_def)
qed

subsection \<open>A concrete fleet\<close>

definition sim_pool :: pool_env where
  "sim_pool =
     \<lparr>qp_now = 0, qp_hz = 100, qp_process = (\<lambda>_. True), qp_tgid = (\<lambda>_. Inr 1),
      qp_task_stat = (\<lambda>_. Some (0, 0))\<rparr>"

definition sim_controller_env ::
  "((string list \<times> json) qemu_client, unit, threshold_engine) controller_env"
where
  "sim_controller_env =
     \<lparr>ce_client = qemu_client_ops sim_env sim_pool, ce_engine = threshold_ops, ce_is_match = (\<lambda>_ _. True),
      ce_ticks_per_second = Fin 100, ce_root = [RootDir], ce_process_id = ''1'',
      ce_encode = (\<lambda>_. Inr ''saved''), ce_median = (\<lambda>_. Fin 0), ce_version = ''1'',
      ce_snapshot_json = (\<lambda>_. ''[]''), ce_stats_json = (\<lambda>_ _. ''[]''),
      ce_mapping_json = (\<lambda>_. Inr ''[]''), ce_parse_mapping = (\<lambda>_. Inr [])\<rparr>"

definition sim_vm :: "((string list \<times> json) qemu_client, unit) vm_instance" where
  "sim_vm = (let i = instance_new ''vm'' [] 1 (sim_client [''iot0''])
     in i\<lparr>inst_status := (inst_status i)\<lparr>st_vcpu_count := 4\<rparr>\<rparr>)"

definition sim_controller ::
  "((string list \<times> json) qemu_client, unit, threshold_engine) controller"
where
  "sim_controller =
     \<lparr>ct_cfg = demo_settings, ct_engine = demo_engine, ct_vm_ownership = ownership_default,
      ct_instances = [(''vm'', sim_vm)], ct_tick_index = 0, ct_last_host_cpu = None,
      ct_host_cpu_util = Fin 0, ct_psi = psi_default, ct_files = (\<lambda>_. None)\<rparr>"

lemma sim_metrics: "metrics_true sim_env uuid (\<lambda>q. (set (fst q), snd q)) (\<lambda>_. True)"
  unfolding metrics_true_def
proof (intro allI impI)
  fix q body q'
  assume "qmp_query_prometheus_metrics (qe_libvirt sim_env) (qe_codec sim_env) uuid q = (Inr body, q')"
  then have "body = ''{}''"
    by (auto simp: qmp_query_prometheus_metrics_def execute_def sim_env_def sim_monitor_def lookup_vm_def Let_def
        parse_qmp_envelope_def split: if_splits)
  moreover have "qt_iothreads (topology_new ''{}'') = []"
    by code_simp
  ultimately show "(True \<longrightarrow> set (qt_iothreads (topology_new body)) \<subseteq> fst (set (fst q'), snd q')) \<and>
      length (qt_iothreads (topology_new body)) < 2 ^ 32"
    by simp
qed

lemma sim_fleet:
  "controller_ok sim_controller"
  "fleet_holds (qemu_holds sim_env (\<lambda>q. (set (fst q), snd q)) (\<lambda>_. True)) sim_controller"
  "hm_get (ct_instances sim_controller) ''vm'' = Some sim_vm"
  "inst_client sim_vm = sim_client [''iot0'']" "st_vcpu_count (inst_status sim_vm) = 4"
  "qemu_controller sim_controller_env sim_env sim_pool = sim_controller_env"
proof -
  show vm: "hm_get (ct_instances sim_controller) ''vm'' = Some sim_vm"
    by (simp add: sim_controller_def hm_get_def)
  show client: "inst_client sim_vm = sim_client [''iot0'']" "st_vcpu_count (inst_status sim_vm) = 4"
    by (simp_all add: sim_vm_def instance_new_def Let_def)
  show "qemu_controller sim_controller_env sim_env sim_pool = sim_controller_env"
    by (simp add: qemu_controller_def sim_controller_env_def)
  show "controller_ok sim_controller"
    by (auto simp: controller_ok_def sim_controller_def hm_get_def hm_ok_def hm_keys_def sim_vm_def instance_new_def
        classification_def ownership_default_def ownership_ok_def Let_def split: if_splits)
  have "qemu_holds sim_env (\<lambda>q. (set (fst q), snd q)) (\<lambda>_. True) ''vm'' (sim_client [''iot0''])"
    using sim_contract sim_metrics sim_ok [of "[''iot0'']"] by (simp add: qemu_holds_def in_step_def) (simp add: sim_client_def qemu_client_new_def)
  then show "fleet_holds (qemu_holds sim_env (\<lambda>q. (set (fst q), snd q)) (\<lambda>_. True)) sim_controller"
    using client by (auto simp: fleet_holds_def sim_controller_def hm_get_def split: if_splits)
qed

lemma sim_resize:
  obtains c' where "handle_set_thread_count sim_controller_env ''vm'' 2 True sim_controller = (Inr (), c')"
proof -
  obtain r c' where run: "handle_set_thread_count sim_controller_env ''vm'' 2 True sim_controller = (r, c')"
    by fastforce
  have ops: "op_set_thread_count (client_of sim_controller_env) = set_thread_count sim_env"
    by (simp add: client_of_def box_client_def client_defaults_def qemu_client_ops_def sim_controller_env_def)
  have "r = Inr ()"
    using run sim_grows by (auto simp: handle_set_thread_count_def sim_fleet ops split: prod.splits sum.splits)
  with run that show thesis
    by simp
qed

theorem resize_reaches_host_witness:
  "\<exists>c' i'. handle_set_thread_count sim_controller_env ''vm'' 2 True sim_controller = (Inr (), c') \<and>
     hm_get (ct_instances c') ''vm'' = Some i' \<and> st_thread_count (inst_status i') = 2 \<and>
     length (qi_iothreads (inst_client i')) = 2"
proof -
  obtain c' where run: "handle_set_thread_count sim_controller_env ''vm'' 2 True sim_controller = (Inr (), c')"
    by (rule sim_resize)
  then have "handle_set_thread_count (qemu_controller sim_controller_env sim_env sim_pool) ''vm'' 2 True
      sim_controller = (Inr (), c')"
    by (simp only: sim_fleet(6))
  from resize_reaches_host [OF sim_fleet(1,2) rtranclp.rtrancl_refl sim_fleet(3) this] run show ?thesis
    by auto
qed

theorem hosts_stay_coherent_witness:
  "\<exists>c' i. handle_set_thread_count sim_controller_env ''vm'' 2 True sim_controller = (Inr (), c') \<and>
     hm_get (ct_instances c') ''vm'' = Some i \<and>
     set (qi_iothreads (inst_client i)) \<subseteq> set (fst (qi_host (inst_client i)))"
proof -
  obtain c' where run: "handle_set_thread_count sim_controller_env ''vm'' 2 True sim_controller = (Inr (), c')"
    by (rule sim_resize)
  then have "handle_dbus_request (qemu_controller sim_controller_env sim_env sim_pool) (SetThreadCount ''vm'' 2 True)
      sim_controller = (ReplyUnit (Inr ()), c')"
    by (simp add: handle_dbus_request_def sim_fleet(6))
  from r_into_rtranclp [of "controller_next _ _", OF on_request [OF this]]
  have "(controller_next (qemu_controller sim_controller_env sim_env sim_pool)
      (brings (qemu_holds sim_env (\<lambda>q. (set (fst q), snd q)) (\<lambda>_. True))))\<^sup>*\<^sup>* sim_controller c'" .
  note coherent = hosts_stay_coherent [OF sim_fleet(1,2) this]
  obtain i where "hm_get (ct_instances c') ''vm'' = Some i"
    using run by (auto simp: handle_set_thread_count_def sim_fleet(3) hm_get_insert split: if_splits prod.splits sum.splits)
  with coherent [OF this] run show ?thesis
    by auto
qed

end
