(* ===== verification/Dashboard_Frame.thy ===== *)
theory Dashboard_Frame
  imports Dashboard_View
begin

section \<open>The dashboard's frame (bin/iothread-tui.rs)\<close>

text \<open>
  The title bar, the table of VMs, the dialogs and the order in which a frame paints them.  A widget is
  represented by its texts, its colours where they say something, and its rectangle where the code
  computes one; the splitting of the screen into rows is done by the drawing library.  A frame that
  would panic is \<open>None\<close>.
\<close>

subsection \<open>The table of VMs\<close>

definition dashboard_cell :: "dash_column \<Rightarrow> latest_status \<Rightarrow> string" where
  "dashboard_cell col s =
     (case col of
        ColId \<Rightarrow> []
      | ColThreads \<Rightarrow> if ls_sticky s then show_word (ls_thread_count s) @ ''*'' else show_word (ls_thread_count s)
      | ColIops \<Rightarrow> humanize (ls_iops_r s) @ ''/'' @ humanize (ls_iops_w s) @ ''/'' @ humanize (ls_iops_o s)
      | ColBandwidth \<Rightarrow> fmt_bandwidth_mbps (ls_bw_r_mb s) @ '' / '' @ fmt_bandwidth_mbps (ls_bw_w_mb s)
      | ColCpu \<Rightarrow> fmt_cpu_triple (ls_cpu_pct_avg s) (ls_cpu_pct_median s) (ls_cpu_pct_total s) (ls_cpu_pct s)
      | ColUsPerIop \<Rightarrow> fmt_cpu_per_iop (ls_cpu_us_per_iop s)
      | ColLatRead \<Rightarrow> fmt_lat (ls_lat_r_us s)
      | ColLatWrite \<Rightarrow> fmt_lat (ls_lat_w_us s)
      | ColQueueDepth \<Rightarrow> fmt_qd s
      | ColNumQueues \<Rightarrow> (case ls_num_queues s of Some n \<Rightarrow> show_word n | None \<Rightarrow> ''-''))"

record table_row =
  tr_cells :: "string list"
  tr_color :: color
  tr_reversed :: bool
  tr_dim :: bool
  tr_bold :: bool

record fleet_table =
  ft_header :: "string list"
  ft_widths :: "u16 list"
  ft_rows :: "table_row list"

text \<open>The sums of the last row, VM by VM.\<close>

definition total_add :: "latest_status \<Rightarrow> latest_status \<Rightarrow> latest_status" where
  "total_add acc s =
     acc\<lparr>ls_thread_count := sat_add (ls_thread_count acc) (ls_thread_count s),
       ls_iops_r := f64_add (ls_iops_r acc) (ls_iops_r s), ls_iops_w := f64_add (ls_iops_w acc) (ls_iops_w s),
       ls_iops_o := f64_add (ls_iops_o acc) (ls_iops_o s), ls_bw_r_mb := f64_add (ls_bw_r_mb acc) (ls_bw_r_mb s),
       ls_bw_w_mb := f64_add (ls_bw_w_mb acc) (ls_bw_w_mb s), ls_cpu_pct := f64_add (ls_cpu_pct acc) (ls_cpu_pct s),
       ls_qd_total := Some (sat_add (case ls_qd_total acc of None \<Rightarrow> 0 | Some n \<Rightarrow> n)
         (case ls_qd_total s of None \<Rightarrow> 0 | Some n \<Rightarrow> n))\<rparr>"

definition fleet_total :: "vm_view list \<Rightarrow> latest_status" where
  "fleet_total vms =
     (let acc = foldl total_add latest_status_default (map vv_status vms)
      in acc\<lparr>ls_cpu_us_per_iop :=
           us_per_iop (ls_cpu_pct acc) (f64_add (f64_add (ls_iops_r acc) (ls_iops_w acc)) (ls_iops_o acc))\<rparr>)"

definition vm_row :: "ui_state \<Rightarrow> vm_view \<Rightarrow> table_row option" where
  "vm_row ui d =
     map_option (\<lambda>cells.
         \<lparr>tr_cells = cells, tr_color = vm_color ui (vv_color_idx d),
          tr_reversed = (ui_focused ui = Some (FocusVm (vv_id d))), tr_dim = (\<not> ls_alive (vv_status d)),
          tr_bold = False\<rparr>)
       (those (map (\<lambda>c. if c = ColId then shorten_id (vv_id d) (vv_vcpu_count d) else Some (dashboard_cell c (vv_status d)))
          (visible_columns ui)))"

definition total_row :: "ui_state \<Rightarrow> vm_view list \<Rightarrow> table_row" where
  "total_row ui vms =
     (let acc = fleet_total vms
      in \<lparr>tr_cells = map (\<lambda>c. case c of
             ColId \<Rightarrow> ''TOTAL''
           | ColLatRead \<Rightarrow> ''-''
           | ColLatWrite \<Rightarrow> ''-''
           | ColQueueDepth \<Rightarrow> fmt_qd_total (ls_qd_total acc)
           | ColNumQueues \<Rightarrow> ''-''
           | other \<Rightarrow> dashboard_cell other acc) (visible_columns ui),
          tr_color = th_aggregate (ui_theme ui), tr_reversed = (ui_focused ui = Some FocusTotal), tr_dim = False,
          tr_bold = True\<rparr>)"

definition draw_dashboard :: "ui_state \<Rightarrow> render_snapshot \<Rightarrow> fleet_table option" where
  "draw_dashboard ui snap =
     map_option (\<lambda>rows.
         \<lparr>ft_header = map column_label (visible_columns ui), ft_widths = map column_width (visible_columns ui),
          ft_rows = rows @ (if 2 \<le> length (rs_vms snap) then [total_row ui (rs_vms snap)] else [])\<rparr>)
       (those (map (vm_row ui) (rs_vms snap)))"

subsection \<open>The title bar\<close>

definition draw_title :: "u64 \<Rightarrow> ui_state \<Rightarrow> nat \<Rightarrow> f64 \<Rightarrow> string" where
  "draw_title iop_size ui n_vms refresh_secs =
     ''iothread-tui'' @ ''  '' @ axis_label iop_size (ui_perf_metric ui) @ ''  refresh '' @ fmt_duration_secs refresh_secs @
     ''  vms='' @ show_int (int n_vms) @ (if ui_paused ui then '' [PAUSED]'' else []) @
     (if ui_sticky_mode ui then '' [STICKY]'' else []) @ ''   '' @
     ''[h]elp [q]uit [m]etric [p]ause [r]efresh [t]heme [a]ggregate 12345 plots '' @
     [CHR 0xE2, CHR 0x86, CHR 0x91, CHR 0xE2, CHR 0x86, CHR 0x93] @ '' focus s+/- threads''"

subsection \<open>Dialogs\<close>

record rect =
  rc_x :: u16
  rc_y :: u16
  rc_width :: u16
  rc_height :: u16

text \<open>The rectangle of every dialog: as large as it wants to be, cut at the screen and centred.\<close>

definition centred :: "u16 \<Rightarrow> u16 \<Rightarrow> rect \<Rightarrow> rect" where
  "centred want_width want_height full =
     (let width = min want_width (rc_width full); height = min want_height (rc_height full)
      in \<lparr>rc_x = rc_x full + sat_sub (rc_width full) width div 2,
          rc_y = rc_y full + sat_sub (rc_height full) height div 2, rc_width = width, rc_height = height\<rparr>)"

definition draw_column_picker :: "ui_state \<Rightarrow> rect \<Rightarrow> (rect \<times> string list) option" where
  "draw_column_picker ui full =
     map_option (\<lambda>cursor.
         (centred 44 (of_nat (length all_columns) + 5) full,
          [''dashboard columns'', []] @
          map (\<lambda>col. '' '' @
              (if column_required col then ''['' @ [CHR 0xC2, CHR 0xB7] @ '']''
               else if col \<in> ui_columns ui then ''[x]'' else ''[ ]'') @ '' '' @ column_label col) all_columns @
          [[], ''Space/Enter: toggle    j/k or '' @ [CHR 0xE2, CHR 0x86, CHR 0x91] @ ''/'' @
             [CHR 0xE2, CHR 0x86, CHR 0x93] @ '': move    c/Esc: close'']))
       (ui_column_picker ui)"

definition draw_input_prompt :: "ui_state \<Rightarrow> rect \<Rightarrow> (rect \<times> string list) option" where
  "draw_input_prompt ui full =
     map_option (\<lambda>(kind, buffer).
         let body = [[], ''  '' @ prompt_title kind, [], ''  > '' @ buffer @ ''_'', []]
         in case kind of
              SetThreadsOf vm current sticky \<Rightarrow>
                (centred 60 9 full,
                 body @ [''  '' @ (if sticky then ''[x]'' else ''[ ]'') @ '' sticky   [Tab] toggle'', [],
                   ''  [Enter] commit    [Tab] sticky    [Esc] cancel''])
            | _ \<Rightarrow> (centred 60 7 full, body @ [''  [Enter] commit    [Esc] cancel'']))
       (ui_input_prompt ui)"

text \<open>A message cut inside a character panics.\<close>

definition cut_message :: "nat \<Rightarrow> string \<Rightarrow> string option" where
  "cut_message n err =
     (if n < length err
      then if char_boundary (n - 1) err then Some (take (n - 1) err @ [CHR 0xE2, CHR 0x80, CHR 0xA6]) else None
      else Some err)"

definition draw_daemon_lost_overlay :: "string \<Rightarrow> rect \<Rightarrow> (rect \<times> string list) option" where
  "draw_daemon_lost_overlay err full =
     (let area = centred 74 8 full
      in map_option (\<lambda>trimmed.
             (area, [[], ''the io-thread-controller daemon stopped responding to GetSnapshot'', [],
                ''last error: '' @ trimmed, [], ''press q to quit; the TUI keeps retrying in the background'']))
           (cut_message (unat (rc_width area) - 4) err))"

definition arrow_up :: string where "arrow_up = [CHR 0xE2, CHR 0x86, CHR 0x91]"
definition arrow_down :: string where "arrow_down = [CHR 0xE2, CHR 0x86, CHR 0x93]"

definition draw_help_overlay :: "ui_state \<Rightarrow> rect \<Rightarrow> rect \<times> string list" where
  "draw_help_overlay ui full =
     (let text =
        [''hotkeys'', [],
         ''  q / Esc / Ctrl-C   quit'',
         ''  h / ?              show/hide this help'',
         ''  p / Space          pause (freezes plot + sampler)'',
         ''  m                  toggle IOPS <-> bandwidth'',
         ''  r                  prompt for refresh cadence in seconds'',
         ''  c                  toggle dashboard columns'',
         ''  t                  cycle theme (dark/light)'',
         ''  a                  toggle the aggregate (sum of all vms) plot line'',
         ''  1 2 3 4 5          toggle perf / latency / cpu / qd / us-per-iop panes'',
         ''  '' @ arrow_up @ '' / k              focus previous vm (hides others)'',
         ''  '' @ arrow_down @ '' / j              focus next vm (last slot = TOTAL)'',
         ''  Esc                clear focus (show every vm again)'',
         ''  + / =              scale focused vm +1 thread'',
         ''  -                  scale focused vm -1 thread'',
         ''  n                  set focused vm thread count (with sticky toggle)'',
         ''  s                  toggle sticky mode for +/- (title bar shows [STICKY])'', [],
         ''  l                  toggle log/linear Y-axis for every plot'',
         ''  y                  set Y-max for the first active plot (blank = clear)'',
         ''  z                  reset autoscale (drop old samples so Y shrinks)'',
         ''  x                  toggle X-axis labels: elapsed seconds vs wall-clock (UTC)'', [],
         ''sticky: when a daemon is on D-Bus, +/- go through'',
         ''SetThreadCount(sticky=true) so the engine leaves the'',
         ''instance alone until you clear sticky.'', [],
         ''theme: '' @ th_name (themes ! ui_theme_idx ui), [],
         ''press any key to dismiss'']
      in (centred 72 (of_nat (length text) + 2) full, text))"

subsection \<open>A frame\<close>

text \<open>What is painted, first to last.\<close>

datatype frame_layer =
    TitleBar string
  | Pane canvas_picture
  | FleetTable u16 fleet_table
  | HelpOverlay rect "string list"
  | InputPrompt rect "string list"
  | ColumnPicker rect "string list"
  | DaemonLost rect "string list"

definition dashboard_height :: "nat \<Rightarrow> u16" where
  "dashboard_height n = sat_add (of_nat n) (if 2 \<le> n then 5 else 4)"

definition draw_plots :: "(f64 \<Rightarrow> f64) \<Rightarrow> u64 \<Rightarrow> f64 \<times> f64 \<Rightarrow> ui_state \<Rightarrow> render_snapshot \<Rightarrow> frame_layer list" where
  "draw_plots log10 iop_size window ui snap =
     map (\<lambda>k. Pane (render_line_canvas log10 window ui (draw_plot iop_size (fst window) ui snap k))) (ui_active_plots ui)"

definition draw_frame ::
  "(f64 \<Rightarrow> f64) \<Rightarrow> u64 \<Rightarrow> ui_state \<Rightarrow> render_snapshot \<Rightarrow> f64 \<times> f64 \<Rightarrow> f64 \<Rightarrow> rect \<Rightarrow> frame_layer list option"
where
  "draw_frame log10 iop_size ui snap window refresh_secs full =
     Option.bind (draw_dashboard ui snap) (\<lambda>table.
       map_option (\<lambda>lost.
           [TitleBar (draw_title iop_size ui (length (rs_vms snap)) refresh_secs)] @
           draw_plots log10 iop_size window ui snap @
           [FleetTable (dashboard_height (length (rs_vms snap))) table] @
           (if ui_show_help ui then [case draw_help_overlay ui full of (r, text) \<Rightarrow> HelpOverlay r text] else []) @
           (case draw_input_prompt ui full of None \<Rightarrow> [] | Some (r, text) \<Rightarrow> [InputPrompt r text]) @
           (case draw_column_picker ui full of None \<Rightarrow> [] | Some (r, text) \<Rightarrow> [ColumnPicker r text]) @
           lost)
         (case rs_daemon_error snap of
            None \<Rightarrow> Some []
          | Some err \<Rightarrow> map_option (\<lambda>(r, text). [DaemonLost r text]) (draw_daemon_lost_overlay err full)))"

text \<open>The body of \<open>run_ui\<close>: the time on the right of the plots, frozen while paused, and the
  frame.\<close>

definition frame_time :: "instant \<Rightarrow> ui_state \<Rightarrow> dash_shared \<Rightarrow> f64" where
  "frame_time now ui sh =
     (let running = as_secs_f64 (max 0 (now - sh_started sh))
      in if ui_paused ui then case ui_paused_t_frozen ui of Some t \<Rightarrow> t | None \<Rightarrow> running else running)"

definition plot_window :: "u64 \<Rightarrow> f64 \<Rightarrow> f64 \<times> f64" where
  "plot_window window_s t_now =
     (f64_max (f64_sub t_now (f64_of_word window_s)) (Fin 0), f64_max t_now (f64_of_word window_s))"

definition next_frame ::
  "(f64 \<Rightarrow> f64) \<Rightarrow> u64 \<Rightarrow> u64 \<Rightarrow> instant \<Rightarrow> ui_state \<Rightarrow> dash_shared \<Rightarrow> rect \<Rightarrow> frame_layer list option"
where
  "next_frame log10 iop_size window_s now ui sh full =
     draw_frame log10 iop_size ui (snapshot_shared sh) (plot_window window_s (frame_time now ui sh))
       (as_secs_f64 (refresh_period sh)) full"

subsection \<open>What a frame is made of\<close>

lemma those_map:
  "(\<And>x. x \<in> set xs \<Longrightarrow> f x = Some (g x)) \<Longrightarrow> those (map f xs) = Some (map g xs)"
  by (induction xs) simp_all

definition ascii :: "string \<Rightarrow> bool" where
  "ascii s \<longleftrightarrow> (\<forall>c\<in>set s. (of_char c :: nat) < 128)"

lemma char_boundary_ascii: "ascii s \<Longrightarrow> n \<le> length s \<Longrightarrow> char_boundary n s"
proof -
  assume "ascii s" and "n \<le> length s"
  then have "(of_char (s ! n) :: nat) < 128" if "n < length s"
    using that by (simp add: ascii_def)
  with \<open>n \<le> length s\<close> show ?thesis
    by (auto simp: char_boundary_def)
qed

lemma shorten_ascii: "ascii vm \<Longrightarrow> \<exists>t. shorten_id vm n = Some t"
  by (simp add: shorten_id_def char_boundary_ascii)

lemma cut_message_ascii: "ascii err \<Longrightarrow> \<exists>t. cut_message n err = Some t"
  by (simp add: cut_message_def char_boundary_ascii)

lemma vm_row_ascii:
  assumes "ascii (vv_id d)"
  shows "\<exists>row. vm_row ui d = Some row \<and> length (tr_cells row) = length (visible_columns ui) \<and>
    (tr_reversed row \<longleftrightarrow> ui_focused ui = Some (FocusVm (vv_id d)))"
proof -
  obtain t where "shorten_id (vv_id d) (vv_vcpu_count d) = Some t"
    using shorten_ascii [OF assms] by blast
  then show ?thesis
    using those_map [of "visible_columns ui"
        "\<lambda>c. if c = ColId then shorten_id (vv_id d) (vv_vcpu_count d) else Some (dashboard_cell c (vv_status d))"
        "\<lambda>c. if c = ColId then t else dashboard_cell c (vv_status d)"]
    by (simp add: vm_row_def)
qed

lemma draw_dashboard_ascii:
  assumes "\<forall>d\<in>set (rs_vms snap). ascii (vv_id d)"
  obtains table where "draw_dashboard ui snap = Some table"
    and "length (ft_rows table) = length (rs_vms snap) + (if 2 \<le> length (rs_vms snap) then 1 else 0)"
    and "\<forall>row\<in>set (ft_rows table). length (tr_cells row) = length (ft_header table)"
    and "ft_header table = map column_label (visible_columns ui)"
proof -
  obtain row where row: "\<forall>d\<in>set (rs_vms snap). vm_row ui d = Some (row d) \<and>
      length (tr_cells (row d)) = length (visible_columns ui)"
    using bchoice [of "set (rs_vms snap)" "\<lambda>d r. vm_row ui d = Some r \<and> length (tr_cells r) = length (visible_columns ui)"]
      vm_row_ascii assms by metis
  then have "those (map (vm_row ui) (rs_vms snap)) = Some (map row (rs_vms snap))"
    by (intro those_map) simp
  with row show ?thesis
    by (intro that [OF trans [OF draw_dashboard_def]]) (auto simp: total_row_def Let_def)
qed

definition inside :: "rect \<Rightarrow> rect \<Rightarrow> bool" where
  "inside r full \<longleftrightarrow>
     rc_x full \<le> rc_x r \<and> uint (rc_x r) + uint (rc_width r) \<le> uint (rc_x full) + uint (rc_width full) \<and>
     rc_y full \<le> rc_y r \<and> uint (rc_y r) + uint (rc_height r) \<le> uint (rc_y full) + uint (rc_height full)"

lemma centred_span:
  fixes x w want :: u16
  assumes "uint x + uint w < 2 ^ 16"
  shows "x \<le> x + sat_sub w (min want w) div 2 \<and>
    uint (x + sat_sub w (min want w) div 2) + uint (min want w) \<le> uint x + uint w"
proof -
  let ?m = "min want w" and ?s = "sat_sub w (min want w) div 2"
  have m: "uint ?m \<le> uint w"
    by (simp add: min_def word_le_def)
  have s: "uint ?s = (uint w - uint ?m) div 2"
    using m by (simp add: uint_div_distrib uint_sat_sub)
  then have le: "uint ?s + uint ?m \<le> uint w" "0 \<le> uint ?s"
    using m by linarith+
  then have "uint x + uint ?s < 2 ^ 16"
    using assms uint_ge_0 [of ?m] by linarith
  then have "uint (x + ?s) = uint x + uint ?s"
    by (simp add: uint_plus_if')
  with le show ?thesis
    by (simp add: word_le_def)
qed

lemma centred_inside:
  assumes "uint (rc_x full) + uint (rc_width full) < 2 ^ 16" and "uint (rc_y full) + uint (rc_height full) < 2 ^ 16"
  shows "inside (centred want_width want_height full) full"
  using centred_span [OF assms(1)] centred_span [OF assms(2)] by (simp add: inside_def centred_def Let_def)

fun layer_area :: "frame_layer \<Rightarrow> rect option" where
  "layer_area (HelpOverlay r text) = Some r"
| "layer_area (InputPrompt r text) = Some r"
| "layer_area (ColumnPicker r text) = Some r"
| "layer_area (DaemonLost r text) = Some r"
| "layer_area _ = None"

text \<open>The dialogs of a frame: help, prompt and picker exclude each other.\<close>

definition dialogs :: "ui_state \<Rightarrow> rect \<Rightarrow> frame_layer list" where
  "dialogs ui full =
     (if ui_show_help ui then [case draw_help_overlay ui full of (r, text) \<Rightarrow> HelpOverlay r text] else []) @
     (case draw_input_prompt ui full of None \<Rightarrow> [] | Some (r, text) \<Rightarrow> [InputPrompt r text]) @
     (case draw_column_picker ui full of None \<Rightarrow> [] | Some (r, text) \<Rightarrow> [ColumnPicker r text])"

lemma dialog_none:
  "draw_input_prompt ui full = None \<longleftrightarrow> ui_input_prompt ui = None"
  "draw_column_picker ui full = None \<longleftrightarrow> ui_column_picker ui = None"
  by (simp_all add: draw_input_prompt_def draw_column_picker_def)

lemma dialogs_one:
  assumes "ui_ok ui"
  shows "length (dialogs ui full) \<le> 1"
proof -
  have "ui_show_help ui \<Longrightarrow> draw_input_prompt ui full = None \<and> draw_column_picker ui full = None"
    and "draw_input_prompt ui full \<noteq> None \<Longrightarrow> draw_column_picker ui full = None"
    using assms unfolding dialog_none by (simp_all add: ui_ok_def)
  then show ?thesis
    by (auto simp: dialogs_def split: option.split)
qed

lemma dialog_areas:
  assumes "uint (rc_x full) + uint (rc_width full) < 2 ^ 16" and "uint (rc_y full) + uint (rc_height full) < 2 ^ 16"
  shows "draw_input_prompt ui full = Some (r, text) \<Longrightarrow> inside r full"
    and "draw_column_picker ui full = Some (r, text) \<Longrightarrow> inside r full"
    and "draw_help_overlay ui full = (r, text) \<Longrightarrow> inside r full"
proof -
  note inside = centred_inside [OF assms]
  show "draw_column_picker ui full = Some (r, text) \<Longrightarrow> inside r full"
    using inside by (auto simp: draw_column_picker_def)
  show "draw_help_overlay ui full = (r, text) \<Longrightarrow> inside r full"
    using inside by (auto simp: draw_help_overlay_def Let_def)
  assume prompt: "draw_input_prompt ui full = Some (r, text)"
  then obtain kind buffer where "ui_input_prompt ui = Some (kind, buffer)"
    by (force simp: draw_input_prompt_def)
  with prompt inside show "inside r full"
    by (cases kind) (auto simp: draw_input_prompt_def Let_def)
qed

lemma dialogs_inside:
  assumes "uint (rc_x full) + uint (rc_width full) < 2 ^ 16" and "uint (rc_y full) + uint (rc_height full) < 2 ^ 16"
    and "layer \<in> set (dialogs ui full)"
  shows "pred_option (\<lambda>r. inside r full) (layer_area layer)"
  using assms(3) dialog_areas(3) [OF assms(1,2), of ui]
  by (auto simp: dialogs_def dest: dialog_areas(1,2) [OF assms(1,2) sym] split: if_splits option.splits prod.splits)

text \<open>
  C40: every frame of the dashboard.  In any state keys and replies can lead to, and if the identifiers
  and the daemon's error are ASCII, a frame is painted: the title, one plot per active pane and at least
  one, the table with a row per VM and a row of totals from two VMs on, every row with one cell per
  visible column, at most one dialog, and the overlay of a lost daemon on top of everything, exactly
  when three polls in a row have failed with an error.  Dialog and overlay lie within the screen.
\<close>

theorem frame_is_complete:
  assumes "(dash_next shown select)\<^sup>*\<^sup>* (dash_init metric started now0 refresh_secs) w"
    and "list_all (\<lambda>v. ascii (vv_id v)) (sh_vms (dh_shared w))" and "pred_option ascii (daemon_error (dh_shared w))"
    and "uint (rc_x full) + uint (rc_width full) < 2 ^ 16" and "uint (rc_y full) + uint (rc_height full) < 2 ^ 16"
  shows "\<exists>title panes height table lost.
    next_frame log10 iop_size window_s now (dh_ui w) (dh_shared w) full =
      Some (TitleBar title # map Pane panes @ FleetTable height table # dialogs (dh_ui w) full @ lost) \<and>
    length panes = length (ui_active_plots (dh_ui w)) \<and> panes \<noteq> [] \<and>
    (let n = length (sh_vms (dh_shared w)) in length (ft_rows table) = (if 2 \<le> n then n + 1 else n)) \<and>
    list_all (\<lambda>row. length (tr_cells row) = length (visible_columns (dh_ui w))) (ft_rows table) \<and>
    length (dialogs (dh_ui w) full) \<le> 1 \<and>
    length lost = (if daemon_error (dh_shared w) = None then 0 else 1) \<and>
    list_all (\<lambda>layer. pred_option (\<lambda>r. inside r full) (layer_area layer)) (dialogs (dh_ui w) full @ lost)"
proof -
  let ?ui = "dh_ui w" and ?snap = "snapshot_shared (dh_shared w)"
  let ?window = "plot_window window_s (frame_time now ?ui (dh_shared w))"
  have ok: "ui_ok ?ui"
    using dash.reachable [OF dash_started_init assms(1)] by (simp add: dash_inv_def dash_ok_def)
  have snap: "rs_vms ?snap = sh_vms (dh_shared w)" "rs_daemon_error ?snap = daemon_error (dh_shared w)"
    by (simp_all add: snapshot_shared_def)
  obtain table where table: "draw_dashboard ?ui ?snap = Some table"
    "length (ft_rows table) = length (rs_vms ?snap) + (if 2 \<le> length (rs_vms ?snap) then 1 else 0)"
    "\<forall>row\<in>set (ft_rows table). length (tr_cells row) = length (ft_header table)"
    "ft_header table = map column_label (visible_columns ?ui)"
    using draw_dashboard_ascii [of ?snap ?ui] assms(2) unfolding snap list_all_iff by metis
  have "\<exists>lost. (case rs_daemon_error ?snap of
          None \<Rightarrow> Some []
        | Some err \<Rightarrow> map_option (\<lambda>(r, text). [DaemonLost r text]) (draw_daemon_lost_overlay err full)) = Some lost \<and>
      length lost = (if daemon_error (dh_shared w) = None then 0 else 1) \<and>
      list_all (\<lambda>layer. pred_option (\<lambda>r. inside r full) (layer_area layer)) lost"
  proof (cases "daemon_error (dh_shared w)")
    case (Some err)
    then obtain t where "cut_message (unat (rc_width (centred 74 8 full)) - 4) err = Some t"
      using assms(3) cut_message_ascii by force
    with Some show ?thesis
      using centred_inside [OF assms(4,5)] by (simp add: snap draw_daemon_lost_overlay_def Let_def)
  qed (simp add: snap)
  then obtain lost where lost: "(case rs_daemon_error ?snap of
          None \<Rightarrow> Some []
        | Some err \<Rightarrow> map_option (\<lambda>(r, text). [DaemonLost r text]) (draw_daemon_lost_overlay err full)) = Some lost"
    "length lost = (if daemon_error (dh_shared w) = None then 0 else 1)"
    "list_all (\<lambda>layer. pred_option (\<lambda>r. inside r full) (layer_area layer)) lost"
    by blast
  let ?panes = "map (\<lambda>k. render_line_canvas log10 ?window ?ui (draw_plot iop_size (fst ?window) ?ui ?snap k))
    (ui_active_plots ?ui)"
  have "next_frame log10 iop_size window_s now ?ui (dh_shared w) full =
      Some (TitleBar (draw_title iop_size ?ui (length (rs_vms ?snap)) (as_secs_f64 (refresh_period (dh_shared w)))) #
        map Pane ?panes @ FleetTable (dashboard_height (length (rs_vms ?snap))) table # dialogs ?ui full @ lost)"
    unfolding next_frame_def draw_frame_def table(1) lost(1) by (simp add: dialogs_def draw_plots_def comp_def)
  moreover have "list_all (\<lambda>layer. pred_option (\<lambda>r. inside r full) (layer_area layer)) (dialogs ?ui full)"
    using dialogs_inside [OF assms(4,5)] by (auto simp: list_all_iff)
  moreover have "?panes \<noteq> []"
    using ok by (simp add: ui_ok_def)
  ultimately show ?thesis
    using table(2-4) lost(2,3) dialogs_one [OF ok, of full]
    by (intro exI [of _ ?panes] exI conjI) (auto simp: snap list_all_iff Let_def)
qed

text \<open>The first frame, before any key or reply.\<close>

theorem frame_is_complete_witness:
  "let w = dash_init MetricIops 0 0 (Fin 1); full = \<lparr>rc_x = 0, rc_y = 0, rc_width = 80, rc_height = 24\<rparr>
   in (dash_next (\<lambda>_. []) [])\<^sup>*\<^sup>* w w \<and> (\<exists>layers. next_frame id 4096 120 0 (dh_ui w) (dh_shared w) full = Some layers)"
  unfolding Let_def
  using frame_is_complete [OF rtranclp.rtrancl_refl, where metric = MetricIops and started = 0 and ?now0.0 = 0
      and refresh_secs = "Fin 1" and full = "\<lparr>rc_x = 0, rc_y = 0, rc_width = 80, rc_height = 24\<rparr>"
      and ?log10.0 = id and iop_size = 4096 and window_s = 120 and now = 0]
  by (simp add: dash_init_def dash_shared_new_def daemon_error_def daemon_lost_streak_def) blast

end
