(* ===== verification/Dashboard_Loop.thy ===== *)
theory Dashboard_Loop
  imports Dashboard_Frame
begin

section \<open>The dashboard's loop (bin/iothread-tui.rs)\<close>

text \<open>
  The way from the command line to the loop, and the loop itself.  Keys are read by a blocking task
  that waits up to 100 ms; when the redraw timer is taken first, the loop begins its next turn with a
  task of its own, and the one it leaves behind still reads from the terminal until its time is over.
  Time is not modelled: the timer may be taken in any turn, as it may when the blocking task is started
  late, and always is with a refresh period below 100 ms and no key waiting.
\<close>

subsection \<open>Start\<close>

text \<open>The command line, as clap yields it; the defaults are those of the options.\<close>

record tui_cli =
  tc_select :: "string list"
  tc_refresh_secs :: f64
  tc_metric :: perf_metric
  tc_iop_size :: u64
  tc_window_s :: u64

definition tui_cli_default :: tui_cli where
  "tui_cli_default =
     \<lparr>tc_select = [], tc_refresh_secs = Fin 1, tc_metric = MetricIops, tc_iop_size = 4096, tc_window_s = 120\<rparr>"

definition dbus_bus_name :: string where
  "dbus_bus_name = ''com.nutanix.io_thread_controller1''"

definition dbus_object_path :: string where
  "dbus_object_path = ''/com/nutanix/io_thread_controller1''"

definition dbus_interface :: string where
  "dbus_interface = ''com.nutanix.io_thread_controller1''"

text \<open>\<open>connect_daemon_proxy\<close>; an error with context is shown as its context.\<close>

definition connect_daemon_proxy :: "string + unit \<Rightarrow> string + unit \<Rightarrow> string + string \<Rightarrow> string + unit" where
  "connect_daemon_proxy system attach probe =
     result_bind (result_map_err (\<lambda>_. ''connect to system D-Bus'') system) (\<lambda>_.
     result_bind (result_map_err (\<lambda>_. ''attach to '' @ dbus_interface @ '' on '' @ dbus_object_path) attach) (\<lambda>_.
     case probe of
       Inr _ \<Rightarrow> Inr ()
     | Inl msg \<Rightarrow>
         if contains_str ''UnknownMethod'' msg \<or> contains_str ''Unknown method'' msg
         then Inl (''the io-thread-controller daemon on this host does not implement '' @
           ''GetSnapshot -- please redeploy the daemon (io-thread-controller '' @
           ''binary + restart the systemd unit); the TUI expects the July '' @
           ''2026 D-Bus surface.  Original error: '' @ msg)
         else Inl (''initial GetSnapshot failed ('' @ msg @ ''); is the daemon running?'')))"

definition tui_start :: "tui_cli \<Rightarrow> instant \<Rightarrow> u64 \<Rightarrow> string + unit \<Rightarrow> string + dash_world" where
  "tui_start cli now epoch proxy =
     (case proxy of
        Inl e \<Rightarrow> Inl (''iothread-tui requires an io-thread-controller daemon on the system bus ('' @
          dbus_interface @ '', '' @ dbus_object_path @ ''): '' @ e)
      | Inr _ \<Rightarrow> Inr (dash_init (tc_metric cli) epoch now (tc_refresh_secs cli)))"

subsection \<open>The terminal and its events\<close>

record terminal =
  tm_raw :: bool
  tm_alternate :: bool
  tm_cursor :: bool

definition terminal_plain :: terminal where
  "terminal_plain = \<lparr>tm_raw = False, tm_alternate = False, tm_cursor = True\<rparr>"

text \<open>Before the loop and after it; drawing a frame hides the cursor.\<close>

definition enter_ui :: "terminal \<Rightarrow> terminal" where
  "enter_ui t = t\<lparr>tm_raw := True, tm_alternate := True\<rparr>"

definition leave_ui :: "terminal \<Rightarrow> terminal" where
  "leave_ui t = t\<lparr>tm_raw := False, tm_alternate := False, tm_cursor := True\<rparr>"

datatype term_event = KeyPress bool key | OtherEvent

text \<open>\<open>read_key_event\<close> for one event.\<close>

definition read_key_event :: "term_event \<Rightarrow> key option" where
  "read_key_event e = (case e of KeyPress ctrl k \<Rightarrow> Some (pressed_key ctrl k) | OtherEvent \<Rightarrow> None)"

subsection \<open>run_ui\<close>

datatype ui_end = UiQuit | UiError string | UiPanic

text \<open>
  \<open>lw_input\<close> are the events that wait in the terminal, \<open>lw_left\<close> is the number of
  reading tasks left behind.  The last four fields record what the operator typed, which events the
  loop handled or a task left behind took, and how many turns left a task behind.
\<close>

record loop_world =
  lw_dash :: dash_world
  lw_terminal :: terminal
  lw_screen :: "frame_layer list"
  lw_end :: "ui_end option"
  lw_input :: "term_event list"
  lw_left :: nat
  lw_typed :: "term_event list"
  lw_handled :: "term_event list"
  lw_lost :: "term_event list"
  lw_abandoned :: nat

definition loop_init :: "dash_world \<Rightarrow> loop_world" where
  "loop_init d =
     \<lparr>lw_dash = d, lw_terminal = enter_ui terminal_plain, lw_screen = [], lw_end = None, lw_input = [],
      lw_left = 0, lw_typed = [], lw_handled = [], lw_lost = [], lw_abandoned = 0\<rparr>"

definition running :: "loop_world \<Rightarrow> bool" where
  "running w \<longleftrightarrow> lw_end w = None \<and> \<not> dh_quit (lw_dash w)"

definition handle_event :: "(f64 \<Rightarrow> string) \<Rightarrow> instant \<Rightarrow> key option \<Rightarrow> dash_world \<Rightarrow> dash_world" where
  "handle_event shown now key d =
     (case key of
        None \<Rightarrow> d
      | Some k \<Rightarrow>
          (case handle_key shown now k (dh_ui d) (dh_shared d) of
             (quit, ui, sh, requests) \<Rightarrow>
               d\<lparr>dh_ui := ui, dh_shared := sh, dh_sent := dh_sent d @ requests, dh_quit := quit\<rparr>))"

text \<open>
  The rest of a turn: the loop is left when the key said so, and the next frame is drawn otherwise;
  \<open>frame\<close> computes it, or panics.
\<close>

definition finish_turn ::
  "(instant \<Rightarrow> ui_state \<Rightarrow> dash_shared \<Rightarrow> frame_layer list option) \<Rightarrow> instant \<Rightarrow> loop_world \<Rightarrow> loop_world" where
  "finish_turn frame now w =
     (if dh_quit (lw_dash w)
      then w\<lparr>lw_terminal := leave_ui (lw_terminal w), lw_end := Some UiQuit\<rparr>
      else case frame now (dh_ui (lw_dash w)) (dh_shared (lw_dash w)) of
             None \<Rightarrow> w\<lparr>lw_end := Some UiPanic\<rparr>
           | Some layers \<Rightarrow>
               w\<lparr>lw_screen := layers, lw_terminal := (lw_terminal w)\<lparr>tm_cursor := False\<rparr>\<rparr>)"

text \<open>A turn of the sampler, which runs beside the loop.\<close>

inductive sampler_next :: "string list \<Rightarrow> dash_world \<Rightarrow> dash_world \<Rightarrow> bool"
  for select
where
  turn_begins: "dh_polling d = None \<Longrightarrow> \<not> sh_paused (dh_shared d) \<Longrightarrow>
    sampler_next select d (d\<lparr>dh_polling := Some now\<rparr>)"
| turn_ends: "dh_polling d = Some now \<Longrightarrow>
    sampler_reply select now reply (dh_shared d, dh_streak d) = (sh, streak) \<Longrightarrow>
    sampler_next select d (d\<lparr>dh_shared := sh, dh_streak := streak, dh_polling := None\<rparr>)"

inductive_cases sampler_nextE [elim!]: "sampler_next select d d'"

text \<open>
  \<open>select!\<close> takes what is ready: an event that was read, the end of a read that found none, or
  the redraw timer, which leaves the read of this turn behind.
\<close>

inductive loop_next ::
  "(f64 \<Rightarrow> string) \<Rightarrow> string list \<Rightarrow> (instant \<Rightarrow> ui_state \<Rightarrow> dash_shared \<Rightarrow> frame_layer list option) \<Rightarrow>
   loop_world \<Rightarrow> loop_world \<Rightarrow> bool"
  for shown select frame
where
  typed: "running w \<Longrightarrow>
    loop_next shown select frame w (w\<lparr>lw_input := lw_input w @ [e], lw_typed := lw_typed w @ [e]\<rparr>)"
| sampler_moves: "running w \<Longrightarrow> sampler_next select (lw_dash w) d \<Longrightarrow>
    loop_next shown select frame w (w\<lparr>lw_dash := d\<rparr>)"
| event_read: "running w \<Longrightarrow> lw_input w = e # rest \<Longrightarrow>
    loop_next shown select frame w (finish_turn frame now
      (w\<lparr>lw_input := rest, lw_handled := lw_handled w @ [e],
         lw_dash := handle_event shown now (read_key_event e) (lw_dash w)\<rparr>))"
| read_elapsed: "running w \<Longrightarrow> lw_input w = [] \<Longrightarrow>
    loop_next shown select frame w (finish_turn frame now w)"
| redraw_due: "running w \<Longrightarrow>
    loop_next shown select frame w (finish_turn frame now
      (w\<lparr>lw_left := lw_left w + 1, lw_abandoned := lw_abandoned w + 1\<rparr>))"
| left_reads: "running w \<Longrightarrow> 0 < lw_left w \<Longrightarrow> lw_input w = e # rest \<Longrightarrow>
    loop_next shown select frame w
      (w\<lparr>lw_left := lw_left w - 1, lw_input := rest, lw_lost := lw_lost w @ [e]\<rparr>)"
| left_ends: "running w \<Longrightarrow> 0 < lw_left w \<Longrightarrow>
    loop_next shown select frame w (w\<lparr>lw_left := lw_left w - 1\<rparr>)"
| io_fault: "running w \<Longrightarrow>
    loop_next shown select frame w (w\<lparr>lw_end := Some (UiError msg)\<rparr>)"

inductive_cases loop_nextE [elim!]: "loop_next shown select frame w w'"

lemma finish_turn_frame [simp]:
  "lw_dash (finish_turn frame now w) = lw_dash w" "lw_input (finish_turn frame now w) = lw_input w"
  "lw_left (finish_turn frame now w) = lw_left w" "lw_typed (finish_turn frame now w) = lw_typed w"
  "lw_handled (finish_turn frame now w) = lw_handled w" "lw_lost (finish_turn frame now w) = lw_lost w"
  "lw_abandoned (finish_turn frame now w) = lw_abandoned w"
  by (simp_all add: finish_turn_def split: option.split)

subsection \<open>The loop only does what the dashboard may do\<close>

lemma handle_event_is_key:
  assumes "\<not> dh_quit d"
  shows "(dash_next shown select)\<^sup>*\<^sup>* d (handle_event shown now (read_key_event e) d)"
proof (cases e)
  case (KeyPress ctrl k)
  obtain quit ui sh requests where
    r: "handle_key shown now (pressed_key ctrl k) (dh_ui d) (dh_shared d) = (quit, ui, sh, requests)"
    by (metis prod_cases4)
  show ?thesis
    using dash_next.key_pressed [OF assms r, of select]
    by (simp add: KeyPress read_key_event_def handle_event_def r r_into_rtranclp)
qed (simp add: read_key_event_def handle_event_def)

lemma sampler_is_dash:
  assumes "sampler_next select d d'" and "\<not> dh_quit d"
  shows "(dash_next shown select)\<^sup>*\<^sup>* d d'"
proof (rule r_into_rtranclp, use assms(1) in cases)
  case (turn_begins now)
  show "dash_next shown select d d'"
    unfolding turn_begins(1) by (rule dash_next.poll_begins [OF assms(2) turn_begins(2,3)])
next
  case (turn_ends now reply sh streak)
  show "dash_next shown select d d'"
    unfolding turn_ends(1) by (rule dash_next.sampled [OF assms(2) turn_ends(2,3)])
qed

interpretation ui_loop: part_of_whole "loop_next shown select frame" "dash_next shown select" lw_dash
  for shown select frame
  by unfold_locales (erule loop_next.cases; simp add: running_def handle_event_is_key sampler_is_dash)

text \<open>What keys and replies keep, the running program keeps.\<close>

lemma loop_keeps_dashboard:
  assumes "(loop_next shown select frame)\<^sup>*\<^sup>* (loop_init (dash_init metric started now refresh_secs)) w"
  shows "dash_inv (lw_dash w)"
  using ui_loop.part_run [OF assms] dash.reachable [OF dash_started_init] by (simp add: loop_init_def)

subsection \<open>Keys\<close>

text \<open>
  The dashboard without the loop: it is given events, one after the other, and each key among them
  does what \<open>handle_key\<close> does with it; the sampler's turns come at any time in between.
\<close>

inductive plays ::
  "(f64 \<Rightarrow> string) \<Rightarrow> string list \<Rightarrow> term_event list \<Rightarrow> dash_world \<Rightarrow> dash_world \<Rightarrow> bool"
  for shown select
where
  plays_none: "plays shown select [] d d"
| plays_key: "plays shown select es d d' \<Longrightarrow> \<not> dh_quit d' \<Longrightarrow>
    handle_key shown now (pressed_key ctrl k) (dh_ui d') (dh_shared d') = (quit, ui, sh, requests) \<Longrightarrow>
    plays shown select (es @ [KeyPress ctrl k]) d
      (d'\<lparr>dh_ui := ui, dh_shared := sh, dh_sent := dh_sent d' @ requests, dh_quit := quit\<rparr>)"
| plays_other: "plays shown select es d d' \<Longrightarrow> \<not> dh_quit d' \<Longrightarrow>
    plays shown select (es @ [OtherEvent]) d d'"
| plays_sampler: "plays shown select es d d' \<Longrightarrow> \<not> dh_quit d' \<Longrightarrow> sampler_next select d' d'' \<Longrightarrow>
    plays shown select es d d''"

lemma plays_event:
  assumes "plays shown select es d d'" and "\<not> dh_quit d'"
  shows "plays shown select (es @ [e]) d (handle_event shown now (read_key_event e) d')"
proof (cases e)
  case (KeyPress ctrl k)
  obtain quit ui sh requests where
    "handle_key shown now (pressed_key ctrl k) (dh_ui d') (dh_shared d') = (quit, ui, sh, requests)"
    by (metis prod_cases4)
  with plays_key [OF assms this] KeyPress show ?thesis
    by (simp add: read_key_event_def handle_event_def)
next
  case OtherEvent
  with plays_other [OF assms] show ?thesis
    by (simp add: read_key_event_def handle_event_def)
qed

lemma shuffles_last: "ys @ [e] \<in> shuffles [e] ys"
  by (induction ys) auto

lemma shuffles_snoc:
  assumes "zs \<in> shuffles xs ys"
  shows "zs @ [e] \<in> shuffles (xs @ [e]) ys" and "zs @ [e] \<in> shuffles xs (ys @ [e])"
proof -
  have "zs @ [e] \<in> shuffles (xs @ [e]) ys" if "zs \<in> shuffles xs ys" for xs ys zs :: "'a list"
    using that by (induction xs ys arbitrary: zs rule: shuffles.induct) (auto simp: shuffles_last)
  then show "zs @ [e] \<in> shuffles (xs @ [e]) ys" and "zs @ [e] \<in> shuffles xs (ys @ [e])"
    using assms by (simp_all add: shuffles_commutes [of xs])
qed

text \<open>
  Every event was handled, was lost or still waits, in the order in which they were typed; and only a
  task that a turn left behind loses one.
\<close>

definition keys_kept :: "(f64 \<Rightarrow> string) \<Rightarrow> string list \<Rightarrow> dash_world \<Rightarrow> loop_world \<Rightarrow> bool" where
  "keys_kept shown select d w \<longleftrightarrow>
     (\<exists>taken\<in>shuffles (lw_handled w) (lw_lost w). lw_typed w = taken @ lw_input w) \<and>
     length (lw_lost w) + lw_left w \<le> lw_abandoned w \<and>
     plays shown select (lw_handled w) d (lw_dash w) \<and>
     (dh_quit (lw_dash w) \<longleftrightarrow> lw_end w = Some UiQuit)"

lemma loop_keeps_keys:
  assumes "loop_next shown select frame w w'" and "keys_kept shown select d w"
  shows "keys_kept shown select d w'"
proof -
  from assms(2) obtain taken where taken: "taken \<in> shuffles (lw_handled w) (lw_lost w)" "lw_typed w = taken @ lw_input w"
    and plays: "plays shown select (lw_handled w) d (lw_dash w)"
    and count: "length (lw_lost w) + lw_left w \<le> lw_abandoned w"
    by (auto simp: keys_kept_def)
  have "(\<exists>taken\<in>shuffles (lw_handled w') (lw_lost w'). lw_typed w' = taken @ lw_input w')"
    using assms(1)
  proof cases
    case (event_read e rest now)
    with taken show ?thesis
      by (intro bexI [where x = "taken @ [e]"]) (simp_all add: shuffles_snoc(1))
  next
    case (left_reads e rest)
    with taken show ?thesis
      by (intro bexI [where x = "taken @ [e]"]) (simp_all add: shuffles_snoc(2))
  qed (use taken in auto)
  moreover have "plays shown select (lw_handled w') d (lw_dash w')"
    using assms(1)
  proof cases
    case (sampler_moves d')
    with plays_sampler [OF plays] show ?thesis
      by (simp add: running_def)
  next
    case (event_read e rest now)
    with plays_event [OF plays] show ?thesis
      by (simp add: running_def)
  qed (use plays in simp_all)
  moreover have "length (lw_lost w') + lw_left w' \<le> lw_abandoned w'"
    using assms(1) by cases (use count in auto)
  moreover have "dh_quit (lw_dash w') \<longleftrightarrow> lw_end w' = Some UiQuit"
    using assms(1) by cases (auto simp: running_def finish_turn_def split: option.split)
  ultimately show ?thesis
    by (simp add: keys_kept_def)
qed

subsection \<open>The terminal afterwards\<close>

definition terminal_ok :: "loop_world \<Rightarrow> bool" where
  "terminal_ok w \<longleftrightarrow>
     (if lw_end w = Some UiQuit then lw_terminal w = terminal_plain
      else tm_raw (lw_terminal w) \<and> tm_alternate (lw_terminal w))"

interpretation screen: kept_invariant "loop_next shown select frame" terminal_ok
  for shown select frame
  by unfold_locales
    (auto simp: terminal_ok_def running_def finish_turn_def leave_ui_def terminal_plain_def split: option.splits if_splits)

interpretation keys: started_invariant "loop_next shown select frame" "keys_kept shown select d"
    "\<lambda>w. w = loop_init d \<and> \<not> dh_quit d"
  for shown select frame d
  by unfold_locales (erule (1) loop_keeps_keys, auto simp: keys_kept_def loop_init_def intro: plays_none)

text \<open>Only a dashboard that was told to quit hands the terminal back; after an error, which the
  loop passes on at once, it stays in raw mode on the alternate screen.\<close>

lemma terminal_after:
  assumes "(loop_next shown select frame)\<^sup>*\<^sup>* (loop_init d) w"
  shows "lw_terminal w = terminal_plain \<longleftrightarrow> lw_end w = Some UiQuit"
  using screen.run [OF assms]
  by (auto simp: terminal_ok_def loop_init_def enter_ui_def terminal_plain_def split: if_splits)

text \<open>
  C36: the running program is the dashboard played the handled keys.  In every state of the loop the
  events typed so far are, in their order, those that were handled and those that were lost, followed by
  those that still wait; the dashboard is in a state to which exactly the handled keys, one after the
  other and each with the effect of \<open>handle_key\<close>, bring it from the start, with turns of the
  sampler in between; an event is lost only to the reading task of a turn that the redraw timer ended,
  at most one for each such turn, so that none is lost and the keys reach the dashboard in the order
  they were typed when the timer ended none; and the loop is left and the terminal handed back exactly
  when a handled key told the dashboard to quit.
\<close>

theorem keys_in_order:
  assumes "(loop_next shown select frame)\<^sup>*\<^sup>* (loop_init (dash_init metric started now refresh_secs)) w"
  shows "(\<exists>taken\<in>shuffles (lw_handled w) (lw_lost w). lw_typed w = taken @ lw_input w) \<and>
    plays shown select (lw_handled w) (dash_init metric started now refresh_secs) (lw_dash w) \<and>
    length (lw_lost w) \<le> lw_abandoned w \<and>
    (lw_abandoned w = 0 \<longrightarrow> lw_typed w = lw_handled w @ lw_input w) \<and>
    (dh_quit (lw_dash w) \<longleftrightarrow> lw_end w = Some UiQuit) \<and>
    (lw_terminal w = terminal_plain \<longleftrightarrow> lw_end w = Some UiQuit)"
proof -
  have "\<not> dh_quit (dash_init metric started now refresh_secs)"
    by (simp add: dash_init_def)
  from keys.reachable [OF conjI [OF refl this] assms] terminal_after [OF assms] show ?thesis
    by (auto simp: keys_kept_def)
qed

text \<open>A key that is lost: the redraw timer ends a turn, and the task it leaves behind takes \<open>q\<close>.\<close>

definition blank_frame :: "instant \<Rightarrow> ui_state \<Rightarrow> dash_shared \<Rightarrow> frame_layer list option" where
  "blank_frame = (\<lambda>_ _ _. Some [])"

lemma key_lost:
  assumes go: "\<not> dh_quit d"
  shows "\<exists>w. (loop_next shown select blank_frame)\<^sup>*\<^sup>* (loop_init d) w \<and> running w \<and>
     lw_typed w = [KeyPress False (KChar CHR ''q'')] \<and> lw_handled w = [] \<and> lw_input w = []"
proof -
  let ?q = "KeyPress False (KChar CHR ''q'')"
  define a where "a = finish_turn blank_frame 0 ((loop_init d)\<lparr>lw_left := 1, lw_abandoned := 1\<rparr>)"
  define b where "b = a\<lparr>lw_input := [?q], lw_typed := [?q]\<rparr>"
  define c where "c = b\<lparr>lw_left := 0, lw_input := [], lw_lost := [?q]\<rparr>"
  note defs = a_def b_def c_def finish_turn_def loop_init_def running_def blank_frame_def go
  have 1: "loop_next shown select blank_frame (loop_init d) a"
    using redraw_due [of "loop_init d" shown select blank_frame 0] by (simp add: defs)
  have 2: "loop_next shown select blank_frame a b"
    using typed [of a shown select blank_frame ?q] by (simp add: defs)
  have 3: "loop_next shown select blank_frame b c"
    using left_reads [of b ?q "[]" shown select blank_frame] by (simp add: defs)
  from 1 2 3 have "(loop_next shown select blank_frame)\<^sup>*\<^sup>* (loop_init d) c"
    by (meson converse_rtranclp_into_rtranclp rtranclp.rtrancl_refl)
  moreover have "running c" "lw_typed c = [?q]" "lw_handled c = []" "lw_input c = []"
    by (simp_all add: defs)
  ultimately show ?thesis
    by blast
qed

subsection \<open>A concrete run\<close>

text \<open>\<open>h\<close> opens the help, in a turn that the timer does not end.\<close>

lemma keys_in_order_witness:
  "\<exists>w. (loop_next (\<lambda>_. []) [] blank_frame)\<^sup>*\<^sup>* (loop_init (dash_init MetricIops 0 0 (Fin 1))) w \<and>
     ui_show_help (dh_ui (lw_dash w)) \<and> lw_typed w = lw_handled w @ lw_input w \<and>
     lw_handled w = [KeyPress False (KChar CHR ''h'')] \<and>
     plays (\<lambda>_. []) [] (lw_handled w) (dash_init MetricIops 0 0 (Fin 1)) (lw_dash w)"
proof -
  let ?d = "dash_init MetricIops 0 0 (Fin 1)" and ?h = "KeyPress False (KChar CHR ''h'')"
  define a where "a = (loop_init ?d)\<lparr>lw_input := [?h], lw_typed := [?h]\<rparr>"
  define b where "b = finish_turn blank_frame 0 (a\<lparr>lw_input := [], lw_handled := [?h],
    lw_dash := handle_event (\<lambda>_. []) 0 (read_key_event ?h) (lw_dash a)\<rparr>)"
  have go: "running (loop_init ?d)" "running a"
    by (simp_all add: a_def running_def loop_init_def dash_init_def)
  have "loop_next (\<lambda>_. []) [] blank_frame (loop_init ?d) a"
    using typed [OF go(1), of "\<lambda>_. []" "[]" blank_frame ?h] by (simp add: a_def loop_init_def)
  moreover have "loop_next (\<lambda>_. []) [] blank_frame a b"
    using event_read [OF go(2), of ?h "[]" "\<lambda>_. []" "[]" blank_frame 0] by (simp add: a_def b_def loop_init_def)
  ultimately have run: "(loop_next (\<lambda>_. []) [] blank_frame)\<^sup>*\<^sup>* (loop_init ?d) b"
    by (meson converse_rtranclp_into_rtranclp rtranclp.rtrancl_refl)
  have b: "lw_abandoned b = 0" "lw_handled b = [?h]"
    by (simp_all add: b_def a_def loop_init_def)
  have "ui_show_help (dh_ui (handle_event (\<lambda>_. []) 0 (read_key_event ?h) ?d))"
    by code_simp
  then have "ui_show_help (dh_ui (lw_dash b))"
    by (simp add: b_def a_def loop_init_def)
  with keys_in_order [OF run] b run show ?thesis
    by blast
qed

end
