(* ===== verification/Spec2Isabelle.thy ===== *)
theory Spec2Isabelle
  imports Startup Wire Threshold_Tests Dashboard_Tests Util_Paths Qemu_Fleet Dashboard_Loop
begin

text \<open>
  A verification development for io-thread-controller, the daemon that sizes the I/O thread pools
  of the virtual machines of a host.

  \<^bold>\<open>The program.\<close>  Once per poll period the daemon refreshes every VM through its backend's
  client, lets a scaling engine decide for each VM whether its pool should grow, shrink or go back,
  applies the decisions behind safety checks of its own, and reconciles its inventory with what the
  backends discover.  Operators reach it over D-Bus.  Which VMs may be scaled is decided once per VM
  and kept in a file.

  \<^bold>\<open>The theories.\<close>
  \<^item> \<open>Prelude\<close>: words of fixed width with saturating and checked operations, clocks and
    durations, results as sums, hash maps as association lists with the contract of a map;
    \<open>Runs\<close>: the contracts that carry a property of single steps to every run.
  \<^item> \<open>F64\<close>: IEEE double precision with rounding to nearest, as far as the program computes
    with it, and \<open>F64_Eval\<close>, code equations that evaluate it by integer arithmetic;
    \<open>Texts\<close>: the string operations of the standard library.
  \<^item> \<open>Paths\<close> and \<open>Util_Paths\<close> (util.rs, std::path, std::fs): paths as components and as
    texts; \<open>Ownership\<close> (state.rs): the registry of managed and unmanaged VMs and its atomic file.
  \<^item> \<open>Configs\<close> (config.rs): defaults, durations as numbers of polls, validation, includes.
  \<^item> \<open>Json\<close>: values and what serde derives; \<open>Documents\<close>: the files the program reads and
    writes with it (the registry, the configuration, the settings of the engine and of the backend);
    \<open>Wire\<close>: what goes over the bus and what QEMU answers.
  \<^item> \<open>Clients\<close> (backends/mod.rs, the trait in instance.rs): the interface to a backend and the
    blanket implementation for boxes.
  \<^item> \<open>Rolling\<close> (rolling.rs) and \<open>Instances\<close> (instance.rs): the 15 minute history and the
    refresh of one VM.
  \<^item> \<open>Engines\<close> (engines/mod.rs), \<open>Threshold\<close> and \<open>Engine_Logs\<close>
    (engines/threshold.rs): the engine interface, the engine that ships with the daemon and what it tells
    the operators.
  \<^item> \<open>Controller\<close> (controller.rs): inventory, tick, actuation, status lines, D-Bus requests;
    \<open>Controller_Safety\<close>: what holds of all this together.
  \<^item> \<open>Discovery\<close> (backends/mod.rs): the registry of backends and the walk over control
    sockets; \<open>Per_VM_Logs\<close> (per\_vm\_log.rs): one log file per VM.
  \<^item> \<open>Daemon\<close> (daemon.rs, dbus.rs): the event loop among its callers as a step relation;
    \<open>Startup\<close> (main.rs): from the command line to the loop; \<open>Service_Logs\<close>: the records of
    the start, the legends of the status lines and the filters of the log.
  \<^item> \<open>Client_Fleet\<close>: what a backend promises of one client holds of the daemon's whole fleet.
  \<^item> \<open>Qemu_Helpers\<close> (backends/qemu/helpers.rs), \<open>Libvirt\<close> (libvirt.rs),
    \<open>Qemu_Client\<close> (client.rs) and \<open>Qemu_Backend\<close> (mod.rs): the backend for QEMU, whose
    clients resize a pool by QMP commands through libvirt; \<open>Qemu_Fleet\<close>: the daemon over it.
  \<^item> The terminal dashboard (bin/iothread-tui.rs), a client of the daemon on the bus:
    \<open>Dashboard\<close> holds its roster of VMs, the reconciliation with a reply and the sampler,
    \<open>Dashboard_Keys\<close> the state of the interface and every key, \<open>Dashboard_View\<close> the
    texts and plots, \<open>Dashboard_Axes\<close> the labels of the axes, \<open>Dashboard_Frame\<close> the
    table, the dialogs and the frame, \<open>Dashboard_Loop\<close> the loop with the tasks that read keys, and
    \<open>Dashboard_Fleet\<close> the dashboard and the controller together.
  \<^item> \<open>Fleet_System\<close>: daemon, other callers and a dashboard as one step relation, in which a
    poll is not atomic.
  \<^item> \<open>Config_Tests\<close>, \<open>Unit_Tests\<close>, \<open>Controller_Tests\<close>,
    \<open>Threshold_Tests\<close> and \<open>Dashboard_Tests\<close>: the unit tests of the repository as truth
    values over the model, which the simplifier evaluates.  They are there to compare the model with the code.

  \<^bold>\<open>How state corresponds.\<close>  A Rust struct is a record with a prefix for its fields, an enum a
  datatype, \<open>u32\<close> and \<open>u64\<close> are words, \<open>f64\<close> is the type of that name, a
  \<open>HashMap\<close> an association list without duplicate keys (its order is the order of
  iteration, on which no property depends), \<open>Result\<close> is a sum with the error on the left.
  Locks and \<open>await\<close> leave no trace inside the controller: the event loop runs one branch at a time, so
  every operation is a function from state to state.  Between the daemon, its callers and the dashboard
  the steps interleave freely.  What an operation reads of the clock, of \<open>/proc\<close> or of the file
  system comes in as an argument; so do the calls to code outside the repository.

  \<^bold>\<open>What is relied on.\<close>  Of the text codec of JSON, that it reads no value but the one it wrote,
  fractions apart (\<open>reads_what_it_wrote\<close>), or that it reads the registry back
  (\<open>registry_file_roundtrip\<close>); of QEMU, what QMP documents of its commands (\<open>host_contract\<close>):
  one that returns was carried out, one that is answered with an error changed nothing; and that the
  metrics list only IOThreads that exist (\<open>metrics_true\<close>).  Both speak of hosts that are
  \<open>calm\<close>: every command sent to the VM so far was answered, and nobody but its client changed its
  IOThreads.  Of a VM with a command whose answer was lost, or which someone else changed, nothing is
  assumed and nothing is claimed of its IOThreads.  Nothing is assumed of regular
  expressions, the median of the statistics crate, libvirt, the file system or the order of events.

  \<^bold>\<open>What is shown.\<close>  The lemmas of \<open>Threshold\<close> follow one VM through runs of
  evaluations: when a verdict is possible, how long a failed scale-up is held back, when an action is
  validated and how; \<open>Engine_Logs\<close> shows that the rate the engine announces decides.  The lemmas of
  \<open>Controller\<close> follow a plan through the guards and the cap; \<open>Controller_Safety\<close> combines
  both: why the size of a pool may change at all.

  \<open>Daemon\<close> carries both through every interleaving of polls, path events and requests, and
  across restarts; and it shows that the callers see a loop that carries out their requests one after
  the other, in the order of acceptance (\<open>carry_out\<close>).  \<open>Qemu_Client\<close> relates a client to its host: on a host that carries out QMP
  commands as documented, the list of IOThreads the client keeps and the objects of the host move
  together, whatever command is refused, for as long as every command is answered;
  \<open>Qemu_Fleet\<close> takes this up to the daemon and its requests.

  \<open>Dashboard\<close> says which VMs are listed, in terms of the last replies, and what an outage
  does; \<open>Dashboard_Keys\<close> gives the invariant of everything keys and replies can lead to, as a
  step relation, and when a key resizes a pool; \<open>Dashboard_View\<close> and \<open>Dashboard_Frame\<close>
  show which lines focus leaves and what every frame consists of; \<open>Dashboard_Axes\<close> that the loops
  over floating-point numbers end and place the labels right; \<open>Dashboard_Loop\<close> which keys reach the
  interface, in which order, and that the running program does with them what the keys' operations do; \<open>Dashboard_Fleet\<close> follows one resize from the key through the controller to the next
  poll; \<open>Fleet_System\<close> and \<open>Wire\<close> show that what the dashboard lists was so.

  \<^bold>\<open>Contracts.\<close>  \<open>rolling_push\<close> is interpreted for the three ways to feed the history,
  \<open>isolated_engine\<close> for the threshold engine, \<open>map_contract\<close> and \<open>erasable_map\<close> for the
  hash maps and the ordered maps, \<open>client_contract\<close> and \<open>exact_client\<close> for the QEMU client,
  and those of \<open>Runs\<close> for the daemon, its registry and its requests, the dashboard, its loop and its
  screen, and the whole system.

  \<^bold>\<open>Bounds.\<close>  \<open>load_config_value\<close> takes fuel, one unit per nested include; with an
  include cycle the program recurses without end and the model reports the fuel as spent.  The loops of
  \<open>Dashboard_Axes\<close> are partial functions, shown to end for windows of up to 2^37 seconds and for
  axes of up to 2^40 intervals.  Everything else terminates by structural
  recursion or a measure.

  \<^bold>\<open>Not modelled.\<close>  Of the dashboard, the calls to the drawing library with their styles and
  \<open>connect_daemon_proxy\<close>, which only opens the bus.  Of the daemon, the installation of the logging
  framework, the registration of the D-Bus object, and the records the controller logs about its
  actions.  How JSON texts are parsed and printed, how a float prints with all its digits, logarithms,
  powers and square roots are arguments.
\<close>

end
